(* ===== verification/Prelude.thy ===== *)
theory Prelude
  imports Main
begin

text \<open>
  Shared vocabulary of the development: results of fallible code (a sum, the error on the left),
  insertion-ordered dictionaries, the list operations of the Python standard library that several
  components use (stable sort, \<open>min\<close> with a key, exact ceiling division), and the interface
  \<open>step_machine\<close> of a component whose state changes one event at a time.
\<close>

named_theorems result_simps \<open>unfolding of the result combinators\<close>
named_theorems dict_simps \<open>facts on insertion-ordered dictionaries\<close>

section \<open>Results\<close>

type_synonym ('e, 'a) result = "'e + 'a"

definition bindR :: "('e, 'a) result \<Rightarrow> ('a \<Rightarrow> ('e, 'b) result) \<Rightarrow> ('e, 'b) result" where
  "bindR m f = (case m of Inl e \<Rightarrow> Inl e | Inr x \<Rightarrow> f x)"

definition ensure :: "bool \<Rightarrow> 'e \<Rightarrow> ('e, unit) result" where
  "ensure b e = (if b then Inr () else Inl e)"

fun mapR :: "('a \<Rightarrow> ('e, 'b) result) \<Rightarrow> 'a list \<Rightarrow> ('e, 'b list) result" where
  "mapR f [] = Inr []"
| "mapR f (x # xs) = bindR (f x) (\<lambda>y. bindR (mapR f xs) (\<lambda>ys. Inr (y # ys)))"

fun foldR :: "('s \<Rightarrow> 'a \<Rightarrow> ('e, 's) result) \<Rightarrow> 's \<Rightarrow> 'a list \<Rightarrow> ('e, 's) result" where
  "foldR f s [] = Inr s"
| "foldR f s (x # xs) = bindR (f s x) (\<lambda>s'. foldR f s' xs)"

lemma bindR_Inl [simp]: "bindR (Inl e) f = Inl e"
  by (simp add: bindR_def)

lemma bindR_Inr [simp]: "bindR (Inr x) f = f x"
  by (simp add: bindR_def)

lemma bindR_eq_Inr [simp]: "bindR m f = Inr y \<longleftrightarrow> (\<exists>x. m = Inr x \<and> f x = Inr y)"
  by (cases m) auto

lemma bindR_eq_Inl: "bindR m f = Inl e \<longleftrightarrow> m = Inl e \<or> (\<exists>x. m = Inr x \<and> f x = Inl e)"
  by (cases m) auto

lemma bindR_assoc [result_simps]: "bindR (bindR m f) g = bindR m (\<lambda>x. bindR (f x) g)"
  by (cases m) auto

lemma ensure_eq_Inr [simp]: "ensure b e = Inr u \<longleftrightarrow> b"
  by (auto simp: ensure_def)

lemma ensure_eq_Inl [simp]: "ensure b e = Inl e' \<longleftrightarrow> \<not> b \<and> e' = e"
  by (auto simp: ensure_def)

lemma ensure_True [simp]: "ensure True e = Inr ()"
  by (simp add: ensure_def)

lemma ensure_False [simp]: "ensure False e = Inl e"
  by (simp add: ensure_def)

lemma mapR_Inr_iff: "mapR f xs = Inr ys \<longleftrightarrow> list_all2 (\<lambda>x y. f x = Inr y) xs ys"
  by (induction xs arbitrary: ys) (auto simp: list_all2_Cons1)

lemma mapR_length: "mapR f xs = Inr ys \<Longrightarrow> length ys = length xs"
  by (auto simp: mapR_Inr_iff dest: list_all2_lengthD)

lemma mapR_member: "mapR f xs = Inr ys \<Longrightarrow> y \<in> set ys \<Longrightarrow> \<exists>x \<in> set xs. f x = Inr y"
  by (induction xs arbitrary: ys) auto

lemma mapR_map: "(\<And>x. x \<in> set xs \<Longrightarrow> f x = Inr (g x)) \<Longrightarrow> mapR f xs = Inr (map g xs)"
  by (induction xs) auto

lemma foldR_append:
  "foldR f s (xs @ ys) = bindR (foldR f s xs) (\<lambda>s'. foldR f s' ys)"
  by (induction xs arbitrary: s) (simp_all add: bindR_assoc)

lemma foldR_inv:
  assumes "\<And>s x s'. P s \<Longrightarrow> x \<in> set xs \<Longrightarrow> f s x = Inr s' \<Longrightarrow> P s'" "P s" "foldR f s xs = Inr t"
  shows "P t"
  using assms
proof (induction xs arbitrary: s)
  case Nil
  then show ?case by simp
next
  case (Cons x xs)
  from Cons.prems(3) obtain u where u: "f s x = Inr u" "foldR f u xs = Inr t"
    by auto
  have "P u"
    by (rule Cons.prems(1) [OF Cons.prems(2) _ u(1)]) simp
  moreover have "\<And>s x s'. P s \<Longrightarrow> x \<in> set xs \<Longrightarrow> f s x = Inr s' \<Longrightarrow> P s'"
    by (rule Cons.prems(1)) simp_all
  ultimately show ?case
    using Cons.IH [of u] u(2) by blast
qed

section \<open>Insertion-ordered dictionaries\<close>

text \<open>
  A Python \<open>dict\<close> remembers the order in which its keys were first inserted; assigning to a
  present key keeps its position. \<open>dput\<close> is \<open>d[k] = v\<close>, \<open>ddel\<close> is \<open>d.pop(k, None)\<close>,
  \<open>dget\<close> is \<open>d.get(k)\<close>, and \<open>dict_of\<close> is a dict comprehension over pairs.
\<close>

type_synonym ('k, 'v) dict = "('k \<times> 'v) list"

abbreviation dget :: "('k, 'v) dict \<Rightarrow> 'k \<Rightarrow> 'v option" where
  "dget d k \<equiv> map_of d k"

fun dput :: "'k \<Rightarrow> 'v \<Rightarrow> ('k, 'v) dict \<Rightarrow> ('k, 'v) dict" where
  "dput k v [] = [(k, v)]"
| "dput k v ((k', v') # d) = (if k = k' then (k, v) # d else (k', v') # dput k v d)"

definition ddel :: "'k \<Rightarrow> ('k, 'v) dict \<Rightarrow> ('k, 'v) dict" where
  "ddel k d = filter (\<lambda>p. fst p \<noteq> k) d"

definition dict_of :: "('k \<times> 'v) list \<Rightarrow> ('k, 'v) dict" where
  "dict_of ps = foldl (\<lambda>d p. dput (fst p) (snd p) d) [] ps"

abbreviation keys :: "('k, 'v) dict \<Rightarrow> 'k list" where
  "keys d \<equiv> map fst d"

lemma dget_dput [simp, dict_simps]: "dget (dput k v d) j = (if j = k then Some v else dget d j)"
  by (induction d) auto

lemma keys_dput [dict_simps]:
  "keys (dput k v d) = (if k \<in> set (keys d) then keys d else keys d @ [k])"
  by (induction d) force+

lemma set_keys_dput [simp]: "fst ` set (dput k v d) = insert k (fst ` set d)"
  using arg_cong [OF keys_dput [of k v d], of set] by auto

lemma distinct_dput [simp]: "distinct (keys d) \<Longrightarrow> distinct (keys (dput k v d))"
  by (simp add: keys_dput)

lemma dget_ddel [simp, dict_simps]: "dget (ddel k d) j = (if j = k then None else dget d j)"
  by (induction d) (auto simp: ddel_def)

lemma distinct_ddel [simp]: "distinct (keys d) \<Longrightarrow> distinct (keys (ddel k d))"
  by (induction d) (auto simp: ddel_def)

lemma dict_of_snoc: "dict_of (ps @ [p]) = dput (fst p) (snd p) (dict_of ps)"
  by (simp add: dict_of_def)

lemma distinct_dict_of [simp]: "distinct (keys (dict_of ps))"
  by (induction ps rule: rev_induct) (simp_all add: dict_of_snoc dict_of_def [of "[]"])

lemma dget_dict_of [dict_simps]: "dget (dict_of ps) k = map_of (rev ps) k"
  by (induction ps rule: rev_induct) (auto simp: dict_of_snoc dict_of_def [of "[]"])

lemma dput_new: "k \<notin> set (keys d) \<Longrightarrow> dput k v d = d @ [(k, v)]"
  by (induction d) auto

lemma dict_of_distinct: "distinct (keys ps) \<Longrightarrow> dict_of ps = ps"
proof (induction ps rule: rev_induct)
  case Nil
  then show ?case by (simp add: dict_of_def)
next
  case (snoc p ps)
  then show ?case by (cases p) (simp add: dict_of_snoc dput_new)
qed

lemma set_keys_dict_of: "fst ` set (dict_of ps) = fst ` set ps"
  by (induction ps rule: rev_induct) (simp_all add: dict_of_snoc dict_of_def [of "[]"])

section \<open>Lists\<close>

text \<open>\<open>min(xs, key=f, default=None)\<close>: the first element with the least key.\<close>

fun min_by :: "('a \<Rightarrow> 'k::linorder) \<Rightarrow> 'a list \<Rightarrow> 'a option" where
  "min_by f [] = None"
| "min_by f (x # xs) =
     (case min_by f xs of None \<Rightarrow> Some x | Some y \<Rightarrow> if f x \<le> f y then Some x else Some y)"

lemma min_by_None [simp]: "min_by f xs = None \<longleftrightarrow> xs = []"
  by (cases xs) (auto split: option.splits)

lemma min_by_Some: "min_by f xs = Some x \<Longrightarrow> x \<in> set xs \<and> (\<forall>y \<in> set xs. f x \<le> f y)"
  by (induction xs arbitrary: x) (fastforce split: option.splits if_splits)+

definition ceil_div :: "int \<Rightarrow> int \<Rightarrow> int" where
  "ceil_div a b = - ((- a) div b)"

lemma ceil_div_bounds:
  assumes "0 < b"
  shows "a \<le> b * ceil_div a b" "b * ceil_div a b < a + b"
proof -
  have "b * ((- a) div b) + (- a) mod b = - a"
    by simp
  moreover have "0 \<le> (- a) mod b" "(- a) mod b < b"
    using assms by simp_all
  ultimately show "a \<le> b * ceil_div a b" "b * ceil_div a b < a + b"
    unfolding ceil_div_def mult_minus_right by linarith+
qed

lemma ceil_div_mono: "0 < b \<Longrightarrow> a \<le> a' \<Longrightarrow> ceil_div a b \<le> ceil_div a' b"
  by (simp add: ceil_div_def zdiv_mono1)

lemma ceil_div_nonneg: "0 < b \<Longrightarrow> 0 \<le> a \<Longrightarrow> 0 \<le> ceil_div a b"
  using ceil_div_mono [of b 0 a] by (simp add: ceil_div_def)

lemma ceil_div_le: "0 < b \<Longrightarrow> a \<le> b * k \<Longrightarrow> ceil_div a b \<le> k"
  using ceil_div_mono [of b a "b * k"] by (simp add: ceil_div_def flip: mult_minus_right)

lemma find_Some_iff_mem: "find P xs = Some x \<Longrightarrow> x \<in> set xs \<and> P x"
  by (auto simp: find_Some_iff)

section \<open>Step machines\<close>

text \<open>
  A component that consumes one event at a time: \<open>step\<close> is its handler, \<open>inv\<close> what every handler
  call keeps. Whatever the provider proves of one step holds of every run.
\<close>

locale step_machine =
  fixes step :: "'s \<Rightarrow> 'e \<Rightarrow> 's" and inv :: "'s \<Rightarrow> bool"
  assumes step_inv: "inv s \<Longrightarrow> inv (step s e)"
begin

lemma run_inv: "inv s \<Longrightarrow> inv (foldl step s es)"
  by (induction es arbitrary: s) (simp_all add: step_inv)

lemma run_all_inv: "inv s \<Longrightarrow> n \<le> length es \<Longrightarrow> inv (foldl step s (take n es))"
  by (rule run_inv)

end

end
