(* ===== verification/Py_Float.thy ===== *)
theory Py_Float
  imports Prelude Complex_Main
begin

text \<open>
  Python's numbers as the budget and resource arithmetic uses them. An \<open>int\<close> is unbounded; a
  \<open>float\<close> is a binary64 value, kept here as the rational it denotes, and every float operation
  rounds its exact result to 53 significant bits, ties to even (\<open>fl\<close>). The exponent is unbounded,
  so overflow to infinity and subnormal results are outside the model; the quantities of this
  program (mebibytes, cores, percentages) are far inside the normal range.
  The interface \<open>rounding\<close> states what the clients use of rounding; \<open>fl\<close> is shown to provide it.
\<close>

section \<open>Rounding to the nearest integer, ties to even\<close>

definition round_half_even :: "rat \<Rightarrow> int" where
  "round_half_even x =
     (let f = \<lfloor>x\<rfloor>; d = x - of_int f in
      if d < 1 / 2 then f else if 1 / 2 < d then f + 1 else if even f then f else f + 1)"

lemma round_half_even_cases: "round_half_even x = \<lfloor>x\<rfloor> \<or> round_half_even x = \<lfloor>x\<rfloor> + 1"
  by (simp add: round_half_even_def Let_def)

lemma round_half_even_int [simp]: "round_half_even (of_int n) = n"
  by (simp add: round_half_even_def)

lemma round_half_even_mono:
  assumes "x \<le> y"
  shows "round_half_even x \<le> round_half_even y"
proof (cases "\<lfloor>x\<rfloor> = \<lfloor>y\<rfloor>")
  case True
  with assms show ?thesis
    by (auto simp: round_half_even_def Let_def)
next
  case False
  with assms floor_mono [OF assms] have "\<lfloor>x\<rfloor> + 1 \<le> \<lfloor>y\<rfloor>"
    by linarith
  then show ?thesis
    using round_half_even_cases [of x] round_half_even_cases [of y] by linarith
qed

lemma round_half_even_le: "x \<le> of_int n \<Longrightarrow> round_half_even x \<le> n"
  using round_half_even_mono [of x "of_int n"] by simp

lemma round_half_even_ge: "of_int n \<le> x \<Longrightarrow> n \<le> round_half_even x"
  using round_half_even_mono [of "of_int n" x] by simp

section \<open>The binary exponent of a positive rational\<close>

fun nbits :: "nat \<Rightarrow> nat" where
  "nbits n = (if n = 0 then 0 else Suc (nbits (n div 2)))"

declare nbits.simps [simp del]

lemma nbits_bounds: "0 < n \<Longrightarrow> 2 ^ nbits n \<le> 2 * n \<and> n < 2 ^ nbits n"
proof (induction n rule: nbits.induct)
  case (1 n)
  show ?case
  proof (cases "n div 2 = 0")
    case True
    with "1.prems" have "n = 1"
      by arith
    then show ?thesis
      by (simp add: nbits.simps)
  next
    case False
    with "1.IH" "1.prems" have "2 ^ nbits (n div 2) \<le> 2 * (n div 2)" "n div 2 < 2 ^ nbits (n div 2)"
      by auto
    moreover have "2 * (n div 2) \<le> n" "n < 2 * (n div 2) + 2"
      by simp_all
    ultimately show ?thesis
      using "1.prems" by (simp add: nbits.simps [of n])
  qed
qed

definition ilog2 :: "rat \<Rightarrow> int" where
  "ilog2 a =
     (case quotient_of a of (p, q) \<Rightarrow>
        let e = int (nbits (nat p)) - int (nbits (nat q)) in
        if 2 powi e \<le> a then e else e - 1)"

lemma pow_nat_rat: "(2::rat) powi int n = of_nat (2 ^ n)"
  by simp

lemma ilog2_bounds:
  assumes "0 < a"
  shows "2 powi ilog2 a \<le> a" "a < 2 powi (ilog2 a + 1)"
proof -
  obtain p q where pq: "quotient_of a = (p, q)"
    by fastforce
  have q: "0 < q"
    using quotient_of_denom_pos [OF pq] .
  have a: "a = of_int p / of_int q"
    using quotient_of_div [OF pq] .
  with assms q have p: "0 < p"
    by (simp add: zero_less_divide_iff)
  let ?k = "nbits (nat p)" and ?l = "nbits (nat q)"
  have kp: "2 ^ ?k \<le> 2 * nat p" "nat p < 2 ^ ?k" and lq: "2 ^ ?l \<le> 2 * nat q" "nat q < 2 ^ ?l"
    using nbits_bounds [of "nat p"] nbits_bounds [of "nat q"] p q by auto
  have P: "(of_int p :: rat) = of_nat (nat p)" and Q: "(of_int q :: rat) = of_nat (nat q)"
    using p q by simp_all
  have b1: "2 powi int ?k \<le> (2 * of_int p :: rat)" and b2: "(of_int p :: rat) < 2 powi int ?k"
    using kp unfolding P pow_nat_rat
    by (metis of_nat_le_iff of_nat_mult of_nat_numeral, metis of_nat_less_iff)
  have b3: "2 powi int ?l \<le> (2 * of_int q :: rat)" and b4: "(of_int q :: rat) < 2 powi int ?l"
    using lq unfolding Q pow_nat_rat
    by (metis of_nat_le_iff of_nat_mult of_nat_numeral, metis of_nat_less_iff)
  let ?e = "int ?k - int ?l"
  have e_mul: "2 powi ?e * 2 powi int ?l = (2 :: rat) powi int ?k"
    by (simp add: power_int_diff)
  have upper: "a < 2 powi (?e + 1)"
  proof -
    have "of_int p < (2::rat) powi ?e * 2 powi int ?l"
      using b2 unfolding e_mul .
    also have "\<dots> \<le> 2 powi ?e * (2 * of_int q)"
      by (rule mult_left_mono [OF b3]) (simp add: zero_le_power_int)
    finally show ?thesis
      using q by (simp add: a divide_less_eq power_int_add ac_simps)
  qed
  have lower: "2 powi (?e - 1) \<le> a"
  proof -
    have "2 powi ?e * of_int q \<le> (2::rat) powi ?e * 2 powi int ?l"
      by (rule mult_left_mono) (use b4 in \<open>simp_all add: zero_le_power_int\<close>)
    also have "\<dots> \<le> 2 * of_int p"
      using b1 unfolding e_mul .
    finally show ?thesis
      using q by (simp add: a le_divide_eq power_int_diff)
  qed
  show "2 powi ilog2 a \<le> a"
    using lower by (simp add: ilog2_def pq Let_def)
  show "a < 2 powi (ilog2 a + 1)"
    using upper by (simp add: ilog2_def pq Let_def)
qed

lemma powi2_mono: "m \<le> n \<Longrightarrow> (2::rat) powi m \<le> 2 powi n"
  by (simp add: power_int_increasing)

lemma powi2_pos [simp]: "(0::rat) < 2 powi n"
  by (simp add: zero_less_power_int)

lemma ilog2_mono: "0 < a \<Longrightarrow> a \<le> b \<Longrightarrow> ilog2 a \<le> ilog2 b"
proof (rule ccontr)
  assume "0 < a" "a \<le> b" "\<not> ilog2 a \<le> ilog2 b"
  then have "2 powi (ilog2 b + 1) \<le> (2::rat) powi ilog2 a"
    by (intro powi2_mono) linarith
  with ilog2_bounds [of a] ilog2_bounds [of b] \<open>0 < a\<close> \<open>a \<le> b\<close> show False
    by linarith
qed

section \<open>Rounding to binary64\<close>

definition ulp :: "rat \<Rightarrow> rat" where
  "ulp a = 2 powi (ilog2 a - 52)"

definition fl_pos :: "rat \<Rightarrow> rat" where
  "fl_pos a = of_int (round_half_even (a / ulp a)) * ulp a"

definition fl :: "rat \<Rightarrow> rat" where
  "fl x = (if x = 0 then 0 else if 0 < x then fl_pos x else - fl_pos (- x))"

lemma ulp_pos [simp]: "0 < ulp a"
  by (simp add: ulp_def)

lemma ulp_scale: "2 ^ 52 * ulp a = 2 powi ilog2 a"
  by (simp add: ulp_def power_int_diff)

lemma ulp_scale_Suc: "2 ^ 53 * ulp a = 2 powi (ilog2 a + 1)"
  by (simp add: ulp_def power_int_diff power_int_add)

lemma mult_le_cancel_right_pos: "0 < (c::rat) \<Longrightarrow> a * c \<le> b * c \<longleftrightarrow> a \<le> b"
  by simp

lemma fl_pos_bounds:
  assumes "0 < a"
  shows "2 powi ilog2 a \<le> fl_pos a" "fl_pos a \<le> 2 powi (ilog2 a + 1)"
proof -
  have "of_int (2 ^ 52) \<le> a / ulp a" "a / ulp a \<le> of_int (2 ^ 53)"
    using ilog2_bounds [OF assms] unfolding ulp_scale [symmetric] ulp_scale_Suc [symmetric]
    by (simp_all add: le_divide_eq divide_le_eq)
  then have "2 ^ 52 \<le> round_half_even (a / ulp a)" "round_half_even (a / ulp a) \<le> 2 ^ 53"
    by (auto intro: round_half_even_ge round_half_even_le)
  then have "(2 ^ 52 :: rat) \<le> of_int (round_half_even (a / ulp a))"
    "of_int (round_half_even (a / ulp a)) \<le> (2 ^ 53 :: rat)"
    by (metis of_int_le_iff of_int_numeral of_int_power)+
  then show "2 powi ilog2 a \<le> fl_pos a" "fl_pos a \<le> 2 powi (ilog2 a + 1)"
    unfolding fl_pos_def ulp_scale [symmetric] ulp_scale_Suc [symmetric]
    by (simp_all only: mult_le_cancel_right_pos ulp_pos)
qed

lemma fl_pos_mono:
  assumes "0 < a" "a \<le> b"
  shows "fl_pos a \<le> fl_pos b"
proof (cases "ilog2 a = ilog2 b")
  case True
  then have "ulp a = ulp b"
    by (simp add: ulp_def)
  moreover have "round_half_even (a / ulp b) \<le> round_half_even (b / ulp b)"
    by (intro round_half_even_mono divide_right_mono) (use assms in \<open>simp_all add: less_imp_le\<close>)
  ultimately show ?thesis
    by (simp add: fl_pos_def mult_right_mono less_imp_le)
next
  case False
  with ilog2_mono [OF assms] have "2 powi (ilog2 a + 1) \<le> (2::rat) powi ilog2 b"
    by (intro powi2_mono) linarith
  with fl_pos_bounds [of a] fl_pos_bounds [of b] assms show ?thesis
    by linarith
qed

lemma fl_pos_gt0: "0 < a \<Longrightarrow> 0 < fl_pos a"
  using fl_pos_bounds(1) [of a] powi2_pos [of "ilog2 a"] by linarith

lemma fl_mono: "x \<le> y \<Longrightarrow> fl x \<le> fl y"
  using fl_pos_mono [of x y] fl_pos_mono [of "- y" "- x"] fl_pos_gt0 [of y] fl_pos_gt0 [of "- x"]
  by (auto simp: fl_def)

lemma fl_0 [simp]: "fl 0 = 0"
  by (simp add: fl_def)

text \<open>Every value with at most 53 significant bits is a float, and rounding keeps it.\<close>

lemma powi2_split: "j \<le> k \<Longrightarrow> (2::rat) powi k = of_int (2 ^ nat (k - j)) * 2 powi j"
  using power_int_add [of "2::rat" "k - j" j] by (simp add: power_int_def [of _ "k - j"])

lemma fl_pos_exact:
  assumes "0 < m" "m \<le> 2 ^ 53"
  shows "fl_pos (of_int m * 2 powi k) = of_int m * 2 powi k"
proof -
  let ?a = "of_int m * 2 powi k :: rat"
  have a: "0 < ?a"
    using assms by simp
  show ?thesis
  proof (cases "ilog2 ?a - 52 \<le> k")
    case True
    then have "?a = of_int (m * 2 ^ nat (k - (ilog2 ?a - 52))) * ulp ?a"
      by (subst powi2_split [OF True]) (simp add: ulp_def)
    then have "?a / ulp ?a = of_int (m * 2 ^ nat (k - (ilog2 ?a - 52)))"
      by (metis nonzero_mult_div_cancel_right ulp_pos less_irrefl)
    then show ?thesis
      unfolding fl_pos_def by (simp only: round_half_even_int)
        (metis nonzero_eq_divide_eq ulp_pos less_irrefl)
  next
    case False
    have "(2::rat) powi ilog2 ?a \<le> 2 ^ 53 * 2 powi k"
    proof -
      have "(of_int m :: rat) \<le> 2 ^ 53"
        using assms(2) by (metis of_int_le_iff of_int_numeral of_int_power)
      then have "?a \<le> 2 ^ 53 * 2 powi k"
        by (intro mult_right_mono) (simp_all add: less_imp_le)
      with ilog2_bounds(1) [OF a] show ?thesis
        by linarith
    qed
    also have "\<dots> = 2 powi (k + 53)"
      by (simp add: power_int_add)
    finally have "ilog2 ?a \<le> k + 53"
      by (metis linorder_not_le power_int_strict_increasing one_less_numeral_iff semiring_norm(76))
    with False have e: "ilog2 ?a = k + 53"
      by linarith
    with ilog2_bounds(1) [OF a] have "2 ^ 53 * 2 powi k \<le> ?a"
      by (simp add: power_int_add)
    then have "(2 ^ 53 :: rat) \<le> of_int m"
      by (simp add: mult_le_cancel_right)
    then have "m = 2 ^ 53"
      using assms(2) by (metis antisym of_int_le_iff of_int_numeral of_int_power)
    then have a_eq: "?a = of_int (2 ^ 52) * ulp ?a"
      unfolding ulp_def e by (simp add: power_int_diff power_int_add)
    then have "?a / ulp ?a = of_int (2 ^ 52)"
      by (metis nonzero_mult_div_cancel_right ulp_pos less_irrefl)
    with a_eq show ?thesis
      unfolding fl_pos_def by (simp only: round_half_even_int)
  qed
qed

lemma fl_exact:
  assumes "\<bar>m\<bar> \<le> 2 ^ 53"
  shows "fl (of_int m * 2 powi k) = of_int m * 2 powi k"
proof (cases "m = 0")
  case False
  then show ?thesis
    using fl_pos_exact [of m k] fl_pos_exact [of "- m" k] assms powi2_pos [THEN less_not_sym, of k]
    by (cases "0 < m") (simp_all add: fl_def zero_less_mult_iff mult_less_0_iff)
qed simp

lemma fl_int [simp]: "\<bar>n\<bar> \<le> 2 ^ 53 \<Longrightarrow> fl (of_int n) = of_int n"
  using fl_exact [of n 0] by simp

text \<open>Quarters, the granularity of the CPU policy, are exact.\<close>

lemma fl_quarter: "\<bar>m\<bar> \<le> 2 ^ 53 \<Longrightarrow> fl (of_int m / 4) = of_int m / 4"
  using fl_exact [of m "- 2"] by (simp add: power_int_minus)

section \<open>What clients rely on\<close>

text \<open>
  A correctly rounded arithmetic is monotone and exact on integers up to \<open>2 ^ 53\<close>. The bounds the
  budget code needs (a percentage of a total stays below it, a difference of small integers is
  exact) follow from these two laws alone.
\<close>

locale rounding =
  fixes rnd :: "rat \<Rightarrow> rat"
  assumes rnd_mono: "x \<le> y \<Longrightarrow> rnd x \<le> rnd y"
    and rnd_int: "\<bar>n\<bar> \<le> 2 ^ 53 \<Longrightarrow> rnd (of_int n) = of_int n"
begin

lemma rnd_le_int: "x \<le> of_int n \<Longrightarrow> \<bar>n\<bar> \<le> 2 ^ 53 \<Longrightarrow> rnd x \<le> of_int n"
  using rnd_mono [of x "of_int n"] by (simp add: rnd_int)

lemma rnd_ge_int: "of_int n \<le> x \<Longrightarrow> \<bar>n\<bar> \<le> 2 ^ 53 \<Longrightarrow> of_int n \<le> rnd x"
  using rnd_mono [of "of_int n" x] by (simp add: rnd_int)

lemma rnd_nonneg: "0 \<le> x \<Longrightarrow> 0 \<le> rnd x"
  using rnd_ge_int [of 0 x] by simp

lemma percent_le:
  assumes "0 \<le> t" "100 * t \<le> 2 ^ 53" "0 \<le> p" "p \<le> 100"
  shows "0 \<le> rnd (rnd (of_int t * p) / 100)" "rnd (rnd (of_int t * p) / 100) \<le> of_int t"
proof -
  have t: "(0::rat) \<le> of_int t"
    using assms(1) by simp
  have "of_int t * p \<le> of_int (100 * t)"
    using mult_left_mono [OF assms(4) t] by simp
  then have "rnd (of_int t * p) \<le> of_int (100 * t)"
    by (rule rnd_le_int) (use assms in auto)
  then have "rnd (of_int t * p) / 100 \<le> of_int t"
    by simp
  then show "rnd (rnd (of_int t * p) / 100) \<le> of_int t"
    by (rule rnd_le_int) (use assms in auto)
  show "0 \<le> rnd (rnd (of_int t * p) / 100)"
    by (intro rnd_nonneg divide_nonneg_pos mult_nonneg_nonneg) (use t assms in auto)
qed

lemma exact_percent_le:
  assumes "0 \<le> t" "t \<le> 2 ^ 53" "0 \<le> p" "p \<le> 100"
  shows "0 \<le> rnd (of_int (t * p) / 100)" "rnd (of_int (t * p) / 100) \<le> of_int t"
proof -
  have "t * p \<le> t * 100"
    using assms(1,4) by (intro mult_left_mono)
  then have "(of_int (t * p) :: rat) \<le> of_int (t * 100)"
    by (simp only: of_int_le_iff)
  then have "of_int (t * p) / 100 \<le> (of_int t :: rat)"
    by simp
  then show "rnd (of_int (t * p) / 100) \<le> of_int t"
    by (rule rnd_le_int) (use assms in auto)
  show "0 \<le> rnd (of_int (t * p) / 100)"
    by (intro rnd_nonneg divide_nonneg_pos) (use assms in auto)
qed

end

interpretation b64: rounding fl
  by unfold_locales (auto intro: fl_mono)

section \<open>Python numbers\<close>

datatype pynum = IntN int | FloatN rat

fun nval :: "pynum \<Rightarrow> rat" where
  "nval (IntN n) = of_int n"
| "nval (FloatN x) = x"

text \<open>\<open>float(n)\<close>: an integer too wide for 53 bits is rounded.\<close>

fun to_float :: "pynum \<Rightarrow> rat" where
  "to_float (IntN n) = fl (of_int n)"
| "to_float (FloatN x) = x"

fun nadd :: "pynum \<Rightarrow> pynum \<Rightarrow> pynum" where
  "nadd (IntN a) (IntN b) = IntN (a + b)"
| "nadd a b = FloatN (fl (to_float a + to_float b))"

fun nsub :: "pynum \<Rightarrow> pynum \<Rightarrow> pynum" where
  "nsub (IntN a) (IntN b) = IntN (a - b)"
| "nsub a b = FloatN (fl (to_float a - to_float b))"

fun nmul :: "pynum \<Rightarrow> pynum \<Rightarrow> pynum" where
  "nmul (IntN a) (IntN b) = IntN (a * b)"
| "nmul a b = FloatN (fl (to_float a * to_float b))"

text \<open>
  True division by a nonzero number: the quotient of two integers is rounded once; otherwise the
  operands are floats first.
\<close>

fun ndiv :: "pynum \<Rightarrow> pynum \<Rightarrow> pynum" where
  "ndiv (IntN a) (IntN b) = FloatN (fl (of_int a / of_int b))"
| "ndiv a b = FloatN (fl (to_float a / to_float b))"

text \<open>\<open>round(x)\<close> and \<open>int(x)\<close>, and \<open>max\<close>/\<open>min\<close>, which keep the first of equal arguments.\<close>

fun nround :: "pynum \<Rightarrow> int" where
  "nround (IntN n) = n"
| "nround (FloatN x) = round_half_even x"

fun ntrunc :: "pynum \<Rightarrow> int" where
  "ntrunc (IntN n) = n"
| "ntrunc (FloatN x) = (if 0 \<le> x then \<lfloor>x\<rfloor> else \<lceil>x\<rceil>)"

text \<open>\<open>round(x, 2)\<close>: the nearest multiple of a hundredth, as a float.\<close>

fun nround2 :: "pynum \<Rightarrow> pynum" where
  "nround2 (IntN n) = IntN n"
| "nround2 (FloatN x) = FloatN (fl (of_int (round_half_even (100 * x)) / 100))"

definition nmax :: "pynum \<Rightarrow> pynum \<Rightarrow> pynum" where
  "nmax a b = (if nval a < nval b then b else a)"

definition nmin :: "pynum \<Rightarrow> pynum \<Rightarrow> pynum" where
  "nmin a b = (if nval b < nval a then b else a)"

lemma nval_nmin [simp]: "nval (nmin a b) = min (nval a) (nval b)"
  by (auto simp: nmin_def)

lemma nval_nmax [simp]: "nval (nmax a b) = max (nval a) (nval b)"
  by (auto simp: nmax_def)

lemma nround_mono_val: "nval a \<le> of_int n \<Longrightarrow> nround a \<le> n"
  by (cases a) (auto intro: round_half_even_le)

lemma nround_ge_val: "of_int n \<le> nval a \<Longrightarrow> n \<le> nround a"
  by (cases a) (auto intro: round_half_even_ge)

text \<open>\<open>round(total * pct / 100)\<close> stays between 0 and the total.\<close>

lemma percent_bounds:
  assumes "0 \<le> t" "100 * t \<le> 2 ^ 53" "0 \<le> nval p" "nval p \<le> 100"
  shows "0 \<le> nround (ndiv (nmul (IntN t) p) (IntN 100))"
    "nround (ndiv (nmul (IntN t) p) (IntN 100)) \<le> t"
proof -
  have "0 \<le> nval (ndiv (nmul (IntN t) p) (IntN 100)) \<and> nval (ndiv (nmul (IntN t) p) (IntN 100)) \<le> of_int t"
  proof (cases p)
    case (IntN k)
    with assms have "0 \<le> k" "k \<le> 100"
      by simp_all
    with IntN assms show ?thesis
      using b64.exact_percent_le [of t k] by simp
  next
    case (FloatN x)
    with assms b64.percent_le [of t x] show ?thesis
      by (simp add: fl_int [of 100, simplified] fl_int [of t])
  qed
  then show "0 \<le> nround (ndiv (nmul (IntN t) p) (IntN 100))"
    "nround (ndiv (nmul (IntN t) p) (IntN 100)) \<le> t"
    by (auto intro: nround_ge_val nround_mono_val)
qed

end
