(* ===== verification/Gguf.thy ===== *)
theory Gguf
  imports Py_Float "HOL-Library.Word"
begin

text \<open>
  The GGUF header reader (\<open>pylib/gguf.py\<close>). A file is its list of bytes; the open handle is the
  list of bytes not yet read, so \<open>fh.tell()\<close> is the file size less the length of that list. Every
  reader returns the value read and the rest, or the exception the code raises. Strings are lists of
  Unicode code points, decoded from UTF-8 as \<open>bytes.decode("utf-8", errors="replace")\<close> does; a
  floating-point metadata value keeps its bits, since nothing interprets it.
  \<open>fh.read(n)\<close> is the read of a buffered binary file: it raises \<open>OverflowError\<close> for a size
  that does not fit a signed 64-bit word. Exhaustion of the host's memory is not modelled.
\<close>

section \<open>Errors, values and files\<close>

type_synonym byte = "8 word"
type_synonym ustr = "nat list"

definition ucs :: "string \<Rightarrow> ustr" where
  "ucs s = map of_char s"

datatype gguf_error =
    Truncated nat nat
  | Nested_array
  | Unknown_element_type nat
  | Unknown_type_code nat
  | Array_too_large nat
  | Bad_magic "byte list"
  | Metadata_too_large nat
  | Bad_alignment
  | Misaligned_offset ustr nat nat
  | Offsets_not_increasing ustr nat nat
  | Offset_past_end ustr nat int
  | No_architecture
  | No_routed_experts ustr
  | Missing_key ustr
  | Not_positive_int ustr
  | Bad_layer_values ustr nat
  | Bad_recurrent_layers ustr nat
  | Missing_recurrent_or_interval ustr ustr
  | Bad_swa_pattern ustr nat
  | Size_overflow

datatype gguf_val =
    GInt int
  | GFloat32 nat
  | GFloat64 nat
  | GBool bool
  | GStr ustr
  | GList "gguf_val list"
  | GSummary nat nat

type_synonym 'a reader = "byte list \<Rightarrow> (gguf_error, 'a \<times> byte list) result"
type_synonym metadata = "(ustr, gguf_val) dict"

section \<open>Fixed-width little-endian integers\<close>

fun le_nat :: "byte list \<Rightarrow> nat" where
  "le_nat [] = 0"
| "le_nat (b # bs) = unat b + 256 * le_nat bs"

fun le_bytes :: "nat \<Rightarrow> nat \<Rightarrow> byte list" where
  "le_bytes 0 n = []"
| "le_bytes (Suc k) n = word_of_nat n # le_bytes k (n div 256)"

definition signed_of :: "nat \<Rightarrow> nat \<Rightarrow> int" where
  "signed_of k n = (if n < 2 ^ (8 * k - 1) then int n else int n - 2 ^ (8 * k))"

lemma length_le_bytes [simp]: "length (le_bytes k n) = k"
  by (induction k arbitrary: n) simp_all

lemma le_nat_le_bytes [simp]: "n < 256 ^ k \<Longrightarrow> le_nat (le_bytes k n) = n"
proof (induction k arbitrary: n)
  case 0
  then show ?case by simp
next
  case (Suc k)
  then have "le_nat (le_bytes k (n div 256)) = n div 256"
    by (simp add: less_mult_imp_div_less)
  then show ?case
    by (simp add: unat_of_nat)
qed

lemma le_nat_less: "le_nat bs < 256 ^ length bs"
proof (induction bs)
  case Nil
  then show ?case by simp
next
  case (Cons b bs)
  have "unat b < 256"
    using unsigned_less [of b] by simp
  with Cons show ?case
    by simp
qed

section \<open>UTF-8 with replacement\<close>

text \<open>
  Python's decoder replaces each maximal ill-formed prefix of a sequence by one U+FFFD. The second
  byte of a three- or four-byte sequence has a range that depends on the first.
\<close>

definition cont :: "nat \<Rightarrow> bool" where
  "cont b \<longleftrightarrow> 128 \<le> b \<and> b \<le> 191"

definition second_ok :: "nat \<Rightarrow> nat \<Rightarrow> bool" where
  "second_ok b c \<longleftrightarrow>
     (if b = 224 then 160 \<le> c \<and> c \<le> 191
      else if b = 237 then 128 \<le> c \<and> c \<le> 159
      else if b = 240 then 144 \<le> c \<and> c \<le> 191
      else if b = 244 then 128 \<le> c \<and> c \<le> 143
      else cont c)"

function utf8_decode :: "nat list \<Rightarrow> ustr" where
  "utf8_decode [] = []"
| "utf8_decode (b # bs) =
     (if b < 128 then b # utf8_decode bs
      else if 194 \<le> b \<and> b \<le> 223 then
        (case bs of
           c # bs' \<Rightarrow>
             if cont c then ((b - 192) * 64 + (c - 128)) # utf8_decode bs' else 65533 # utf8_decode bs
         | [] \<Rightarrow> [65533])
      else if 224 \<le> b \<and> b \<le> 239 then
        (case bs of
           [] \<Rightarrow> [65533]
         | c # bs' \<Rightarrow>
             if \<not> second_ok b c then 65533 # utf8_decode bs
             else (case bs' of
                     [] \<Rightarrow> [65533]
                   | d # bs'' \<Rightarrow>
                       if cont d
                       then ((b - 224) * 4096 + (c - 128) * 64 + (d - 128)) # utf8_decode bs''
                       else 65533 # utf8_decode bs'))
      else if 240 \<le> b \<and> b \<le> 244 then
        (case bs of
           [] \<Rightarrow> [65533]
         | c # bs' \<Rightarrow>
             if \<not> second_ok b c then 65533 # utf8_decode bs
             else (case bs' of
                     [] \<Rightarrow> [65533]
                   | d # bs'' \<Rightarrow>
                       if \<not> cont d then 65533 # utf8_decode bs'
                       else (case bs'' of
                               [] \<Rightarrow> [65533]
                             | e # bs''' \<Rightarrow>
                                 if cont e
                                 then ((b - 240) * 262144 + (c - 128) * 4096 + (d - 128) * 64
                                        + (e - 128)) # utf8_decode bs'''
                                 else 65533 # utf8_decode bs'')))
      else 65533 # utf8_decode bs)"
  by pat_completeness auto
termination
  by (relation "measure length") auto

lemma utf8_decode_ascii: "\<forall>b \<in> set bs. b < 128 \<Longrightarrow> utf8_decode bs = bs"
  by (induction bs) auto

section \<open>Primitive readers\<close>

definition read_exact :: "nat \<Rightarrow> byte list reader" where
  "read_exact n bs =
     (if 2 ^ 63 \<le> n then Inl Size_overflow
      else if length bs < n then Inl (Truncated n (length bs))
      else Inr (take n bs, drop n bs))"

definition skip_exact :: "nat \<Rightarrow> unit reader" where
  "skip_exact n bs =
     (if length bs < n then Inl (Truncated n (length bs)) else Inr ((), drop n bs))"

definition read_uint :: "nat \<Rightarrow> nat reader" where
  "read_uint k bs = bindR (read_exact k bs) (\<lambda>(d, rest). Inr (le_nat d, rest))"

definition read_string :: "ustr reader" where
  "read_string bs =
     bindR (read_uint 8 bs) (\<lambda>(len, r).
     bindR (read_exact len r) (\<lambda>(d, r'). Inr (utf8_decode (map unat d), r')))"

text \<open>\<open>for _ in range(count)\<close> around a reader.\<close>

fun read_many :: "nat \<Rightarrow> 'a reader \<Rightarrow> 'a list reader" where
  "read_many 0 p bs = Inr ([], bs)"
| "read_many (Suc n) p bs =
     bindR (p bs) (\<lambda>(x, r). bindR (read_many n p r) (\<lambda>(xs, r'). Inr (x # xs, r')))"

section \<open>Metadata values\<close>

definition MAX_METADATA_ENTRIES :: nat where "MAX_METADATA_ENTRIES = 100000"
definition MAX_ARRAY_ELEMENTS :: nat where "MAX_ARRAY_ELEMENTS = 100000000"
definition MAX_INLINE_ARRAY_ELEMENTS :: nat where "MAX_INLINE_ARRAY_ELEMENTS = 4096"

definition T_STRING :: nat where "T_STRING = 8"
definition T_ARRAY :: nat where "T_ARRAY = 9"

text \<open>The table \<open>_SCALAR\<close>: the size of a scalar type, and the value of its bytes.\<close>

definition scalar_size :: "nat \<Rightarrow> nat option" where
  "scalar_size t =
     (if t \<in> {0, 1, 7} then Some 1
      else if t \<in> {2, 3} then Some 2
      else if t \<in> {4, 5, 6} then Some 4
      else if t \<in> {10, 11, 12} then Some 8
      else None)"

definition scalar_value :: "nat \<Rightarrow> byte list \<Rightarrow> gguf_val" where
  "scalar_value t d =
     (if t = 7 then GBool (le_nat d \<noteq> 0)
      else if t = 6 then GFloat32 (le_nat d)
      else if t = 12 then GFloat64 (le_nat d)
      else if t \<in> {1, 3, 5, 11} then GInt (signed_of (length d) (le_nat d))
      else GInt (int (le_nat d)))"

definition skip_string :: "unit reader" where
  "skip_string bs = bindR (read_uint 8 bs) (\<lambda>(len, r). skip_exact len r)"

definition skip_array_payload :: "nat \<Rightarrow> nat \<Rightarrow> unit reader" where
  "skip_array_payload et count bs =
     (case scalar_size et of
        Some sz \<Rightarrow> skip_exact (sz * count) bs
      | None \<Rightarrow>
          if et = T_STRING then bindR (read_many count skip_string bs) (\<lambda>(_, r). Inr ((), r))
          else if et = T_ARRAY then Inl Nested_array
          else Inl (Unknown_element_type et))"

text \<open>
  \<open>_read_value\<close> calls itself only for the elements of an array whose type is not again an array:
  \<open>read_element\<close> is that inner call, \<open>read_value\<close> the function.
\<close>

definition read_element :: "nat \<Rightarrow> gguf_val reader" where
  "read_element t bs =
     (case scalar_size t of
        Some sz \<Rightarrow> bindR (read_exact sz bs) (\<lambda>(d, r). Inr (scalar_value t d, r))
      | None \<Rightarrow>
          if t = T_STRING then bindR (read_string bs) (\<lambda>(s, r). Inr (GStr s, r))
          else Inl (Unknown_type_code t))"

definition read_array :: "gguf_val reader" where
  "read_array bs =
     bindR (read_uint 4 bs) (\<lambda>(et, r1).
     bindR (read_uint 8 r1) (\<lambda>(count, r2).
       if MAX_ARRAY_ELEMENTS < count then Inl (Array_too_large count)
       else if et \<noteq> T_ARRAY \<and> count \<le> MAX_INLINE_ARRAY_ELEMENTS then
         bindR (read_many count (read_element et) r2) (\<lambda>(vs, r3). Inr (GList vs, r3))
       else bindR (skip_array_payload et count r2) (\<lambda>(_, r3). Inr (GSummary et count, r3))))"

definition read_value :: "nat \<Rightarrow> gguf_val reader" where
  "read_value t bs = (if t = T_ARRAY then read_array bs else read_element t bs)"

section \<open>The header\<close>

record gguf_header =
  version :: nat
  tensor_count :: nat
  metadata :: metadata

definition GGUF_MAGIC :: "byte list" where
  "GGUF_MAGIC = [71, 71, 85, 70]"

definition read_kv :: "(ustr \<times> gguf_val) reader" where
  "read_kv bs =
     bindR (read_string bs) (\<lambda>(key, r1).
     bindR (read_uint 4 r1) (\<lambda>(t, r2).
     bindR (read_value t r2) (\<lambda>(v, r3). Inr ((key, v), r3))))"

definition read_preamble :: "gguf_header reader" where
  "read_preamble bs =
     bindR (read_exact 4 bs) (\<lambda>(magic, r1).
     bindR (ensure (magic = GGUF_MAGIC) (Bad_magic magic)) (\<lambda>_.
     bindR (read_uint 4 r1) (\<lambda>(ver, r2).
     bindR (read_exact 16 r2) (\<lambda>(counts, r3).
       let tc = le_nat (take 8 counts); kv = le_nat (drop 8 counts) in
       bindR (ensure (kv \<le> MAX_METADATA_ENTRIES) (Metadata_too_large kv)) (\<lambda>_.
       bindR (read_many kv read_kv r3) (\<lambda>(kvs, r4).
         Inr (\<lparr>version = ver, tensor_count = tc, metadata = dict_of kvs\<rparr>, r4)))))))"

definition read_gguf_header :: "byte list \<Rightarrow> (gguf_error, gguf_header) result" where
  "read_gguf_header bs = bindR (read_preamble bs) (\<lambda>(h, _). Inr h)"

section \<open>Tensor sizes\<close>

definition DEFAULT_ALIGNMENT :: int where "DEFAULT_ALIGNMENT = 32"

definition alignment :: "metadata \<Rightarrow> (gguf_error, nat) result" where
  "alignment m =
     (case dget m (ucs ''general.alignment'') of
        None \<Rightarrow> Inr (nat DEFAULT_ALIGNMENT)
      | Some (GInt n) \<Rightarrow> if 0 < n then Inr (nat n) else Inl Bad_alignment
      | Some _ \<Rightarrow> Inl Bad_alignment)"

definition read_tensor_info :: "nat \<Rightarrow> (ustr \<times> nat) reader" where
  "read_tensor_info al bs =
     bindR (read_string bs) (\<lambda>(name, r1).
     bindR (read_uint 4 r1) (\<lambda>(n_dims, r2).
     bindR (skip_exact (8 * n_dims) r2) (\<lambda>(_, r3).
     bindR (skip_exact 4 r3) (\<lambda>(_, r4).
     bindR (read_uint 8 r4) (\<lambda>(offset, r5).
       if offset mod al \<noteq> 0 then Inl (Misaligned_offset name offset al)
       else Inr ((name, offset), r5))))))"

text \<open>The loop that rejects equal or decreasing consecutive offsets after the sort.\<close>

fun check_increasing :: "(ustr \<times> nat) list \<Rightarrow> (gguf_error, unit) result" where
  "check_increasing (a # b # xs) =
     (if snd b \<le> snd a then Inl (Offsets_not_increasing (fst b) (snd b) (snd a))
      else check_increasing (b # xs))"
| "check_increasing _ = Inr ()"

text \<open>Offset deltas; the last tensor extends to the end of the data span.\<close>

fun deltas :: "int \<Rightarrow> (ustr \<times> nat) list \<Rightarrow> (ustr \<times> int) list" where
  "deltas avail [] = []"
| "deltas avail [(n, off)] = [(n, avail - int off)]"
| "deltas avail ((n, off) # (n', off') # xs) = (n, int off' - int off) # deltas avail ((n', off') # xs)"

definition tensor_data_start :: "nat \<Rightarrow> nat \<Rightarrow> nat" where
  "tensor_data_start pos al = (if pos mod al \<noteq> 0 then pos + (al - pos mod al) else pos)"

definition sizes_of_infos ::
    "nat \<Rightarrow> nat \<Rightarrow> (ustr \<times> nat) list \<Rightarrow> (gguf_error, (ustr, int) dict) result" where
  "sizes_of_infos file_size data_start infos =
     (let infos = sort_key snd infos; avail = int file_size - int data_start in
      bindR (check_increasing infos) (\<lambda>_.
      bindR (ensure (infos = [] \<or> int (snd (last infos)) \<le> avail)
               (Offset_past_end (fst (last infos)) (snd (last infos)) avail)) (\<lambda>_.
        Inr (dict_of (deltas avail infos)))))"

definition tensor_table :: "byte list \<Rightarrow> (gguf_error, nat \<times> (ustr \<times> nat) list) result" where
  "tensor_table file =
     bindR (read_preamble file) (\<lambda>(h, r1).
     bindR (alignment (metadata h)) (\<lambda>al.
     bindR (read_many (tensor_count h) (read_tensor_info al) r1) (\<lambda>(infos, r2).
       Inr (tensor_data_start (length file - length r2) al, infos))))"

definition tensor_sizes :: "byte list \<Rightarrow> (gguf_error, (ustr, int) dict) result" where
  "tensor_sizes file =
     bindR (tensor_table file) (\<lambda>(data_start, infos). sizes_of_infos (length file) data_start infos)"

section \<open>Routed-expert tensors\<close>

text \<open>
  \<open>\d\<close> of a text pattern matches every Unicode decimal digit and \<open>int()\<close> reads them: the blocks of
  ten start at these code points.
\<close>

definition nd_starts :: "nat list" where
  "nd_starts =
     [48, 1632, 1776, 1984, 2406, 2534, 2662, 2790, 2918, 3046, 3174, 3302, 3430, 3558, 3664, 3792,
      3872, 4160, 4240, 6112, 6160, 6470, 6608, 6784, 6800, 6992, 7088, 7232, 7248, 42528, 43216,
      43264, 43472, 43504, 43600, 44016, 65296, 66720, 68912, 69734, 69872, 69942, 70096, 70384,
      70736, 70864, 71248, 71360, 71472, 71904, 72016, 72784, 73040, 73120, 92768, 92864, 93008,
      120782, 120792, 120802, 120812, 120822, 123200, 123632, 125264, 130032]"

definition digit_value :: "nat \<Rightarrow> nat option" where
  "digit_value c = map_option (\<lambda>a. c - a) (find (\<lambda>a. a \<le> c \<and> c < a + 10) nd_starts)"

text \<open>The digits at the head of a string, their value, and what follows them.\<close>

fun read_digits :: "nat option \<Rightarrow> ustr \<Rightarrow> nat option \<times> ustr" where
  "read_digits acc [] = (acc, [])"
| "read_digits acc (c # cs) =
     (case digit_value c of
        None \<Rightarrow> (acc, c # cs)
      | Some d \<Rightarrow> read_digits (Some (10 * (case acc of None \<Rightarrow> 0 | Some a \<Rightarrow> a) + d)) cs)"

definition strip_prefix :: "ustr \<Rightarrow> ustr \<Rightarrow> ustr option" where
  "strip_prefix p s = (if take (length p) s = p then Some (drop (length p) s) else None)"

definition expert_suffixes :: "ustr list" where
  "expert_suffixes =
     [ucs ''.ffn_'' @ p @ ucs ''_exps.'' @ k.
        p \<leftarrow> map ucs [''gate'', ''up'', ''down''],
        k \<leftarrow> map ucs [''weight'', ''scale'', ''input_scale'']]"

text \<open>
  \<open>EXPERT_TENSOR_RE\<close>: the block index of a routed-expert tensor. A trailing \<open>$\<close> also matches
  before a final newline.
\<close>

definition expert_block :: "ustr \<Rightarrow> nat option" where
  "expert_block name =
     (case strip_prefix (ucs ''blk.'') name of
        None \<Rightarrow> None
      | Some rest \<Rightarrow>
          (case read_digits None rest of
             (None, _) \<Rightarrow> None
           | (Some i, tail) \<Rightarrow>
               if tail \<in> set expert_suffixes \<or> tail \<in> set (map (\<lambda>s. s @ [10]) expert_suffixes)
               then Some i else None))"

definition architecture :: "metadata \<Rightarrow> (gguf_error, ustr) result" where
  "architecture m =
     (case dget m (ucs ''general.architecture'') of
        Some (GStr a) \<Rightarrow> if a = [] then Inl No_architecture else Inr a
      | _ \<Rightarrow> Inl No_architecture)"

definition offload_bytes :: "(ustr, int) dict \<Rightarrow> int \<Rightarrow> int" where
  "offload_bytes sizes n =
     sum_list (map snd (filter
       (\<lambda>(name, _). case expert_block name of None \<Rightarrow> False | Some i \<Rightarrow> int i < n) sizes))"

text \<open>\<open>math.ceil(n / (1024 * 1024))\<close>: the quotient of two integers is the rounded float.\<close>

definition ceil_mib :: "int \<Rightarrow> int" where
  "ceil_mib n = \<lceil>fl (of_int n / 1048576)\<rceil>"

definition moe_expert_offload_mib :: "byte list \<Rightarrow> metadata \<Rightarrow> int \<Rightarrow> (gguf_error, int) result" where
  "moe_expert_offload_mib file m n_cpu_moe =
     bindR (architecture m) (\<lambda>arch.
     bindR (ensure (dget m (arch @ ucs ''.expert_count'') \<noteq> None) (No_routed_experts arch)) (\<lambda>_.
       if n_cpu_moe \<le> 0 then Inr 0
       else bindR (tensor_sizes file) (\<lambda>sizes.
              Inr (ceil_mib (offload_bytes sizes n_cpu_moe)))))"

section \<open>Validation of a file on disk\<close>

datatype disk_file = Absent | Unreadable | File "byte list"

datatype verdict = Not_found | Rejected gguf_error | Cannot_read | Valid

text \<open>
  Only \<open>GgufError\<close> and \<open>OSError\<close> are caught: an \<open>OverflowError\<close> (\<open>Size_overflow\<close>) leaves the
  function.
\<close>

definition validate_gguf :: "disk_file \<Rightarrow> (gguf_error, bool \<times> verdict) result" where
  "validate_gguf f =
     (case f of
        Absent \<Rightarrow> Inr (False, Not_found)
      | Unreadable \<Rightarrow> Inr (False, Cannot_read)
      | File bs \<Rightarrow>
          (case read_gguf_header bs of
             Inl e \<Rightarrow> if e = Size_overflow then Inl e else Inr (False, Rejected e)
           | Inr _ \<Rightarrow> Inr (True, Valid)))"

section \<open>Attention geometry\<close>

datatype layer_kind = Full | Recurrent | Swa

record layer =
  kind :: layer_kind
  head_count_kv :: int
  key_length :: int
  value_length :: int

record geometry =
  layers :: "layer list"
  sliding_window :: "int option"

definition need :: "metadata \<Rightarrow> ustr \<Rightarrow> string \<Rightarrow> (gguf_error, gguf_val) result" where
  "need m arch suffix =
     (let key = arch @ ucs (''.'' @ suffix) in
      case dget m key of None \<Rightarrow> Inl (Missing_key key) | Some v \<Rightarrow> Inr v)"

definition positive_int :: "metadata \<Rightarrow> ustr \<Rightarrow> string \<Rightarrow> (gguf_error, int) result" where
  "positive_int m arch suffix =
     bindR (need m arch suffix) (\<lambda>v.
       case v of
         GInt n \<Rightarrow> if 0 < n then Inr n else Inl (Not_positive_int (ucs suffix))
       | _ \<Rightarrow> Inl (Not_positive_int (ucs suffix)))"

fun pos_of :: "gguf_val \<Rightarrow> int option" where
  "pos_of (GInt n) = (if 0 < n then Some n else None)"
| "pos_of _ = None"

fun bool_of :: "gguf_val \<Rightarrow> bool option" where
  "bool_of (GBool b) = Some b"
| "bool_of _ = None"

fun all_some :: "'a option list \<Rightarrow> 'a list option" where
  "all_some [] = Some []"
| "all_some (x # xs) =
     (case x of None \<Rightarrow> None | Some a \<Rightarrow> map_option (Cons a) (all_some xs))"

definition typed_list :: "(gguf_val \<Rightarrow> 'a option) \<Rightarrow> nat \<Rightarrow> gguf_val \<Rightarrow> 'a list option" where
  "typed_list f n v =
     (case v of GList vs \<Rightarrow> if length vs = n then all_some (map f vs) else None | _ \<Rightarrow> None)"

definition layer_values :: "metadata \<Rightarrow> ustr \<Rightarrow> nat \<Rightarrow> string \<Rightarrow> (gguf_error, int list) result" where
  "layer_values m arch n suffix =
     bindR (need m arch suffix) (\<lambda>v.
       case pos_of v of
         Some k \<Rightarrow> Inr (replicate n k)
       | None \<Rightarrow>
           (case typed_list pos_of n v of
              Some ks \<Rightarrow> Inr ks
            | None \<Rightarrow> Inl (Bad_layer_values (ucs suffix) n)))"

definition qwen_kinds :: "metadata \<Rightarrow> ustr \<Rightarrow> nat \<Rightarrow> (gguf_error, layer_kind list) result" where
  "qwen_kinds m arch n =
     (let rk = arch @ ucs ''.attention.recurrent_layers'';
          ik = arch @ ucs ''.full_attention_interval'' in
      case dget m rk of
        Some v \<Rightarrow>
          (case typed_list bool_of n v of
             Some bs \<Rightarrow> Inr (map (\<lambda>b. if b then Recurrent else Full) bs)
           | None \<Rightarrow> Inl (Bad_recurrent_layers rk n))
      | None \<Rightarrow>
          (case dget m ik of
             None \<Rightarrow> Inl (Missing_recurrent_or_interval rk ik)
           | Some _ \<Rightarrow>
               bindR (positive_int m arch ''full_attention_interval'') (\<lambda>iv.
                 Inr (map (\<lambda>i. if (int i + 1) mod iv = 0 then Full else Recurrent) [0..<n]))))"

definition gemma_kinds :: "metadata \<Rightarrow> ustr \<Rightarrow> nat \<Rightarrow> (gguf_error, layer_kind list) result" where
  "gemma_kinds m arch n =
     bindR (need m arch ''attention.sliding_window_pattern'') (\<lambda>v.
       case typed_list bool_of n v of
         Some bs \<Rightarrow> Inr (map (\<lambda>b. if b then Swa else Full) bs)
       | None \<Rightarrow> Inl (Bad_swa_pattern arch n))"

fun mk_layer :: "layer_kind \<Rightarrow> int \<Rightarrow> int \<Rightarrow> int \<Rightarrow> int \<Rightarrow> int \<Rightarrow> layer" where
  "mk_layer k h fk fv sk sv =
     \<lparr>kind = k, head_count_kv = h, key_length = (if k = Swa then sk else fk),
      value_length = (if k = Swa then sv else fv)\<rparr>"

fun zip_layers ::
    "layer_kind list \<Rightarrow> int list \<Rightarrow> int list \<Rightarrow> int list \<Rightarrow> int list \<Rightarrow> int list \<Rightarrow> layer list" where
  "zip_layers (k # ks) (h # hs) (fk # fks) (fv # fvs) (sk # sks) (sv # svs) =
     mk_layer k h fk fv sk sv # zip_layers ks hs fks fvs sks svs"
| "zip_layers _ _ _ _ _ _ = []"

definition kv_geometry :: "metadata \<Rightarrow> (gguf_error, geometry) result" where
  "kv_geometry m =
     bindR (architecture m) (\<lambda>arch.
     bindR (positive_int m arch ''block_count'') (\<lambda>bc. let n = nat bc in
     bindR (layer_values m arch n ''attention.head_count_kv'') (\<lambda>heads.
     bindR (layer_values m arch n ''attention.key_length'') (\<lambda>fk.
     bindR (layer_values m arch n ''attention.value_length'') (\<lambda>fv.
     bindR (if arch \<in> {ucs ''qwen35'', ucs ''qwen35moe''} then qwen_kinds m arch n
            else Inr (replicate n Full)) (\<lambda>kinds.
       if arch = ucs ''gemma4'' then
         bindR (gemma_kinds m arch n) (\<lambda>kinds'.
         bindR (positive_int m arch ''attention.sliding_window'') (\<lambda>sw.
         bindR (layer_values m arch n ''attention.key_length_swa'') (\<lambda>sk.
         bindR (layer_values m arch n ''attention.value_length_swa'') (\<lambda>sv.
           Inr \<lparr>layers = zip_layers kinds' heads fk fv sk sv, sliding_window = Some sw\<rparr>))))
       else Inr \<lparr>layers = zip_layers kinds heads fk fv fk fv, sliding_window = None\<rparr>))))))"

section \<open>Tensor sizes: disjoint ranges inside the file\<close>

lemma check_increasing_sorted: "check_increasing xs = Inr u \<Longrightarrow> sorted_wrt (<) (map snd xs)"
  by (induction xs rule: check_increasing.induct) (fastforce split: if_splits)+

lemma keys_deltas: "keys (deltas avail xs) = map fst xs"
  by (induction avail xs rule: deltas.induct) simp_all

lemma deltas_nonneg:
  assumes "sorted_wrt (<) (map snd xs)" "xs = [] \<or> int (snd (last xs)) \<le> avail" "(n, d) \<in> set (deltas avail xs)"
  shows "0 \<le> d"
  using assms by (induction avail xs rule: deltas.induct) (auto split: if_splits)

lemma sum_deltas:
  "xs \<noteq> [] \<Longrightarrow> sum_list (map snd (deltas avail xs)) = avail - int (snd (hd xs))"
  by (induction avail xs rule: deltas.induct) simp_all

lemma sorted_last_ge:
  "sorted_wrt (<) (map snd xs) \<Longrightarrow> p \<in> set xs \<Longrightarrow> snd p \<le> snd (last xs)"
  for xs :: "('a \<times> nat) list"
  by (induction xs) (auto simp: less_imp_le)

text \<open>
  The range of a tensor: it starts at its offset and extends to the next larger offset, or to the end of
  the data span when there is none. A name that occurs twice is listed with the range of its last occurrence.
\<close>

definition tensor_range :: "int \<Rightarrow> (ustr \<times> nat) list \<Rightarrow> nat \<Rightarrow> int \<Rightarrow> bool" where
  "tensor_range avail xs off d \<longleftrightarrow>
     0 \<le> d \<and> int off + d \<le> avail
     \<and> (\<forall>(n', off') \<in> set xs. off < off' \<longrightarrow> 0 < d \<and> int off + d \<le> int off')
     \<and> (int off + d = avail \<or> (\<exists>(n', off') \<in> set xs. off < off' \<and> int off + d = int off'))"

lemma tensor_range_Cons:
  "tensor_range avail xs off d \<Longrightarrow> ao < off \<Longrightarrow> tensor_range avail ((a, ao) # xs) off d"
  by (auto simp: tensor_range_def)

lemma tensor_range_hd:
  assumes "sorted_wrt (<) (map snd ((a, ao) # (b, bo) # xs))" "int bo \<le> avail"
  shows "tensor_range avail ((a, ao) # (b, bo) # xs) ao (int bo - int ao)"
  using assms by (auto simp: tensor_range_def less_imp_le)

lemma deltas_range:
  assumes "sorted_wrt (<) (map snd xs)" "xs = [] \<or> int (snd (last xs)) \<le> avail"
    and "(n, off) \<in> set xs" "\<forall>(n', off') \<in> set xs. n' = n \<longrightarrow> off' \<le> off"
  shows "\<exists>d. map_of (rev (deltas avail xs)) n = Some d \<and> tensor_range avail xs off d"
  using assms
proof (induction avail xs rule: deltas.induct)
  case (2 avail a ao)
  then show ?case
    by (simp add: tensor_range_def)
next
  case (3 avail a ao b bo xs)
  show ?case
  proof (cases "(n, off) = (a, ao)")
    case True
    have "int bo \<le> avail"
      using "3.prems" sorted_last_ge [of "(b, bo) # xs" "(b, bo)"] by (auto split: if_splits)
    moreover have "n \<notin> fst ` set ((b, bo) # xs)"
      using True "3.prems"(1,4) by fastforce
    then have "map_of (rev (deltas avail ((b, bo) # xs))) n = None"
      using keys_deltas [of avail "(b, bo) # xs"] by (metis image_set map_of_eq_None_iff set_rev)
    ultimately show ?thesis
      using True tensor_range_hd [OF "3.prems"(1)] by (simp add: map_add_def)
  next
    case False
    with "3.prems" have mem: "(n, off) \<in> set ((b, bo) # xs)"
      by auto
    with "3.IH" "3.prems" obtain d where "map_of (rev (deltas avail ((b, bo) # xs))) n = Some d"
      "tensor_range avail ((b, bo) # xs) off d"
      by auto
    moreover have "ao < off"
      using mem "3.prems"(1) by auto
    ultimately show ?thesis
      by (intro exI [of _ d]) (simp add: tensor_range_Cons)
  qed
qed simp

lemma sizes_of_infosD:
  assumes "sizes_of_infos fs ds infos = Inr sizes"
  shows "sorted_wrt (<) (map snd (sort_key snd infos))"
    "sort_key snd infos = [] \<or> int (snd (last (sort_key snd infos))) \<le> int fs - int ds"
    "sizes = dict_of (deltas (int fs - int ds) (sort_key snd infos))"
  using assms by (auto simp: sizes_of_infos_def Let_def dest: check_increasing_sorted)

lemma sizes_nonneg:
  assumes "sizes_of_infos fs ds infos = Inr sizes" "(n, d) \<in> set sizes"
  shows "0 \<le> d"
proof -
  note D = sizes_of_infosD [OF assms(1)]
  have "dget sizes n = Some d"
    using assms(2) unfolding D(3) by (simp add: map_of_is_SomeI)
  then have "(n, d) \<in> set (deltas (int fs - int ds) (sort_key snd infos))"
    unfolding D(3) dget_dict_of by (metis map_of_SomeD set_rev)
  with deltas_nonneg [OF D(1,2)] show ?thesis
    by blast
qed

lemma sum_dput_le:
  "0 \<le> v \<Longrightarrow> \<forall>p \<in> set d. 0 \<le> snd p \<Longrightarrow>
    sum_list (map snd (dput k v d)) \<le> v + sum_list (map snd d)" for v :: int
  by (induction d) auto

lemma dict_of_values: "p \<in> set (dict_of ps) \<Longrightarrow> p \<in> set ps"
proof -
  assume "p \<in> set (dict_of ps)"
  then have "dget (dict_of ps) (fst p) = Some (snd p)"
    by (simp add: map_of_is_SomeI)
  then show ?thesis
    unfolding dget_dict_of by (metis map_of_SomeD prod.collapse set_rev)
qed

lemma sum_dict_of_le:
  fixes ps :: "('k \<times> int) list"
  assumes "\<forall>p \<in> set ps. 0 \<le> snd p"
  shows "sum_list (map snd (dict_of ps)) \<le> sum_list (map snd ps)"
  using assms
proof (induction ps rule: rev_induct)
  case Nil
  then show ?case by (simp add: dict_of_def)
next
  case (snoc p ps)
  have "sum_list (map snd (dict_of (ps @ [p]))) \<le> snd p + sum_list (map snd (dict_of ps))"
    unfolding dict_of_snoc
  proof (rule sum_dput_le)
    show "\<forall>q \<in> set (dict_of ps). 0 \<le> snd q"
      using snoc.prems by (intro ballI) (drule dict_of_values, simp)
  qed (use snoc.prems in simp)
  with snoc show ?case
    by simp
qed

lemma sizes_sum_le:
  assumes "sizes_of_infos fs ds infos = Inr sizes"
  shows "sum_list (map snd sizes) \<le> int fs"
proof -
  note D = sizes_of_infosD [OF assms]
  let ?xs = "sort_key snd infos" and ?avail = "int fs - int ds"
  have "sum_list (map snd sizes) \<le> sum_list (map snd (deltas ?avail ?xs))"
    unfolding D(3) by (rule sum_dict_of_le) (use deltas_nonneg [OF D(1,2)] in fastforce)
  also have "\<dots> \<le> int fs"
    by (cases "?xs = []") (simp_all add: sum_deltas)
  finally show ?thesis .
qed

lemma sum_filter_le:
  "\<forall>p \<in> set d. 0 \<le> snd p \<Longrightarrow>
    0 \<le> sum_list (map snd (filter P d)) \<and> sum_list (map snd (filter P d)) \<le> sum_list (map snd d)"
  for d :: "('k \<times> int) list"
  by (induction d) auto

lemma tensor_sizesD:
  assumes "tensor_sizes file = Inr sizes"
  obtains ds infos where "tensor_table file = Inr (ds, infos)"
    "sizes_of_infos (length file) ds infos = Inr sizes"
  using assms by (auto simp: tensor_sizes_def)

lemma offload_bytes_bounds:
  assumes "tensor_sizes file = Inr sizes"
  shows "0 \<le> offload_bytes sizes n" "offload_bytes sizes n \<le> int (length file)"
proof -
  obtain ds infos where s: "sizes_of_infos (length file) ds infos = Inr sizes"
    using tensor_sizesD [OF assms] by blast
  have "\<forall>p \<in> set sizes. 0 \<le> snd p"
    using sizes_nonneg [OF s] by fastforce
  from sum_filter_le [OF this] sizes_sum_le [OF s]
  show "0 \<le> offload_bytes sizes n" "offload_bytes sizes n \<le> int (length file)"
    by (auto simp: offload_bytes_def intro: order_trans)
qed

section \<open>Geometry\<close>

lemma all_some_iff: "all_some xs = Some ys \<longleftrightarrow> xs = map Some ys"
  by (induction xs arbitrary: ys) (auto split: option.splits simp: Cons_eq_map_conv)

lemma pos_of_Some: "pos_of v = Some k \<Longrightarrow> 0 < k"
  by (cases v) (auto split: if_splits)

lemma typed_list_length: "typed_list f n v = Some ks \<Longrightarrow> length ks = n"
  by (auto simp: typed_list_def all_some_iff split: gguf_val.splits if_splits dest: map_eq_imp_length_eq)

lemma typed_list_pos:
  assumes "typed_list pos_of n v = Some ks"
  shows "\<forall>k \<in> set ks. 0 < k"
proof
  fix k
  assume "k \<in> set ks"
  moreover obtain vs where "map pos_of vs = map Some ks"
    using assms by (auto simp: typed_list_def all_some_iff split: gguf_val.splits if_splits)
  ultimately have "Some k \<in> set (map pos_of vs)"
    by simp
  then show "0 < k"
    by (auto dest: pos_of_Some [OF sym])
qed

lemma layer_valuesD:
  assumes "layer_values m arch n suffix = Inr ks"
  shows "length ks = n \<and> (\<forall>k \<in> set ks. 0 < k)"
proof -
  obtain v where v: "need m arch suffix = Inr v"
    using assms by (auto simp: layer_values_def)
  show ?thesis
  proof (cases "pos_of v")
    case None
    with assms v have "typed_list pos_of n v = Some ks"
      by (simp add: layer_values_def split: option.splits)
    then show ?thesis
      using typed_list_length typed_list_pos by blast
  next
    case (Some k)
    with assms v pos_of_Some [OF Some] show ?thesis
      by (auto simp: layer_values_def)
  qed
qed

lemma positive_intD: "positive_int m arch suffix = Inr k \<Longrightarrow> 0 < k"
  by (cases "need m arch suffix"; cases "projr (need m arch suffix)")
    (auto simp: positive_int_def split: if_splits)

lemma qwen_kinds_ok: "qwen_kinds m arch n = Inr ks \<Longrightarrow> length ks = n \<and> Swa \<notin> set ks"
  by (auto simp: qwen_kinds_def Let_def split: option.splits if_splits dest: typed_list_length)

lemma gemma_kinds_ok: "gemma_kinds m arch n = Inr ks \<Longrightarrow> length ks = n"
  using typed_list_length [of bool_of n]
  by (cases "need m arch ''attention.sliding_window_pattern''")
    (auto simp: gemma_kinds_def split: option.splits)

definition layer_wf :: "layer \<Rightarrow> bool" where
  "layer_wf l \<longleftrightarrow> 0 < head_count_kv l \<and> 0 < key_length l \<and> 0 < value_length l"

lemma zip_layers_wf:
  assumes "length hs = length ks" "length fks = length ks" "length fvs = length ks"
    "length sks = length ks" "length svs = length ks"
    "\<forall>x \<in> set hs \<union> set fks \<union> set fvs \<union> set sks \<union> set svs. 0 < x"
  shows "map kind (zip_layers ks hs fks fvs sks svs) = ks
    \<and> (\<forall>l \<in> set (zip_layers ks hs fks fvs sks svs). layer_wf l)"
  using assms
proof (induction ks hs fks fvs sks svs rule: zip_layers.induct)
  case (1 k ks h hs fk fks fv fvs sk sks sv svs)
  then show ?case
    by (auto simp: layer_wf_def)
qed auto

definition geometry_wf :: "geometry \<Rightarrow> bool" where
  "geometry_wf g \<longleftrightarrow>
     layers g \<noteq> [] \<and> (\<forall>l \<in> set (layers g). layer_wf l)
     \<and> (case sliding_window g of None \<Rightarrow> \<forall>l \<in> set (layers g). kind l \<noteq> Swa | Some w \<Rightarrow> 0 < w)"

lemma kinds_of_layers: "map kind ls = ks \<Longrightarrow> l \<in> set ls \<Longrightarrow> kind l \<in> set ks"
  by auto

section \<open>Properties\<close>

text \<open>
  C3: when the size table of a file is accepted, no two tensors start at the same offset, and the reported
  ranges are disjoint, lie inside the file and leave no gap. The size reported for a name is that of the
  tensor with the largest offset among those that carry the name (the loader does not refuse a repeated
  name); it is not negative, the data ends before that of any tensor with a larger offset begins, and it
  ends exactly at the next larger offset or at the end of the file.
\<close>

theorem tensor_ranges_disjoint:
  assumes "tensor_table file = Inr (ds, infos)" "tensor_sizes file = Inr sizes"
  shows "distinct (map snd infos) \<and> set (keys sizes) = fst ` set infos
    \<and> (\<forall>(n, off) \<in> set infos. (\<forall>(n', off') \<in> set infos. n' = n \<longrightarrow> off' \<le> off) \<longrightarrow>
         (\<exists>d. dget sizes n = Some d \<and> tensor_range (int (length file) - int ds) infos off d))"
proof -
  have s: "sizes_of_infos (length file) ds infos = Inr sizes"
    using assms by (simp add: tensor_sizes_def)
  note D = sizes_of_infosD [OF s]
  have "distinct (map snd (sort_key snd infos))"
    using D(1) strict_sorted_iff by blast
  then have "distinct (map snd infos)"
    by (metis card_distinct distinct_card image_set length_map length_sort set_sort)
  moreover have "fst ` set sizes = fst ` set infos"
    unfolding D(3) set_keys_dict_of using keys_deltas by (metis image_set set_sort)
  moreover have "\<exists>d. dget sizes n = Some d \<and> tensor_range (int (length file) - int ds) infos off d"
    if "(n, off) \<in> set infos" "\<forall>(n', off') \<in> set infos. n' = n \<longrightarrow> off' \<le> off" for n off
    using deltas_range [OF D(1,2), of n off] that by (simp add: D(3) dget_dict_of tensor_range_def)
  ultimately show ?thesis
    by auto
qed

text \<open>
  The part of a model that \<open>n_cpu_moe\<close> sends to the host is never negative, never larger than the
  file itself (so the weights charged to the GPU cannot become negative), and does not shrink when
  more blocks are offloaded.
\<close>

lemma ceil_mib_mono: "a \<le> b \<Longrightarrow> ceil_mib a \<le> ceil_mib b"
  unfolding ceil_mib_def by (intro ceiling_mono fl_mono divide_right_mono) simp_all

lemma ceil_mib_nonneg: "0 \<le> a \<Longrightarrow> 0 \<le> ceil_mib a"
  using ceil_mib_mono [of 0 a] by (simp add: ceil_mib_def)

theorem moe_offload_bounds:
  assumes "moe_expert_offload_mib file m n = Inr k"
  shows "0 \<le> k \<and> k \<le> ceil_mib (int (length file))
    \<and> (\<forall>n' k'. n \<le> n' \<longrightarrow> moe_expert_offload_mib file m n' = Inr k' \<longrightarrow> k \<le> k')"
proof -
  have bounds: "0 \<le> k" "k \<le> ceil_mib (int (length file))"
    if "moe_expert_offload_mib file m n = Inr k" for n k
    using that offload_bytes_bounds(1) offload_bytes_bounds(2)
    by (auto simp: moe_expert_offload_mib_def ceil_mib_nonneg split: if_splits intro!: ceil_mib_mono)
  have mono: "k \<le> k'" if "n \<le> n'" "moe_expert_offload_mib file m n' = Inr k'" for n' k'
  proof (cases "n \<le> 0")
    case True
    then have "k = 0"
      using assms by (auto simp: moe_expert_offload_mib_def)
    with bounds(1) [OF that(2)] show ?thesis
      by simp
  next
    case False
    then obtain sizes where sizes: "tensor_sizes file = Inr sizes"
      and k: "k = ceil_mib (offload_bytes sizes n)"
      using assms by (auto simp: moe_expert_offload_mib_def)
    with that False have k': "k' = ceil_mib (offload_bytes sizes n')"
      by (auto simp: moe_expert_offload_mib_def split: if_splits)
    obtain ds infos where s: "sizes_of_infos (length file) ds infos = Inr sizes"
      using tensor_sizesD [OF sizes] by blast
    have "offload_bytes sizes n \<le> offload_bytes sizes n'"
      using sizes_nonneg [OF s] that(1) unfolding offload_bytes_def
      by (induction sizes) (fastforce split: option.splits)+
    with k k' show ?thesis
      by (simp add: ceil_mib_mono)
  qed
  show ?thesis
    using bounds [OF assms] mono by blast
qed

text \<open>
  C8: an accepted geometry has exactly one layer per block of the model, positive head counts and
  lengths everywhere, and a positive sliding window whenever a layer uses one.
\<close>

theorem kv_geometry_wf:
  assumes "kv_geometry m = Inr g"
  shows "geometry_wf g
    \<and> (\<exists>arch. architecture m = Inr arch
         \<and> positive_int m arch ''block_count'' = Inr (int (length (layers g))))"
proof -
  obtain arch bc heads fk fv kinds where arch: "architecture m = Inr arch"
    and bc: "positive_int m arch ''block_count'' = Inr bc"
    and lv: "layer_values m arch (nat bc) ''attention.head_count_kv'' = Inr heads"
      "layer_values m arch (nat bc) ''attention.key_length'' = Inr fk"
      "layer_values m arch (nat bc) ''attention.value_length'' = Inr fv"
    and kinds: "(if arch \<in> {ucs ''qwen35'', ucs ''qwen35moe''} then qwen_kinds m arch (nat bc)
                 else Inr (replicate (nat bc) Full)) = Inr kinds"
    and rest: "(if arch = ucs ''gemma4'' then
         bindR (gemma_kinds m arch (nat bc)) (\<lambda>kinds'.
         bindR (positive_int m arch ''attention.sliding_window'') (\<lambda>sw.
         bindR (layer_values m arch (nat bc) ''attention.key_length_swa'') (\<lambda>sk.
         bindR (layer_values m arch (nat bc) ''attention.value_length_swa'') (\<lambda>sv.
           Inr \<lparr>layers = zip_layers kinds' heads fk fv sk sv, sliding_window = Some sw\<rparr>))))
       else Inr \<lparr>layers = zip_layers kinds heads fk fv fk fv, sliding_window = None\<rparr>) = Inr g"
    using assms unfolding kv_geometry_def Let_def by (auto simp only: bindR_eq_Inr)
  note bc0 = positive_intD [OF bc] and L = lv [THEN layer_valuesD]
  show ?thesis
  proof (cases "arch = ucs ''gemma4''")
    case True
    then obtain ks sw sk sv where g: "gemma_kinds m arch (nat bc) = Inr ks"
      "positive_int m arch ''attention.sliding_window'' = Inr sw"
      "layer_values m arch (nat bc) ''attention.key_length_swa'' = Inr sk"
      "layer_values m arch (nat bc) ''attention.value_length_swa'' = Inr sv"
      "g = \<lparr>layers = zip_layers ks heads fk fv sk sv, sliding_window = Some sw\<rparr>"
      using rest by auto
    have "map kind (layers g) = ks \<and> (\<forall>l \<in> set (layers g). layer_wf l)"
      using zip_layers_wf [of heads ks fk fv sk sv] L g(3,4) [THEN layer_valuesD] gemma_kinds_ok [OF g(1)] g(5)
      by (simp add: ball_Un)
    moreover have "length (layers g) = nat bc"
      using calculation gemma_kinds_ok [OF g(1)] by (metis length_map)
    ultimately show ?thesis
      using arch bc bc0 positive_intD [OF g(2)] g(5) by (auto simp: geometry_wf_def)
  next
    case False
    have ks: "length kinds = nat bc \<and> Swa \<notin> set kinds"
      using kinds qwen_kinds_ok [of m arch "nat bc" kinds] by (auto split: if_splits)
    have g: "g = \<lparr>layers = zip_layers kinds heads fk fv fk fv, sliding_window = None\<rparr>"
      using rest False by simp
    have "map kind (layers g) = kinds \<and> (\<forall>l \<in> set (layers g). layer_wf l)"
      using zip_layers_wf [of heads kinds fk fv fk fv] L ks g by (simp add: ball_Un)
    moreover have "length (layers g) = nat bc"
      using calculation ks by (metis length_map)
    moreover have "\<forall>l \<in> set (layers g). kind l \<noteq> Swa"
      using calculation(1) ks by (auto dest: kinds_of_layers [OF refl])
    moreover have "layers g \<noteq> []"
      using calculation(2) bc0 by auto
    ultimately show ?thesis
      using arch bc bc0 g by (simp add: geometry_wf_def)
  qed
qed

end
