(* ===== verification/Gguf_Codec.thy ===== *)
theory Gguf_Codec
  imports Gguf
begin

text \<open>
  The GGUF header as a wire format. The theory writes a header the way the format prescribes and
  shows that the reader of \<open>Gguf\<close> gives back what was written: the interface \<open>codec\<close> is the contract
  of one wire element, and it is interpreted for the unsigned integers, the strings and the array
  elements the header is made of.
\<close>

section \<open>Round trip: the byte format as a codec\<close>

text \<open>
  A codec is a writer and a reader such that reading what was written gives the value back and leaves
  the bytes that follow. The contract is closed under repetition, which is what the reader's loops
  need; every wire element of the header provides it.
\<close>

locale codec =
  fixes enc :: "'a \<Rightarrow> byte list" and rd :: "'a reader" and ok :: "'a \<Rightarrow> bool"
  assumes read_enc: "ok x \<Longrightarrow> rd (enc x @ rest) = Inr (x, rest)"
begin

lemma read_many_enc:
  "\<forall>x \<in> set xs. ok x \<Longrightarrow> read_many (length xs) rd (concat (map enc xs) @ rest) = Inr (xs, rest)"
  by (induction xs) (simp_all add: read_enc)

end

lemma read_exact_append [simp]: "length d = n \<Longrightarrow> n < 2 ^ 63 \<Longrightarrow> read_exact n (d @ rest) = Inr (d, rest)"
  by (simp add: read_exact_def)

lemma skip_exact_append [simp]: "length d = n \<Longrightarrow> skip_exact n (d @ rest) = Inr ((), rest)"
  by (simp add: skip_exact_def)

definition uint_ok :: "nat \<Rightarrow> nat \<Rightarrow> bool" where
  "uint_ok k n \<longleftrightarrow> k < 2 ^ 63 \<and> n < 256 ^ k"

lemma read_uint_enc: "uint_ok k n \<Longrightarrow> read_uint k (le_bytes k n @ rest) = Inr (n, rest)"
  by (simp add: read_uint_def uint_ok_def)

interpretation uint_codec: codec "le_bytes k" "read_uint k" "uint_ok k" for k
  by unfold_locales (rule read_uint_enc)

definition enc_string :: "ustr \<Rightarrow> byte list" where
  "enc_string s = le_bytes 8 (length s) @ map word_of_nat s"

definition string_ok :: "ustr \<Rightarrow> bool" where
  "string_ok s \<longleftrightarrow> length s < 2 ^ 63 \<and> (\<forall>c \<in> set s. c < 128)"

lemma map_unat_word_of_nat: "\<forall>c \<in> set s. c < 128 \<Longrightarrow> map unat (map word_of_nat s :: byte list) = s"
  by (induction s) (simp_all add: unat_of_nat)

lemma read_string_enc: "string_ok s \<Longrightarrow> read_string (enc_string s @ rest) = Inr (s, rest)"
  using map_unat_word_of_nat [of s]
  by (simp add: read_string_def enc_string_def string_ok_def uint_codec.read_enc uint_ok_def
      utf8_decode_ascii del: map_map)

interpretation string_codec: codec enc_string read_string string_ok
  by unfold_locales (rule read_string_enc)

text \<open>Array elements and scalar values of one type.\<close>

definition enc_element :: "nat \<Rightarrow> gguf_val \<Rightarrow> byte list" where
  "enc_element t v =
     (case v of
        GInt n \<Rightarrow> (case scalar_size t of None \<Rightarrow> [] | Some k \<Rightarrow> le_bytes k (nat (n mod 2 ^ (8 * k))))
      | GFloat32 n \<Rightarrow> le_bytes 4 n
      | GFloat64 n \<Rightarrow> le_bytes 8 n
      | GBool b \<Rightarrow> le_bytes 1 (if b then 1 else 0)
      | GStr s \<Rightarrow> enc_string s
      | _ \<Rightarrow> [])"

definition signed_type :: "nat \<Rightarrow> bool" where
  "signed_type t \<longleftrightarrow> t \<in> {1, 3, 5, 11}"

definition element_ok :: "nat \<Rightarrow> gguf_val \<Rightarrow> bool" where
  "element_ok t v =
     (case v of
        GInt n \<Rightarrow>
          (case scalar_size t of
             None \<Rightarrow> False
           | Some k \<Rightarrow> t \<notin> {6, 7, 12} \<and>
               (if signed_type t then - (2 ^ (8 * k - 1)) \<le> n \<and> n < 2 ^ (8 * k - 1)
                else 0 \<le> n \<and> n < 2 ^ (8 * k)))
      | GFloat32 n \<Rightarrow> t = 6 \<and> n < 256 ^ 4
      | GFloat64 n \<Rightarrow> t = 12 \<and> n < 256 ^ 8
      | GBool b \<Rightarrow> t = 7
      | GStr s \<Rightarrow> t = T_STRING \<and> string_ok s
      | _ \<Rightarrow> False)"

lemma signed_of_mod:
  assumes "0 < k" "- (2 ^ (8 * k - 1)) \<le> n" "n < 2 ^ (8 * k - 1)"
  shows "signed_of k (nat (n mod 2 ^ (8 * k))) = n"
proof -
  have half: "(2::int) ^ (8 * k) = 2 * 2 ^ (8 * k - 1)"
    using assms(1) by (simp flip: power_Suc)
  show ?thesis
  proof (cases "0 \<le> n")
    case True
    with assms half have "n mod 2 ^ (8 * k) = n"
      by simp
    with True assms(3) show ?thesis
      by (simp add: signed_of_def nat_less_iff)
  next
    case False
    with assms half have "(n + 2 ^ (8 * k)) mod 2 ^ (8 * k) = n + 2 ^ (8 * k)"
      by (intro mod_pos_pos_trivial) auto
    then have m: "n mod 2 ^ (8 * k) = n + 2 ^ (8 * k)"
      by simp
    have "0 \<le> n + 2 ^ (8 * k)" "2 ^ (8 * k - 1) \<le> n + 2 ^ (8 * k)"
      using assms half by auto
    then have "\<not> nat (n + 2 ^ (8 * k)) < 2 ^ (8 * k - 1)"
      by (metis linorder_not_less nat_less_iff of_nat_numeral of_nat_power)
    with m \<open>0 \<le> n + 2 ^ (8 * k)\<close> show ?thesis
      by (simp add: signed_of_def)
  qed
qed

lemma scalar_size_cases:
  "scalar_size t = Some k \<Longrightarrow> k \<in> {1, 2, 4, 8}" "scalar_size T_STRING = None" "scalar_size T_ARRAY = None"
  by (auto simp: scalar_size_def T_STRING_def T_ARRAY_def split: if_splits)

lemma nat_mod_less: "nat (n mod 2 ^ (8 * k)) < 256 ^ k"
proof -
  have "n mod 2 ^ (8 * k) < 2 ^ (8 * k)"
    by simp
  also have "(2::int) ^ (8 * k) = int (256 ^ k)"
    by (simp add: power_mult)
  finally show ?thesis
    by (simp add: nat_less_iff)
qed

lemma read_int_element:
  assumes "element_ok t (GInt n)"
  shows "read_element t (enc_element t (GInt n) @ rest) = Inr (GInt n, rest)"
proof -
  obtain k where k: "scalar_size t = Some k" and t: "t \<notin> {6, 7, 12}"
    and range: "if signed_type t then - (2 ^ (8 * k - 1)) \<le> n \<and> n < 2 ^ (8 * k - 1)
                else 0 \<le> n \<and> n < 2 ^ (8 * k)"
    using assms by (auto simp: element_ok_def split: option.splits)
  have kpos: "0 < k" "k < 2 ^ 63"
    using scalar_size_cases(1) [OF k] by auto
  have le: "le_nat (le_bytes k (nat (n mod 2 ^ (8 * k)))) = nat (n mod 2 ^ (8 * k))"
    by (rule le_nat_le_bytes [OF nat_mod_less])
  have "scalar_value t (le_bytes k (nat (n mod 2 ^ (8 * k)))) = GInt n"
  proof (cases "signed_type t")
    case True
    with range have "signed_of k (nat (n mod 2 ^ (8 * k))) = n"
      by (intro signed_of_mod [OF kpos(1)]) auto
    with True t show ?thesis
      by (simp add: scalar_value_def signed_type_def le)
  next
    case False
    with range t le show ?thesis
      by (simp add: scalar_value_def signed_type_def)
  qed
  with k kpos show ?thesis
    by (simp add: read_element_def enc_element_def)
qed

lemma read_element_enc:
  assumes "element_ok t v"
  shows "read_element t (enc_element t v @ rest) = Inr (v, rest)"
proof (cases v)
  case (GInt n)
  with assms show ?thesis by (simp add: read_int_element)
next
  case (GFloat32 n)
  with assms have "t = 6" "n < 256 ^ 4" by (simp_all add: element_ok_def)
  with GFloat32 show ?thesis
    by (simp add: read_element_def enc_element_def scalar_size_def scalar_value_def
        le_nat_le_bytes [of n 4] del: le_bytes.simps)
next
  case (GFloat64 n)
  with assms have "t = 12" "n < 256 ^ 8" by (simp_all add: element_ok_def)
  with GFloat64 show ?thesis
    by (simp add: read_element_def enc_element_def scalar_size_def scalar_value_def
        le_nat_le_bytes [of n 8] del: le_bytes.simps)
next
  case (GBool b)
  with assms have "t = 7" by (simp add: element_ok_def)
  with GBool show ?thesis
    using read_exact_append [of "le_bytes 1 (if b then 1 else 0)" 1 rest]
    by (simp add: read_element_def enc_element_def scalar_size_def scalar_value_def
        le_nat_le_bytes [of "if b then 1 else 0" 1] del: le_bytes.simps)
next
  case (GStr s)
  with assms show ?thesis
    by (simp add: element_ok_def read_element_def enc_element_def scalar_size_cases
        string_codec.read_enc)
qed (use assms in \<open>simp_all add: element_ok_def\<close>)

interpretation element_codec: codec "enc_element t" "read_element t" "element_ok t" for t
  by unfold_locales (rule read_element_enc)

text \<open>
  A metadata entry on the wire: a typed scalar or string, or a typed array. An array above the inline
  limit comes back as a summary of its type and length, whatever its elements.
\<close>

datatype field = Plain nat gguf_val | Array nat "gguf_val list"

fun field_type :: "field \<Rightarrow> nat" where
  "field_type (Plain t v) = t"
| "field_type (Array et vs) = T_ARRAY"

fun enc_field :: "field \<Rightarrow> byte list" where
  "enc_field (Plain t v) = enc_element t v"
| "enc_field (Array et vs) =
     le_bytes 4 et @ le_bytes 8 (length vs) @ concat (map (enc_element et) vs)"

fun field_ok :: "field \<Rightarrow> bool" where
  "field_ok (Plain t v) \<longleftrightarrow> element_ok t v"
| "field_ok (Array et vs) \<longleftrightarrow>
     et < 256 ^ 4 \<and> et \<noteq> T_ARRAY \<and> length vs \<le> MAX_ARRAY_ELEMENTS \<and> (\<forall>v \<in> set vs. element_ok et v)
     \<and> (vs = [] \<or> scalar_size et \<noteq> None \<or> et = T_STRING)"

fun field_value :: "field \<Rightarrow> gguf_val" where
  "field_value (Plain t v) = v"
| "field_value (Array et vs) =
     (if length vs \<le> MAX_INLINE_ARRAY_ELEMENTS then GList vs else GSummary et (length vs))"

lemma skip_string_enc: "string_ok s \<Longrightarrow> skip_string (enc_string s @ rest) = Inr ((), rest)"
  by (simp add: skip_string_def enc_string_def string_ok_def uint_codec.read_enc uint_ok_def)

lemma skip_strings_enc:
  "\<forall>v \<in> set vs. element_ok T_STRING v \<Longrightarrow>
    \<exists>us. read_many (length vs) skip_string (concat (map (enc_element T_STRING) vs) @ rest) = Inr (us, rest)"
proof (induction vs)
  case Nil
  then show ?case by simp
next
  case (Cons v vs)
  then obtain s where "v = GStr s" "string_ok s"
    by (cases v) (auto simp: element_ok_def T_STRING_def scalar_size_def split: option.splits if_splits)
  with Cons show ?case
    by (auto simp: enc_element_def skip_string_enc)
qed

lemma length_enc_element:
  assumes "element_ok t v" "scalar_size t = Some k"
  shows "length (enc_element t v) = k"
  using assms
  by (cases v) (auto simp: element_ok_def enc_element_def scalar_size_def T_STRING_def split: if_splits)

lemma skip_payload_enc:
  assumes "\<forall>v \<in> set vs. element_ok et v" "scalar_size et \<noteq> None \<or> et = T_STRING"
  shows "skip_array_payload et (length vs) (concat (map (enc_element et) vs) @ rest) = Inr ((), rest)"
proof (cases "scalar_size et")
  case (Some k)
  then have "length (concat (map (enc_element et) vs)) = k * length vs"
    using assms(1) by (induction vs) (simp_all add: length_enc_element)
  with Some show ?thesis
    by (simp add: skip_array_payload_def)
next
  case None
  with assms skip_strings_enc [of vs rest] show ?thesis
    by (auto simp: skip_array_payload_def)
qed

lemma max_bounds: "MAX_ARRAY_ELEMENTS < 256 ^ 8" "MAX_INLINE_ARRAY_ELEMENTS < 256 ^ 8"
  by (simp_all add: MAX_ARRAY_ELEMENTS_def MAX_INLINE_ARRAY_ELEMENTS_def)

lemma read_value_enc:
  assumes "field_ok f"
  shows "read_value (field_type f) (enc_field f @ rest) = Inr (field_value f, rest)"
proof (cases f)
  case (Plain t v)
  with assms have "t \<noteq> T_ARRAY"
    by (cases v) (auto simp: element_ok_def T_ARRAY_def T_STRING_def scalar_size_def split: option.splits if_splits)
  with Plain assms show ?thesis
    by (simp add: read_value_def element_codec.read_enc)
next
  case (Array et vs)
  with assms max_bounds have "uint_ok 4 et" "uint_ok 8 (length vs)"
    by (simp_all add: uint_ok_def)
  moreover from Array assms
  have "vs = [] \<or> scalar_size et \<noteq> None \<or> et = T_STRING" "\<forall>v \<in> set vs. element_ok et v"
    by simp_all
  ultimately show ?thesis
    using Array assms element_codec.read_many_enc [of vs et rest] skip_payload_enc [of vs et rest]
    by (auto simp: read_value_def read_array_def uint_codec.read_enc MAX_INLINE_ARRAY_ELEMENTS_def)
qed

definition enc_kv :: "ustr \<times> field \<Rightarrow> byte list" where
  "enc_kv kv = enc_string (fst kv) @ le_bytes 4 (field_type (snd kv)) @ enc_field (snd kv)"

definition kv_ok :: "ustr \<times> field \<Rightarrow> bool" where
  "kv_ok kv \<longleftrightarrow> string_ok (fst kv) \<and> field_ok (snd kv)"

lemma field_type_bound: "field_ok f \<Longrightarrow> field_type f < 256 ^ 4"
proof (cases f)
  case (Plain t v)
  then show "field_ok f \<Longrightarrow> ?thesis"
    by (cases v) (auto simp: element_ok_def T_STRING_def scalar_size_def split: option.splits if_splits)
qed (simp add: T_ARRAY_def)

lemma read_kv_enc:
  "kv_ok kv \<Longrightarrow> read_kv (enc_kv kv @ rest) = Inr ((fst kv, field_value (snd kv)), rest)"
  using field_type_bound [of "snd kv"]
  by (simp add: read_kv_def enc_kv_def kv_ok_def string_codec.read_enc uint_codec.read_enc
      uint_ok_def read_value_enc)

lemma read_kvs_enc:
  "\<forall>kv \<in> set kvs. kv_ok kv \<Longrightarrow>
    read_many (length kvs) read_kv (concat (map enc_kv kvs) @ rest) =
      Inr (map (\<lambda>kv. (fst kv, field_value (snd kv))) kvs, rest)"
  by (induction kvs) (simp_all add: read_kv_enc)

definition enc_preamble :: "nat \<Rightarrow> nat \<Rightarrow> (ustr \<times> field) list \<Rightarrow> byte list" where
  "enc_preamble ver tc kvs =
     GGUF_MAGIC @ le_bytes 4 ver @ (le_bytes 8 tc @ le_bytes 8 (length kvs)) @ concat (map enc_kv kvs)"

definition preamble_ok :: "nat \<Rightarrow> nat \<Rightarrow> (ustr \<times> field) list \<Rightarrow> bool" where
  "preamble_ok ver tc kvs \<longleftrightarrow>
     ver < 256 ^ 4 \<and> tc < 256 ^ 8 \<and> length kvs \<le> MAX_METADATA_ENTRIES \<and> (\<forall>kv \<in> set kvs. kv_ok kv)"

lemma read_preamble_enc:
  assumes "preamble_ok ver tc kvs"
  shows "read_preamble (enc_preamble ver tc kvs @ rest) =
    Inr (\<lparr>version = ver, tensor_count = tc,
          metadata = dict_of (map (\<lambda>kv. (fst kv, field_value (snd kv))) kvs)\<rparr>, rest)"
proof -
  have "uint_ok 4 ver" "tc < 256 ^ 8" "length kvs < 256 ^ 8" "length kvs \<le> MAX_METADATA_ENTRIES"
    and kvs: "\<forall>kv \<in> set kvs. kv_ok kv"
    using assms by (simp_all add: preamble_ok_def uint_ok_def MAX_METADATA_ENTRIES_def)
  moreover have "length GGUF_MAGIC = 4"
    by (simp add: GGUF_MAGIC_def)
  ultimately show ?thesis
    using read_exact_append [of "le_bytes 8 tc @ le_bytes 8 (length kvs)" 16]
    by (simp add: read_preamble_def enc_preamble_def uint_codec.read_enc read_kvs_enc)
qed

section \<open>Properties\<close>

text \<open>
  C7: reading a well-formed header gives back the version, the tensor count and every metadata entry
  (a repeated key keeps its first position and its last value; an array of more than 4096 elements
  is summarised by its type and length), whatever bytes follow the header.
\<close>

theorem gguf_header_roundtrip:
  assumes "preamble_ok ver tc kvs"
  shows "read_gguf_header (enc_preamble ver tc kvs @ rest) =
    Inr \<lparr>version = ver, tensor_count = tc,
         metadata = dict_of (map (\<lambda>kv. (fst kv, field_value (snd kv))) kvs)\<rparr>"
  by (simp add: read_gguf_header_def read_preamble_enc [OF assms])

definition sample_kvs :: "(ustr \<times> field) list" where
  "sample_kvs =
     [(ucs ''general.architecture'', Plain T_STRING (GStr (ucs ''llama''))),
      (ucs ''llama.block_count'', Plain 4 (GInt 2)),
      (ucs ''x'', Array 3 [GInt (- 2), GInt 7])]"

lemma sample_kvs_ok: "preamble_ok 3 0 sample_kvs"
  by (simp add: preamble_ok_def sample_kvs_def MAX_METADATA_ENTRIES_def kv_ok_def string_ok_def ucs_def
      element_ok_def T_STRING_def T_ARRAY_def scalar_size_def signed_type_def MAX_ARRAY_ELEMENTS_def)

theorem gguf_header_roundtrip_witness:
  "read_gguf_header (enc_preamble 3 0 sample_kvs @ [1, 2]) =
    Inr \<lparr>version = 3, tensor_count = 0,
         metadata = dict_of (map (\<lambda>kv. (fst kv, field_value (snd kv))) sample_kvs)\<rparr>"
  by (rule gguf_header_roundtrip [OF sample_kvs_ok])

section \<open>Tensor descriptors\<close>

text \<open>A descriptor on the wire: its name, its number of dimensions, its type and its offset.\<close>

type_synonym tensor_desc = "ustr \<times> nat \<times> nat \<times> nat"

fun desc_entry :: "tensor_desc \<Rightarrow> ustr \<times> nat" where
  "desc_entry (name, nd, ty, off) = (name, off)"

fun enc_desc :: "tensor_desc \<Rightarrow> byte list" where
  "enc_desc (name, nd, ty, off) =
     enc_string name @ le_bytes 4 nd @ replicate (8 * nd) 0 @ le_bytes 4 ty @ le_bytes 8 off"

fun desc_ok :: "nat \<Rightarrow> tensor_desc \<Rightarrow> bool" where
  "desc_ok al (name, nd, ty, off) \<longleftrightarrow>
     string_ok name \<and> nd < 256 ^ 4 \<and> off < 256 ^ 8 \<and> off mod al = 0"

lemma read_tensor_info_enc:
  assumes "desc_ok al d"
  shows "read_tensor_info al (enc_desc d @ rest) = Inr (desc_entry d, rest)"
proof (cases d)
  case (fields name nd ty off)
  then show ?thesis
    using assms skip_exact_append [of "replicate (8 * nd) 0" "8 * nd"]
      skip_exact_append [of "le_bytes 4 ty" 4]
    by (simp add: read_tensor_info_def string_codec.read_enc uint_codec.read_enc uint_ok_def)
qed

lemma read_tensor_infos_enc:
  "\<forall>d \<in> set ds. desc_ok al d \<Longrightarrow>
    read_many (length ds) (read_tensor_info al) (concat (map enc_desc ds) @ rest) =
      Inr (map desc_entry ds, rest)"
  by (induction ds) (simp_all add: read_tensor_info_enc)

definition enc_file :: "nat \<Rightarrow> (ustr \<times> field) list \<Rightarrow> tensor_desc list \<Rightarrow> byte list \<Rightarrow> byte list" where
  "enc_file ver kvs ds payload =
     enc_preamble ver (length ds) kvs @ concat (map enc_desc ds) @ payload"

definition kv_dict :: "(ustr \<times> field) list \<Rightarrow> metadata" where
  "kv_dict kvs = dict_of (map (\<lambda>kv. (fst kv, field_value (snd kv))) kvs)"

text \<open>
  The tensor table of a well-formed file is the list of its descriptors, and the data section
  starts at the first multiple of the file's alignment after the descriptors.
\<close>

theorem tensor_table_roundtrip:
  assumes "preamble_ok ver (length ds) kvs" "alignment (kv_dict kvs) = Inr al"
    and "\<forall>d \<in> set ds. desc_ok al d"
  shows "tensor_table (enc_file ver kvs ds payload) =
    Inr (tensor_data_start (length (enc_preamble ver (length ds) kvs @ concat (map enc_desc ds))) al,
         map desc_entry ds)"
  using assms read_preamble_enc [OF assms(1)]
  by (simp add: tensor_table_def enc_file_def kv_dict_def read_tensor_infos_enc)

definition sample_descs :: "tensor_desc list" where
  "sample_descs = [(ucs ''b'', 0, 0, 32), (ucs ''blk.0.ffn_up_exps.scale'', 1, 0, 0)]"

definition sample_file :: "byte list" where
  "sample_file = enc_file 3 [] sample_descs (replicate 112 7)"

lemma sample_hyps:
  "preamble_ok 3 (length sample_descs) []" "alignment (kv_dict []) = Inr 32"
  "\<forall>d \<in> set sample_descs. desc_ok 32 d"
  by (simp_all add: preamble_ok_def sample_descs_def kv_dict_def dict_of_def alignment_def
      DEFAULT_ALIGNMENT_def string_ok_def ucs_def)

theorem tensor_table_roundtrip_witness:
  "tensor_table sample_file =
    Inr (tensor_data_start (length (enc_preamble 3 (length sample_descs) [] @ concat (map enc_desc sample_descs))) 32,
         map desc_entry sample_descs)"
  unfolding sample_file_def by (rule tensor_table_roundtrip [OF sample_hyps])

lemma sample_table: "tensor_table sample_file = Inr (128, [(ucs ''b'', 32), (ucs ''blk.0.ffn_up_exps.scale'', 0)])"
proof -
  have "length (enc_preamble 3 (length sample_descs) [] @ concat (map enc_desc sample_descs)) = 104"
    by (simp add: enc_preamble_def sample_descs_def GGUF_MAGIC_def enc_string_def ucs_def)
  then show ?thesis
    using read_preamble_enc [OF sample_hyps(1)] sample_hyps
    by (simp add: tensor_table_def sample_file_def enc_file_def kv_dict_def read_tensor_infos_enc
        tensor_data_start_def) (simp add: sample_descs_def)
qed

lemma length_sample_file: "length sample_file = 216"
  by (simp add: sample_file_def enc_file_def enc_preamble_def sample_descs_def GGUF_MAGIC_def
      enc_string_def ucs_def)

lemma sample_sizes: "tensor_sizes sample_file = Inr [(ucs ''blk.0.ffn_up_exps.scale'', 32), (ucs ''b'', 56)]"
  by (simp add: tensor_sizes_def sample_table length_sample_file sizes_of_infos_def ucs_def dict_of_def)

theorem tensor_ranges_disjoint_witness:
  "distinct (map snd [(ucs ''b'', 32 :: nat), (ucs ''blk.0.ffn_up_exps.scale'', 0)])
    \<and> tensor_range (int (length sample_file) - int 128) [(ucs ''b'', 32), (ucs ''blk.0.ffn_up_exps.scale'', 0)] 32 56"
  using tensor_ranges_disjoint [OF sample_table sample_sizes] by (simp add: ucs_def)

definition sample_moe :: metadata where
  "sample_moe =
     [(ucs ''general.architecture'', GStr (ucs ''moe'')), (ucs ''moe.expert_count'', GInt 8)]"

lemma ceil_mib_32: "ceil_mib 32 = 1"
proof -
  have "(1 :: rat) * 2 powi (- 15) = 1 / 32768"
    by (simp add: power_int_minus)
  then have "fl (1 / 32768) = 1 / 32768"
    using fl_exact [of 1 "-15"] by simp
  then have "0 < fl (1 / 32768)" "fl (1 / 32768) \<le> 1"
    by simp_all
  then show ?thesis
    by (simp add: ceil_mib_def ceiling_eq_iff)
qed

lemma sample_offload: "moe_expert_offload_mib sample_file sample_moe 1 = Inr 1"
  by (simp add: moe_expert_offload_mib_def architecture_def sample_moe_def sample_sizes ucs_def
      offload_bytes_def expert_block_def strip_prefix_def digit_value_def nd_starts_def
      expert_suffixes_def ceil_mib_32)

theorem moe_offload_bounds_witness:
  "(0::int) \<le> 1 \<and> 1 \<le> ceil_mib (int (length sample_file))"
  using moe_offload_bounds [OF sample_offload] by blast

definition sample_gemma :: metadata where
  "sample_gemma =
     map (\<lambda>(k, v). (ucs k, v))
       [(''general.architecture'', GStr (ucs ''gemma4'')),
        (''gemma4.block_count'', GInt 2),
        (''gemma4.attention.head_count_kv'', GList [GInt 8, GInt 4]),
        (''gemma4.attention.key_length'', GInt 128),
        (''gemma4.attention.value_length'', GInt 128),
        (''gemma4.attention.sliding_window_pattern'', GList [GBool True, GBool False]),
        (''gemma4.attention.sliding_window'', GInt 1024),
        (''gemma4.attention.key_length_swa'', GInt 64),
        (''gemma4.attention.value_length_swa'', GInt 64)]"

definition sample_geometry :: geometry where
  "sample_geometry =
     \<lparr>layers = [mk_layer Swa 8 128 128 64 64, mk_layer Full 4 128 128 64 64],
      sliding_window = Some 1024\<rparr>"

lemma replicate_two: "replicate 2 x = [x, x]"
  by (simp add: eval_nat_numeral)

lemma sample_geometry_eq: "kv_geometry sample_gemma = Inr sample_geometry"
  by (simp add: kv_geometry_def sample_gemma_def architecture_def positive_int_def need_def ucs_def
      layer_values_def gemma_kinds_def typed_list_def sample_geometry_def replicate_two)

theorem kv_geometry_wf_witness:
  "geometry_wf sample_geometry
    \<and> (\<exists>arch. architecture sample_gemma = Inr arch
         \<and> positive_int sample_gemma arch ''block_count'' = Inr (int (length (layers sample_geometry))))"
  by (rule kv_geometry_wf [OF sample_geometry_eq])

text \<open>
  An entry that cannot be read: the declared length of its key, or of its string value, does not fit a
  signed 64-bit word.
\<close>

definition oversized_entry :: "byte list \<Rightarrow> bool" where
  "oversized_entry bs \<longleftrightarrow>
     (\<exists>len. 2 ^ 63 \<le> len \<and> len < 2 ^ 64
        \<and> (bs = le_bytes 8 len
           \<or> (\<exists>key. string_ok key \<and> bs = enc_string key @ le_bytes 4 T_STRING @ le_bytes 8 len)))"

lemma read_string_oversized:
  assumes "2 ^ 63 \<le> len" "len < 2 ^ 64"
  shows "read_string (le_bytes 8 len @ rest) = Inl Size_overflow"
proof -
  have "uint_ok 8 len"
    using assms(2) by (simp add: uint_ok_def)
  then have "read_uint 8 (le_bytes 8 len @ rest) = Inr (len, rest)"
    by (rule uint_codec.read_enc)
  with assms(1) show ?thesis
    by (simp only: read_string_def bindR_Inr prod.case read_exact_def if_True bindR_Inl)
qed

lemma read_kv_oversized:
  assumes "oversized_entry bs"
  shows "read_kv (bs @ rest) = Inl Size_overflow"
proof -
  obtain len where len: "2 ^ 63 \<le> len" "len < 2 ^ 64"
    and bs: "bs = le_bytes 8 len \<or> (\<exists>key. string_ok key \<and> bs = enc_string key @ le_bytes 4 T_STRING @ le_bytes 8 len)"
    using assms unfolding oversized_entry_def by blast
  from bs show ?thesis
  proof (elim disjE exE conjE)
    assume "bs = le_bytes 8 len"
    with read_string_oversized [OF len] show ?thesis
      by (simp only: read_kv_def bindR_Inl)
  next
    fix key
    assume "string_ok key" "bs = enc_string key @ le_bytes 4 T_STRING @ le_bytes 8 len"
    moreover have "uint_ok 4 T_STRING"
      by (simp add: uint_ok_def T_STRING_def)
    moreover have "read_value T_STRING (le_bytes 8 len @ rest) = Inl Size_overflow"
      using read_string_oversized [OF len, of rest]
      by (simp del: le_bytes.simps add: read_value_def read_element_def scalar_size_cases(2) T_STRING_def T_ARRAY_def
          scalar_size_def)
    ultimately show ?thesis
      by (simp only: read_kv_def append_assoc string_codec.read_enc uint_codec.read_enc bindR_Inr bindR_Inl prod.case)
  qed
qed

lemma read_many_kv_oversized:
  assumes "\<forall>kv \<in> set kvs. kv_ok kv" "oversized_entry bs"
  shows "read_many (length kvs + Suc n) read_kv (concat (map enc_kv kvs) @ bs @ rest) = Inl Size_overflow"
  using assms(1)
proof (induction kvs)
  case Nil
  show ?case
    using read_kv_oversized [OF assms(2), of rest] by simp
qed (simp add: read_kv_enc)

text \<open>
  C11: validation of a corrupt file does not always answer. A file of any version and tensor count whose
  header announces no more entries than the limit, and in which, after any number of well-formed entries,
  the next one declares a key or a string value of \<open>2 ^ 63\<close> bytes or more, whatever follows, makes the
  read itself raise \<open>OverflowError\<close>; \<open>validate_gguf\<close> does not catch it, so the exception reaches its
  caller instead of a \<open>(False, reason)\<close> pair.
\<close>

theorem validate_gguf_escapes:
  assumes "ver < 256 ^ 4" "tc < 256 ^ 8" "n \<le> MAX_METADATA_ENTRIES"
    and "\<forall>kv \<in> set kvs. kv_ok kv" "length kvs < n" "oversized_entry bs"
  shows "validate_gguf (File (GGUF_MAGIC @ le_bytes 4 ver @ (le_bytes 8 tc @ le_bytes 8 n)
           @ concat (map enc_kv kvs) @ bs @ rest)) = Inl Size_overflow"
proof -
  obtain k where n: "n = length kvs + Suc k"
    using assms(5) less_iff_Suc_add by auto
  have u: "uint_ok 4 ver" "n < 256 ^ 8"
    using assms(1,3) by (simp_all add: uint_ok_def MAX_METADATA_ENTRIES_def)
  have kv: "read_many n read_kv (concat (map enc_kv kvs) @ bs @ rest) = Inl Size_overflow"
    unfolding n by (rule read_many_kv_oversized [OF assms(4,6)])
  have magic: "read_exact 4 (GGUF_MAGIC @ l) = Inr (GGUF_MAGIC, l)" for l
    by (rule read_exact_append) (simp_all add: GGUF_MAGIC_def)
  have "read_exact 16 ((le_bytes 8 tc @ le_bytes 8 n) @ l) = Inr (le_bytes 8 tc @ le_bytes 8 n, l)" for l
    by (rule read_exact_append) simp_all
  with u assms(2,3) show ?thesis
    by (simp del: le_bytes.simps append_assoc add: append_assoc [of GGUF_MAGIC] append_assoc [of "le_bytes 4 ver"]
        validate_gguf_def read_gguf_header_def read_preamble_def magic uint_codec.read_enc kv)
qed

lemma validate_gguf_escapes_witness:
  "validate_gguf (File (GGUF_MAGIC @ le_bytes 4 3 @ (le_bytes 8 0 @ le_bytes 8 2)
      @ concat (map enc_kv [(ucs ''general.name'', Plain 7 (GBool True))]) @ le_bytes 8 (2 ^ 63 + 5) @ [0, 1])) = Inl Size_overflow"
proof (rule validate_gguf_escapes)
  show "oversized_entry (le_bytes 8 (2 ^ 63 + 5))"
    unfolding oversized_entry_def by (intro exI [of _ "2 ^ 63 + 5"]) simp
qed (simp_all add: MAX_METADATA_ENTRIES_def kv_ok_def string_ok_def ucs_def element_ok_def)

end
