(* ===== verification/Py_Text.thy ===== *)
theory Py_Text
  imports Prelude "HOL-Library.List_Lexorder" "HOL-Library.Char_ord"
begin

text \<open>
  The operations of \<open>str\<close> the program uses, on ASCII text (a \<open>string\<close> is a list of characters):
  classification and lower case, \<open>strip\<close>, \<open>split\<close>, \<open>partition\<close>, \<open>splitlines\<close>, \<open>replace\<close>, the
  integer grammar of \<open>int()\<close>, and decimal printing. Strings compare lexicographically.
\<close>

named_theorems text_simps \<open>evaluation of the text operations\<close>

definition is_space :: "char \<Rightarrow> bool" where
  "is_space c \<longleftrightarrow> (let n = of_char c :: nat in (9 \<le> n \<and> n \<le> 13) \<or> (28 \<le> n \<and> n \<le> 32))"

definition is_digit :: "char \<Rightarrow> bool" where
  "is_digit c \<longleftrightarrow> (let n = of_char c :: nat in 48 \<le> n \<and> n \<le> 57)"

definition digit_val :: "char \<Rightarrow> int" where
  "digit_val c = of_char c - 48"

definition lower :: "char \<Rightarrow> char" where
  "lower c = (let n = of_char c :: nat in if 65 \<le> n \<and> n \<le> 90 then char_of (n + 32) else c)"

definition strip :: "string \<Rightarrow> string" where
  "strip s = rev (dropWhile is_space (rev (dropWhile is_space s)))"

definition digits_value :: "string \<Rightarrow> int" where
  "digits_value ds = foldl (\<lambda>a c. 10 * a + digit_val c) 0 ds"

text \<open>\<open>s.split()\<close>: the maximal runs of characters that are not white space.\<close>

fun split_ws_aux :: "string \<Rightarrow> string \<Rightarrow> string list" where
  "split_ws_aux acc [] = (if acc = [] then [] else [rev acc])"
| "split_ws_aux acc (c # cs) =
     (if is_space c then (if acc = [] then split_ws_aux [] cs else rev acc # split_ws_aux [] cs)
      else split_ws_aux (c # acc) cs)"

definition split_ws :: "string \<Rightarrow> string list" where
  "split_ws s = split_ws_aux [] s"

text \<open>\<open>s.split(c)\<close> for a one-character separator.\<close>

fun split_on :: "char \<Rightarrow> string \<Rightarrow> string list" where
  "split_on c [] = [[]]"
| "split_on c (x # xs) =
     (if x = c then [] # split_on c xs
      else (case split_on c xs of [] \<Rightarrow> [[x]] | p # ps \<Rightarrow> (x # p) # ps))"

text \<open>\<open>s.partition(c)\<close>.\<close>

definition partition_at :: "char \<Rightarrow> string \<Rightarrow> string \<times> bool \<times> string" where
  "partition_at c s =
     (let h = takeWhile (\<lambda>x. x \<noteq> c) s; t = dropWhile (\<lambda>x. x \<noteq> c) s in (h, t \<noteq> [], tl t))"

definition is_line_end :: "char \<Rightarrow> bool" where
  "is_line_end c \<longleftrightarrow> (let n = of_char c :: nat in (10 \<le> n \<and> n \<le> 13) \<or> (28 \<le> n \<and> n \<le> 30))"

fun splitlines_aux :: "string \<Rightarrow> string \<Rightarrow> string list" where
  "splitlines_aux acc [] = (if acc = [] then [] else [rev acc])"
| "splitlines_aux acc (c # cs) =
     (if is_line_end c then
        rev acc # (case cs of
                     d # ds \<Rightarrow> if of_char c = (13::nat) \<and> of_char d = (10::nat)
                               then splitlines_aux [] ds else splitlines_aux [] cs
                   | [] \<Rightarrow> [])
      else splitlines_aux (c # acc) cs)"

definition splitlines :: "string \<Rightarrow> string list" where
  "splitlines s = splitlines_aux [] s"

definition starts_with :: "string \<Rightarrow> string \<Rightarrow> bool" where
  "starts_with p s \<longleftrightarrow> take (length p) s = p"

text \<open>\<open>s.replace("$", "$$")\<close> and \<open>s.replace("$$", "$")\<close>, for one character.\<close>

definition double_char :: "char \<Rightarrow> string \<Rightarrow> string" where
  "double_char d s = concat (map (\<lambda>c. if c = d then [d, d] else [c]) s)"

fun undouble_char :: "char \<Rightarrow> string \<Rightarrow> string" where
  "undouble_char d (a # b # cs) =
     (if a = d \<and> b = d then d # undouble_char d cs else a # undouble_char d (b # cs))"
| "undouble_char d s = s"

text \<open>\<open>int(s)\<close>: an optional sign and digits, with single underscores between digits.\<close>

fun int_digits :: "string \<Rightarrow> bool" where
  "int_digits [] = False"
| "int_digits [c] = is_digit c"
| "int_digits (c # d # cs) =
     (is_digit c \<and> (if d = CHR ''_'' then int_digits cs else int_digits (d # cs)))"

definition parse_int :: "string \<Rightarrow> int option" where
  "parse_int s =
     (let t = strip s;
          neg = (case t of c # _ \<Rightarrow> c = CHR ''-'' | [] \<Rightarrow> False);
          u = (case t of c # cs \<Rightarrow> if c = CHR ''-'' \<or> c = CHR ''+'' then cs else t | [] \<Rightarrow> t)
      in if int_digits u
         then let v = digits_value (filter is_digit u) in Some (if neg then - v else v)
         else None)"

text \<open>\<open>s.isdigit()\<close> on ASCII text.\<close>

definition all_digits :: "string \<Rightarrow> bool" where
  "all_digits s \<longleftrightarrow> s \<noteq> [] \<and> list_all is_digit s"

section \<open>Decimal printing\<close>

function show_nat :: "nat \<Rightarrow> string" where
  "show_nat n = (if n < 10 then [char_of (48 + n)] else show_nat (n div 10) @ [char_of (48 + n mod 10)])"
  by pat_completeness auto
termination
  by (relation "measure id") auto

declare show_nat.simps [simp del]

definition show_int :: "int \<Rightarrow> string" where
  "show_int i = (if i < 0 then CHR ''-'' # show_nat (nat (- i)) else show_nat (nat i))"

lemma is_digit_char_of: "n < (10::nat) \<Longrightarrow> is_digit (char_of (48 + n))"
  by (simp add: is_digit_def Let_def)

lemma digit_val_char_of: "n < 10 \<Longrightarrow> digit_val (char_of (48 + n)) = int n"
proof -
  assume "n < 10"
  then have "(of_char (char_of (48 + n) :: char) :: nat) = 48 + n"
    by simp
  then have "(of_char (char_of (48 + n) :: char) :: int) = int (48 + n)"
    by (metis of_nat_of_char)
  then show ?thesis
    by (simp add: digit_val_def)
qed

lemma digits_value_snoc: "digits_value (ds @ [c]) = 10 * digits_value ds + digit_val c"
  by (simp add: digits_value_def)

lemma show_nat_digits: "all_digits (show_nat n) \<and> digits_value (show_nat n) = int n"
proof (induction n rule: show_nat.induct)
  case (1 n)
  show ?case
  proof (cases "n < 10")
    case True
    then show ?thesis
      by (simp add: show_nat.simps [of n] all_digits_def is_digit_char_of digits_value_def digit_val_char_of)
  next
    case False
    with "1.IH" have "all_digits (show_nat (n div 10))" "digits_value (show_nat (n div 10)) = int (n div 10)"
      by auto
    moreover have "10 * int (n div 10) + int (n mod 10) = int n"
      by presburger
    ultimately show ?thesis
      using False
      by (simp add: show_nat.simps [of n] all_digits_def is_digit_char_of digits_value_snoc digit_val_char_of)
  qed
qed

lemma int_digits_all_digits: "all_digits s \<Longrightarrow> int_digits s"
  by (induction s rule: int_digits.induct) (auto simp: all_digits_def is_digit_def)

lemma is_digit_not_space: "is_digit c \<Longrightarrow> \<not> is_space c"
  by (auto simp: is_digit_def is_space_def Let_def)

lemma dropWhile_none: "\<forall>c \<in> set s. \<not> P c \<Longrightarrow> dropWhile P s = s"
  by (cases s) auto

lemma strip_no_space: "\<forall>c \<in> set s. \<not> is_space c \<Longrightarrow> strip s = s"
  using dropWhile_none [of s is_space] dropWhile_none [of "rev s" is_space]
  by (simp add: strip_def)

lemma parse_int_digits: "all_digits s \<Longrightarrow> parse_int s = Some (digits_value s)"
proof -
  assume a: "all_digits s"
  then obtain c cs where s: "s = c # cs" "is_digit c" "filter is_digit s = s"
    by (cases s) (auto simp: all_digits_def list_all_iff filter_id_conv)
  have "strip s = s"
    using a by (intro strip_no_space) (auto simp: all_digits_def list_all_iff dest: is_digit_not_space)
  moreover have "c \<noteq> CHR ''-''" "c \<noteq> CHR ''+''"
    using s(2) by (auto simp: is_digit_def)
  ultimately show ?thesis
    using s int_digits_all_digits [OF a] by (simp add: parse_int_def)
qed

text \<open>Decimal printing is read back by \<open>int()\<close>.\<close>

lemma parse_show_nat: "parse_int (show_nat n) = Some (int n)"
  using show_nat_digits parse_int_digits by metis

section \<open>Doubling\<close>

lemma double_char_simps [simp]:
  "double_char d [] = []"
  "double_char d (c # cs) = (if c = d then d # d # double_char d cs else c # double_char d cs)"
  by (simp_all add: double_char_def)

lemma undouble_double [simp]: "undouble_char d (double_char d s) = s"
proof (induction s)
  case Nil
  then show ?case by simp
next
  case (Cons c cs)
  show ?case
  proof (cases "c = d")
    case True
    with Cons show ?thesis by simp
  next
    case False
    with Cons show ?thesis
      by (cases "double_char d cs") auto
  qed
qed

lemma double_char_inj: "double_char d s = double_char d t \<Longrightarrow> s = t"
  by (metis undouble_double)

lemma double_char_id: "d \<notin> set s \<Longrightarrow> double_char d s = s"
  by (induction s) auto

end
