(* ===== verification/Py_Value.thy ===== *)
theory Py_Value
  imports Py_Text Py_Float
begin

text \<open>
  Values as YAML and JSON give them to the program: \<open>isinstance\<close> checks become pattern matches. A
  \<open>bool\<close> is an \<open>int\<close> for \<open>isinstance\<close> and for equality, which the code guards against case by case;
  the predicates below say which guard each check has.
\<close>

datatype pyfloat = Fin rat | PosInf | NegInf | NaN

datatype pyval =
    VNone
  | VBool bool
  | VInt int
  | VFloat pyfloat
  | VStr string
  | VList "pyval list"
  | VDict "(pyval \<times> pyval) list"

type_synonym pydict = "(pyval \<times> pyval) list"

text \<open>\<open>d.get(key)\<close> for a text key, as an option; \<open>d.get(key, default)\<close>; \<open>key in d\<close>.\<close>

definition vget :: "pydict \<Rightarrow> string \<Rightarrow> pyval option" where
  "vget d k = map_of d (VStr k)"

definition vget_or :: "pydict \<Rightarrow> string \<Rightarrow> pyval \<Rightarrow> pyval" where
  "vget_or d k v = (case vget d k of None \<Rightarrow> v | Some x \<Rightarrow> x)"

definition has_key :: "pydict \<Rightarrow> string \<Rightarrow> bool" where
  "has_key d k \<longleftrightarrow> vget d k \<noteq> None"

definition vput :: "string \<Rightarrow> pyval \<Rightarrow> pydict \<Rightarrow> pydict" where
  "vput k v d = dput (VStr k) v d"

definition setdefault :: "string \<Rightarrow> pyval \<Rightarrow> pydict \<Rightarrow> pydict" where
  "setdefault k v d = (if has_key d k then d else vput k v d)"

definition vpop :: "string \<Rightarrow> pydict \<Rightarrow> pydict" where
  "vpop k d = ddel (VStr k) d"

text \<open>\<open>isinstance(v, int) and not isinstance(v, bool) and v > 0\<close>, and the finite numbers.\<close>

fun is_positive_int :: "pyval \<Rightarrow> bool" where
  "is_positive_int (VInt n) = (0 < n)"
| "is_positive_int _ = False"

fun finite_num :: "pyval \<Rightarrow> pynum option" where
  "finite_num (VInt n) = Some (IntN n)"
| "finite_num (VFloat (Fin x)) = Some (FloatN x)"
| "finite_num _ = None"

definition num_sat :: "(rat \<Rightarrow> bool) \<Rightarrow> pyval \<Rightarrow> bool" where
  "num_sat P v = (case finite_num v of None \<Rightarrow> False | Some n \<Rightarrow> P (nval n))"

text \<open>\<open>isinstance(v, int)\<close> without the guard against \<open>bool\<close>.\<close>

fun is_int :: "pyval \<Rightarrow> bool" where
  "is_int (VInt _) = True"
| "is_int (VBool _) = True"
| "is_int _ = False"

fun is_bool :: "pyval \<Rightarrow> bool" where
  "is_bool (VBool _) = True"
| "is_bool _ = False"

fun is_str :: "pyval \<Rightarrow> bool" where
  "is_str (VStr _) = True"
| "is_str _ = False"

fun is_dict :: "pyval \<Rightarrow> bool" where
  "is_dict (VDict _) = True"
| "is_dict _ = False"

fun is_list :: "pyval \<Rightarrow> bool" where
  "is_list (VList _) = True"
| "is_list _ = False"

text \<open>The mapping, the \<open>isinstance(v, int)\<close> value and the finite number of a value, \<open>bool\<close> included.\<close>

fun dict_value :: "pyval \<Rightarrow> pydict option" where
  "dict_value (VDict d) = Some d"
| "dict_value _ = None"

fun int_value :: "pyval \<Rightarrow> int option" where
  "int_value (VInt n) = Some n"
| "int_value (VBool b) = Some (if b then 1 else 0)"
| "int_value _ = None"

fun num_value :: "pyval \<Rightarrow> pynum option" where
  "num_value (VInt n) = Some (IntN n)"
| "num_value (VBool b) = Some (IntN (if b then 1 else 0))"
| "num_value (VFloat (Fin x)) = Some (FloatN x)"
| "num_value _ = None"

fun of_num :: "pynum \<Rightarrow> pyval" where
  "of_num (IntN n) = VInt n"
| "of_num (FloatN x) = VFloat (Fin x)"

lemma num_value_of_num [simp]: "num_value (of_num n) = Some n"
  by (cases n) simp_all

text \<open>\<open>v == n\<close> for an integer literal: booleans and integral floats compare equal.\<close>

fun eq_int :: "pyval \<Rightarrow> int \<Rightarrow> bool" where
  "eq_int (VInt m) n = (m = n)"
| "eq_int (VBool b) n = ((if b then 1 else 0) = n)"
| "eq_int (VFloat (Fin x)) n = (x = of_int n)"
| "eq_int _ n = False"

fun truthy :: "pyval \<Rightarrow> bool" where
  "truthy VNone = False"
| "truthy (VBool b) = b"
| "truthy (VInt n) = (n \<noteq> 0)"
| "truthy (VFloat f) = (f \<noteq> Fin 0)"
| "truthy (VStr s) = (s \<noteq> [])"
| "truthy (VList xs) = (xs \<noteq> [])"
| "truthy (VDict d) = (d \<noteq> [])"

lemma vget_vput [simp]: "vget (vput k v d) j = (if j = k then Some v else vget d j)"
  by (auto simp: vget_def vput_def)

lemma vget_vpop [simp]: "vget (vpop k d) j = (if j = k then None else vget d j)"
  by (auto simp: vget_def vpop_def)

lemma vget_setdefault [simp]:
  "vget (setdefault k v d) j = (if j = k \<and> vget d k = None then Some v else vget d j)"
  by (auto simp: setdefault_def has_key_def)

lemma setdefault_idem [simp]: "setdefault k v (setdefault k v d) = setdefault k v d"
  by (simp add: setdefault_def has_key_def)

lemma setdefault_present: "has_key d k \<Longrightarrow> setdefault k v d = d"
  by (simp add: setdefault_def)

lemma has_key_setdefault [simp]: "has_key (setdefault k v d) j \<longleftrightarrow> j = k \<or> has_key d j"
  by (auto simp: has_key_def)

lemma has_key_vput [simp]: "has_key (vput k v d) j \<longleftrightarrow> j = k \<or> has_key d j"
  by (simp add: has_key_def)

lemma has_key_vpop [simp]: "has_key (vpop k d) j \<longleftrightarrow> j \<noteq> k \<and> has_key d j"
  by (simp add: has_key_def)

lemma is_positive_intD: "is_positive_int v \<Longrightarrow> \<exists>n. v = VInt n \<and> 0 < n"
  by (cases v) auto

lemma num_satD: "num_sat P v \<Longrightarrow> \<exists>n. finite_num v = Some n \<and> P (nval n)"
  by (auto simp: num_sat_def split: option.splits)

end
