(* ===== verification/Budget.thy ===== *)
theory Budget
  imports Gguf Py_Value "HOL-Library.Multiset"
begin

text \<open>
  VRAM arithmetic (\<open>pylib/budget.py\<close>): the budget grammar, the KV-cache size of a geometry, and the
  verdict whether the largest models that may be resident at once fit the card. Float operations
  round as \<open>Py_Float\<close> says; configuration strings are ASCII.
\<close>

definition RUNTIME_OVERHEAD_MIB :: int where "RUNTIME_OVERHEAD_MIB = 512"
definition SPIKE_HEADROOM_MIB :: int where "SPIKE_HEADROOM_MIB = 1024"
definition MIB :: int where "MIB = 1024 * 1024"
definition MIB_PER_GB :: int where "MIB_PER_GB = 1024"

datatype budget_error =
    Bad_budget string
  | Unknown_cache_type string
  | Invalid_layer layer
  | Bad_models_max

section \<open>The budget grammar\<close>

datatype unit_kind = Percent | Gigabyte | Mebibyte

definition unit_of :: "string \<Rightarrow> unit_kind option" where
  "unit_of s =
     (let u = map lower (rev (dropWhile is_space (rev s))) in
      if u = ''%'' then Some Percent
      else if u = ''gb'' then Some Gigabyte
      else if u = ''mib'' then Some Mebibyte
      else None)"

text \<open>
  \<open>BUDGET_RE\<close>: the decimal amount as an exact rational, and the unit. A dot must be followed by a
  digit, since the group \<open>(?:\.\d+)?\<close> cannot match a lone dot and no unit starts with one.
\<close>

definition match_budget :: "string \<Rightarrow> (rat \<times> unit_kind) option" where
  "match_budget s =
     (let s1 = dropWhile is_space s;
          whole = takeWhile is_digit s1;
          s2 = dropWhile is_digit s1;
          frac = (case s2 of c # cs \<Rightarrow> if c = CHR ''.'' then takeWhile is_digit cs else [] | [] \<Rightarrow> []);
          s3 = (if frac = [] then s2 else dropWhile is_digit (tl s2)) in
      if whole = [] then None
      else map_option
             (\<lambda>u. (of_int (digits_value whole) + of_int (digits_value frac) / 10 ^ length frac, u))
             (unit_of (dropWhile is_space s3)))"

definition parse_vram_budget :: "string \<Rightarrow> int \<Rightarrow> (budget_error, int) result" where
  "parse_vram_budget value total_mib =
     (case match_budget value of
        None \<Rightarrow> Inl (Bad_budget value)
      | Some (exact, u) \<Rightarrow>
          let amount = FloatN (fl exact) in
          Inr (case u of
                 Percent \<Rightarrow> ntrunc (ndiv (nmul (IntN total_mib) amount) (IntN 100))
               | Gigabyte \<Rightarrow> ntrunc (nmul amount (IntN MIB_PER_GB))
               | Mebibyte \<Rightarrow> ntrunc amount))"

section \<open>The KV cache\<close>

text \<open>\<open>BYTES_PER_ELEMENT\<close> in units of 1/32 byte.\<close>

definition cache_units :: "string \<Rightarrow> int option" where
  "cache_units t = map_of
     [(''f32'', 128), (''f16'', 64), (''bf16'', 64), (''q8_0'', 34), (''q5_1'', 24), (''q5_0'', 22),
      (''q4_1'', 20), (''q4_0'', 18)] t"

definition BYTES_PER_ELEMENT :: "string \<Rightarrow> rat option" where
  "BYTES_PER_ELEMENT t = map_option (\<lambda>u. of_int u / 32) (cache_units t)"

definition pad256 :: "int \<Rightarrow> int" where
  "pad256 v = ((v + 255) div 256) * 256"

definition layer_cells :: "geometry \<Rightarrow> int \<Rightarrow> int \<Rightarrow> layer \<Rightarrow> (budget_error, int) result" where
  "layer_cells g ctx ub l =
     (case kind l of
        Full \<Rightarrow> Inr ctx
      | Swa \<Rightarrow>
          (case sliding_window g of
             Some w \<Rightarrow> Inr (pad256 (min ctx (w + ub)))
           | None \<Rightarrow> Inl (Invalid_layer l))
      | Recurrent \<Rightarrow> Inl (Invalid_layer l))"

definition layer_bytes :: "int \<Rightarrow> rat \<Rightarrow> rat \<Rightarrow> layer \<Rightarrow> rat" where
  "layer_bytes cells bk bv l =
     to_float (nmul (IntN (cells * head_count_kv l))
       (nadd (nmul (IntN (key_length l)) (FloatN bk)) (nmul (IntN (value_length l)) (FloatN bv))))"

definition kv_step ::
    "geometry \<Rightarrow> int \<Rightarrow> int \<Rightarrow> rat \<Rightarrow> rat \<Rightarrow> rat \<times> rat \<Rightarrow> layer \<Rightarrow> (budget_error, rat \<times> rat) result" where
  "kv_step g ctx ub bk bv acc l =
     (if kind l = Recurrent then Inr acc
      else bindR (layer_cells g ctx ub l) (\<lambda>cells.
             let b = layer_bytes cells bk bv l in
             Inr (if kind l = Full then (fl (fst acc + b), snd acc) else (fst acc, fl (snd acc + b)))))"

record kv_parts =
  full_kv_mib :: int
  swa_kv_mib :: int
  kv_mib :: int

definition kv_cache_components_mib ::
    "geometry \<Rightarrow> int \<Rightarrow> int \<Rightarrow> string \<Rightarrow> string \<Rightarrow> (budget_error, kv_parts) result" where
  "kv_cache_components_mib g ctx ub tk tv =
     (case BYTES_PER_ELEMENT tk of
        None \<Rightarrow> Inl (Unknown_cache_type tk)
      | Some bk \<Rightarrow>
          (case BYTES_PER_ELEMENT tv of
             None \<Rightarrow> Inl (Unknown_cache_type tv)
           | Some bv \<Rightarrow>
               bindR (foldR (kv_step g ctx ub bk bv) (0, 0) (layers g)) (\<lambda>(full, swa).
                 let f = \<lceil>fl (full / of_int MIB)\<rceil>; s = \<lceil>fl (swa / of_int MIB)\<rceil> in
                 Inr \<lparr>full_kv_mib = f, swa_kv_mib = s, kv_mib = f + s\<rparr>)))"

section \<open>The verdict\<close>

record cost =
  c_alias :: string
  c_weights_mib :: int
  c_ram_weights_mib :: int
  c_kv :: kv_parts

record sized_model =
  m_cost :: cost
  runtime_overhead_mib :: int
  required_mib :: int

datatype remedy =
    Quantize_cache
  | Reduce_context
  | Enable_flash_attention
  | Drop_model string int
  | Move_compositor int

record budget =
  b_vram_total :: int
  b_reserve :: int
  b_extra :: int
  b_available :: int
  b_required :: int
  b_shortfall :: int
  b_feasible :: bool
  b_models :: "sized_model list"
  b_resident :: "sized_model list"
  b_remedies :: "remedy list"

definition size_model :: "cost \<Rightarrow> sized_model" where
  "size_model c =
     \<lparr>m_cost = c, runtime_overhead_mib = RUNTIME_OVERHEAD_MIB,
      required_mib = c_weights_mib c + kv_mib (c_kv c) + RUNTIME_OVERHEAD_MIB\<rparr>"

text \<open>\<open>sorted(models, key=required, reverse=True)[:models_max]\<close>; a reversed sort stays stable.\<close>

definition residents :: "int \<Rightarrow> sized_model list \<Rightarrow> sized_model list" where
  "residents models_max ms = take (nat models_max) (sort_key (\<lambda>m. - required_mib m) ms)"

definition quantized :: "string \<Rightarrow> bool" where
  "quantized t = ((case BYTES_PER_ELEMENT t of None \<Rightarrow> 2 | Some b \<Rightarrow> b) \<le> 34 / 32)"

definition vram_remedies ::
    "string \<Rightarrow> string \<Rightarrow> int \<Rightarrow> sized_model list \<Rightarrow> sized_model list \<Rightarrow> int \<Rightarrow> remedy list" where
  "vram_remedies tk tv models_max ms res reclaimable =
     (if quantized tk \<and> quantized tv then [] else [Quantize_cache])
     @ [Reduce_context, Enable_flash_attention]
     @ (if models_max < int (length ms)
        then [Drop_model (c_alias (m_cost (hd res))) (required_mib (hd res))] else [])
     @ (if 0 < reclaimable then [Move_compositor reclaimable] else [])"

definition compute_budget ::
    "int \<Rightarrow> int \<Rightarrow> int \<Rightarrow> cost list \<Rightarrow> int \<Rightarrow> string \<Rightarrow> string \<Rightarrow> int option \<Rightarrow> int \<Rightarrow>
     (budget_error, budget) result" where
  "compute_budget vram_total compositor_used reserve_floor costs models_max tk tv cap extra =
     (if models_max < 1 \<or> int (length costs) < models_max then Inl Bad_models_max
      else
        let ceiling_mib = (case cap of None \<Rightarrow> vram_total | Some c \<Rightarrow> min vram_total c);
            reserve = max compositor_used reserve_floor;
            available = ceiling_mib - reserve - extra - SPIKE_HEADROOM_MIB;
            ms = map size_model costs;
            res = residents models_max ms;
            required = sum_list (map required_mib res);
            shortfall = max 0 (required - available);
            feasible = (shortfall = 0)
        in Inr \<lparr>b_vram_total = vram_total, b_reserve = reserve, b_extra = extra,
                b_available = available, b_required = required, b_shortfall = shortfall,
                b_feasible = feasible, b_models = ms, b_resident = res,
                b_remedies = (if feasible then []
                              else vram_remedies tk tv models_max ms res
                                     (compositor_used - reserve_floor))\<rparr>)"

section \<open>Exactness of the cache size\<close>

lemma fl_32nd: "\<bar>u\<bar> \<le> 2 ^ 53 \<Longrightarrow> fl (of_int u / 32) = of_int u / 32"
  using fl_exact [of u "- 5"] by (simp add: power_int_minus field_simps)

lemma fl_mib: "\<bar>u\<bar> \<le> 2 ^ 53 \<Longrightarrow> fl (of_int u / 32 / of_int MIB) = of_int u / 32 / of_int MIB"
  using fl_exact [of u "- 25"] by (simp add: power_int_minus field_simps MIB_def)

text \<open>The size of a layer in 1/32 bytes, in exact integer arithmetic.\<close>

definition exact_cells :: "geometry \<Rightarrow> int \<Rightarrow> int \<Rightarrow> layer \<Rightarrow> int" where
  "exact_cells g ctx ub l =
     (case kind l of
        Full \<Rightarrow> ctx
      | Recurrent \<Rightarrow> 0
      | Swa \<Rightarrow> pad256 (min ctx (the (sliding_window g) + ub)))"

definition layer_units :: "geometry \<Rightarrow> int \<Rightarrow> int \<Rightarrow> int \<Rightarrow> int \<Rightarrow> layer \<Rightarrow> int" where
  "layer_units g ctx ub uk uv l =
     exact_cells g ctx ub l * head_count_kv l * (key_length l * uk + value_length l * uv)"

definition kind_units :: "layer_kind \<Rightarrow> geometry \<Rightarrow> int \<Rightarrow> int \<Rightarrow> int \<Rightarrow> int \<Rightarrow> int" where
  "kind_units k g ctx ub uk uv =
     sum_list (map (layer_units g ctx ub uk uv) (filter (\<lambda>l. kind l = k) (layers g)))"

lemma cache_units_pos: "cache_units t = Some u \<Longrightarrow> 0 < u"
  by (auto simp: cache_units_def split: if_splits)

lemma pad256_bounds: "v \<le> pad256 v" "pad256 v < v + 256"
  unfolding pad256_def by presburger+

lemma abs_le_mult: "0 < b \<Longrightarrow> 0 \<le> a \<Longrightarrow> a \<le> a * b" for a b :: int
  using mult_left_mono [of 1 b a] by simp

lemma layer_bytes_exact:
  assumes l: "layer_wf l" and u: "0 < uk" "0 < uv" and c: "0 < cells"
    and bound: "cells * head_count_kv l * (key_length l * uk + value_length l * uv) \<le> 2 ^ 53"
  shows "layer_bytes cells (of_int uk / 32) (of_int uv / 32) l =
    of_int (cells * head_count_kv l * (key_length l * uk + value_length l * uv)) / 32"
proof -
  let ?A = "cells * head_count_kv l" and ?K = "key_length l * uk" and ?V = "value_length l * uv"
  have pos: "0 < ?A" "0 < ?K" "0 < ?V" "0 < key_length l" "0 < value_length l"
    using l u c by (auto simp: layer_wf_def)
  have KV: "?K + ?V \<le> ?A * (?K + ?V)"
    using abs_le_mult [of ?A "?K + ?V"] pos by (simp add: mult.commute)
  have A: "?A \<le> ?A * (?K + ?V)"
    using abs_le_mult [of "?K + ?V" ?A] pos by simp
  have k: "key_length l \<le> ?K" and v: "value_length l \<le> ?V"
    using abs_le_mult u pos by simp_all
  have e1: "fl (of_int (key_length l)) = of_int (key_length l)" "fl (of_int (value_length l)) = of_int (value_length l)"
    "fl (of_int ?A) = of_int ?A"
    by (intro fl_int; use pos KV A k v bound in linarith)+
  have e2: "fl (of_int ?K / 32) = of_int ?K / 32" "fl (of_int ?V / 32) = of_int ?V / 32"
    "fl (of_int (?K + ?V) / 32) = of_int (?K + ?V) / 32"
    "fl (of_int (?A * (?K + ?V)) / 32) = of_int (?A * (?K + ?V)) / 32"
    by (intro fl_32nd; use pos KV A bound in linarith)+
  have "nmul (IntN (key_length l)) (FloatN (of_int uk / 32)) = FloatN (of_int ?K / 32)"
    "nmul (IntN (value_length l)) (FloatN (of_int uv / 32)) = FloatN (of_int ?V / 32)"
    using e2(1,2) by (simp_all add: e1)
  moreover have "nadd (FloatN (of_int ?K / 32)) (FloatN (of_int ?V / 32)) = FloatN (of_int (?K + ?V) / 32)"
    using e2(3) by (simp add: add_divide_distrib)
  moreover have "to_float (nmul (IntN ?A) (FloatN (of_int (?K + ?V) / 32))) = of_int (?A * (?K + ?V)) / 32"
    using e2(4) e1(3) by (simp only: to_float.simps nmul.simps) simp
  ultimately show ?thesis
    by (simp only: layer_bytes_def)
qed

text \<open>The units of the layers of one kind, read off a list of layers.\<close>

definition units_of :: "layer_kind \<Rightarrow> (layer \<Rightarrow> int) \<Rightarrow> layer list \<Rightarrow> int" where
  "units_of k f ls = sum_list (map f (filter (\<lambda>l. kind l = k) ls))"

lemma units_of_simps [simp]:
  "units_of k f [] = 0"
  "units_of k f (l # ls) = (if kind l = k then f l else 0) + units_of k f ls"
  by (simp_all add: units_of_def)

lemma units_of_nonneg: "\<forall>l \<in> set ls. 0 \<le> f l \<Longrightarrow> 0 \<le> units_of k f ls"
  by (induction ls) simp_all

lemma exact_cells_nonneg:
  assumes "geometry_wf g" "l \<in> set (layers g)" "0 < ctx" "0 < ub" "kind l \<noteq> Recurrent"
  shows "0 < exact_cells g ctx ub l" "layer_cells g ctx ub l = Inr (exact_cells g ctx ub l)"
proof -
  have "kind l = Swa \<Longrightarrow> \<exists>w. sliding_window g = Some w \<and> 0 < w"
    using assms(1,2) by (auto simp: geometry_wf_def split: option.splits)
  then show "0 < exact_cells g ctx ub l" "layer_cells g ctx ub l = Inr (exact_cells g ctx ub l)"
    using assms(3-5) pad256_bounds(1) [of "min ctx (the (sliding_window g) + ub)"]
    by (cases "kind l"; force simp: exact_cells_def layer_cells_def)+
qed

lemma layer_units_nonneg:
  assumes "geometry_wf g" "l \<in> set (layers g)" "0 < ctx" "0 < ub" "0 < uk" "0 < uv"
  shows "0 \<le> layer_units g ctx ub uk uv l"
proof (cases "kind l = Recurrent")
  case True
  then show ?thesis
    by (simp add: layer_units_def exact_cells_def)
next
  case False
  have "layer_wf l"
    using assms(1,2) by (simp add: geometry_wf_def)
  with exact_cells_nonneg [OF assms(1-4) False] assms(5,6) show ?thesis
    by (auto simp: layer_units_def layer_wf_def intro!: mult_nonneg_nonneg add_nonneg_nonneg)
qed

text \<open>The loop of \<open>kv_cache_components_mib\<close> keeps both running sums exact.\<close>

lemma kv_loop_exact:
  assumes "geometry_wf g" "0 < ctx" "0 < ub" "0 < uk" "0 < uv" "set ls \<subseteq> set (layers g)"
    and "0 \<le> F" "0 \<le> S"
    and "F + units_of Full (layer_units g ctx ub uk uv) ls \<le> 2 ^ 53"
    and "S + units_of Swa (layer_units g ctx ub uk uv) ls \<le> 2 ^ 53"
  shows "foldR (kv_step g ctx ub (of_int uk / 32) (of_int uv / 32)) (of_int F / 32, of_int S / 32) ls =
    Inr (of_int (F + units_of Full (layer_units g ctx ub uk uv) ls) / 32,
         of_int (S + units_of Swa (layer_units g ctx ub uk uv) ls) / 32)"
  using assms(6-)
proof (induction ls arbitrary: F S)
  case Nil
  then show ?case by simp
next
  case (Cons l ls)
  let ?f = "layer_units g ctx ub uk uv"
  have mem: "l \<in> set (layers g)" and wf: "layer_wf l"
    using Cons.prems(1) assms(1) by (auto simp: geometry_wf_def)
  have nn: "0 \<le> ?f l" "0 \<le> units_of Full ?f ls" "0 \<le> units_of Swa ?f ls"
    using Cons.prems(1) layer_units_nonneg [OF assms(1) _ assms(2-5)]
    by (auto intro!: units_of_nonneg)
  show ?case
  proof (cases "kind l = Recurrent")
    case True
    then show ?thesis
      using Cons by (simp add: kv_step_def)
  next
    case False
    note cells = exact_cells_nonneg [OF assms(1) mem assms(2,3) False]
    have le: "?f l \<le> 2 ^ 53"
      using False Cons.prems nn by (cases "kind l") auto
    have b: "layer_bytes (exact_cells g ctx ub l) (of_int uk / 32) (of_int uv / 32) l = of_int (?f l) / 32"
      unfolding layer_units_def
      by (rule layer_bytes_exact [OF wf assms(4,5) cells(1)]) (use le in \<open>simp add: layer_units_def\<close>)
    show ?thesis
    proof (cases "kind l = Full")
      case True
      then have "F + ?f l \<le> 2 ^ 53"
        using Cons.prems nn by simp
      then have fl_sum: "fl (of_int F / 32 + of_int (?f l) / 32) = of_int (F + ?f l) / 32"
        using fl_32nd [of "F + ?f l"] Cons.prems(2) nn by (simp add: add_divide_distrib)
      then have "kv_step g ctx ub (of_int uk / 32) (of_int uv / 32) (of_int F / 32, of_int S / 32) l =
          Inr (of_int (F + ?f l) / 32, of_int S / 32)"
        using True by (simp add: kv_step_def Let_def cells(2) b fl_sum)
      then show ?thesis
        using True Cons.IH [of "F + ?f l" S] Cons.prems nn by (simp add: add.assoc)
    next
      case swa: False
      then have k: "kind l = Swa"
        using False by (cases "kind l") auto
      then have "S + ?f l \<le> 2 ^ 53"
        using Cons.prems nn by simp
      then have fl_sum: "fl (of_int S / 32 + of_int (?f l) / 32) = of_int (S + ?f l) / 32"
        using fl_32nd [of "S + ?f l"] Cons.prems(3) nn by (simp add: add_divide_distrib)
      then have "kv_step g ctx ub (of_int uk / 32) (of_int uv / 32) (of_int F / 32, of_int S / 32) l =
          Inr (of_int F / 32, of_int (S + ?f l) / 32)"
        using k by (simp add: kv_step_def Let_def cells(2) b fl_sum)
      then show ?thesis
        using k Cons.IH [of F "S + ?f l"] Cons.prems nn by (simp add: add.assoc)
    qed
  qed
qed

lemma ceiling_32nd: "\<lceil>of_int u / 32 / (of_int MIB :: rat)\<rceil> = ceil_div u (32 * MIB)"
proof -
  have "- (of_int u / 32 / of_int MIB) = of_int (- u) / (of_int (32 * MIB) :: rat)"
    by simp
  then show ?thesis
    unfolding ceiling_def ceil_div_def by (simp only: floor_divide_of_int_eq)
qed

section \<open>The resident set is the worst case\<close>

text \<open>
  The sum of the \<open>k\<close> largest elements bounds the sum of any \<open>k\<close> of them: both are compared with
  \<open>k\<close> times the smallest selected element plus the total excess over it.
\<close>

lemma sum_excess:
  fixes xs :: "int list"
  shows "sum_list xs \<le> int (length xs) * t + sum_list (map (\<lambda>x. max 0 (x - t)) xs)"
  by (induction xs) (auto simp: algebra_simps)

lemma sum_excess_above:
  fixes xs :: "int list"
  assumes "\<forall>x \<in> set xs. t \<le> x"
  shows "sum_list xs = int (length xs) * t + sum_list (map (\<lambda>x. max 0 (x - t)) xs)"
  using assms by (induction xs) (auto simp: algebra_simps)

lemma sum_excess_below:
  fixes xs :: "int list"
  assumes "\<forall>x \<in> set xs. x \<le> t"
  shows "sum_list (map (\<lambda>x. max 0 (x - t)) xs) = 0"
  using assms by (induction xs) auto

lemma sum_list_mset_le:
  fixes f :: "'a \<Rightarrow> int"
  assumes "mset xs \<subseteq># mset ys" "\<And>y. 0 \<le> f y"
  shows "sum_list (map f xs) \<le> sum_list (map f ys)"
proof -
  obtain zs where "mset ys = mset xs + zs"
    using assms(1) by (metis subset_mset.le_iff_add)
  then have "sum_mset (image_mset f (mset ys)) = sum_mset (image_mset f (mset xs)) + sum_mset (image_mset f zs)"
    by simp
  moreover have "0 \<le> sum_mset (image_mset f zs)"
    by (induction zs) (simp_all add: assms(2))
  ultimately show ?thesis
    by (simp flip: sum_mset_sum_list mset_map)
qed

lemma sum_take_max:
  fixes xs :: "int list"
  assumes "sorted_wrt (\<ge>) xs" "mset ys \<subseteq># mset xs" "length ys \<le> k" "k \<le> length xs" "\<forall>x \<in> set xs. 0 \<le> x"
  shows "sum_list ys \<le> sum_list (take k xs)"
proof (cases "k = 0")
  case True
  with assms(3) show ?thesis by simp
next
  case False
  define t where "t = xs ! (k - 1)"
  have k: "k - 1 < length xs" "0 < k"
    using False assms(4) by auto
  have t0: "0 \<le> t"
    using assms(5) k by (simp add: t_def)
  have above: "\<forall>x \<in> set (take k xs). t \<le> x"
  proof
    fix x
    assume "x \<in> set (take k xs)"
    then obtain i where "i < k" "i < length xs" "x = xs ! i"
      by (auto simp: in_set_conv_nth)
    then show "t \<le> x"
      using sorted_wrt_nth_less [OF assms(1), of i "k - 1"] k unfolding t_def
      by (cases "i = k - 1") auto
  qed
  have below: "\<forall>x \<in> set (drop k xs). x \<le> t"
    using sorted_wrt_nth_less [OF assms(1), of "k - 1"] k unfolding t_def
    by (auto simp: in_set_conv_nth)
  let ?e = "\<lambda>x. max 0 (x - t)"
  have "sum_list ys \<le> int (length ys) * t + sum_list (map ?e ys)"
    by (rule sum_excess)
  also have "\<dots> \<le> int k * t + sum_list (map ?e xs)"
    using sum_list_mset_le [OF assms(2), of ?e] assms(3) t0
    by (intro add_mono mult_right_mono) auto
  also have "sum_list (map ?e xs) = sum_list (map ?e (take k xs)) + sum_list (map ?e (drop k xs))"
    by (simp flip: sum_list_append map_append)
  also have "sum_list (map ?e (drop k xs)) = 0"
    by (rule sum_excess_below [OF below])
  also have "int k * t + (sum_list (map ?e (take k xs)) + 0) = sum_list (take k xs)"
    using sum_excess_above [OF above] assms(4) by simp
  finally show ?thesis .
qed

lemma worst_case:
  fixes f :: "'a \<Rightarrow> int"
  assumes "mset sub \<subseteq># mset ms" "int (length sub) \<le> n" "n \<le> int (length ms)" "\<forall>m \<in> set ms. 0 \<le> f m"
  shows "sum_list (map f sub) \<le> sum_list (map f (take (nat n) (sort_key (\<lambda>m. - f m) ms)))"
  unfolding take_map [symmetric]
proof (rule sum_take_max)
  have "sorted (map (\<lambda>m. - f m) (sort_key (\<lambda>m. - f m) ms))"
    by simp
  then show "sorted_wrt (\<ge>) (map f (sort_key (\<lambda>m. - f m) ms))"
    by (simp add: sorted_wrt_map)
  show "mset (map f sub) \<subseteq># mset (map f (sort_key (\<lambda>m. - f m) ms))"
    using assms(1) by (simp add: image_mset_subseteq_mono)
qed (use assms in auto)

lemma take_sort_key_sub: "mset (take k (sort_key f ms)) \<subseteq># mset ms"
  by (metis append_take_drop_id mset_append mset_sort mset_subset_eq_add_left)

lemma residents_worst_case:
  assumes "mset sub \<subseteq># mset ms" "int (length sub) \<le> n" "n \<le> int (length ms)" "\<forall>m \<in> set ms. 0 \<le> required_mib m"
  shows "sum_list (map required_mib sub) \<le> sum_list (map required_mib (residents n ms))"
  unfolding residents_def using assms by (rule worst_case)

section \<open>Properties\<close>

text \<open>
  C9: for a well-formed geometry whose cache stays below \<open>2 ^ 53\<close> units of 1/32 byte (256 TiB), the
  float arithmetic of the cache size is exact: the result is the integer sum of the layers' sizes,
  rounded up to whole mebibytes, and no error is raised.
\<close>

theorem kv_cache_exact:
  assumes "geometry_wf g" "0 < ctx" "0 < ub" "cache_units tk = Some uk" "cache_units tv = Some uv"
    and "kind_units Full g ctx ub uk uv \<le> 2 ^ 53" "kind_units Swa g ctx ub uk uv \<le> 2 ^ 53"
  shows "kv_cache_components_mib g ctx ub tk tv =
    (let f = ceil_div (kind_units Full g ctx ub uk uv) (32 * MIB);
         s = ceil_div (kind_units Swa g ctx ub uk uv) (32 * MIB)
     in Inr \<lparr>full_kv_mib = f, swa_kv_mib = s, kv_mib = f + s\<rparr>)"
proof -
  let ?F = "kind_units Full g ctx ub uk uv" and ?S = "kind_units Swa g ctx ub uk uv"
  note u = cache_units_pos [OF assms(4)] cache_units_pos [OF assms(5)]
  have U: "kind_units k g ctx ub uk uv = units_of k (layer_units g ctx ub uk uv) (layers g)" for k
    by (simp add: kind_units_def units_of_def)
  have nn: "0 \<le> ?F" "0 \<le> ?S"
    using layer_units_nonneg [OF assms(1) _ assms(2,3) u] unfolding U
    by (auto intro!: units_of_nonneg)
  have "foldR (kv_step g ctx ub (of_int uk / 32) (of_int uv / 32)) (0, 0) (layers g) =
      Inr (of_int ?F / 32, of_int ?S / 32)"
    using kv_loop_exact [OF assms(1-3) u order_refl, of 0 0] assms(6,7) unfolding U by simp
  moreover have "\<lceil>fl (of_int ?F / 32 / of_int MIB)\<rceil> = ceil_div ?F (32 * MIB)"
    "\<lceil>fl (of_int ?S / 32 / of_int MIB)\<rceil> = ceil_div ?S (32 * MIB)"
    using fl_mib [of ?F] fl_mib [of ?S] nn assms(6,7) by (simp_all only: ceiling_32nd abs_of_nonneg)
  ultimately show ?thesis
    using assms(4,5) by (simp add: kv_cache_components_mib_def BYTES_PER_ELEMENT_def Let_def)
qed

definition tiny_geometry :: geometry where
  "tiny_geometry =
     \<lparr>layers = [mk_layer Swa 2 64 64 64 64, mk_layer Recurrent 2 64 64 64 64, mk_layer Full 2 64 64 64 64],
      sliding_window = Some 512\<rparr>"

theorem kv_cache_exact_witness:
  "kv_cache_components_mib tiny_geometry 8192 512 ''q8_0'' ''f16'' =
     Inr \<lparr>full_kv_mib = 4, swa_kv_mib = 1, kv_mib = 5\<rparr>"
proof -
  have "geometry_wf tiny_geometry" "cache_units ''q8_0'' = Some 34" "cache_units ''f16'' = Some 64"
    by (simp_all add: tiny_geometry_def geometry_wf_def layer_wf_def cache_units_def)
  moreover have "kind_units Full tiny_geometry 8192 512 34 64 = 102760448"
    "kind_units Swa tiny_geometry 8192 512 34 64 = 12845056"
    by (simp_all add: kind_units_def tiny_geometry_def layer_units_def exact_cells_def pad256_def)
  ultimately show ?thesis
    using kv_cache_exact [of tiny_geometry 8192 512 "''q8_0''" 34 "''f16''" 64]
    by (simp add: ceil_div_def MIB_def)
qed

text \<open>
  C4: the verdict is about every way the server can be loaded. A budget is feasible exactly when any
  selection of at most \<open>models_max\<close> of the configured models fits, together with the reserve, the
  extra reservation and the spike headroom, under the ceiling (never above the card).
\<close>

theorem budget_feasible_iff:
  assumes "compute_budget vram used flr costs n tk tv cap extra = Inr b"
    and "\<forall>c \<in> set costs. 0 \<le> c_weights_mib c \<and> 0 \<le> kv_mib (c_kv c)"
  shows "b_feasible b \<longleftrightarrow>
    (\<forall>sub. mset sub \<subseteq># mset (b_models b) \<longrightarrow> int (length sub) \<le> n \<longrightarrow>
       sum_list (map required_mib sub) + max used flr + extra + SPIKE_HEADROOM_MIB
         \<le> (case cap of None \<Rightarrow> vram | Some c \<Rightarrow> min vram c))"
proof -
  let ?ms = "map size_model costs"
  let ?cap = "case cap of None \<Rightarrow> vram | Some c \<Rightarrow> min vram c"
  have n: "1 \<le> n" "n \<le> int (length ?ms)" and ms: "b_models b = ?ms"
    and f: "b_feasible b \<longleftrightarrow>
      sum_list (map required_mib (residents n ?ms)) \<le> ?cap - max used flr - extra - SPIKE_HEADROOM_MIB"
    using assms(1) by (auto simp: compute_budget_def Let_def split: if_splits)
  have nn: "\<forall>m \<in> set ?ms. 0 \<le> required_mib m"
    using assms(2) by (auto simp: size_model_def RUNTIME_OVERHEAD_MIB_def)
  have "mset (residents n ?ms) \<subseteq># mset ?ms"
    unfolding residents_def by (rule take_sort_key_sub)
  moreover have "int (length (residents n ?ms)) \<le> n"
    using n by (simp add: residents_def)
  ultimately have "sum_list (map required_mib (residents n ?ms)) \<le> a \<longleftrightarrow>
      (\<forall>sub. mset sub \<subseteq># mset ?ms \<longrightarrow> int (length sub) \<le> n \<longrightarrow> sum_list (map required_mib sub) \<le> a)" for a
    using residents_worst_case [OF _ _ n(2) nn] by (meson order_trans)
  moreover have "x + max used flr + extra + SPIKE_HEADROOM_MIB \<le> ?cap \<longleftrightarrow>
      x \<le> ?cap - max used flr - extra - SPIKE_HEADROOM_MIB" for x
    by linarith
  ultimately show ?thesis
    unfolding f ms by (simp only:)
qed

definition two_costs :: "cost list" where
  "two_costs =
     [\<lparr>c_alias = ''small'', c_weights_mib = 2000, c_ram_weights_mib = 0,
       c_kv = \<lparr>full_kv_mib = 100, swa_kv_mib = 0, kv_mib = 100\<rparr>\<rparr>,
      \<lparr>c_alias = ''large'', c_weights_mib = 9000, c_ram_weights_mib = 0,
       c_kv = \<lparr>full_kv_mib = 500, swa_kv_mib = 0, kv_mib = 500\<rparr>\<rparr>]"

theorem budget_feasible_iff_witness:
  "\<exists>b. compute_budget 16384 800 512 two_costs 1 ''q8_0'' ''q8_0'' None 0 = Inr b \<and> b_feasible b
    \<and> required_mib (size_model (two_costs ! 1)) + 800 + SPIKE_HEADROOM_MIB \<le> 16384"
proof -
  obtain b where b: "compute_budget 16384 800 512 two_costs 1 ''q8_0'' ''q8_0'' None 0 = Inr b"
    "b_feasible b" "b_models b = map size_model two_costs"
    by (simp add: compute_budget_def two_costs_def residents_def size_model_def RUNTIME_OVERHEAD_MIB_def
        SPIKE_HEADROOM_MIB_def Let_def)
  have "\<forall>c \<in> set two_costs. 0 \<le> c_weights_mib c \<and> 0 \<le> kv_mib (c_kv c)"
    by (simp add: two_costs_def)
  from budget_feasible_iff [OF b(1) this] b(2,3)
  have "\<forall>sub. mset sub \<subseteq># mset (map size_model two_costs) \<longrightarrow> int (length sub) \<le> 1 \<longrightarrow>
      sum_list (map required_mib sub) + 800 + SPIKE_HEADROOM_MIB \<le> 16384"
    by simp
  from this [rule_format, of "[size_model (two_costs ! 1)]"] b show ?thesis
    by (auto simp: two_costs_def)
qed

text \<open>
  A percentage budget of at most 100 % of the card is a number of mebibytes between 0 and the
  whole card, for any amount the grammar accepts and any rounding of the decimal.
\<close>

theorem percent_budget_bounds:
  assumes "match_budget v = Some (a, Percent)" "0 \<le> a" "a \<le> 100" "0 \<le> vram" "100 * vram \<le> 2 ^ 53"
  shows "\<exists>r. parse_vram_budget v vram = Inr r \<and> 0 \<le> r \<and> r \<le> vram"
proof -
  have fa: "0 \<le> fl a" "fl a \<le> 100"
    using fl_mono [OF assms(2)] fl_mono [OF assms(3)] fl_int [of 100] by simp_all
  let ?x = "fl (fl (of_int vram * fl a) / 100)"
  have x: "0 \<le> ?x" "?x \<le> of_int vram"
    using b64.percent_le [OF assms(4,5) fa] by simp_all
  have "parse_vram_budget v vram = Inr (ntrunc (FloatN ?x))"
    using assms fl_int [of vram] fl_int [of 100] by (simp add: parse_vram_budget_def)
  with x show ?thesis
    using floor_mono [OF x(2)] by simp
qed

theorem percent_budget_bounds_witness:
  "\<exists>r. parse_vram_budget '' 55.5 %'' 16304 = Inr r \<and> 0 \<le> r \<and> r \<le> 16304"
proof -
  have "match_budget '' 55.5 %'' = Some (555 / 10, Percent)"
    by (simp add: match_budget_def unit_of_def is_space_def is_digit_def digits_value_def digit_val_def
        lower_def of_char_def)
  then show ?thesis
    by (rule percent_budget_bounds) simp_all
qed

end
