(* ===== verification/Resources.thy ===== *)
theory Resources
  imports Py_Value
begin

text \<open>
  The host CPU/RAM budget and the per-service Compose policy (\<open>pylib/resources.py\<close>): the built-in
  policy, validation and merging of \<open>resources.overrides\<close>, the limits computed for a host, the
  warning about lowered caps and the verdict on live counters.
\<close>

definition HOST_CPU_FLOOR :: int where "HOST_CPU_FLOOR = 2"
definition HOST_MEMORY_FLOOR_MIB :: int where "HOST_MEMORY_FLOOR_MIB = 4096"

section \<open>Policies\<close>

definition POLICY_KEYS :: "string list" where
  "POLICY_KEYS = [''cpus_min'', ''cpus_max'', ''memory_min_mib'', ''memory_max_mib'']"

definition policy_dict :: "pyval \<Rightarrow> pyval \<Rightarrow> int \<Rightarrow> int \<Rightarrow> pydict" where
  "policy_dict cmin cmax mmin mmax =
     [(VStr ''cpus_min'', cmin), (VStr ''cpus_max'', cmax),
      (VStr ''memory_min_mib'', VInt mmin), (VStr ''memory_max_mib'', VInt mmax)]"

definition DEFAULT_POLICY :: "(string, pydict) dict" where
  "DEFAULT_POLICY =
     [(''omniroute'', policy_dict (VInt 1) (VInt 2) 768 2048),
      (''remote_setup'', policy_dict (VFloat (Fin (1 / 4))) (VFloat (Fin (1 / 2))) 32 64),
      (''system_one'', policy_dict (VInt 1) (VInt 2) 2560 5120),
      (''phoenix'', policy_dict (VFloat (Fin (1 / 4))) (VInt 1) 192 1024)]"

definition OVERRIDABLE_SERVICES :: "string list" where
  "OVERRIDABLE_SERVICES = keys DEFAULT_POLICY"

datatype override_error =
    Overrides_not_mapping
  | Unknown_service pyval
  | Override_not_mapping string
  | Unknown_field string pyval
  | Not_positive_number string string
  | Not_positive_integer string string
  | Min_exceeds_max string string string

definition default_policy :: "string \<Rightarrow> pydict" where
  "default_policy service = (case dget DEFAULT_POLICY service of None \<Rightarrow> [] | Some d \<Rightarrow> d)"

text \<open>
  \<open>{**DEFAULT_POLICY[service], **{k: v for k, v in override.items() if k in POLICY_KEYS}}\<close>. The
  argument is a mapping or absent: \<open>validate_overrides\<close> has rejected anything else.
\<close>

fun dict_items :: "pyval \<Rightarrow> pydict" where
  "dict_items (VDict d) = d"
| "dict_items _ = []"

definition override_of :: "pyval \<Rightarrow> string \<Rightarrow> pydict" where
  "override_of overrides service =
     dict_items (vget_or (dict_items overrides) service VNone)"

definition policy_entries :: "pydict \<Rightarrow> pydict" where
  "policy_entries d = filter (\<lambda>(k, v). \<exists>p \<in> set POLICY_KEYS. k = VStr p) d"

definition effective_policy :: "string \<Rightarrow> pyval \<Rightarrow> pydict" where
  "effective_policy service overrides =
     foldl (\<lambda>d (k, v). dput k v d) (default_policy service)
       (policy_entries (override_of overrides service))"

text \<open>A policy value as a number; validated policies hold nothing else.\<close>

definition numv :: "pydict \<Rightarrow> string \<Rightarrow> pynum" where
  "numv d k = (case finite_num (vget_or d k VNone) of None \<Rightarrow> IntN 0 | Some n \<Rightarrow> n)"

definition intv :: "pydict \<Rightarrow> string \<Rightarrow> int" where
  "intv d k = (case vget_or d k VNone of VInt n \<Rightarrow> n | _ \<Rightarrow> 0)"

section \<open>Validation of overrides\<close>

definition field_errors :: "string \<Rightarrow> pyval \<times> pyval \<Rightarrow> override_error list" where
  "field_errors service kv =
     (case kv of (key, value) \<Rightarrow>
        (case key of
           VStr k \<Rightarrow>
             if k \<notin> set POLICY_KEYS then [Unknown_field service key]
             else if starts_with ''cpus'' k then
               (if num_sat (\<lambda>x. 0 < x) value then [] else [Not_positive_number service k])
             else if is_positive_int value then [] else [Not_positive_integer service k]
         | _ \<Rightarrow> [Unknown_field service key]))"

definition order_errors :: "string \<Rightarrow> pydict \<Rightarrow> override_error list" where
  "order_errors service merged =
     concat (map (\<lambda>(low, high).
         if nval (numv merged high) < nval (numv merged low) then [Min_exceeds_max service low high] else [])
       [(''cpus_min'', ''cpus_max''), (''memory_min_mib'', ''memory_max_mib'')])"

definition service_errors :: "pyval \<times> pyval \<Rightarrow> override_error list" where
  "service_errors kv =
     (case kv of (skey, override) \<Rightarrow>
        (case skey of
           VStr service \<Rightarrow>
             if service \<notin> set OVERRIDABLE_SERVICES then [Unknown_service skey]
             else (case override of
                     VDict d \<Rightarrow>
                       let errs = concat (map (field_errors service) d) in
                       if errs \<noteq> [] then errs
                       else order_errors service (effective_policy service (VDict [(skey, override)]))
                   | _ \<Rightarrow> [Override_not_mapping service])
         | _ \<Rightarrow> [Unknown_service skey]))"

definition validate_overrides :: "pyval \<Rightarrow> override_error list" where
  "validate_overrides overrides =
     (case overrides of
        VNone \<Rightarrow> []
      | VDict d \<Rightarrow> concat (map service_errors d)
      | _ \<Rightarrow> [Overrides_not_mapping])"

section \<open>The limits of a host\<close>

datatype resource_error =
    Bad_overrides "override_error list"
  | Too_few_cpus pynum pynum
  | Too_little_memory int int

record llm_limits =
  l_cpus :: pynum
  l_memory_mib :: int

record limits =
  l_omniroute :: pydict
  l_remote_setup :: pydict
  l_llm_server :: llm_limits
  l_system_one :: pydict
  l_phoenix :: pydict
  l_applied :: "(string \<times> string list) list"
  l_hard_total :: int
  l_soft_total :: int

definition zero_policy :: pydict where
  "zero_policy = map (\<lambda>k. (VStr k, VInt 0)) POLICY_KEYS"

definition cpu_floor :: "pydict \<Rightarrow> pydict \<Rightarrow> pydict \<Rightarrow> pydict \<Rightarrow> bool \<Rightarrow> pynum" where
  "cpu_floor om rs so ph system_one_enabled =
     (let base = nadd (nadd (IntN HOST_CPU_FLOOR) (numv om ''cpus_min'')) (numv rs ''cpus_min'') in
      if system_one_enabled then nadd (nadd base (numv so ''cpus_min'')) (numv ph ''cpus_min'') else base)"

definition memory_floor :: "pydict \<Rightarrow> pydict \<Rightarrow> pydict \<Rightarrow> pydict \<Rightarrow> bool \<Rightarrow> int" where
  "memory_floor om rs so ph system_one_enabled =
     HOST_MEMORY_FLOOR_MIB + intv om ''memory_min_mib'' + intv rs ''memory_min_mib''
     + (if system_one_enabled then intv so ''memory_min_mib'' + intv ph ''memory_min_mib'' else 0)"

definition pct_of :: "pynum \<Rightarrow> pynum \<Rightarrow> int" where
  "pct_of t pct = nround (ndiv (nmul t pct) (IntN 100))"

text \<open>\<open>sorted(key for key in overrides[service] if key in POLICY_KEYS)\<close> for each active service.\<close>

fun text_of :: "pyval \<Rightarrow> string" where
  "text_of (VStr s) = s"
| "text_of _ = []"

definition applied_overrides :: "pyval \<Rightarrow> bool \<Rightarrow> (string \<times> string list) list" where
  "applied_overrides overrides system_one_enabled =
     map (\<lambda>s. (s, sort (map (\<lambda>(k, v). text_of k) (policy_entries (override_of overrides s)))))
       (filter (\<lambda>s. override_of overrides s \<noteq> [])
          ([''omniroute'', ''remote_setup'']
           @ (if system_one_enabled then [''system_one'', ''phoenix''] else [])))"

definition llm_server_limits ::
    "pynum \<Rightarrow> int \<Rightarrow> pynum \<Rightarrow> pynum \<Rightarrow> pynum \<Rightarrow> pynum \<Rightarrow> pynum \<Rightarrow> int \<Rightarrow> llm_limits" where
  "llm_server_limits cpus mem mpct mfloor cpct cfloor cfl mfl =
     (let memory_ceiling = max (pct_of (IntN mem) mfloor) (pct_of (IntN mem) mpct);
          cpu_ceiling = max (max 1 (pct_of cpus cfloor)) (pct_of cpus cpct)
      in \<lparr>l_cpus = nmin (nsub cpus cfl) (IntN cpu_ceiling), l_memory_mib = min (mem - mfl) memory_ceiling\<rparr>)"

definition compute_resource_limits ::
    "pynum \<Rightarrow> int \<Rightarrow> pynum \<Rightarrow> pynum \<Rightarrow> pynum \<Rightarrow> pynum \<Rightarrow> bool \<Rightarrow> bool \<Rightarrow> pyval \<Rightarrow>
     (resource_error, limits) result" where
  "compute_resource_limits cpus mem mpct mfloor cpct cfloor llm_enabled s1_enabled overrides =
     (if validate_overrides overrides \<noteq> [] then Inl (Bad_overrides (validate_overrides overrides))
      else
        let om = effective_policy ''omniroute'' overrides;
            rs = effective_policy ''remote_setup'' overrides;
            so = effective_policy ''system_one'' overrides;
            ph = effective_policy ''phoenix'' overrides;
            cfl = cpu_floor om rs so ph s1_enabled;
            mfl = memory_floor om rs so ph s1_enabled
        in
        if llm_enabled \<and> nval cpus \<le> nval cfl \<or> \<not> llm_enabled \<and> nval cpus < nval cfl
        then Inl (Too_few_cpus cpus cfl)
        else if llm_enabled \<and> mem \<le> mfl \<or> \<not> llm_enabled \<and> mem < mfl
        then Inl (Too_little_memory mem mfl)
        else
          let llm = (if llm_enabled then llm_server_limits cpus mem mpct mfloor cpct cfloor cfl mfl
                     else \<lparr>l_cpus = IntN 0, l_memory_mib = 0\<rparr>);
              so' = (if s1_enabled then so else zero_policy);
              ph' = (if s1_enabled then ph else zero_policy);
              policies = [om, rs, so', ph']
          in Inr \<lparr>l_omniroute = om, l_remote_setup = rs, l_llm_server = llm, l_system_one = so',
                  l_phoenix = ph', l_applied = applied_overrides overrides s1_enabled,
                  l_hard_total = l_memory_mib llm + sum_list (map (\<lambda>p. intv p ''memory_max_mib'') policies),
                  l_soft_total = sum_list (map (\<lambda>p. intv p ''memory_min_mib'') policies)\<rparr>)"

definition service_policy :: "limits \<Rightarrow> string \<Rightarrow> pydict" where
  "service_policy l s =
     (if s = ''omniroute'' then l_omniroute l
      else if s = ''remote_setup'' then l_remote_setup l
      else if s = ''system_one'' then l_system_one l
      else l_phoenix l)"

text \<open>\<open>lowered_cap_warnings\<close>: the service, its cap and its default.\<close>

definition lowered_cap_warnings :: "limits \<Rightarrow> (string \<times> int \<times> int) list" where
  "lowered_cap_warnings l =
     [(s, intv (service_policy l s) ''memory_max_mib'', intv (default_policy s) ''memory_max_mib'').
        s \<leftarrow> OVERRIDABLE_SERVICES,
        0 < intv (service_policy l s) ''memory_max_mib''
        \<and> intv (service_policy l s) ''memory_max_mib'' < intv (default_policy s) ''memory_max_mib'']"

section \<open>The verdict on live counters\<close>

record live_row =
  r_peak_over_cap :: "rat option"
  r_psi_some_avg300 :: "rat option"
  r_psi_full_avg300 :: "rat option"
  r_oom_kill :: "int option"
  r_events_max :: "int option"
  r_restart_pending :: bool

datatype live_state = OK | WATCH | ALERT

definition ALERT_PEAK_RATIO :: rat where "ALERT_PEAK_RATIO = fl (92 / 100)"
definition ALERT_PSI_FULL_AVG300 :: rat where "ALERT_PSI_FULL_AVG300 = 5"
definition WATCH_PEAK_RATIO :: rat where "WATCH_PEAK_RATIO = fl (85 / 100)"
definition WATCH_PSI_SOME_AVG300 :: rat where "WATCH_PSI_SOME_AVG300 = 10"

definition or0 :: "'a::zero option \<Rightarrow> 'a" where
  "or0 x = (case x of None \<Rightarrow> 0 | Some v \<Rightarrow> v)"

definition live_verdict :: "live_row \<Rightarrow> live_state" where
  "live_verdict r =
     (if 0 < or0 (r_oom_kill r) \<or> ALERT_PEAK_RATIO \<le> or0 (r_peak_over_cap r)
         \<or> ALERT_PSI_FULL_AVG300 \<le> or0 (r_psi_full_avg300 r) then ALERT
      else if 0 < or0 (r_events_max r) \<or> WATCH_PEAK_RATIO \<le> or0 (r_peak_over_cap r)
         \<or> WATCH_PSI_SOME_AVG300 \<le> or0 (r_psi_some_avg300 r) \<or> r_restart_pending r then WATCH
      else OK)"

text \<open>The three verdicts are ordered by severity.\<close>

instantiation live_state :: linorder
begin

definition severity :: "live_state \<Rightarrow> nat" where
  "severity v = (case v of OK \<Rightarrow> 0 | WATCH \<Rightarrow> 1 | ALERT \<Rightarrow> 2)"

definition less_eq_live_state :: "live_state \<Rightarrow> live_state \<Rightarrow> bool" where
  "less_eq_live_state a b \<longleftrightarrow> severity a \<le> severity b"

definition less_live_state :: "live_state \<Rightarrow> live_state \<Rightarrow> bool" where
  "less_live_state a b \<longleftrightarrow> severity a < severity b"

instance
  by standard
    (auto simp: less_eq_live_state_def less_live_state_def severity_def split: live_state.splits)

end

section \<open>Validated policies\<close>

definition policy_typed :: "pydict \<Rightarrow> bool" where
  "policy_typed d \<longleftrightarrow>
     (\<forall>k \<in> {''cpus_min'', ''cpus_max''}. num_sat (\<lambda>x. 0 < x) (vget_or d k VNone))
     \<and> (\<forall>k \<in> {''memory_min_mib'', ''memory_max_mib''}. is_positive_int (vget_or d k VNone))"

definition policy_ok :: "pydict \<Rightarrow> bool" where
  "policy_ok d \<longleftrightarrow>
     policy_typed d
     \<and> nval (numv d ''cpus_min'') \<le> nval (numv d ''cpus_max'')
     \<and> intv d ''memory_min_mib'' \<le> intv d ''memory_max_mib''"

lemma vget_or_dput: "vget_or (dput (VStr k) v d) j w = (if j = k then v else vget_or d j w)"
  by (simp add: vget_or_def vget_def)

lemma defaults_ok: "s \<in> set OVERRIDABLE_SERVICES \<Longrightarrow> policy_ok (default_policy s)"
  by (auto simp: OVERRIDABLE_SERVICES_def DEFAULT_POLICY_def default_policy_def policy_dict_def
      policy_ok_def policy_typed_def num_sat_def numv_def intv_def vget_or_def vget_def)

lemma field_errors_step:
  assumes "field_errors s (k, v) = []" "policy_typed d"
  shows "\<exists>p. k = VStr p \<and> policy_typed (dput k v d)"
  using assms
  by (auto simp: field_errors_def POLICY_KEYS_def policy_typed_def vget_or_dput starts_with_def
      split: pyval.splits if_splits)

lemma merge_typed:
  assumes "\<forall>kv \<in> set es. field_errors s kv = []" "policy_typed d"
  shows "policy_typed (foldl (\<lambda>d (k, v). dput k v d) d es)"
  using assms
proof (induction es arbitrary: d)
  case Nil
  then show ?case by simp
next
  case (Cons kv es)
  obtain k v where kv: "kv = (k, v)"
    by fastforce
  then have "policy_typed (dput k v d)"
    using Cons.prems field_errors_step [of s k v d] by auto
  with Cons kv show ?case
    by simp
qed

lemma numv_mem: "policy_typed d \<Longrightarrow> k \<in> {''memory_min_mib'', ''memory_max_mib''} \<Longrightarrow>
    nval (numv d k) = of_int (intv d k) \<and> 0 < intv d k"
  by (auto simp: policy_typed_def numv_def intv_def dest!: is_positive_intD)

lemma numv_cpu: "policy_typed d \<Longrightarrow> k \<in> {''cpus_min'', ''cpus_max''} \<Longrightarrow> 0 < nval (numv d k)"
  by (auto simp: policy_typed_def numv_def dest!: num_satD)

lemma override_cases:
  assumes "validate_overrides v = []"
  obtains (none) "override_of v s = []"
  | (some) d where "override_of v s = d" "service_errors (VStr s, VDict d) = []"
proof (cases v)
  case (VDict dd)
  show ?thesis
  proof (cases "map_of dd (VStr s)")
    case None
    with VDict have "override_of v s = []"
      by (simp add: override_of_def vget_or_def vget_def)
    then show ?thesis by (rule none)
  next
    case (Some ov)
    then have "service_errors (VStr s, ov) = []"
      using assms VDict by (auto simp: validate_overrides_def dest: map_of_SomeD)
    moreover from this obtain d where "ov = VDict d"
      by (cases ov) (auto simp: service_errors_def split: if_splits)
    ultimately show ?thesis
      using some [of d] VDict Some by (simp add: override_of_def vget_or_def vget_def)
  qed
qed (use assms none in \<open>simp_all add: validate_overrides_def override_of_def vget_or_def vget_def\<close>)

lemma effective_policy_cong:
  "override_of v s = override_of w s \<Longrightarrow> effective_policy s v = effective_policy s w"
  by (simp add: effective_policy_def)

lemma validated_ok:
  assumes "validate_overrides v = []" "s \<in> set OVERRIDABLE_SERVICES"
  shows "policy_ok (effective_policy s v)"
proof (cases rule: override_cases [OF assms(1), of s])
  case 1
  note none = 1
  then show ?thesis
    using defaults_ok [OF assms(2)] by (simp add: effective_policy_def policy_entries_def)
next
  case (2 d)
  note some = 2
  have fe: "\<forall>kv \<in> set d. field_errors s kv = []"
    and oe: "order_errors s (effective_policy s (VDict [(VStr s, VDict d)])) = []"
    using some(2) assms(2) by (auto simp: service_errors_def Let_def split: if_splits)
  have eq: "effective_policy s (VDict [(VStr s, VDict d)]) = effective_policy s v"
  proof (rule effective_policy_cong)
    show "override_of (VDict [(VStr s, VDict d)]) s = override_of v s"
      unfolding some(1) by (simp add: override_of_def vget_or_def vget_def)
  qed
  have typed: "policy_typed (effective_policy s v)"
    unfolding effective_policy_def some(1)
    by (rule merge_typed [of _ s]) (use fe defaults_ok [OF assms(2)] in \<open>auto simp: policy_entries_def policy_ok_def\<close>)
  then show ?thesis
    using oe unfolding eq policy_ok_def
    by (simp add: order_errors_def numv_mem not_less split: if_splits)
qed

lemma services: "''omniroute'' \<in> set OVERRIDABLE_SERVICES" "''remote_setup'' \<in> set OVERRIDABLE_SERVICES"
  "''system_one'' \<in> set OVERRIDABLE_SERVICES" "''phoenix'' \<in> set OVERRIDABLE_SERVICES"
  by (simp_all add: OVERRIDABLE_SERVICES_def DEFAULT_POLICY_def)

lemma intv_zero [simp]: "intv zero_policy k = 0"
  by (auto simp: intv_def zero_policy_def POLICY_KEYS_def vget_or_def vget_def split: option.splits)

lemma nsub_pos:
  assumes "nval b < of_int a" "\<bar>a\<bar> \<le> 2 ^ 53"
  shows "0 < nval (nsub (IntN a) b)"
proof (cases b)
  case (FloatN x)
  with assms have "0 < of_int a - x"
    by simp
  then have "0 < fl (of_int a - x)"
    using fl_pos_gt0 [of "of_int a - x"] by (simp add: fl_def)
  with FloatN assms show ?thesis
    by simp
qed (use assms in simp)

section \<open>Properties\<close>

text \<open>
  C5: overrides that pass validation can never remove a limit: for every service the effective
  policy holds positive numbers in all four fields and each minimum is at most its maximum.
\<close>

theorem validated_policy_never_uncapped:
  assumes "validate_overrides v = []" "s \<in> set OVERRIDABLE_SERVICES"
  shows "0 < nval (numv (effective_policy s v) ''cpus_min'')
    \<and> nval (numv (effective_policy s v) ''cpus_min'') \<le> nval (numv (effective_policy s v) ''cpus_max'')
    \<and> 0 < intv (effective_policy s v) ''memory_min_mib''
    \<and> intv (effective_policy s v) ''memory_min_mib'' \<le> intv (effective_policy s v) ''memory_max_mib''"
  using validated_ok [OF assms] by (auto simp: policy_ok_def numv_mem numv_cpu)

definition sample_overrides :: pyval where
  "sample_overrides =
     VDict [(VStr ''omniroute'', VDict [(VStr ''memory_max_mib'', VInt 1024), (VStr ''cpus_max'', VInt 3)])]"

lemma sample_overrides_valid: "validate_overrides sample_overrides = []"
  by (simp add: sample_overrides_def validate_overrides_def service_errors_def field_errors_def
      order_errors_def effective_policy_def override_of_def policy_entries_def default_policy_def
      OVERRIDABLE_SERVICES_def DEFAULT_POLICY_def POLICY_KEYS_def policy_dict_def num_sat_def numv_def
      vget_or_def vget_def starts_with_def)

theorem validated_policy_never_uncapped_witness:
  "0 < nval (numv (effective_policy ''omniroute'' sample_overrides) ''cpus_min'')
    \<and> nval (numv (effective_policy ''omniroute'' sample_overrides) ''cpus_min'')
        \<le> nval (numv (effective_policy ''omniroute'' sample_overrides) ''cpus_max'')
    \<and> 0 < intv (effective_policy ''omniroute'' sample_overrides) ''memory_min_mib''
    \<and> intv (effective_policy ''omniroute'' sample_overrides) ''memory_min_mib''
        \<le> intv (effective_policy ''omniroute'' sample_overrides) ''memory_max_mib''"
  by (rule validated_policy_never_uncapped [OF sample_overrides_valid services(1)])

text \<open>
  C10: the limits never promise more memory than the host has: the fixed floor of the host, the
  budgeted minimum of every active service and the llm-server cap together fit the host's total.
\<close>

theorem memory_fits_host:
  assumes "compute_resource_limits cpus mem mp mf cp cf llm s1 v = Inr L"
  shows "HOST_MEMORY_FLOOR_MIB + l_soft_total L + l_memory_mib (l_llm_server L) \<le> mem"
  using assms
  by (auto simp: compute_resource_limits_def Let_def memory_floor_def llm_server_limits_def
      split: if_splits)


lemma sample_limits:
  "\<exists>L. compute_resource_limits (IntN 16) 65536 (IntN 46) (IntN 30) (IntN 60) (IntN 20) True True VNone = Inr L"
proof -
  have f: "fl (13 / 4) = 13 / 4" "fl (17 / 4) = 17 / 4" "fl (9 / 2) = 9 / 2"
    using fl_quarter [of 13] fl_quarter [of 17] fl_quarter [of 18] by simp_all
  have e: "fl 3 = 3"
    using fl_int [of 3] by simp
  show ?thesis
    by (simp add: f e fl_int [of 1, simplified] fl_int [of 4, simplified] compute_resource_limits_def validate_overrides_def effective_policy_def policy_entries_def
        override_of_def default_policy_def DEFAULT_POLICY_def policy_dict_def numv_def intv_def vget_or_def
        vget_def cpu_floor_def memory_floor_def HOST_CPU_FLOOR_def HOST_MEMORY_FLOOR_MIB_def Let_def)
qed

theorem memory_fits_host_witness:
  "\<exists>L. compute_resource_limits (IntN 16) 65536 (IntN 46) (IntN 30) (IntN 60) (IntN 20) True True VNone = Inr L
    \<and> HOST_MEMORY_FLOOR_MIB + l_soft_total L + l_memory_mib (l_llm_server L) \<le> 65536"
  using sample_limits memory_fits_host by blast

text \<open>
  On a host whose CPU count is an integer, a granted llm-server CPU limit is positive: the
  rendered compose file can never read it as \<open>no limit\<close>, however small the percentages are.
\<close>

theorem cpu_limit_positive:
  assumes "compute_resource_limits (IntN c) mem mp mf cp cf True s1 v = Inr L" "\<bar>c\<bar> \<le> 2 ^ 53"
  shows "0 < nval (l_cpus (l_llm_server L))"
proof -
  let ?p = "\<lambda>s. effective_policy s v"
  let ?cfl = "cpu_floor (?p ''omniroute'') (?p ''remote_setup'') (?p ''system_one'') (?p ''phoenix'') s1"
  have "nval ?cfl < of_int c"
    "\<exists>mfl. l_llm_server L = llm_server_limits (IntN c) mem mp mf cp cf ?cfl mfl"
    using assms(1) by (auto simp: compute_resource_limits_def Let_def not_le split: if_splits)
  with nsub_pos [of ?cfl c] assms(2) show ?thesis
    by (auto simp: llm_server_limits_def Let_def)
qed

theorem cpu_limit_positive_witness:
  "\<exists>L. compute_resource_limits (IntN 16) 65536 (IntN 46) (IntN 30) (IntN 60) (IntN 20) True True VNone = Inr L
    \<and> 0 < nval (l_cpus (l_llm_server L))"
proof -
  obtain L where "compute_resource_limits (IntN 16) 65536 (IntN 46) (IntN 30) (IntN 60) (IntN 20) True True VNone = Inr L"
    using sample_limits by blast
  with cpu_limit_positive [OF this] show ?thesis
    by simp
qed

text \<open>
  C12: the memory cap has no such floor. With both percentages at 0.001 (which validation accepts) a
  host of 16384 MiB gets a cap of 0 MiB, which the compose renderer omits, leaving the server
  uncapped, although the code's comment says a percentage of the total cannot round down to 0.
\<close>

theorem memory_cap_can_vanish:
  "map_sum id (\<lambda>L. l_memory_mib (l_llm_server L))
     (compute_resource_limits (IntN 16) 16384 (FloatN (fl (1 / 1000))) (FloatN (fl (1 / 1000)))
        (IntN 60) (IntN 20) True False VNone) = Inr 0"
proof -
  have f: "fl (13 / 4) = 13 / 4" "fl 3 = 3" "fl 100 = 100"
    using fl_quarter [of 13] fl_int [of 3] fl_int [of 100] by simp_all
  have b: "0 \<le> fl (1 / 1000)" "fl (1 / 1000) \<le> 1"
    using fl_mono [of 0 "1 / 1000"] fl_mono [of "1 / 1000" 1] fl_int [of 1] by simp_all
  have small: "fl (1 / 1000) \<le> 1 / 512"
    using fl_mono [of "1 / 1000" "1 / 512"] fl_exact [of 1 "- 9"] by (simp add: power_int_minus)
  have t: "fl 16384 = 16384"
    using fl_int [of 16384] by simp
  have "fl (16384 * fl (1 / 1000)) \<le> 32" "0 \<le> fl (16384 * fl (1 / 1000))"
    using fl_mono [of "16384 * fl (1 / 1000)" 32] fl_int [of 32] small b
      fl_mono [of 0 "16384 * fl (1 / 1000)"] by simp_all
  then have "fl (fl (16384 * fl (1 / 1000)) / 100) \<le> 1 / 2 - 1 / 8" "0 \<le> fl (fl (16384 * fl (1 / 1000)) / 100)"
    using fl_mono [of "fl (16384 * fl (1 / 1000)) / 100" "3 / 8"] fl_exact [of 3 "- 3"]
      fl_mono [of 0 "fl (16384 * fl (1 / 1000)) / 100"]
    by (simp_all add: power_int_minus)
  then have "\<lfloor>fl (fl (16384 * fl (1 / 1000)) / 100)\<rfloor> = 0" "fl (fl (16384 * fl (1 / 1000)) / 100) < 1 / 2"
    by (simp_all add: floor_eq_iff)
  then have pct: "pct_of (IntN 16384) (FloatN (fl (1 / 1000))) = 0"
    by (simp add: pct_of_def t f round_half_even_def)
  show ?thesis
    by (simp add: f pct llm_server_limits_def fl_int [of 1, simplified] compute_resource_limits_def
        validate_overrides_def effective_policy_def policy_entries_def override_of_def default_policy_def
        DEFAULT_POLICY_def policy_dict_def numv_def intv_def vget_or_def vget_def cpu_floor_def
        memory_floor_def HOST_CPU_FLOOR_def HOST_MEMORY_FLOOR_MIB_def Let_def)
qed

text \<open>
  The live verdict is monotone in the counters it reads: no counter that gets worse can turn an
  ALERT into a WATCH or a WATCH into OK (an unreadable counter counts as 0).
\<close>

theorem live_verdict_mono:
  assumes "or0 (r_oom_kill r) \<le> or0 (r_oom_kill r')" "or0 (r_events_max r) \<le> or0 (r_events_max r')"
    and "or0 (r_peak_over_cap r) \<le> or0 (r_peak_over_cap r')"
    and "or0 (r_psi_full_avg300 r) \<le> or0 (r_psi_full_avg300 r')"
    and "or0 (r_psi_some_avg300 r) \<le> or0 (r_psi_some_avg300 r')"
    and "r_restart_pending r \<longrightarrow> r_restart_pending r'"
  shows "live_verdict r \<le> live_verdict r'"
  using assms unfolding live_verdict_def
  by (auto simp: less_eq_live_state_def severity_def)

definition sample_row :: live_row where
  "sample_row = \<lparr>r_peak_over_cap = Some (1 / 2), r_psi_some_avg300 = None, r_psi_full_avg300 = Some 1,
     r_oom_kill = Some 0, r_events_max = Some 0, r_restart_pending = False\<rparr>"

theorem live_verdict_mono_witness:
  "live_verdict sample_row \<le> live_verdict (sample_row\<lparr>r_oom_kill := Some 1\<rparr>)"
  by (rule live_verdict_mono) (simp_all add: sample_row_def or0_def)

end
