(* ===== verification/Idle_Gate.thy ===== *)
theory Idle_Gate
  imports Py_Value
begin

text \<open>
  The idle gate of the OmniRoute updater (\<open>pylib/omniroute_activity.py\<close>, \<open>pylib/omniroute_observer.py\<close>):
  the closed set of reasons, the sanitized sample, its classification, the gate's state machine and
  one turn of the observer loop that drives it. Times are binary64 seconds.
  The sample's \<open>detail\<close>, text for the operator that no decision reads, is left out.
\<close>

datatype reason =
    R_ready | R_busy | R_capability | R_coverage | R_logging | R_feed | R_overflow | R_auth | R_schema
  | R_age | R_clock | R_continuity | R_deadline | R_ownership | R_health | R_lock | R_input | R_io | R_state

section \<open>Samples\<close>

record sample =
  profile_sha256 :: string
  container_id :: string
  started_at :: string
  boot_id :: string
  seq_no :: int
  sample_monotonic :: rat
  arrival_generation :: int
  row_generation :: int
  active :: int
  pending :: int
  admission :: int
  health_timestamp_ms :: "int option"
  health_age_ms :: "int option"
  feed_ready :: bool
  barrier_seen :: bool
  continuous :: bool
  overflow :: bool
  is_unknown :: bool
  why :: reason

datatype activity = Idle | Busy | Unknown

definition classify :: "sample \<Rightarrow> activity" where
  "classify s =
     (if 0 < active s \<or> 0 < pending s \<or> 0 < admission s \<or> (why s = R_busy \<and> \<not> is_unknown s) then Busy
      else if is_unknown s \<or> overflow s \<or> \<not> (feed_ready s \<and> barrier_seen s \<and> continuous s) then Unknown
      else Idle)"

text \<open>\<open>Sample.validate\<close>: the counters and timestamps of a sample are not negative.\<close>

definition sample_valid :: "sample \<Rightarrow> bool" where
  "sample_valid s \<longleftrightarrow>
     0 \<le> active s \<and> 0 \<le> pending s \<and> 0 \<le> admission s \<and> 0 \<le> arrival_generation s
     \<and> 0 \<le> row_generation s \<and> 0 \<le> seq_no s
     \<and> (case health_timestamp_ms s of None \<Rightarrow> True | Some t \<Rightarrow> 0 \<le> t)
     \<and> (case health_age_ms s of None \<Rightarrow> True | Some t \<Rightarrow> 0 \<le> t)"

definition failed_sample :: "string \<Rightarrow> string \<Rightarrow> int \<Rightarrow> reason \<Rightarrow> rat \<Rightarrow> sample" where
  "failed_sample cid started seqn r now =
     \<lparr>profile_sha256 = replicate 64 (CHR ''0''), container_id = cid, started_at = started, boot_id = [],
      seq_no = seqn, sample_monotonic = now, arrival_generation = 0, row_generation = 0, active = 0,
      pending = 0, admission = 0, health_timestamp_ms = None, health_age_ms = None, feed_ready = False,
      barrier_seen = False, continuous = False, overflow = False, is_unknown = True, why = r\<rparr>"

section \<open>The gate\<close>

definition TRANSIENT_REASONS :: "reason list" where
  "TRANSIENT_REASONS = [R_age, R_io, R_clock]"

definition UNKNOWN_BUDGET_S :: rat where "UNKNOWN_BUDGET_S = 60"

record gate =
  min_wait :: int
  deadline :: rat
  base_ts :: "int option"
  advanced :: bool
  quiet_since :: "rat option"
  quiet_gens :: "(int \<times> int) option"
  resampling :: bool
  unknown_since :: "rat option"

definition new_gate :: "int \<Rightarrow> rat \<Rightarrow> gate" where
  "new_gate mw dl =
     \<lparr>min_wait = mw, deadline = dl, base_ts = None, advanced = False, quiet_since = None,
      quiet_gens = None, resampling = False, unknown_since = None\<rparr>"

record gate_input =
  at_time :: rat
  act :: activity
  gens :: "int \<times> int"
  health_ts :: "int option"
  in_reason :: reason

datatype verdict = Wait | Resample | Ready | Defer_deadline | Defer_unknown

definition close_window :: "gate \<Rightarrow> gate" where
  "close_window g = g\<lparr>quiet_since := None, quiet_gens := None, resampling := False\<rparr>"

definition note_health :: "int option \<Rightarrow> gate \<Rightarrow> gate" where
  "note_health ts g =
     (case ts of
        None \<Rightarrow> g
      | Some t \<Rightarrow>
          (case base_ts g of
             None \<Rightarrow> g\<lparr>base_ts := Some t\<rparr>
           | Some b \<Rightarrow> if b < t then g\<lparr>advanced := True\<rparr> else g))"

definition unknown_start :: "rat \<Rightarrow> gate \<Rightarrow> rat" where
  "unknown_start now g = (case unknown_since g of None \<Rightarrow> now | Some u \<Rightarrow> u)"

definition step_unknown :: "gate \<Rightarrow> gate_input \<Rightarrow> gate \<times> verdict" where
  "step_unknown g i =
     (let u = unknown_start (at_time i) g; g1 = g\<lparr>unknown_since := Some u\<rparr> in
      if in_reason i \<notin> set TRANSIENT_REASONS \<or> UNKNOWN_BUDGET_S < fl (at_time i - u)
      then (g1, Defer_unknown) else (close_window g1, Wait))"

definition step_known :: "gate \<Rightarrow> gate_input \<Rightarrow> gate \<times> verdict" where
  "step_known g i =
     (let g1 = note_health (health_ts i) (g\<lparr>unknown_since := None\<rparr>) in
      if act i = Busy \<or> (quiet_gens g1 \<noteq> None \<and> quiet_gens g1 \<noteq> Some (gens i)) then (close_window g1, Wait)
      else if \<not> advanced g1 then (g1, Wait)
      else (case quiet_since g1 of
              None \<Rightarrow> (g1\<lparr>quiet_since := Some (at_time i), quiet_gens := Some (gens i)\<rparr>, Wait)
            | Some q \<Rightarrow>
                if fl (at_time i - q) < of_int (min_wait g1) then (g1, Wait)
                else if \<not> resampling g1 then (g1\<lparr>resampling := True\<rparr>, Resample)
                else (g1, Ready)))"

definition gate_step :: "gate \<Rightarrow> gate_input \<Rightarrow> gate \<times> verdict" where
  "gate_step g i =
     (if deadline g \<le> at_time i then (g, Defer_deadline)
      else if act i = Unknown then step_unknown g i
      else step_known g i)"

definition remaining :: "gate \<Rightarrow> rat \<Rightarrow> rat" where
  "remaining g now = max 0 (fl (deadline g - now))"

section \<open>One turn of the observer\<close>

definition verdict_input :: "sample \<Rightarrow> gate_input" where
  "verdict_input s =
     \<lparr>at_time = sample_monotonic s, act = classify s,
      gens = (arrival_generation s, row_generation s), health_ts = health_timestamp_ms s,
      in_reason = why s\<rparr>"

record published =
  p_seq :: int
  p_verdict :: verdict
  p_reason :: reason
  p_sample :: sample

text \<open>
  \<open>observe_loop\<close>: a verdict \<open>resample\<close> is followed at once by a complete sample with a fresh barrier
  (\<open>again\<close>) and a second verdict; what is published is the last verdict with its sample.
\<close>

definition observe_turn :: "gate \<Rightarrow> sample \<Rightarrow> sample \<Rightarrow> gate \<times> published" where
  "observe_turn g s again =
     (let (g1, v1) = gate_step g (verdict_input s);
          (g2, v2, s2) =
            (if v1 = Resample
             then (case gate_step g1 (verdict_input again) of (g', v') \<Rightarrow> (g', v', again))
             else (g1, v1, s))
      in (g2, \<lparr>p_seq = seq_no s2, p_verdict = v2,
               p_reason = (if v2 = Defer_deadline then R_deadline else why s2), p_sample = s2\<rparr>))"

section \<open>The override grammar of the updater\<close>

definition parse_override :: "string option \<Rightarrow> int \<Rightarrow> (string, int) result" where
  "parse_override value dflt =
     (case value of
        None \<Rightarrow> Inr dflt
      | Some v \<Rightarrow>
          if \<not> all_digits v \<or> 10 < length v
          then Inl ''override must be a positive integer of at most 10 digits''
          else (let n = digits_value v in
                if 1 \<le> n \<and> n \<le> 2147483647 then Inr n
                else Inl ''override must be between 1 and 2147483647''))"

definition wait_overrides :: "string option \<Rightarrow> string option \<Rightarrow> (string, int \<times> int) result" where
  "wait_overrides idle max_wait =
     bindR (parse_override idle 300) (\<lambda>mw.
     bindR (parse_override max_wait 10800) (\<lambda>mx.
       if mx < mw then Inl ''max_deferred_wait must be >= min_wait'' else Inr (mw, mx)))"

section \<open>Invariants of the gate\<close>

text \<open>A window has both a start and generations, needs a health advance, and a resample needs a window.\<close>

definition gate_inv :: "gate \<Rightarrow> bool" where
  "gate_inv g \<longleftrightarrow>
     (quiet_since g = None \<longleftrightarrow> quiet_gens g = None) \<and> (resampling g \<longrightarrow> quiet_since g \<noteq> None)
     \<and> (quiet_since g \<noteq> None \<longrightarrow> advanced g) \<and> (advanced g \<longrightarrow> base_ts g \<noteq> None)"

lemma note_health_frame [simp]:
  "quiet_since (note_health t g) = quiet_since g" "quiet_gens (note_health t g) = quiet_gens g"
  "resampling (note_health t g) = resampling g" "min_wait (note_health t g) = min_wait g"
  "deadline (note_health t g) = deadline g" "unknown_since (note_health t g) = unknown_since g"
  by (auto simp: note_health_def split: option.splits)

lemma note_health_advanced:
  fixes t :: "int option" and g :: gate
  shows "advanced g \<Longrightarrow> advanced (note_health t g)"
    and "base_ts g \<noteq> None \<Longrightarrow> base_ts (note_health t g) = base_ts g"
    and "advanced (note_health t g) \<Longrightarrow> advanced g \<or> base_ts g \<noteq> None"
  by (auto simp: note_health_def split: option.splits if_splits)

lemma gate_step_inv: "gate_inv g \<Longrightarrow> gate_inv (fst (gate_step g i))"
  using note_health_advanced [where t = "health_ts i" and g = "g\<lparr>unknown_since := None\<rparr>"]
  by (auto simp: gate_inv_def gate_step_def step_unknown_def step_known_def close_window_def Let_def
      split: option.splits)

lemma gate_step_frame [simp]:
  "min_wait (fst (gate_step g i)) = min_wait g" "deadline (fst (gate_step g i)) = deadline g"
  by (auto simp: gate_step_def step_unknown_def step_known_def close_window_def Let_def split: option.splits)

interpretation gate_machine: step_machine "\<lambda>g i. fst (gate_step g i)" gate_inv
  by unfold_locales (rule gate_step_inv)

lemma new_gate_inv: "gate_inv (new_gate mw dl)"
  by (simp add: gate_inv_def new_gate_def)

definition gate_run :: "gate \<Rightarrow> gate_input list \<Rightarrow> gate" where
  "gate_run g xs = foldl (\<lambda>g i. fst (gate_step g i)) g xs"

lemma gate_run_snoc: "gate_run g (xs @ [i]) = fst (gate_step (gate_run g xs) i)"
  by (simp add: gate_run_def)

lemma gate_run_frame [simp]: "min_wait (gate_run g xs) = min_wait g" "deadline (gate_run g xs) = deadline g"
  by (induction xs rule: rev_induct) (simp_all add: gate_run_snoc, simp_all add: gate_run_def)

lemma gate_run_inv: "gate_inv (gate_run (new_gate mw dl) xs)"
  unfolding gate_run_def by (rule gate_machine.run_inv [OF new_gate_inv])

section \<open>What the gate's state says about the past\<close>

text \<open>Two observations with a later health timestamp after an earlier one.\<close>

definition health_advanced :: "gate_input list \<Rightarrow> bool" where
  "health_advanced xs \<longleftrightarrow>
     (\<exists>i j t u. i < j \<and> j < length xs \<and> health_ts (xs ! i) = Some t \<and> health_ts (xs ! j) = Some u \<and> t < u)"

text \<open>
  The updater ends its wait at the first deferral, so the histories that matter are those in which no
  verdict was a deferral.
\<close>

definition deferral :: "verdict \<Rightarrow> bool" where
  "deferral v \<longleftrightarrow> v = Defer_deadline \<or> v = Defer_unknown"

fun undeferred :: "gate \<Rightarrow> gate_input list \<Rightarrow> bool" where
  "undeferred g [] = True"
| "undeferred g (i # xs) = (\<not> deferral (snd (gate_step g i)) \<and> undeferred (fst (gate_step g i)) xs)"

lemma undeferred_snoc:
  "undeferred g (xs @ [i]) \<longleftrightarrow> undeferred g xs \<and> \<not> deferral (snd (gate_step (gate_run g xs) i))"
  by (induction xs arbitrary: g) (auto simp: gate_run_def)

text \<open>
  A quiet window in the history: it opened at an idle sample \<open>x\<close>; since then every sample was idle
  with the generations of \<open>x\<close>; a gate that has asked for a resample saw one past the minimum wait.
\<close>

definition window_of :: "gate_input list \<Rightarrow> gate \<Rightarrow> rat \<Rightarrow> bool" where
  "window_of xs g q \<longleftrightarrow>
     (\<exists>pre x post. xs = pre @ x # post \<and> at_time x = q \<and> act x = Idle \<and> quiet_gens g = Some (gens x)
        \<and> (\<forall>y \<in> set post. act y = Idle \<and> gens y = gens x)
        \<and> (resampling g \<longrightarrow> (\<exists>y \<in> set post. of_int (min_wait g) \<le> fl (at_time y - q))))"

lemma health_advanced_mono: "health_advanced xs \<Longrightarrow> health_advanced (xs @ ys)"
proof -
  assume "health_advanced xs"
  then obtain i j t u where "i < j" "j < length xs" "health_ts (xs ! i) = Some t" "health_ts (xs ! j) = Some u" "t < u"
    unfolding health_advanced_def by blast
  then show ?thesis
    unfolding health_advanced_def
    by (intro exI [of _ i] exI [of _ j] exI [of _ t] exI [of _ u]) (simp add: nth_append)
qed

lemma base_mono:
  assumes "\<exists>i < length xs. health_ts (xs ! i) = Some t"
  shows "\<exists>i < length (xs @ ys). health_ts ((xs @ ys) ! i) = Some t"
proof -
  from assms obtain i where "i < length xs" "health_ts (xs ! i) = Some t"
    by blast
  then show ?thesis
    by (intro exI [of _ i]) (simp add: nth_append)
qed

lemma advance_snoc:
  assumes "\<exists>i < length xs. health_ts (xs ! i) = Some b" "health_ts x = Some t" "b < t"
  shows "health_advanced (xs @ [x])"
proof -
  from assms(1) obtain i where "i < length xs" "health_ts (xs ! i) = Some b"
    by blast
  with assms(2,3) show ?thesis
    unfolding health_advanced_def
    by (intro exI [of _ i] exI [of _ "length xs"] exI [of _ b] exI [of _ t]) (simp add: nth_append)
qed

lemma base_snoc: "health_ts x = Some t \<Longrightarrow> \<exists>i < length (xs @ [x]). health_ts ((xs @ [x]) ! i) = Some t"
  by (intro exI [of _ "length xs"]) simp

text \<open>The health part of the history invariant, over one sample.\<close>

definition health_inv :: "gate_input list \<Rightarrow> gate \<Rightarrow> bool" where
  "health_inv xs g \<longleftrightarrow>
     (\<forall>t. base_ts g = Some t \<longrightarrow> (\<exists>i < length xs. health_ts (xs ! i) = Some t))
     \<and> (advanced g \<longrightarrow> health_advanced xs)"

lemma health_inv_mono: "health_inv xs g \<Longrightarrow> health_inv (xs @ ys) g"
  unfolding health_inv_def using health_advanced_mono base_mono by metis

lemma health_inv_note: "health_inv xs g \<Longrightarrow> health_inv (xs @ [i]) (note_health (health_ts i) g)"
proof -
  assume h: "health_inv xs g"
  note m = health_inv_mono [OF h, of "[i]"]
  show ?thesis
  proof (cases "health_ts i")
    case None
    with m show ?thesis by (simp add: note_health_def)
  next
    case t: (Some t)
    show ?thesis
    proof (cases "base_ts g")
      case None
      with m t base_snoc [OF t] show ?thesis
        unfolding health_inv_def by (simp add: note_health_def)
    next
      case (Some b)
      then have "\<exists>i < length xs. health_ts (xs ! i) = Some b"
        using h by (simp add: health_inv_def)
      from advance_snoc [OF this t] m t Some show ?thesis
        unfolding health_inv_def by (simp add: note_health_def)
    qed
  qed
qed

lemma health_inv_cong:
  "base_ts g = base_ts h \<Longrightarrow> advanced g = advanced h \<Longrightarrow> health_inv xs g = health_inv xs h"
  by (simp add: health_inv_def)

lemma gate_step_health: "health_inv xs g \<Longrightarrow> health_inv (xs @ [i]) (fst (gate_step g i))"
proof -
  assume h: "health_inv xs g"
  then have "health_inv xs (g\<lparr>unknown_since := None\<rparr>)"
    by (simp add: health_inv_def)
  then have n: "health_inv (xs @ [i]) (note_health (health_ts i) (g\<lparr>unknown_since := None\<rparr>))"
    by (rule health_inv_note)
  have "health_inv (xs @ [i]) (fst (step_known g i))"
    using n by (auto simp: step_known_def close_window_def Let_def health_inv_def split: option.splits)
  moreover have "health_inv (xs @ [i]) (fst (step_unknown g i))"
    using health_inv_mono [OF h, of "[i]"]
    by (simp add: step_unknown_def close_window_def Let_def health_inv_def)
  ultimately show ?thesis
    using health_inv_mono [OF h, of "[i]"] by (simp add: gate_step_def)
qed

text \<open>The window part.\<close>

lemma window_extend:
  assumes "window_of xs g q" "act i = Idle" "quiet_gens g = Some (gens i)"
    "quiet_gens g' = quiet_gens g" "min_wait g' = min_wait g"
    "resampling g' \<Longrightarrow> resampling g \<or> of_int (min_wait g) \<le> fl (at_time i - q)"
  shows "window_of (xs @ [i]) g' q"
proof -
  from assms(1) obtain pre x post where w: "xs = pre @ x # post" "at_time x = q" "act x = Idle"
    "quiet_gens g = Some (gens x)" "\<forall>y \<in> set post. act y = Idle \<and> gens y = gens x"
    "resampling g \<longrightarrow> (\<exists>y \<in> set post. of_int (min_wait g) \<le> fl (at_time y - q))"
    unfolding window_of_def by blast
  show ?thesis
    unfolding window_of_def using w assms(2-6)
    by (intro exI [of _ pre] exI [of _ x] exI [of _ "post @ [i]"]) auto
qed

lemma window_open:
  "act i = Idle \<Longrightarrow> quiet_gens g = Some (gens i) \<Longrightarrow> \<not> resampling g \<Longrightarrow> window_of (xs @ [i]) g (at_time i)"
  unfolding window_of_def by (intro exI [of _ xs] exI [of _ i] exI [of _ "[]"]) simp

lemma step_known_open:
  assumes "act i = Idle" "quiet_gens g = Some (gens i)" "quiet_since g = Some p"
  defines "g1 \<equiv> note_health (health_ts i) (g\<lparr>unknown_since := None\<rparr>)"
  shows "step_known g i =
    (if \<not> advanced g1 \<or> fl (at_time i - p) < of_int (min_wait g) then (g1, Wait)
     else if \<not> resampling g then (g1\<lparr>resampling := True\<rparr>, Resample) else (g1, Ready))"
  using assms(1-3) by (simp add: step_known_def g1_def Let_def)

lemma step_known_fresh:
  assumes "act i = Idle" "quiet_gens g = None" "quiet_since g = None"
  defines "g1 \<equiv> note_health (health_ts i) (g\<lparr>unknown_since := None\<rparr>)"
  shows "step_known g i =
    (if \<not> advanced g1 then (g1, Wait)
     else (g1\<lparr>quiet_since := Some (at_time i), quiet_gens := Some (gens i)\<rparr>, Wait))"
  using assms(1-3) by (simp add: step_known_def g1_def Let_def)

lemma step_known_closes:
  "act i = Busy \<or> (quiet_gens g \<noteq> None \<and> quiet_gens g \<noteq> Some (gens i)) \<Longrightarrow>
     quiet_since (fst (step_known g i)) = None \<and> snd (step_known g i) = Wait"
  by (simp add: step_known_def close_window_def Let_def)

lemma gate_step_kept:
  assumes "\<not> deferral (snd (gate_step g i))" "quiet_since (fst (gate_step g i)) \<noteq> None"
  shows "act i \<noteq> Unknown \<and> gate_step g i = step_known g i \<and> at_time i < deadline g"
proof -
  have d: "\<not> deadline g \<le> at_time i"
    using assms(1) by (auto simp: gate_step_def deferral_def)
  have "deferral (snd (step_unknown g i)) \<or> quiet_since (fst (step_unknown g i)) = None"
    by (simp add: step_unknown_def deferral_def close_window_def Let_def)
  with assms d show ?thesis
    by (cases "act i = Unknown") (simp_all add: gate_step_def)
qed

lemma gate_step_window:
  assumes inv: "gate_inv g" and win: "\<And>q. quiet_since g = Some q \<Longrightarrow> window_of xs g q"
    and nd: "\<not> deferral (snd (gate_step g i))" and q: "quiet_since (fst (gate_step g i)) = Some q"
  shows "window_of (xs @ [i]) (fst (gate_step g i)) q"
proof -
  define g1 where "g1 = note_health (health_ts i) (g\<lparr>unknown_since := None\<rparr>)"
  have known: "act i \<noteq> Unknown" "gate_step g i = step_known g i"
    using gate_step_kept [OF nd] q by (metis option.distinct(1))+
  have f [simp]: "quiet_since g1 = quiet_since g" "quiet_gens g1 = quiet_gens g" "resampling g1 = resampling g"
    "min_wait g1 = min_wait g"
    by (simp_all add: g1_def)
  have "\<not> (act i = Busy \<or> (quiet_gens g \<noteq> None \<and> quiet_gens g \<noteq> Some (gens i)))"
    using q step_known_closes [of i g] unfolding known(2) by (metis option.distinct(1))
  then have gens_eq: "quiet_gens g = None \<or> quiet_gens g = Some (gens i)" and "act i \<noteq> Busy"
    by blast+
  from this(2) known(1) have idle: "act i = Idle"
    by (cases "act i") simp_all
  show ?thesis
  proof (cases "quiet_since g")
    case None
    with inv have ng: "quiet_gens g = None" "\<not> resampling g"
      by (auto simp: gate_inv_def)
    note c = step_known_fresh [OF idle ng(1) None, folded g1_def]
    have "advanced g1"
      using q None unfolding known(2) c by (simp split: if_splits)
    then have "q = at_time i"
      and r: "fst (gate_step g i) = g1\<lparr>quiet_since := Some (at_time i), quiet_gens := Some (gens i)\<rparr>"
      using q unfolding known(2) c by simp_all
    then show ?thesis
      unfolding r using window_open [OF idle] ng by simp
  next
    case (Some p)
    with inv have "quiet_gens g \<noteq> None" by (auto simp: gate_inv_def)
    with gens_eq have ge: "quiet_gens g = Some (gens i)" by simp
    note c = step_known_open [OF idle ge Some, folded g1_def]
    have pq: "p = q"
      using q Some unfolding known(2) c by (simp split: if_splits)
    show ?thesis
      using win [OF Some [unfolded pq]] idle ge
    proof (rule window_extend)
      show "quiet_gens (fst (gate_step g i)) = quiet_gens g"
        unfolding known(2) c by simp
      show "resampling g \<or> of_int (min_wait g) \<le> fl (at_time i - q)" if "resampling (fst (gate_step g i))"
        using that pq unfolding known(2) c by (simp add: not_less split: if_splits)
    qed simp
  qed
qed

lemma run_hist_inv:
  assumes "undeferred (new_gate mw dl) xs"
  shows "health_inv xs (gate_run (new_gate mw dl) xs)
    \<and> (\<forall>q. quiet_since (gate_run (new_gate mw dl) xs) = Some q \<longrightarrow> window_of xs (gate_run (new_gate mw dl) xs) q)"
  using assms
proof (induction xs rule: rev_induct)
  case Nil
  then show ?case by (simp add: gate_run_def new_gate_def health_inv_def)
next
  case (snoc i xs)
  then have nd: "\<not> deferral (snd (gate_step (gate_run (new_gate mw dl) xs) i))" and u: "undeferred (new_gate mw dl) xs"
    by (simp_all add: undeferred_snoc)
  note IH = snoc.IH [OF u]
  show ?case
    unfolding gate_run_snoc
    using gate_step_health [of xs "gate_run (new_gate mw dl) xs" i] IH
      gate_step_window [OF gate_run_inv _ nd] by blast
qed

section \<open>Properties\<close>

lemma gate_step_Ready:
  assumes "gate_inv g" "snd (gate_step g i) = Ready"
  obtains q where "at_time i < deadline g" "act i = Idle" "quiet_since g = Some q" "quiet_gens g = Some (gens i)"
    "of_int (min_wait g) \<le> fl (at_time i - q)" "resampling g"
proof -
  define g1 where "g1 = note_health (health_ts i) (g\<lparr>unknown_since := None\<rparr>)"
  have d: "\<not> deadline g \<le> at_time i"
    using assms(2) by (auto simp: gate_step_def)
  have "snd (step_unknown g i) \<noteq> Ready"
    by (simp add: step_unknown_def Let_def)
  with assms(2) d have u: "act i \<noteq> Unknown" and k: "snd (step_known g i) = Ready"
    by (auto simp: gate_step_def split: if_splits)
  then have n: "\<not> (act i = Busy \<or> (quiet_gens g \<noteq> None \<and> quiet_gens g \<noteq> Some (gens i)))"
    using step_known_closes [of i g] by (metis verdict.distinct(3))
  then have idle: "act i = Idle"
    using u by (cases "act i") simp_all
  show thesis
  proof (cases "quiet_since g")
    case None
    with assms(1) have "quiet_gens g = None"
      by (simp add: gate_inv_def)
    from step_known_fresh [OF idle this None] k show thesis
      by (simp split: if_splits)
  next
    case (Some q)
    with assms(1) n have ge: "quiet_gens g = Some (gens i)"
      by (auto simp: gate_inv_def)
    from step_known_open [OF idle ge Some] k
    have "\<not> fl (at_time i - q) < of_int (min_wait g)" "resampling g"
      by (simp_all split: if_splits)
    with that d idle Some ge show thesis
      by (simp add: not_less not_le)
  qed
qed

text \<open>
  C1: the updater replaces the container only when it is idle. If the gate says ready at a sample
  after a history without a deferral, the deadline has not passed, the sample is idle, the health
  timestamp advanced during the history, and the history ends in a quiet window: an idle sample at
  least the minimum wait ago, after it only idle samples with its arrival and row generations, which
  the present sample has too, one of them (the complete resample) already past the minimum wait.
\<close>

theorem ready_only_when_quiet:
  assumes "undeferred (new_gate mw dl) xs" "snd (gate_step (gate_run (new_gate mw dl) xs) i) = Ready"
  shows "at_time i < dl \<and> act i = Idle \<and> health_advanced xs
    \<and> (\<exists>pre x post. xs = pre @ x # post \<and> act x = Idle \<and> gens x = gens i
         \<and> of_int mw \<le> fl (at_time i - at_time x)
         \<and> (\<forall>y \<in> set post. act y = Idle \<and> gens y = gens i)
         \<and> (\<exists>y \<in> set post. of_int mw \<le> fl (at_time y - at_time x)))"
proof -
  let ?g = "gate_run (new_gate mw dl) xs"
  have f: "min_wait ?g = mw" "deadline ?g = dl"
    by (simp_all add: new_gate_def)
  obtain q where q: "at_time i < dl" "act i = Idle" "quiet_since ?g = Some q" "quiet_gens ?g = Some (gens i)"
    "of_int mw \<le> fl (at_time i - q)" "resampling ?g"
    using gate_step_Ready [OF gate_run_inv assms(2)] unfolding f by blast
  have h: "health_inv xs ?g" and w: "window_of xs ?g q"
    using run_hist_inv [OF assms(1)] q(3) by blast+
  have "advanced ?g"
    using gate_run_inv [of mw dl xs] q(3) by (simp add: gate_inv_def)
  with h have "health_advanced xs"
    by (simp add: health_inv_def)
  moreover from w q(4,6) f(1) obtain pre x post where "xs = pre @ x # post" "at_time x = q" "act x = Idle"
    "gens x = gens i" "\<forall>y \<in> set post. act y = Idle \<and> gens y = gens x"
    "\<exists>y \<in> set post. of_int mw \<le> fl (at_time y - q)"
    unfolding window_of_def f by (metis option.inject)
  ultimately show ?thesis
    using q(1,2,5)
    by (intro conjI exI [of _ pre] exI [of _ x] exI [of _ post]) auto
qed

text \<open>A concrete history: the health timestamp advances, a window opens at 10 s and is long enough at 310 s.\<close>

definition demo_input :: "rat \<Rightarrow> int \<Rightarrow> gate_input" where
  "demo_input t h = \<lparr>at_time = t, act = Idle, gens = (4, 7), health_ts = Some h, in_reason = R_ready\<rparr>"

definition demo_history :: "gate_input list" where
  "demo_history = [demo_input 0 1000, demo_input 5 2000, demo_input 10 2000, demo_input 310 3000]"

lemmas demo_eval = demo_history_def demo_input_def gate_run_def gate_step_def step_known_def note_health_def
  new_gate_def deferral_def Let_def fl_int [of 5, simplified] fl_int [of 300, simplified] fl_int [of 305, simplified]
  fl_int [of 306, simplified] fl_int [of 310, simplified]

lemma ready_only_when_quiet_witness:
  "undeferred (new_gate 300 1000) demo_history
   \<and> snd (gate_step (gate_run (new_gate 300 1000) demo_history) (demo_input 311 3000)) = Ready
   \<and> health_advanced demo_history"
proof -
  have u: "undeferred (new_gate 300 1000) demo_history"
    by (simp add: demo_eval)
  have r: "snd (gate_step (gate_run (new_gate 300 1000) demo_history) (demo_input 311 3000)) = Ready"
    by (simp add: demo_eval)
  show ?thesis
    using ready_only_when_quiet [OF u r] u r by blast
qed

lemma gate_step_Resample: "snd (gate_step g i) = Resample \<Longrightarrow> resampling (fst (gate_step g i)) \<and> \<not> resampling g"
  by (simp add: gate_step_def step_unknown_def step_known_def close_window_def Let_def split: if_splits option.splits)

lemma verdict_input_simps [simp]:
  "at_time (verdict_input s) = sample_monotonic s" "act (verdict_input s) = classify s"
  "gens (verdict_input s) = (arrival_generation s, row_generation s)"
  by (simp_all add: verdict_input_def)

lemma observe_turn_cases:
  "observe_turn g s again =
     (if snd (gate_step g (verdict_input s)) = Resample
      then (let g1 = fst (gate_step g (verdict_input s)); r = gate_step g1 (verdict_input again) in
            (fst r, \<lparr>p_seq = seq_no again, p_verdict = snd r,
                     p_reason = (if snd r = Defer_deadline then R_deadline else why again), p_sample = again\<rparr>))
      else (let r = gate_step g (verdict_input s) in
            (fst r, \<lparr>p_seq = seq_no s, p_verdict = snd r,
                     p_reason = (if snd r = Defer_deadline then R_deadline else why s), p_sample = s\<rparr>)))"
  by (simp add: observe_turn_def Let_def case_prod_beta)

text \<open>
  A turn of the observer never publishes a bare resample request, and a ready it publishes comes
  with an idle sample taken before the deadline; unless the gate had already asked for a resample in an
  earlier turn, that sample is the complete one taken with a fresh barrier.
\<close>

theorem observe_turn_published:
  assumes "gate_inv g"
  shows "p_verdict (snd (observe_turn g s again)) \<noteq> Resample
    \<and> (p_verdict (snd (observe_turn g s again)) = Ready \<longrightarrow>
         classify (p_sample (snd (observe_turn g s again))) = Idle
         \<and> sample_monotonic (p_sample (snd (observe_turn g s again))) < deadline g
         \<and> (resampling g \<or> p_sample (snd (observe_turn g s again)) = again))"
proof (cases "snd (gate_step g (verdict_input s)) = Resample")
  case True
  define g1 where "g1 = fst (gate_step g (verdict_input s))"
  have g1: "gate_inv g1" "resampling g1" "deadline g1 = deadline g"
    using gate_step_inv [OF assms] gate_step_Resample [OF True] by (simp_all add: g1_def)
  then have "snd (gate_step g1 (verdict_input again)) \<noteq> Resample"
    using gate_step_Resample by blast
  moreover have "classify again = Idle \<and> sample_monotonic again < deadline g"
    if "snd (gate_step g1 (verdict_input again)) = Ready"
    using gate_step_Ready [OF g1(1) that] g1(3) by (metis verdict_input_simps(1,2))
  ultimately show ?thesis
    using True by (simp add: observe_turn_cases g1_def [symmetric] Let_def)
next
  case False
  have "classify s = Idle \<and> sample_monotonic s < deadline g \<and> resampling g"
    if "snd (gate_step g (verdict_input s)) = Ready"
    using gate_step_Ready [OF assms that] by (metis verdict_input_simps(1,2))
  then show ?thesis
    using False by (simp add: observe_turn_cases Let_def)
qed

definition demo_sample :: "rat \<Rightarrow> int \<Rightarrow> sample" where
  "demo_sample t n =
     (failed_sample ''c'' ''s'' n R_ready t)\<lparr>arrival_generation := 4, row_generation := 7,
        health_timestamp_ms := Some 3000, health_age_ms := Some 1, feed_ready := True, barrier_seen := True,
        continuous := True, is_unknown := False\<rparr>"

lemma observe_turn_published_witness:
  "let r = observe_turn (gate_run (new_gate 300 1000) (butlast demo_history)) (demo_sample 310 1) (demo_sample 311 2)
   in p_verdict (snd r) = Ready \<and> p_seq (snd r) = 2 \<and> classify (p_sample (snd r)) = Idle"
  using observe_turn_published [OF gate_run_inv, of 300 1000 "butlast demo_history" "demo_sample 310 1" "demo_sample 311 2"]
  by (simp add: demo_eval observe_turn_cases verdict_input_def demo_sample_def failed_sample_def classify_def)

lemma idle_step:
  assumes "gate_inv g" "advanced g" "act i = Idle" "at_time i < deadline g"
  defines "g1 \<equiv> note_health (health_ts i) (g\<lparr>unknown_since := None\<rparr>)"
  shows "advanced g1"
    and "quiet_gens g = None \<Longrightarrow>
      gate_step g i = (g1\<lparr>quiet_since := Some (at_time i), quiet_gens := Some (gens i)\<rparr>, Wait)"
    and "quiet_gens g \<noteq> None \<Longrightarrow> quiet_gens g \<noteq> Some (gens i) \<Longrightarrow> gate_step g i = (close_window g1, Wait)"
    and "quiet_gens g = Some (gens i) \<Longrightarrow> quiet_since g = Some q \<Longrightarrow> gate_step g i =
      (if fl (at_time i - q) < of_int (min_wait g) then (g1, Wait)
       else if \<not> resampling g then (g1\<lparr>resampling := True\<rparr>, Resample) else (g1, Ready))"
proof -
  have k: "gate_step g i = step_known g i"
    using assms(3,4) by (simp add: gate_step_def)
  show a: "advanced g1"
    unfolding g1_def by (rule note_health_advanced) (simp add: assms(2))
  show "gate_step g i = (g1\<lparr>quiet_since := Some (at_time i), quiet_gens := Some (gens i)\<rparr>, Wait)"
    if "quiet_gens g = None"
    using step_known_fresh [OF assms(3) that] that assms(1) a unfolding k g1_def by (simp add: gate_inv_def)
  show "gate_step g i = (close_window g1, Wait)" if "quiet_gens g \<noteq> None" "quiet_gens g \<noteq> Some (gens i)"
    using that unfolding k g1_def by (simp add: step_known_def Let_def)
  show "gate_step g i =
      (if fl (at_time i - q) < of_int (min_wait g) then (g1, Wait)
       else if \<not> resampling g then (g1\<lparr>resampling := True\<rparr>, Resample) else (g1, Ready))"
    if "quiet_gens g = Some (gens i)" "quiet_since g = Some q"
    using step_known_open [OF assms(3) that] a unfolding k g1_def by simp
qed

lemma idle_twice:
  assumes "gate_inv g" "advanced g" "act i = Idle" "at_time i < deadline g"
    "\<And>q. quiet_since g = Some q \<Longrightarrow> q \<le> at_time i"
    "act j = Idle" "at_time j < deadline g" "gens j = gens i" "at_time i \<le> at_time j"
  defines "g1 \<equiv> fst (gate_step g i)"
  defines "g2 \<equiv> fst (gate_step g1 j)"
  shows "gate_inv g2 \<and> advanced g2 \<and> quiet_gens g2 = Some (gens j) \<and> (\<exists>q. quiet_since g2 = Some q \<and> q \<le> at_time j)"
proof -
  note s1 = idle_step [OF assms(1-4)]
  have i1: "gate_inv g1" "deadline g1 = deadline g"
    using gate_step_inv [OF assms(1)] by (simp_all add: g1_def)
  have a1: "advanced g1 \<and> (quiet_gens g1 = None \<or> quiet_gens g1 = Some (gens i)
      \<and> (\<exists>q. quiet_since g1 = Some q \<and> q \<le> at_time j))"
  proof (cases "quiet_gens g = Some (gens i)")
    case True
    then obtain q where q: "quiet_since g = Some q"
      using assms(1) by (auto simp: gate_inv_def)
    from assms(5) [OF q] assms(9) s1(1) s1(4) [OF True q] True q show ?thesis
      by (simp add: g1_def)
  next
    case False
    show ?thesis
      using s1(1) s1(2) s1(3) [OF _ False] assms(9)
      by (cases "quiet_gens g") (simp_all add: g1_def close_window_def)
  qed
  have d: "at_time j < deadline g1"
    using assms(7) i1 by simp
  note s2 = idle_step [OF i1(1) conjunct1 [OF a1] assms(6) d]
  have "advanced g2 \<and> quiet_gens g2 = Some (gens j) \<and> (\<exists>q. quiet_since g2 = Some q \<and> q \<le> at_time j)"
  proof (cases "quiet_gens g1")
    case None
    with s2(1) s2(2) show ?thesis by (simp add: g2_def)
  next
    case (Some G)
    with a1 assms(8) obtain q where q: "quiet_gens g1 = Some (gens j)" "quiet_since g1 = Some q" "q \<le> at_time j"
      by auto
    from s2(1) s2(4) [OF q(1,2)] q show ?thesis by (simp add: g2_def)
  qed
  then show ?thesis
    using gate_step_inv [OF i1(1)] by (simp add: g2_def)
qed

lemma idle_past_wait:
  assumes "gate_inv g" "advanced g" "act i = Idle" "at_time i < deadline g"
    "quiet_gens g = Some (gens i)" "quiet_since g = Some q" "of_int (min_wait g) \<le> fl (at_time i - q)"
  shows "snd (gate_step g i) = (if resampling g then Ready else Resample)
    \<and> resampling (fst (gate_step g i)) \<and> advanced (fst (gate_step g i))
    \<and> quiet_gens (fst (gate_step g i)) = Some (gens i) \<and> quiet_since (fst (gate_step g i)) = Some q"
  using idle_step(1,4) [OF assms(1-4)] assms(5-7) by simp

text \<open>
  C6: an idle service does become ready. Once a health advance was seen, four idle samples with the
  same generations, in the order of time and all before the deadline, the third at least the minimum wait
  after the second, end in the verdict ready, whatever window the gate had before them.
\<close>

theorem idle_service_becomes_ready:
  assumes "gate_inv g" "advanced g" "\<And>q. quiet_since g = Some q \<Longrightarrow> q \<le> at_time i1"
    "\<forall>i \<in> {i1, i2, i3, i4}. act i = Idle \<and> gens i = G \<and> at_time i < deadline g"
    "at_time i1 \<le> at_time i2" "of_int (min_wait g) \<le> fl (at_time i3 - at_time i2)" "at_time i3 \<le> at_time i4"
  shows "snd (gate_step (gate_run g [i1, i2, i3]) i4) = Ready"
proof -
  define h where "h = gate_run g [i1, i2]"
  have h: "gate_inv h" "advanced h" "quiet_gens h = Some G" "min_wait h = min_wait g" "deadline h = deadline g"
    and "\<exists>q. quiet_since h = Some q \<and> q \<le> at_time i2"
    using idle_twice [of g i1 i2] assms by (auto simp: h_def gate_run_def)
  then obtain q where q: "quiet_since h = Some q" "q \<le> at_time i2"
    by blast
  have w3: "of_int (min_wait g) \<le> fl (at_time i3 - q)"
    using assms(6) fl_mono [of "at_time i3 - at_time i2" "at_time i3 - q"] q(2) by simp
  have w4: "of_int (min_wait g) \<le> fl (at_time i4 - q)"
    using w3 assms(7) fl_mono [of "at_time i3 - q" "at_time i4 - q"] by simp
  define k where "k = fst (gate_step h i3)"
  have k: "resampling k" "advanced k" "quiet_gens k = Some G" "quiet_since k = Some q"
    using idle_past_wait [of h i3 q] h q w3 assms(4) by (auto simp: k_def)
  have "gate_inv k" "deadline k = deadline g" "min_wait k = min_wait g"
    using gate_step_inv [OF h(1)] h by (simp_all add: k_def)
  then have "snd (gate_step k i4) = Ready"
    using idle_past_wait [of k i4 q] k w4 assms(4) by auto
  then show ?thesis
    by (simp add: k_def h_def gate_run_def)
qed

lemma idle_service_becomes_ready_witness:
  "snd (gate_step (gate_run (gate_run (new_gate 300 1000) [demo_input 0 1, demo_input 5 2])
     [demo_input 10 2, demo_input 11 2, demo_input 311 2]) (demo_input 312 2)) = Ready"
proof (rule idle_service_becomes_ready [where G = "(4, 7)"])
  let ?g = "gate_run (new_gate 300 1000) [demo_input 0 1, demo_input 5 2]"
  show "gate_inv ?g" by (rule gate_run_inv)
  show "advanced ?g" by (simp add: demo_eval)
  show "\<And>q. quiet_since ?g = Some q \<Longrightarrow> q \<le> at_time (demo_input 10 2)" by (simp add: demo_eval)
  show "\<forall>i \<in> {demo_input 10 2, demo_input 11 2, demo_input 311 2, demo_input 312 2}.
      act i = Idle \<and> gens i = (4, 7) \<and> at_time i < deadline ?g"
    by (simp add: demo_input_def new_gate_def)
  show "of_int (min_wait ?g) \<le> fl (at_time (demo_input 311 2) - at_time (demo_input 11 2))"
    by (simp add: demo_input_def new_gate_def fl_int [of 300, simplified])
qed (simp_all add: demo_input_def)

text \<open>
  The override grammar: an accepted pair of waits is in range and ordered, an unset value is the
  default, and every decimal text in range is accepted with its value.
\<close>

lemma wait_overrides_sound:
  assumes "wait_overrides a b = Inr (mw, mx)"
  shows "1 \<le> mw \<and> mw \<le> mx \<and> mx \<le> 2147483647
    \<and> (a = None \<longrightarrow> mw = 300) \<and> (b = None \<longrightarrow> mx = 10800)"
  using assms by (auto simp: wait_overrides_def parse_override_def Let_def split: option.splits if_splits)

end
