(* ===== verification/Collector.thy ===== *)
theory Collector
  imports Idle_Gate
begin

text \<open>
  The activity collector of the OmniRoute updater (\<open>pylib/omniroute_activity.py\<close>): route classes of a
  capability profile, the JSON readers (\<open>_ptr\<close>, \<open>_count\<close>, \<open>_inflight\<close>, \<open>epoch_ms\<close>), the paged call
  log and \<open>Collector.sample\<close>. What the outside answers during one sample (clocks, the journal reader,
  the decoded bodies of the HTTP requests) is a record of answers. An exception is a value: a
  deferral with its reason, or one of the decoding errors the code catches together. The name of the
  first unprofiled route, text for the operator, is kept as the fact that there is one.
\<close>

datatype exn = Deferral reason | Schema_error

section \<open>Readers of decoded JSON\<close>

text \<open>\<open>s.split(sep, 1)[0]\<close> for a separator of one or more characters.\<close>

fun before_sub :: "string \<Rightarrow> string \<Rightarrow> string" where
  "before_sub sep [] = []"
| "before_sub sep (c # cs) = (if starts_with sep (c # cs) then [] else c # before_sub sep cs)"

definition clean_path :: "string \<Rightarrow> string" where
  "clean_path p = before_sub '' | '' (before_sub ''?'' p)"

text \<open>\<open>s.replace("~1", "/").replace("~0", "~")\<close>.\<close>

fun replace_pair :: "char \<Rightarrow> char \<Rightarrow> char \<Rightarrow> string \<Rightarrow> string" where
  "replace_pair a b r (x # y # cs) =
     (if x = a \<and> y = b then r # replace_pair a b r cs else x # replace_pair a b r (y # cs))"
| "replace_pair a b r s = s"

definition unescape_part :: "string \<Rightarrow> string" where
  "unescape_part p = replace_pair (CHR ''~'') (CHR ''0'') (CHR ''~'') (replace_pair (CHR ''~'') (CHR ''1'') (CHR ''/'') p)"

fun ptr_step :: "pyval option \<Rightarrow> string \<Rightarrow> pyval option" where
  "ptr_step (Some (VDict d)) part = vget d part"
| "ptr_step (Some (VList xs)) part =
     (if all_digits part \<and> digits_value part < int (length xs) then Some (xs ! nat (digits_value part)) else None)"
| "ptr_step _ _ = None"

text \<open>\<open>_ptr\<close>: a JSON pointer walk; absence is \<open>None\<close>, a JSON null is \<open>Some VNone\<close>.\<close>

definition json_ptr :: "pyval \<Rightarrow> string \<Rightarrow> pyval option" where
  "json_ptr doc pointer = foldl ptr_step (Some doc) (map unescape_part (tl (split_on (CHR ''/'') pointer)))"

text \<open>\<open>_count\<close>: \<open>None\<close> is the \<open>ValueError\<close>.\<close>

fun count_of :: "pyval option \<Rightarrow> int option" where
  "count_of (Some (VInt n)) = (if 0 \<le> n then Some n else None)"
| "count_of _ = None"

fun inflight_of :: "pyval option \<Rightarrow> int option" where
  "inflight_of (Some (VList xs)) = Some (int (length xs))"
| "inflight_of v = count_of v"

section \<open>RFC 3339 timestamps\<close>

definition is_leap :: "int \<Rightarrow> bool" where
  "is_leap y \<longleftrightarrow> y mod 4 = 0 \<and> (y mod 100 \<noteq> 0 \<or> y mod 400 = 0)"

definition days_in_month :: "int \<Rightarrow> int \<Rightarrow> int" where
  "days_in_month y m =
     (if m = 2 then (if is_leap y then 29 else 28) else if m \<in> {4, 6, 9, 11} then 30 else 31)"

definition days_before_year :: "int \<Rightarrow> int" where
  "days_before_year y = (let z = y - 1 in 365 * z + z div 4 - z div 100 + z div 400)"

definition days_before_month :: "int \<Rightarrow> int \<Rightarrow> int" where
  "days_before_month y m = sum_list (map (days_in_month y) [1 .. m - 1])"

definition epoch_days :: "int \<Rightarrow> int \<Rightarrow> int \<Rightarrow> int" where
  "epoch_days y m d = days_before_year y + days_before_month y m + d - 719163"

text \<open>A template: \<open>d\<close> stands for a digit, every other character for itself.\<close>

definition matches_template :: "string \<Rightarrow> string \<Rightarrow> bool" where
  "matches_template t s \<longleftrightarrow>
     list_all2 (\<lambda>a c. if a = CHR ''d'' then is_digit c else a = c) t s"

definition field :: "nat \<Rightarrow> nat \<Rightarrow> string \<Rightarrow> int" where
  "field i n s = digits_value (take n (drop i s))"

definition frac_ok :: "string \<Rightarrow> bool" where
  "frac_ok f \<longleftrightarrow> (case f of [] \<Rightarrow> True
     | c # ds \<Rightarrow> c = CHR ''.'' \<and> all_digits ds \<and> length ds \<le> 9)"

text \<open>\<open>_RFC3339_UTC\<close> and the calendar checks of \<open>strptime\<close>.\<close>

definition rfc3339_ms :: "string \<Rightarrow> int option option" where
  "rfc3339_ms s =
     (let whole = take 19 s; rest = drop 19 s; frac = butlast rest in
      if \<not> (matches_template ''dddd-dd-ddTdd:dd:dd'' whole \<and> rest \<noteq> [] \<and> last rest = CHR ''Z'' \<and> frac_ok frac)
      then None
      else (let y = field 0 4 s; m = field 5 2 s; d = field 8 2 s; h = field 11 2 s; mi = field 14 2 s;
                se = field 17 2 s; ms = digits_value (take 3 (tl frac @ ''000''))
            in if 1 \<le> y \<and> 1 \<le> m \<and> m \<le> 12 \<and> 1 \<le> d \<and> d \<le> days_in_month y m \<and> h \<le> 23 \<and> mi \<le> 59 \<and> se \<le> 59
               then Some (Some ((86400 * epoch_days y m d + 3600 * h + 60 * mi + se) * 1000 + ms))
               else Some None))"

text \<open>\<open>epoch_ms\<close>: an integer as it is, or an RFC 3339 UTC text.\<close>

fun epoch_ms :: "pyval option \<Rightarrow> int option" where
  "epoch_ms (Some (VStr s)) = (case rfc3339_ms s of None \<Rightarrow> None | Some r \<Rightarrow> r)"
| "epoch_ms v = count_of v"

section \<open>Capability profiles\<close>

record route =
  route_method :: string
  path_pattern :: string
  route_class :: "string option"

record profile =
  sha256 :: string
  routes :: "route list"
  health_cache_ms :: int
  health_refresh_bound_ms :: int
  f_rows :: string
  f_row_path :: string
  f_row_timestamp :: string
  f_row_memory_flag :: string
  f_page_limit :: nat
  f_admission :: "string list"
  f_active :: string
  f_pending_by_model :: string
  f_health_timestamp :: string

definition classify_route :: "profile \<Rightarrow> string \<Rightarrow> string \<Rightarrow> string option" where
  "classify_route p m path =
     (case find (\<lambda>r. route_method r = m \<and> path_pattern r = clean_path path) (routes p) of
        None \<Rightarrow> None | Some r \<Rightarrow> route_class r)"

definition classify_path :: "profile \<Rightarrow> string \<Rightarrow> string option" where
  "classify_path p path =
     (case remdups (map route_class (filter (\<lambda>r. path_pattern r = clean_path path) (routes p))) of
        [k] \<Rightarrow> k | _ \<Rightarrow> None)"

definition first_failure :: "bool \<Rightarrow> bool \<Rightarrow> bool \<Rightarrow> bool \<Rightarrow> reason option" where
  "first_failure ovf discontinuous feed_missing coverage_gap =
     (if ovf then Some R_overflow else if discontinuous then Some R_continuity
      else if feed_missing then Some R_feed else if coverage_gap then Some R_coverage else None)"

definition check_freshness :: "int \<Rightarrow> int \<Rightarrow> int \<Rightarrow> int \<Rightarrow> int \<Rightarrow> reason option" where
  "check_freshness ts wall cache refresh tol =
     (if 0 \<le> wall - ts \<and> wall - ts \<le> cache + refresh + tol then None else Some R_age)"

section \<open>The paged call log\<close>

definition ROW_PAGES :: nat where "ROW_PAGES = 5"

record scan =
  sc_newest :: "int option"
  sc_inflight :: bool
  sc_gap :: bool
  sc_failure :: "reason option"

definition scan0 :: scan where
  "scan0 = \<lparr>sc_newest = None, sc_inflight = False, sc_gap = False, sc_failure = None\<rparr>"

definition fail_with :: "reason \<Rightarrow> scan \<Rightarrow> scan" where
  "fail_with r s = s\<lparr>sc_failure := (case sc_failure s of None \<Rightarrow> Some r | f \<Rightarrow> f)\<rparr>"

definition max_opt :: "int option \<Rightarrow> int \<Rightarrow> int" where
  "max_opt m t = (case m of None \<Rightarrow> t | Some n \<Rightarrow> max n t)"

text \<open>\<open>str(path)\<close>: of a text itself; of the other JSON values as \<open>render\<close> gives it.\<close>

fun py_str :: "(pyval \<Rightarrow> string) \<Rightarrow> pyval \<Rightarrow> string" where
  "py_str render (VStr s) = s"
| "py_str render VNone = ''None''"
| "py_str render (VBool b) = (if b then ''True'' else ''False'')"
| "py_str render (VInt n) = show_int n"
| "py_str render v = render v"

text \<open>\<open>row[key]\<close>: a row that is not an object, or lacks the key, is a decoding error.\<close>

fun row_field :: "pyval \<Rightarrow> string \<Rightarrow> (exn, pyval) result" where
  "row_field (VDict d) k = (case vget d k of None \<Rightarrow> Inl Schema_error | Some v \<Rightarrow> Inr v)"
| "row_field _ k = Inl Schema_error"

fun row_flag :: "pyval \<Rightarrow> string \<Rightarrow> bool" where
  "row_flag (VDict d) k = (case vget d k of None \<Rightarrow> False | Some v \<Rightarrow> truthy v)"
| "row_flag _ k = False"

text \<open>The trace time of a row; an unreadable or a future one is no time and a failure.\<close>

definition row_stamp :: "int \<Rightarrow> pyval \<Rightarrow> int option \<times> reason option" where
  "row_stamp latest v =
     (case epoch_ms (Some v) of
        None \<Rightarrow> (None, Some R_age)
      | Some t \<Rightarrow> if latest < t then (None, Some R_clock) else (Some t, None))"

definition scan_row ::
  "(pyval \<Rightarrow> string) \<Rightarrow> profile \<Rightarrow> int \<Rightarrow> scan \<times> int option \<Rightarrow> pyval \<Rightarrow> (exn, scan \<times> int option) result" where
  "scan_row render p latest st row =
     bindR (row_field row (f_row_path p)) (\<lambda>path.
     bindR (row_field row (f_row_timestamp p)) (\<lambda>tv.
       let s = fst st; kind = classify_path p (py_str render path); r = row_stamp latest tv;
           s1 = (case snd r of None \<Rightarrow> s | Some f \<Rightarrow> fail_with f s);
           s2 = (if kind = None then s1\<lparr>sc_gap := True\<rparr>
                 else if kind = Some ''inference'' then
                   (let s' = s1\<lparr>sc_inflight := sc_inflight s1 \<or> row_flag row (f_row_memory_flag p)\<rparr> in
                    case fst r of None \<Rightarrow> s' | Some t \<Rightarrow> s'\<lparr>sc_newest := Some (max_opt (sc_newest s') t)\<rparr>)
                 else s1)
       in Inr (s2, fst r)))"

definition require_list :: "pyval \<Rightarrow> string \<Rightarrow> (exn, pyval list) result" where
  "require_list doc pointer = (case json_ptr doc pointer of Some (VList xs) \<Rightarrow> Inr xs | _ \<Rightarrow> Inl Schema_error)"

definition require_dict :: "pyval \<Rightarrow> string \<Rightarrow> (exn, pydict) result" where
  "require_dict doc pointer = (case json_ptr doc pointer of Some (VDict d) \<Rightarrow> Inr d | _ \<Rightarrow> Inl Schema_error)"

definition scan_done :: "int \<Rightarrow> nat \<Rightarrow> scan \<Rightarrow> int option \<Rightarrow> pyval list \<Rightarrow> bool" where
  "scan_done horizon limit s stamp rows \<longleftrightarrow>
     sc_inflight s \<or> (case sc_newest s of None \<Rightarrow> False | Some n \<Rightarrow> horizon < n) \<or> length rows < limit
     \<or> (case stamp of None \<Rightarrow> False | Some t \<Rightarrow> t \<le> horizon)"

text \<open>
  \<open>_call_logs\<close> from page \<open>page\<close> on, with \<open>n\<close> pages left: \<open>pages k\<close> is the decoded answer to the
  request for the page at offset \<open>k * limit\<close>.
\<close>

fun scan_pages ::
  "(pyval \<Rightarrow> string) \<Rightarrow> profile \<Rightarrow> int \<Rightarrow> int \<Rightarrow> (nat \<Rightarrow> (exn, pyval) result) \<Rightarrow> nat \<Rightarrow> nat \<Rightarrow> scan
     \<Rightarrow> (exn, scan) result" where
  "scan_pages render p latest horizon pages page 0 s = Inr (fail_with R_age s)"
| "scan_pages render p latest horizon pages page (Suc n) s =
     bindR (pages page) (\<lambda>body.
     bindR (require_list body (f_rows p)) (\<lambda>rows.
     bindR (foldR (scan_row render p latest) (s, None) rows) (\<lambda>r.
       if scan_done horizon (f_page_limit p) (fst r) (snd r) rows then Inr (fst r)
       else scan_pages render p latest horizon pages (page + 1) n (fst r))))"

definition call_logs ::
  "(pyval \<Rightarrow> string) \<Rightarrow> profile \<Rightarrow> int \<Rightarrow> int \<Rightarrow> int \<Rightarrow> (nat \<Rightarrow> (exn, pyval) result) \<Rightarrow> (exn, scan) result" where
  "call_logs render p min_wait_ms tol wall_ms pages =
     scan_pages render p (wall_ms + tol) (wall_ms - min_wait_ms) pages 0 ROW_PAGES scan0"

section \<open>One sample\<close>

record batch =
  records :: "(string \<times> string) list"
  b_boot :: string
  b_ready :: bool
  b_barrier :: bool
  b_continuous :: bool
  b_overflow :: bool

text \<open>
  What the outside answers during one call of \<open>sample\<close>, in the order the code asks: the clock, the
  recheck of the container (\<open>None\<close>: unchanged), the journal, the discarded health request, the clock
  again, the bracket of clock and wall time around the health read, health, history, call-log pages.
\<close>

record answers =
  a_start :: rat
  a_recheck :: "exn option"
  a_poll :: "(exn, batch) result"
  a_prime :: "exn option"
  a_primed :: rat
  a_t0 :: rat
  a_w0 :: rat
  a_health :: "(exn, pyval) result"
  a_t1 :: rat
  a_w1 :: rat
  a_history :: "(exn, pyval) result"
  a_pages :: "nat \<Rightarrow> (exn, pyval) result"

record sampler =
  st_container :: string
  st_started :: string
  st_profile :: profile
  st_tolerance_ms :: int
  st_min_wait_ms :: int

record collector =
  c_sequence :: int
  c_arrival :: int
  c_row :: int
  c_newest :: "int option"
  c_last :: "(rat \<times> rat \<times> int) option"

definition new_collector :: collector where
  "new_collector = \<lparr>c_sequence = 0, c_arrival = 0, c_row = 0, c_newest = None, c_last = None\<rparr>"

text \<open>The variables of a call in progress; an exception leaves with the values they have.\<close>

record work =
  w_col :: collector
  w_smp :: sample
  w_evidence :: bool
  w_structural :: "reason option"
  w_gap :: bool

type_synonym 'a step = "(exn \<times> work, 'a) result"

definition raise_at :: "work \<Rightarrow> (exn, 'a) result \<Rightarrow> (exn \<times> work, 'a) result" where
  "raise_at w r = (case r of Inl e \<Rightarrow> Inl (e, w) | Inr x \<Rightarrow> Inr x)"

definition check_none :: "work \<Rightarrow> exn option \<Rightarrow> (exn \<times> work, unit) result" where
  "check_none w e = (case e of None \<Rightarrow> Inr () | Some x \<Rightarrow> Inl (x, w))"

definition or_schema :: "'a option \<Rightarrow> (exn, 'a) result" where
  "or_schema x = (case x of None \<Rightarrow> Inl Schema_error | Some v \<Rightarrow> Inr v)"

definition begin_work :: "sampler \<Rightarrow> answers \<Rightarrow> collector \<Rightarrow> work" where
  "begin_work u a c =
     (let c1 = c\<lparr>c_sequence := c_sequence c + 1\<rparr> in
      \<lparr>w_col = c1,
       w_smp = \<lparr>profile_sha256 = sha256 (st_profile u), container_id = st_container u, started_at = st_started u,
                boot_id = [], seq_no = c_sequence c1, sample_monotonic = a_start a,
                arrival_generation = c_arrival c, row_generation = c_row c, active = 0, pending = 0,
                admission = 0, health_timestamp_ms = None, health_age_ms = None, feed_ready = False,
                barrier_seen = False, continuous = False, overflow = False, is_unknown = True, why = R_io\<rparr>,
       w_evidence = False, w_structural = None, w_gap = False\<rparr>)"

definition note_record :: "profile \<Rightarrow> work \<Rightarrow> string \<times> string \<Rightarrow> work" where
  "note_record p w rec =
     (let kind = classify_route p (fst rec) (snd rec) in
      if kind = Some ''inference''
      then w\<lparr>w_col := (w_col w)\<lparr>c_arrival := c_arrival (w_col w) + 1\<rparr>, w_evidence := True\<rparr>
      else if kind = None then w\<lparr>w_gap := True\<rparr> else w)"

text \<open>The journal: the batch's flags, the arrivals, the structural failures known so far.\<close>

definition journal_failure :: "batch \<Rightarrow> bool \<Rightarrow> reason option" where
  "journal_failure b gap = first_failure (b_overflow b) (\<not> b_continuous b) (\<not> (b_ready b \<and> b_barrier b)) gap"

definition journal_stage :: "sampler \<Rightarrow> answers \<Rightarrow> work \<Rightarrow> (exn \<times> work, work \<times> batch) result" where
  "journal_stage u a w =
     bindR (check_none w (a_recheck a)) (\<lambda>_.
     bindR (raise_at w (a_poll a)) (\<lambda>b.
       let w1 = w\<lparr>w_smp := (w_smp w)\<lparr>boot_id := b_boot b, feed_ready := b_ready b, barrier_seen := b_barrier b,
                                       continuous := b_continuous b, overflow := b_overflow b\<rparr>\<rparr>;
           w2 = foldl (note_record (st_profile u)) w1 (records b);
           w3 = w2\<lparr>w_smp := (w_smp w2)\<lparr>arrival_generation := c_arrival (w_col w2)\<rparr>\<rparr>
       in Inr (w3\<lparr>w_structural := journal_failure b (w_gap w3)\<rparr>, b)))"

definition prime_gap :: "profile \<Rightarrow> rat" where
  "prime_gap p = min (fl (1 / 5)) (fl (of_int (health_cache_ms p) / 2000))"

text \<open>The discarded health request: any deferral of it is an input/output deferral.\<close>

definition prime_stage :: "sampler \<Rightarrow> answers \<Rightarrow> rat \<Rightarrow> work \<Rightarrow> (exn \<times> work, unit) result" where
  "prime_stage u a dl w =
     (case a_prime a of
        Some (Deferral r) \<Rightarrow> Inl (Deferral R_io, w)
      | Some Schema_error \<Rightarrow> Inl (Schema_error, w)
      | None \<Rightarrow> if dl \<le> fl (a_primed a + prime_gap (st_profile u)) then Inl (Deferral R_io, w) else Inr ())"

definition wall_of :: "answers \<Rightarrow> int" where
  "wall_of a = ntrunc (FloatN (fl (a_w1 a * 1000)))"

definition sum_counts :: "pyval option list \<Rightarrow> int option" where
  "sum_counts vs = (if \<forall>v \<in> set vs. count_of v \<noteq> None then Some (sum_list (map (the \<circ> count_of) vs)) else None)"

text \<open>Reading the bodies: the counters go into the sample one by one, then the generations.\<close>

definition read_stage ::
  "(pyval \<Rightarrow> string) \<Rightarrow> sampler \<Rightarrow> answers \<Rightarrow> work \<Rightarrow> (exn \<times> work, work \<times> scan \<times> int) result" where
  "read_stage render u a w =
     (let p = st_profile u; wall = wall_of a in
      bindR (raise_at w (a_health a)) (\<lambda>health.
      bindR (raise_at w (a_history a)) (\<lambda>history.
      bindR (raise_at w (call_logs render p (st_min_wait_ms u) (st_tolerance_ms u) wall (a_pages a))) (\<lambda>sc.
      bindR (raise_at w (or_schema (sum_counts (map (json_ptr health) (f_admission p))))) (\<lambda>adm.
      let w1 = w\<lparr>w_smp := (w_smp w)\<lparr>admission := adm\<rparr>\<rparr> in
      bindR (raise_at w1 (or_schema (inflight_of (json_ptr history (f_active p))))) (\<lambda>act.
      let w2 = w1\<lparr>w_smp := (w_smp w1)\<lparr>active := act\<rparr>\<rparr> in
      bindR (raise_at w2 (bindR (require_dict history (f_pending_by_model p))
                            (\<lambda>d. or_schema (sum_counts (map (Some \<circ> snd) d))))) (\<lambda>pend.
      let w3 = w2\<lparr>w_smp := (w_smp w2)\<lparr>pending := pend\<rparr>\<rparr> in
      bindR (raise_at w3 (or_schema (epoch_ms (json_ptr health (f_health_timestamp p))))) (\<lambda>ts.
        Inr (w3, sc, ts)))))))))"

definition note_rows :: "answers \<Rightarrow> scan \<Rightarrow> int \<Rightarrow> work \<Rightarrow> work" where
  "note_rows a sc ts w =
     (let c = w_col w;
          row = (if c_last c \<noteq> None \<and> sc_newest sc \<noteq> c_newest c then c_row c + 1 else c_row c)
      in w\<lparr>w_col := c\<lparr>c_row := row, c_newest := sc_newest sc, c_last := Some (a_t1 a, a_w1 a, ts)\<rparr>,
           w_smp := (w_smp w)\<lparr>row_generation := row, health_timestamp_ms := Some ts,
                              health_age_ms := Some (max 0 (wall_of a - ts))\<rparr>\<rparr>)"

definition is_busy :: "sampler \<Rightarrow> answers \<Rightarrow> scan \<Rightarrow> sample \<Rightarrow> bool" where
  "is_busy u a sc s \<longleftrightarrow>
     0 < active s \<or> 0 < pending s \<or> 0 < admission s \<or> sc_inflight sc
     \<or> (case sc_newest sc of None \<Rightarrow> False | Some n \<Rightarrow> wall_of a - n < st_min_wait_ms u)"

text \<open>The bracket around the health read, and the step from the previous sample's readings.\<close>

definition bracket_bad :: "sampler \<Rightarrow> answers \<Rightarrow> bool" where
  "bracket_bad u a \<longleftrightarrow>
     of_int (st_tolerance_ms u) < fl (abs (fl (fl (a_w1 a - a_w0 a) - fl (a_t1 a - a_t0 a))) * 1000)
     \<or> 5000 < fl (fl (a_t1 a - a_t0 a) * 1000)"

definition clock_jumped :: "sampler \<Rightarrow> answers \<Rightarrow> int \<Rightarrow> rat \<times> rat \<times> int \<Rightarrow> bool" where
  "clock_jumped u a ts prev \<longleftrightarrow>
     (case prev of (pt, pw, pts) \<Rightarrow>
        fl (fl (of_int (st_tolerance_ms u)) + fl (10 * fl (a_t1 a - pt)))
          < fl (abs (fl (fl (a_w1 a - pw) - fl (a_t1 a - pt))) * 1000)
        \<or> ts < pts)"

definition judge_stage ::
  "sampler \<Rightarrow> answers \<Rightarrow> batch \<Rightarrow> scan \<Rightarrow> int \<Rightarrow> work \<Rightarrow> (exn \<times> work, work) result" where
  "judge_stage u a b sc ts w =
     (let p = st_profile u; previous = c_last (w_col w); w1 = note_rows a sc ts w; busy = is_busy u a sc (w_smp w1);
          st = journal_failure b (w_gap w \<or> sc_gap sc);
          w2 = w1\<lparr>w_evidence := w_evidence w1 \<or> busy, w_structural := st\<rparr>
      in case st of Some r \<Rightarrow> Inl (Deferral r, w2) | None \<Rightarrow>
         case sc_failure sc of Some r \<Rightarrow> Inl (Deferral r, w2) | None \<Rightarrow>
         if bracket_bad u a then Inl (Deferral R_clock, w2)
         else if (case previous of None \<Rightarrow> False | Some x \<Rightarrow> clock_jumped u a ts x) then Inl (Deferral R_clock, w2)
         else case check_freshness ts (wall_of a) (health_cache_ms p) (health_refresh_bound_ms p) (st_tolerance_ms u) of
                Some r \<Rightarrow> Inl (Deferral r, w2)
              | None \<Rightarrow> Inr (w2\<lparr>w_smp := (w_smp w2)\<lparr>is_unknown := False, why := (if busy then R_busy else R_ready)\<rparr>\<rparr>))"

text \<open>The handlers at the end of \<open>sample\<close>.\<close>

fun close_sample :: "exn \<times> work \<Rightarrow> work" where
  "close_sample (Deferral r, w) =
     (if r \<in> set TRANSIENT_REASONS \<and> w_evidence w \<and> w_structural w = None
      then w\<lparr>w_smp := (w_smp w)\<lparr>is_unknown := False, why := R_busy\<rparr>\<rparr>
      else w\<lparr>w_smp := (w_smp w)\<lparr>is_unknown := True, why := r\<rparr>\<rparr>)"
| "close_sample (Schema_error, w) = w\<lparr>w_smp := (w_smp w)\<lparr>is_unknown := True, why := R_schema\<rparr>\<rparr>"

definition sample_body ::
  "(pyval \<Rightarrow> string) \<Rightarrow> sampler \<Rightarrow> answers \<Rightarrow> rat \<Rightarrow> collector \<Rightarrow> (exn \<times> work, work) result" where
  "sample_body render u a dl c =
     bindR (journal_stage u a (begin_work u a c)) (\<lambda>(w, b).
     bindR (prime_stage u a dl w) (\<lambda>_.
     bindR (read_stage render u a w) (\<lambda>(w', sc, ts). judge_stage u a b sc ts w')))"

definition collect ::
  "(pyval \<Rightarrow> string) \<Rightarrow> sampler \<Rightarrow> answers \<Rightarrow> rat \<Rightarrow> collector \<Rightarrow> collector \<times> sample" where
  "collect render u a dl c =
     (let w = (case sample_body render u a dl c of Inl ew \<Rightarrow> close_sample ew | Inr w \<Rightarrow> w) in (w_col w, w_smp w))"

section \<open>The call log is read far enough\<close>

definition row_trace :: "profile \<Rightarrow> pyval \<Rightarrow> int option" where
  "row_trace p row = (case row_field row (f_row_timestamp p) of Inl _ \<Rightarrow> None | Inr v \<Rightarrow> epoch_ms (Some v))"

definition client_row :: "(pyval \<Rightarrow> string) \<Rightarrow> profile \<Rightarrow> pyval \<Rightarrow> bool" where
  "client_row render p row \<longleftrightarrow>
     (case row_field row (f_row_path p) of
        Inl _ \<Rightarrow> False | Inr v \<Rightarrow> classify_path p (py_str render v) = Some ''inference'')"

definition seen_to :: "int \<Rightarrow> scan \<Rightarrow> bool" where
  "seen_to t s \<longleftrightarrow> (\<exists>n. sc_newest s = Some n \<and> t \<le> n)"

text \<open>What scanning a row leaves true of an earlier scan, and what it records of the row.\<close>

definition scan_le :: "scan \<Rightarrow> scan \<Rightarrow> bool" where
  "scan_le s s' \<longleftrightarrow>
     (sc_failure s' = None \<longrightarrow> sc_failure s = None) \<and> (sc_inflight s \<longrightarrow> sc_inflight s') \<and> (sc_gap s \<longrightarrow> sc_gap s')
     \<and> (\<forall>t. seen_to t s \<longrightarrow> seen_to t s')"

definition row_noted :: "(pyval \<Rightarrow> string) \<Rightarrow> profile \<Rightarrow> scan \<Rightarrow> pyval \<Rightarrow> bool" where
  "row_noted render p s row \<longleftrightarrow>
     (client_row render p row \<longrightarrow>
        (\<forall>t. row_trace p row = Some t \<longrightarrow> seen_to t s) \<and> (row_flag row (f_row_memory_flag p) \<longrightarrow> sc_inflight s))
     \<and> (sc_failure s = None \<longrightarrow> row_trace p row \<noteq> None)"

lemma scan_le_refl [simp]: "scan_le s s"
  by (simp add: scan_le_def)

lemma scan_le_trans [trans]: "scan_le a b \<Longrightarrow> scan_le b c \<Longrightarrow> scan_le a c"
  by (simp add: scan_le_def)

lemma fail_with_simps [simp]:
  "sc_failure (fail_with r s) \<noteq> None" "sc_newest (fail_with r s) = sc_newest s"
  "sc_inflight (fail_with r s) = sc_inflight s" "sc_gap (fail_with r s) = sc_gap s"
  by (auto simp: fail_with_def split: option.splits)

lemma scan_le_fail_with: "scan_le s (fail_with r s)"
  by (auto simp: scan_le_def seen_to_def)

lemma row_noted_mono: "scan_le s s' \<Longrightarrow> row_noted render p s row \<Longrightarrow>
    (sc_failure s' = None \<longrightarrow> row_trace p row \<noteq> None) \<Longrightarrow> row_noted render p s' row"
  by (auto simp: scan_le_def row_noted_def)

lemma row_stamp_cases:
  "row_stamp latest v = (Some t, None) \<and> epoch_ms (Some v) = Some t \<and> t \<le> latest
   \<or> (\<exists>r. row_stamp latest v = (None, Some r))" if "epoch_ms (Some v) = Some t"
  using that by (simp add: row_stamp_def)

lemma scan_row_noted:
  assumes "scan_row render p latest (s, st) row = Inr (s', st')"
  shows "scan_le s s'" "sc_failure s' = None \<Longrightarrow> row_noted render p s' row \<and> st' = row_trace p row"
proof -
  obtain path tv where f: "row_field row (f_row_path p) = Inr path" "row_field row (f_row_timestamp p) = Inr tv"
    using assms by (auto simp: scan_row_def)
  show "scan_le s s'"
    using assms f
    by (auto simp: scan_row_def Let_def scan_le_def seen_to_def max_opt_def fail_with_def
        split: option.splits if_splits)
  show "row_noted render p s' row \<and> st' = row_trace p row" if nf: "sc_failure s' = None"
  proof -
    have "snd (row_stamp latest tv) = None"
      using assms f nf by (auto simp: scan_row_def Let_def split: option.splits if_splits)
    then obtain t where t: "row_stamp latest tv = (Some t, None)" "epoch_ms (Some tv) = Some t"
      by (auto simp: row_stamp_def split: option.splits if_splits)
    then have tr: "row_trace p row = Some t"
      by (simp add: row_trace_def f)
    have "client_row render p row \<longleftrightarrow> classify_path p (py_str render path) = Some ''inference''"
      by (simp add: client_row_def f)
    then show ?thesis
      using assms f t(1)
      by (auto simp: tr scan_row_def Let_def row_noted_def seen_to_def max_opt_def split: option.splits if_splits)
  qed
qed

lemma scan_rows_noted:
  assumes "foldR (scan_row render p latest) (s, st) rows = Inr (s', st')"
  shows "scan_le s s'"
    "sc_failure s' = None \<Longrightarrow> (\<forall>row \<in> set rows. row_noted render p s' row)
       \<and> st' = (if rows = [] then st else row_trace p (last rows))"
  using assms
proof (induction rows arbitrary: s st)
  case (Cons row rows)
  {
    case 1
    then obtain u v where u: "scan_row render p latest (s, st) row = Inr (u, v)"
      "foldR (scan_row render p latest) (u, v) rows = Inr (s', st')"
      by auto
    show ?case
      using scan_le_trans [OF scan_row_noted(1) [OF u(1)] Cons.IH(1) [OF u(2)]] .
  next
    case 2
    then obtain u v where u: "scan_row render p latest (s, st) row = Inr (u, v)"
      "foldR (scan_row render p latest) (u, v) rows = Inr (s', st')"
      by auto
    have le: "scan_le u s'"
      by (rule Cons.IH(1) [OF u(2)])
    with 2(1) have "sc_failure u = None"
      by (simp add: scan_le_def)
    note r = scan_row_noted(2) [OF u(1) this]
    then have "row_noted render p s' row"
      using row_noted_mono [OF le, of render p row] \<open>sc_failure u = None\<close> by (auto simp: row_noted_def)
    with r Cons.IH(2) [OF 2(1) u(2)] show ?case
      by simp
  }
qed simp_all

text \<open>
  The contract of the call-log route, as the code documents it: every page holds the in-memory rows and
  then a slice of the persisted rows, which are listed newest first.
\<close>

definition page_rows :: "pyval list \<Rightarrow> pyval list \<Rightarrow> nat \<Rightarrow> nat \<Rightarrow> pyval list" where
  "page_rows mem persisted limit k = mem @ take limit (drop (k * limit) persisted)"

definition serves :: "profile \<Rightarrow> pyval list \<Rightarrow> pyval list \<Rightarrow> (nat \<Rightarrow> (exn, pyval) result) \<Rightarrow> bool" where
  "serves p mem persisted pages \<longleftrightarrow>
     (\<forall>k < ROW_PAGES. bindR (pages k) (\<lambda>doc. require_list doc (f_rows p))
        = Inr (page_rows mem persisted (f_page_limit p) k))"

definition newest_first :: "profile \<Rightarrow> pyval list \<Rightarrow> bool" where
  "newest_first p rows \<longleftrightarrow>
     sorted_wrt (\<lambda>a b. \<forall>s t. row_trace p a = Some s \<longrightarrow> row_trace p b = Some t \<longrightarrow> t \<le> s) rows"

text \<open>A row that does not speak against idleness: not a client row younger than the horizon, nor in flight in memory.\<close>

definition old_row :: "(pyval \<Rightarrow> string) \<Rightarrow> profile \<Rightarrow> int \<Rightarrow> pyval \<Rightarrow> bool" where
  "old_row render p horizon row \<longleftrightarrow>
     (client_row render p row \<longrightarrow> (\<forall>t. row_trace p row = Some t \<longrightarrow> t \<le> horizon))"

lemma noted_old:
  "row_noted render p s row \<Longrightarrow> (\<And>n. sc_newest s = Some n \<Longrightarrow> n \<le> horizon) \<Longrightarrow> old_row render p horizon row"
  by (force simp: row_noted_def old_row_def seen_to_def)

lemma tail_old:
  assumes "newest_first p (xs @ x # ys)" "row_trace p x = Some t" "t \<le> horizon" "row \<in> set ys"
  shows "old_row render p horizon row"
  using assms by (fastforce simp: newest_first_def sorted_wrt_append old_row_def)

lemma scan_pages_mono: "scan_pages render p latest horizon pages k n s = Inr s' \<Longrightarrow> scan_le s s'"
proof (induction n arbitrary: k s)
  case 0
  then show ?case using scan_le_fail_with by auto
next
  case (Suc n)
  then obtain rows u v where u: "foldR (scan_row render p latest) (s, None) rows = Inr (u, v)"
    "u = s' \<or> scan_pages render p latest horizon pages (k + 1) n u = Inr s'"
    by (auto split: if_splits)
  from scan_rows_noted(1) [OF u(1)] u(2) Suc.IH show ?case
    using scan_le_trans by blast
qed

lemma slice_cases:
  assumes "0 < limit"
  obtains "drop (k * limit) persisted = take limit (drop (k * limit) persisted)"
  | "length (take limit (drop (k * limit) persisted)) = limit"
    "drop (k * limit) persisted = take limit (drop (k * limit) persisted) @ drop ((k + 1) * limit) persisted"
proof (cases "length (drop (k * limit) persisted) \<le> limit")
  case True
  then show ?thesis using that(1) by simp
next
  case False
  then have "length (take limit (drop (k * limit) persisted)) = limit"
    by simp
  moreover have "drop ((k + 1) * limit) persisted = drop limit (drop (k * limit) persisted)"
    by (simp add: add.commute)
  ultimately show ?thesis
    using that(2) append_take_drop_id by metis
qed

lemma scan_pages_complete:
  assumes "scan_pages render p latest horizon pages k n s = Inr s'" "k + n \<le> ROW_PAGES"
    "serves p mem persisted pages" "newest_first p persisted" "0 < f_page_limit p"
    "sc_failure s' = None" "\<not> sc_inflight s'" "\<And>m. sc_newest s' = Some m \<Longrightarrow> m \<le> horizon"
  shows "\<forall>row \<in> set (mem @ drop (k * f_page_limit p) persisted). old_row render p horizon row"
    "\<forall>row \<in> set mem. client_row render p row \<longrightarrow> \<not> row_flag row (f_row_memory_flag p)"
  using assms
proof (induction n arbitrary: k s)
  case 0
  {
    case 1 then show ?case by auto
  next
    case 2 then show ?case by auto
  }
next
  case (Suc n)
  let ?L = "f_page_limit p"
  have main: "(\<forall>row \<in> set (mem @ drop (k * ?L) persisted). old_row render p horizon row)
      \<and> (\<forall>row \<in> set mem. client_row render p row \<longrightarrow> \<not> row_flag row (f_row_memory_flag p))"
    if H: "scan_pages render p latest horizon pages k (Suc n) s = Inr s'" "k + Suc n \<le> ROW_PAGES" for k s
  proof -
    define rows where "rows = page_rows mem persisted ?L k"
    have k: "bindR (pages k) (\<lambda>doc. require_list doc (f_rows p)) = Inr rows"
      using assms(3) H(2) by (auto simp: serves_def rows_def)
    from H(1) k obtain u v where u: "foldR (scan_row render p latest) (s, None) rows = Inr (u, v)"
      and nxt: "(if scan_done horizon ?L u v rows then Inr u
                  else scan_pages render p latest horizon pages (k + 1) n u) = Inr s'"
      by (auto cong: if_cong)
    have le: "scan_le u s'"
      using nxt scan_pages_mono by (auto split: if_splits)
    have uf: "sc_failure u = None" "\<not> sc_inflight u"
      using le assms(6,7) by (auto simp: scan_le_def)
    have noted: "\<forall>row \<in> set rows. row_noted render p u row" "v = (if rows = [] then None else row_trace p (last rows))"
      using scan_rows_noted(2) [OF u uf(1)] by auto
    have unew: "m \<le> horizon" if "sc_newest u = Some m" for m
    proof -
      have "seen_to m s'"
        using le that by (auto simp: scan_le_def seen_to_def)
      then obtain n' where "sc_newest s' = Some n'" "m \<le> n'"
        by (auto simp: seen_to_def)
      then show ?thesis
        using assms(8) by force
    qed
    have page_old: "\<forall>row \<in> set rows. old_row render p horizon row"
      using noted(1) noted_old unew by blast
    have mem_ok: "\<forall>row \<in> set mem. client_row render p row \<longrightarrow> \<not> row_flag row (f_row_memory_flag p)"
      using noted(1) uf(2) by (auto simp: rows_def page_rows_def row_noted_def)
    have rest: "\<forall>row \<in> set (drop (k * ?L) persisted). old_row render p horizon row"
      using assms(5)
    proof (cases rule: slice_cases [of ?L k persisted])
      case 1
      then show ?thesis
        using page_old unfolding rows_def page_rows_def by (metis UnCI set_append)
    next
      case full: 2
      let ?sl = "take ?L (drop (k * ?L) persisted)"
      have "\<forall>row \<in> set (drop ((k + 1) * ?L) persisted). old_row render p horizon row"
      proof (cases "scan_done horizon ?L u v rows")
        case False
        with nxt H(2) assms show ?thesis
          using Suc.IH(1) [of "k + 1" u] by simp
      next
        case True
        have "?sl \<noteq> []" "\<not> length rows < ?L"
          using full assms(5) by (auto simp: rows_def page_rows_def)
        moreover have "\<not> (case sc_newest u of None \<Rightarrow> False | Some n \<Rightarrow> horizon < n)"
          using unew by (force split: option.splits)
        ultimately obtain t where t: "v = Some t" "t \<le> horizon"
          using True uf(2) by (auto simp: scan_done_def split: option.splits)
        obtain ini x where x: "?sl = ini @ [x]"
          using \<open>?sl \<noteq> []\<close> by (metis append_butlast_last_id)
        then have "row_trace p x = Some t"
          using noted(2) t by (auto simp: rows_def page_rows_def split: if_splits)
        moreover have "newest_first p (ini @ x # drop ((k + 1) * ?L) persisted)"
        proof -
          have "newest_first p (drop (k * ?L) persisted)"
            using assms(4) sorted_wrt_drop unfolding newest_first_def by blast
          then show ?thesis
            using full(2) x by simp
        qed
        ultimately show ?thesis
          using tail_old t(2) by blast
      qed
      moreover have "\<forall>row \<in> set ?sl. old_row render p horizon row"
        using page_old by (simp add: rows_def page_rows_def)
      ultimately show ?thesis
        using full(2) by (metis UnE set_append)
    qed
    moreover have "\<forall>row \<in> set mem. old_row render p horizon row"
      using page_old by (simp add: rows_def page_rows_def)
    ultimately show ?thesis
      using mem_ok by auto
  qed
  {
    case 1
    show ?case using main [OF 1(1,2)] by (rule conjunct1)
  next
    case 2
    show ?case using main [OF 2(1,2)] by (rule conjunct2)
  }
qed

lemma call_logs_complete:
  assumes "call_logs render p mw tol wall pages = Inr sc" "serves p mem persisted pages" "newest_first p persisted"
    "0 < f_page_limit p" "sc_failure sc = None" "\<not> sc_inflight sc"
    "\<And>m. sc_newest sc = Some m \<Longrightarrow> m \<le> wall - mw"
  shows "(\<forall>row \<in> set (mem @ persisted). old_row render p (wall - mw) row)
    \<and> (\<forall>row \<in> set mem. client_row render p row \<longrightarrow> \<not> row_flag row (f_row_memory_flag p))"
  using scan_pages_complete [OF assms(1) [unfolded call_logs_def] _ assms(2-6)] assms(7) by simp

section \<open>What a sample is made of\<close>

lemma note_record_frame:
  "w_smp (note_record p w r) = w_smp w" "w_structural (note_record p w r) = w_structural w"
  "c_sequence (w_col (note_record p w r)) = c_sequence (w_col w)"
  "c_row (w_col (note_record p w r)) = c_row (w_col w)"
  "c_newest (w_col (note_record p w r)) = c_newest (w_col w)"
  "c_last (w_col (note_record p w r)) = c_last (w_col w)"
  by (simp_all add: note_record_def Let_def)

definition is_arrival :: "profile \<Rightarrow> string \<times> string \<Rightarrow> bool" where
  "is_arrival p r \<longleftrightarrow> classify_route p (fst r) (snd r) = Some ''inference''"

definition is_unprofiled :: "profile \<Rightarrow> string \<times> string \<Rightarrow> bool" where
  "is_unprofiled p r \<longleftrightarrow> classify_route p (fst r) (snd r) = None"

definition arrivals :: "profile \<Rightarrow> (string \<times> string) list \<Rightarrow> int" where
  "arrivals p rs = int (length (filter (is_arrival p) rs))"

lemma note_record_more:
  "c_arrival (w_col (note_record p w r)) = c_arrival (w_col w) + (if is_arrival p r then 1 else 0)"
  "w_gap (note_record p w r) \<longleftrightarrow> w_gap w \<or> is_unprofiled p r"
  "w_evidence (note_record p w r) \<longleftrightarrow> w_evidence w \<or> is_arrival p r"
  by (auto simp: note_record_def is_arrival_def is_unprofiled_def Let_def)

lemma note_records_frame:
  "w_smp (foldl (note_record p) w rs) = w_smp w"
  "c_sequence (w_col (foldl (note_record p) w rs)) = c_sequence (w_col w)"
  "c_row (w_col (foldl (note_record p) w rs)) = c_row (w_col w)"
  "c_newest (w_col (foldl (note_record p) w rs)) = c_newest (w_col w)"
  "c_last (w_col (foldl (note_record p) w rs)) = c_last (w_col w)"
  "w_structural (foldl (note_record p) w rs) = w_structural w"
  "c_arrival (w_col (foldl (note_record p) w rs)) = c_arrival (w_col w) + arrivals p rs"
  "w_gap (foldl (note_record p) w rs) \<longleftrightarrow> w_gap w \<or> (\<exists>r \<in> set rs. is_unprofiled p r)"
  "w_evidence (foldl (note_record p) w rs) \<longleftrightarrow> w_evidence w \<or> (\<exists>r \<in> set rs. is_arrival p r)"
  by (induction rs arbitrary: w) (auto simp: note_record_frame note_record_more arrivals_def)

lemma begin_work_simps [simp]:
  "w_col (begin_work u a c) = c\<lparr>c_sequence := c_sequence c + 1\<rparr>" "\<not> w_evidence (begin_work u a c)"
  "w_structural (begin_work u a c) = None" "\<not> w_gap (begin_work u a c)"
  "is_unknown (w_smp (begin_work u a c))" "seq_no (w_smp (begin_work u a c)) = c_sequence c + 1"
  "arrival_generation (w_smp (begin_work u a c)) = c_arrival c"
  "row_generation (w_smp (begin_work u a c)) = c_row c"
  by (simp_all add: begin_work_def Let_def)

lemma check_none_iff [simp]: "check_none w e = Inr x \<longleftrightarrow> e = None"
  by (simp add: check_none_def split: option.splits)

lemma raise_at_iff [simp]: "raise_at w r = Inr x \<longleftrightarrow> r = Inr x"
  by (cases r) (simp_all add: raise_at_def)

lemma or_schema_iff [simp]: "or_schema v = Inr x \<longleftrightarrow> v = Some x"
  by (cases v) (simp_all add: or_schema_def)

text \<open>The state after a journal stage that did not raise.\<close>

definition after_journal :: "sampler \<Rightarrow> work \<Rightarrow> batch \<Rightarrow> work" where
  "after_journal u w b =
     (let w1 = w\<lparr>w_smp := (w_smp w)\<lparr>boot_id := b_boot b, feed_ready := b_ready b, barrier_seen := b_barrier b,
                                     continuous := b_continuous b, overflow := b_overflow b\<rparr>\<rparr>;
          w2 = foldl (note_record (st_profile u)) w1 (records b);
          w3 = w2\<lparr>w_smp := (w_smp w2)\<lparr>arrival_generation := c_arrival (w_col w2)\<rparr>\<rparr>
      in w3\<lparr>w_structural := journal_failure b (w_gap w3)\<rparr>)"

lemma journal_stage_iff:
  "journal_stage u a w = Inr r \<longleftrightarrow>
     a_recheck a = None \<and> (\<exists>b. a_poll a = Inr b \<and> r = (after_journal u w b, b))"
  by (auto simp: journal_stage_def after_journal_def Let_def)

lemma after_journal_simps:
  "c_sequence (w_col (after_journal u w b)) = c_sequence (w_col w)"
  "c_row (w_col (after_journal u w b)) = c_row (w_col w)"
  "c_newest (w_col (after_journal u w b)) = c_newest (w_col w)"
  "c_last (w_col (after_journal u w b)) = c_last (w_col w)"
  "c_arrival (w_col (after_journal u w b)) = c_arrival (w_col w) + arrivals (st_profile u) (records b)"
  "w_gap (after_journal u w b) \<longleftrightarrow> w_gap w \<or> (\<exists>r \<in> set (records b). is_unprofiled (st_profile u) r)"
  "w_structural (after_journal u w b) = journal_failure b (w_gap (after_journal u w b))"
  "arrival_generation (w_smp (after_journal u w b)) = c_arrival (w_col (after_journal u w b))"
  "row_generation (w_smp (after_journal u w b)) = row_generation (w_smp w)"
  "seq_no (w_smp (after_journal u w b)) = seq_no (w_smp w)"
  "is_unknown (w_smp (after_journal u w b)) = is_unknown (w_smp w)"
  by (simp_all add: after_journal_def Let_def note_records_frame)

lemma prime_stage_iff:
  "prime_stage u a dl w = Inr x \<longleftrightarrow>
     a_prime a = None \<and> fl (a_primed a + prime_gap (st_profile u)) < dl"
  by (auto simp: prime_stage_def not_le split: option.splits exn.splits if_splits)

lemma read_stage_Inr:
  assumes "read_stage render u a w = Inr (w', sc, ts)"
  shows "w_col w' = w_col w" "w_gap w' = w_gap w" "w_evidence w' = w_evidence w" "w_structural w' = w_structural w"
    "arrival_generation (w_smp w') = arrival_generation (w_smp w)" "seq_no (w_smp w') = seq_no (w_smp w)"
    "feed_ready (w_smp w') = feed_ready (w_smp w)" "barrier_seen (w_smp w') = barrier_seen (w_smp w)"
    "continuous (w_smp w') = continuous (w_smp w)" "overflow (w_smp w') = overflow (w_smp w)"
    "call_logs render (st_profile u) (st_min_wait_ms u) (st_tolerance_ms u) (wall_of a) (a_pages a) = Inr sc"
    "\<exists>health. a_health a = Inr health \<and> epoch_ms (json_ptr health (f_health_timestamp (st_profile u))) = Some ts"
  using assms by (auto simp: read_stage_def Let_def simp del: epoch_ms.simps)

lemma note_rows_simps [simp]:
  "active (w_smp (note_rows a sc ts w)) = active (w_smp w)" "pending (w_smp (note_rows a sc ts w)) = pending (w_smp w)"
  "admission (w_smp (note_rows a sc ts w)) = admission (w_smp w)"
  "arrival_generation (w_smp (note_rows a sc ts w)) = arrival_generation (w_smp w)"
  "overflow (w_smp (note_rows a sc ts w)) = overflow (w_smp w)"
  "feed_ready (w_smp (note_rows a sc ts w)) = feed_ready (w_smp w)"
  "seq_no (w_smp (note_rows a sc ts w)) = seq_no (w_smp w)"
  "health_timestamp_ms (w_smp (note_rows a sc ts w)) = Some ts"
  "row_generation (w_smp (note_rows a sc ts w)) = c_row (w_col (note_rows a sc ts w))"
  "c_sequence (w_col (note_rows a sc ts w)) = c_sequence (w_col w)"
  "c_arrival (w_col (note_rows a sc ts w)) = c_arrival (w_col w)"
  "is_unknown (w_smp (note_rows a sc ts w)) = is_unknown (w_smp w)"
  by (simp_all add: note_rows_def Let_def)

lemma judge_stage_Inr:
  assumes "judge_stage u a b sc ts w = Inr w'"
  shows "journal_failure b (w_gap w \<or> sc_gap sc) = None" "sc_failure sc = None" "\<not> bracket_bad u a"
    "\<And>x. c_last (w_col w) = Some x \<Longrightarrow> \<not> clock_jumped u a ts x"
    "check_freshness ts (wall_of a) (health_cache_ms (st_profile u)) (health_refresh_bound_ms (st_profile u))
       (st_tolerance_ms u) = None"
    "w_smp w' = (w_smp (note_rows a sc ts w))\<lparr>is_unknown := False,
       why := (if is_busy u a sc (w_smp (note_rows a sc ts w)) then R_busy else R_ready)\<rparr>"
    "w_col w' = w_col (note_rows a sc ts w)"
  using assms by (auto simp: judge_stage_def Let_def split: option.splits if_splits)

lemma close_sample_not_idle: "classify (w_smp (close_sample ew)) \<noteq> Idle"
  by (cases ew rule: close_sample.cases) (auto simp: classify_def)

lemma journal_failure_None [simp]:
  "journal_failure b gap = None \<longleftrightarrow> \<not> b_overflow b \<and> b_continuous b \<and> b_ready b \<and> b_barrier b \<and> \<not> gap"
  by (auto simp: journal_failure_def first_failure_def)

lemma collect_idle_cases:
  assumes "classify (snd (collect render u a dl c)) = Idle"
  obtains b sc ts w' wf where "a_recheck a = None" "a_poll a = Inr b"
    "a_prime a = None" "fl (a_primed a + prime_gap (st_profile u)) < dl"
    "read_stage render u a (after_journal u (begin_work u a c) b) = Inr (w', sc, ts)"
    "judge_stage u a b sc ts w' = Inr wf" "collect render u a dl c = (w_col wf, w_smp wf)"
proof (cases "sample_body render u a dl c")
  case (Inl ew)
  with assms close_sample_not_idle [of ew] show thesis
    by (simp add: collect_def Let_def)
next
  case (Inr wf)
  then obtain b sc ts w' where *: "a_recheck a = None" "a_poll a = Inr b"
    "prime_stage u a dl (after_journal u (begin_work u a c) b) = Inr ()"
    "read_stage render u a (after_journal u (begin_work u a c) b) = Inr (w', sc, ts)" "judge_stage u a b sc ts w' = Inr wf"
    by (auto simp: sample_body_def journal_stage_iff)
  show thesis
    by (rule that [OF *(1,2) _ _ *(4,5)]) (use * Inr in \<open>simp_all add: prime_stage_iff collect_def\<close>)
qed

text \<open>
  An idle sample rests on complete evidence. The container's recheck passed; the journal was ready,
  reached its barrier, without a gap in continuity or an overflow, and every journal record had a
  class; no counter was positive; every scanned row had a readable time and a class, no client row was in
  flight and the newest client trace is at least the minimum wait old; the health timestamp is fresh,
  not older than the previous one, and the clocks agree. The arrivals of the journal are all counted.
\<close>

theorem idle_sample_evidence:
  assumes "classify (snd (collect render u a dl c)) = Idle"
  shows "\<exists>b sc ts. a_recheck a = None \<and> a_poll a = Inr b
    \<and> b_ready b \<and> b_barrier b \<and> b_continuous b \<and> \<not> b_overflow b
    \<and> (\<forall>r \<in> set (records b). classify_route (st_profile u) (fst r) (snd r) \<noteq> None)
    \<and> arrival_generation (snd (collect render u a dl c)) = c_arrival c + arrivals (st_profile u) (records b)
    \<and> active (snd (collect render u a dl c)) \<le> 0 \<and> pending (snd (collect render u a dl c)) \<le> 0
    \<and> admission (snd (collect render u a dl c)) \<le> 0
    \<and> call_logs render (st_profile u) (st_min_wait_ms u) (st_tolerance_ms u) (wall_of a) (a_pages a) = Inr sc
    \<and> sc_failure sc = None \<and> \<not> sc_gap sc \<and> \<not> sc_inflight sc
    \<and> (\<forall>n. sc_newest sc = Some n \<longrightarrow> st_min_wait_ms u \<le> wall_of a - n)
    \<and> health_timestamp_ms (snd (collect render u a dl c)) = Some ts
    \<and> 0 \<le> wall_of a - ts
    \<and> wall_of a - ts \<le> health_cache_ms (st_profile u) + health_refresh_bound_ms (st_profile u) + st_tolerance_ms u
    \<and> \<not> bracket_bad u a \<and> (\<forall>x. c_last c = Some x \<longrightarrow> \<not> clock_jumped u a ts x)"
  using assms
proof (rule collect_idle_cases)
  fix b sc ts w' wf
  assume h: "a_recheck a = None" "a_poll a = Inr b"
    and r: "read_stage render u a (after_journal u (begin_work u a c) b) = Inr (w', sc, ts)"
    and j: "judge_stage u a b sc ts w' = Inr wf" and cf: "collect render u a dl c = (w_col wf, w_smp wf)"
  note R = read_stage_Inr [OF r] and J = judge_stage_Inr [OF j, unfolded R(1,2) after_journal_simps, simplified]
  have s: "snd (collect render u a dl c) = (w_smp (note_rows a sc ts w'))\<lparr>is_unknown := False,
      why := (if is_busy u a sc (w_smp (note_rows a sc ts w')) then R_busy else R_ready)\<rparr>"
    using J(6) cf by simp
  have nb: "\<not> is_busy u a sc (w_smp (note_rows a sc ts w'))"
    using assms unfolding s by (auto simp: classify_def split: if_splits)
  have "arrival_generation (w_smp w') = c_arrival c + arrivals (st_profile u) (records b)"
    unfolding R(5) after_journal_simps by simp
  then show ?thesis
    using h(1,2) J(1-5) R(11) nb unfolding s
    by (intro exI [of _ b] exI [of _ sc] exI [of _ ts])
       (auto simp: is_busy_def is_unprofiled_def check_freshness_def not_less split: option.splits if_splits)
qed

text \<open>
  C2: no recent client call escapes an idle sample. If the call-log route serves pages as documented
  (the in-memory rows on every page, then the persisted rows newest first), an idle sample means that
  no client row of the whole log, scanned or not, is younger than the minimum wait, and that no
  in-memory client row is flagged as in flight, although at most five pages are read.
\<close>

theorem idle_sample_no_recent_client:
  assumes "classify (snd (collect render u a dl c)) = Idle" "0 < f_page_limit (st_profile u)"
    "serves (st_profile u) mem persisted (a_pages a)" "newest_first (st_profile u) persisted"
  shows "(\<forall>row \<in> set (mem @ persisted). client_row render (st_profile u) row \<longrightarrow>
      (\<forall>t. row_trace (st_profile u) row = Some t \<longrightarrow> st_min_wait_ms u \<le> wall_of a - t))
    \<and> (\<forall>row \<in> set mem. client_row render (st_profile u) row \<longrightarrow>
        \<not> row_flag row (f_row_memory_flag (st_profile u)))"
proof (rule collect_idle_cases [OF assms(1)])
  fix b sc ts w' wf
  assume r: "read_stage render u a (after_journal u (begin_work u a c) b) = Inr (w', sc, ts)"
    and j: "judge_stage u a b sc ts w' = Inr wf" and cf: "collect render u a dl c = (w_col wf, w_smp wf)"
  note R = read_stage_Inr(11) [OF r] and J = judge_stage_Inr [OF j]
  have "\<not> is_busy u a sc (w_smp (note_rows a sc ts w'))"
    using assms(1) unfolding cf by (auto simp: J(6) classify_def split: if_splits)
  then have nb: "\<not> sc_inflight sc" "\<And>m. sc_newest sc = Some m \<Longrightarrow> m \<le> wall_of a - st_min_wait_ms u"
    by (auto simp: is_busy_def not_less)
  from call_logs_complete [OF R assms(3,4,2) J(2) nb] show ?thesis
    by (force simp: old_row_def)
qed

lemma check_none_Inl: "check_none w e = Inl x \<longleftrightarrow> (\<exists>y. e = Some y \<and> x = (y, w))"
  by (auto simp: check_none_def split: option.splits)

lemma raise_at_Inl: "raise_at w r = Inl x \<longleftrightarrow> (\<exists>y. r = Inl y \<and> x = (y, w))"
  by (cases r) (auto simp: raise_at_def)

text \<open>What every stage keeps, whether it raises or not.\<close>

definition same_base :: "work \<Rightarrow> work \<Rightarrow> bool" where
  "same_base w w' \<longleftrightarrow>
     c_sequence (w_col w') = c_sequence (w_col w) \<and> seq_no (w_smp w') = seq_no (w_smp w)
     \<and> c_arrival (w_col w') = c_arrival (w_col w)
     \<and> arrival_generation (w_smp w') = arrival_generation (w_smp w)"

lemma read_stage_Inl:
  assumes "read_stage render u a w = Inl (e, w')"
  shows "w_col w' = w_col w" "w_structural w' = w_structural w" "same_base w w'"
    "row_generation (w_smp w') = row_generation (w_smp w)"
  using assms by (auto simp: read_stage_def Let_def bindR_eq_Inl raise_at_Inl same_base_def simp del: epoch_ms.simps)

lemma judge_stage_Inl:
  assumes "judge_stage u a b sc ts w = Inl (e, w')"
  shows "w_col w' = w_col (note_rows a sc ts w)" "w_structural w' = journal_failure b (w_gap w \<or> sc_gap sc)"
    "w_smp w' = w_smp (note_rows a sc ts w)"
    "\<And>r. journal_failure b (w_gap w \<or> sc_gap sc) = Some r \<Longrightarrow> e = Deferral r"
  using assms by (auto simp: judge_stage_def Let_def split: option.splits if_splits)

lemma collect_eq:
  "collect render u a dl c =
     (case sample_body render u a dl c of
        Inl ew \<Rightarrow> (w_col (close_sample ew), w_smp (close_sample ew)) | Inr w \<Rightarrow> (w_col w, w_smp w))"
  by (simp add: collect_def Let_def split: sum.splits)

lemma close_sample_simps [simp]:
  "w_col (close_sample (e, w)) = w_col w" "seq_no (w_smp (close_sample (e, w))) = seq_no (w_smp w)"
  "arrival_generation (w_smp (close_sample (e, w))) = arrival_generation (w_smp w)"
  "row_generation (w_smp (close_sample (e, w))) = row_generation (w_smp w)"
  by (cases e; simp)+

lemma close_sample_structural: "w_structural w \<noteq> None \<Longrightarrow> is_unknown (w_smp (close_sample (e, w)))"
  by (cases e) auto

lemma journal_failure_mono: "journal_failure b g \<noteq> None \<Longrightarrow> journal_failure b (g \<or> h) \<noteq> None"
  by auto

lemma after_journal_structural:
  "w_structural (after_journal u (begin_work u a c) b) = journal_failure b (\<exists>r \<in> set (records b). is_unprofiled (st_profile u) r)"
  by (simp add: after_journal_simps)

text \<open>
  Activity evidence never hides a broken feed. If the journal answered and overflowed, lost
  continuity, was not ready, missed its barrier or showed a route without a class, the sample is
  unknown and never idle, whatever the other sources answer.
\<close>

theorem structural_failure_is_unknown:
  assumes "a_recheck a = None" "a_poll a = Inr b"
    "b_overflow b \<or> \<not> b_continuous b \<or> \<not> b_ready b \<or> \<not> b_barrier b
     \<or> (\<exists>r \<in> set (records b). classify_route (st_profile u) (fst r) (snd r) = None)"
  shows "is_unknown (snd (collect render u a dl c)) \<and> classify (snd (collect render u a dl c)) \<noteq> Idle"
proof -
  let ?w = "after_journal u (begin_work u a c) b"
  have st: "w_structural ?w \<noteq> None" and jf: "\<And>h. journal_failure b (w_gap ?w \<or> h) \<noteq> None"
    using assms(3) by (auto simp: after_journal_structural after_journal_simps is_unprofiled_def)
  have body: "sample_body render u a dl c = bindR (prime_stage u a dl ?w) (\<lambda>_.
     bindR (read_stage render u a ?w) (\<lambda>(w', sc, ts). judge_stage u a b sc ts w'))"
    using assms(1,2) journal_stage_iff [of u a "begin_work u a c" "(?w, b)"] by (simp add: sample_body_def)
  obtain e w' where x: "sample_body render u a dl c = Inl (e, w')" "w_structural w' \<noteq> None"
  proof (cases "prime_stage u a dl ?w")
    case (Inl ew)
    then have "snd ew = ?w"
      by (auto simp: prime_stage_def split: option.splits exn.splits if_splits)
    with Inl body st that show thesis
      by (cases ew) simp
  next
    case p: (Inr x)
    show thesis
    proof (cases "read_stage render u a ?w")
      case (Inl ew)
      with p body st that read_stage_Inl(2) [of render u a ?w] show thesis
        by (cases ew) simp
    next
      case (Inr y)
      obtain w' sc ts where y: "y = (w', sc, ts)"
        by (cases y)
      with Inr have r: "read_stage render u a ?w = Inr (w', sc, ts)"
        by simp
      have nj: "judge_stage u a b sc ts w' \<noteq> Inr z" for z
        using judge_stage_Inr(1) [of u a b sc ts w' z] jf [of "sc_gap sc"] unfolding read_stage_Inr(2) [OF r] by blast
      then obtain e w'' where j: "judge_stage u a b sc ts w' = Inl (e, w'')"
        by (cases "judge_stage u a b sc ts w'") auto
      have "w_structural w'' \<noteq> None"
        unfolding judge_stage_Inl(2) [OF j] read_stage_Inr(2) [OF r] by (rule jf)
      with p r body j that show thesis
        by simp
    qed
  qed
  with close_sample_structural show ?thesis
    using close_sample_not_idle [of "(e, w')"] by (simp add: collect_eq)
qed

lemma sample_body_cases:
  assumes "sample_body render u a dl c = Inl (e, w) \<or> sample_body render u a dl c = Inr w"
  shows "(w = begin_work u a c \<and> (a_recheck a \<noteq> None \<or> (\<exists>e. a_poll a = Inl e)))
    \<or> (\<exists>b w'. a_recheck a = None \<and> a_poll a = Inr b \<and> same_base (after_journal u (begin_work u a c) b) w'
         \<and> w_col w' = w_col (after_journal u (begin_work u a c) b)
         \<and> row_generation (w_smp w') = row_generation (w_smp (after_journal u (begin_work u a c) b))
         \<and> (w = w' \<or> (\<exists>sc ts. w_col w = w_col (note_rows a sc ts w') \<and> seq_no (w_smp w) = seq_no (w_smp w')
                \<and> arrival_generation (w_smp w) = arrival_generation (w_smp w')
                \<and> row_generation (w_smp w) = c_row (w_col w))))"
proof (cases "journal_stage u a (begin_work u a c)")
  case (Inl ew)
  then have "snd ew = begin_work u a c" "a_recheck a \<noteq> None \<or> (\<exists>e. a_poll a = Inl e)"
    by (auto simp: journal_stage_def bindR_eq_Inl check_none_Inl raise_at_Inl Let_def)
  with Inl assms show ?thesis
    by (cases ew) (simp add: sample_body_def)
next
  case (Inr y)
  then obtain b where b: "a_recheck a = None" "a_poll a = Inr b" "y = (after_journal u (begin_work u a c) b, b)"
    using journal_stage_iff by blast
  let ?w = "after_journal u (begin_work u a c) b"
  have body: "sample_body render u a dl c = bindR (prime_stage u a dl ?w) (\<lambda>_.
     bindR (read_stage render u a ?w) (\<lambda>(w', sc, ts). judge_stage u a b sc ts w'))"
    using Inr b by (simp add: sample_body_def)
  show ?thesis
  proof (cases "prime_stage u a dl ?w")
    case (Inl ew)
    then have "snd ew = ?w"
      by (auto simp: prime_stage_def split: option.splits exn.splits if_splits)
    with Inl body assms b show ?thesis
      by (cases ew) (auto simp: same_base_def)
  next
    case p: (Inr x)
    show ?thesis
    proof (cases "read_stage render u a ?w")
      case (Inl ew)
      obtain e' w1 where ew: "ew = (e', w1)"
        by (cases ew)
      with Inl have r: "read_stage render u a ?w = Inl (e', w1)"
        by simp
      then have "w = w1"
        using assms p body by auto
      with read_stage_Inl [OF r] b show ?thesis
        by auto
    next
      case (Inr y)
      obtain w' sc ts where y: "y = (w', sc, ts)"
        by (cases y)
      with Inr have r: "read_stage render u a ?w = Inr (w', sc, ts)"
        by simp
      have j: "judge_stage u a b sc ts w' = Inl (e, w) \<or> judge_stage u a b sc ts w' = Inr w"
        using assms p r body by simp
      have "w_col w = w_col (note_rows a sc ts w') \<and> seq_no (w_smp w) = seq_no (w_smp w')
                \<and> arrival_generation (w_smp w) = arrival_generation (w_smp w') \<and> row_generation (w_smp w) = c_row (w_col w)"
        using j
      proof
        assume "judge_stage u a b sc ts w' = Inl (e, w)"
        note J = judge_stage_Inl [OF this]
        show ?thesis unfolding J(1,3) by simp
      next
        assume "judge_stage u a b sc ts w' = Inr w"
        note J = judge_stage_Inr [OF this]
        show ?thesis unfolding J(6,7) by simp
      qed
      moreover have "same_base ?w w'" "w_col w' = w_col ?w"
        using read_stage_Inr [OF r] by (auto simp: same_base_def)
      moreover have "row_generation (w_smp w') = row_generation (w_smp ?w)"
        using r by (auto simp: read_stage_def Let_def simp del: epoch_ms.simps)
      ultimately show ?thesis
        using b by blast
    qed
  qed
qed

lemma note_rows_row: "c_row (w_col w) \<le> c_row (w_col (note_rows a sc ts w)) \<and> c_row (w_col (note_rows a sc ts w)) \<le> c_row (w_col w) + 1"
  by (simp add: note_rows_def Let_def)

lemma collect_base:
  "c_sequence (fst (collect render u a dl c)) = c_sequence c + 1
    \<and> seq_no (snd (collect render u a dl c)) = c_sequence c + 1
    \<and> c_arrival (fst (collect render u a dl c)) = c_arrival c
        + (case (a_recheck a, a_poll a) of (None, Inr b) \<Rightarrow> arrivals (st_profile u) (records b) | _ \<Rightarrow> 0)
    \<and> arrival_generation (snd (collect render u a dl c)) = c_arrival (fst (collect render u a dl c))
    \<and> c_row c \<le> c_row (fst (collect render u a dl c)) \<and> c_row (fst (collect render u a dl c)) \<le> c_row c + 1
    \<and> row_generation (snd (collect render u a dl c)) = c_row (fst (collect render u a dl c))"
proof -
  obtain e w where w: "sample_body render u a dl c = Inl (e, w) \<or> sample_body render u a dl c = Inr w"
    and cw: "fst (collect render u a dl c) = w_col w" "seq_no (snd (collect render u a dl c)) = seq_no (w_smp w)"
    "arrival_generation (snd (collect render u a dl c)) = arrival_generation (w_smp w)"
    "row_generation (snd (collect render u a dl c)) = row_generation (w_smp w)"
    by (cases "sample_body render u a dl c") (auto simp: collect_eq)
  from sample_body_cases [OF w] show ?thesis
  proof (elim disjE exE conjE)
    assume "w = begin_work u a c" "a_recheck a \<noteq> None"
    then show ?thesis
      unfolding cw by (auto split: option.splits)
  next
    fix e
    assume "w = begin_work u a c" "a_poll a = Inl e"
    then show ?thesis
      unfolding cw by (auto split: option.splits)
  next
    fix b w'
    assume "a_recheck a = None" "a_poll a = Inr b" "same_base (after_journal u (begin_work u a c) b) w'"
      "w_col w' = w_col (after_journal u (begin_work u a c) b)"
      "row_generation (w_smp w') = row_generation (w_smp (after_journal u (begin_work u a c) b))" "w = w'"
    then show ?thesis
      unfolding cw by (simp add: same_base_def after_journal_simps)
  next
    fix b w' sc ts
    assume h: "a_recheck a = None" "a_poll a = Inr b" "same_base (after_journal u (begin_work u a c) b) w'"
      "w_col w' = w_col (after_journal u (begin_work u a c) b)"
      "w_col w = w_col (note_rows a sc ts w')" "seq_no (w_smp w) = seq_no (w_smp w')"
      "arrival_generation (w_smp w) = arrival_generation (w_smp w')" "row_generation (w_smp w) = c_row (w_col w)"
    then show ?thesis
      unfolding cw using note_rows_row [of w' a sc ts] by (simp add: same_base_def after_journal_simps)
  qed
qed

text \<open>
  The counters of the collector. Every call counts one sample and stamps it with the new number;
  the arrival generation grows by exactly the client arrivals of the journal batch and the row
  generation by at most one, both also when the sample fails; the sample carries the arrival generation
  reached, so two samples with equal generations have no journalled arrival between them.
\<close>

theorem collect_counters:
  "c_sequence (fst (collect render u a dl c)) = c_sequence c + 1
    \<and> seq_no (snd (collect render u a dl c)) = c_sequence c + 1
    \<and> c_arrival (fst (collect render u a dl c)) = c_arrival c
        + (case (a_recheck a, a_poll a) of (None, Inr b) \<Rightarrow> arrivals (st_profile u) (records b) | _ \<Rightarrow> 0)
    \<and> arrival_generation (snd (collect render u a dl c)) = c_arrival (fst (collect render u a dl c))
    \<and> c_row c \<le> c_row (fst (collect render u a dl c)) \<and> c_row (fst (collect render u a dl c)) \<le> c_row c + 1
    \<and> row_generation (snd (collect render u a dl c)) = c_row (fst (collect render u a dl c))"
  by (rule collect_base)

text \<open>A run of samples keeps the counters natural numbers.\<close>

definition counters_ok :: "collector \<Rightarrow> bool" where
  "counters_ok c \<longleftrightarrow> 0 \<le> c_sequence c \<and> 0 \<le> c_arrival c \<and> 0 \<le> c_row c"

interpretation collector_machine: step_machine
  "\<lambda>c x. case x of (render, u, a, dl) \<Rightarrow> fst (collect render u a dl c)" counters_ok
proof unfold_locales
  fix c :: collector and x :: "(pyval \<Rightarrow> string) \<times> sampler \<times> answers \<times> rat"
  assume "counters_ok c"
  moreover obtain render u a dl where "x = (render, u, a, dl)"
    by (cases x)
  ultimately show "counters_ok (case x of (render, u, a, dl) \<Rightarrow> fst (collect render u a dl c))"
    using collect_base [of render u a dl c]
    by (auto simp: counters_ok_def arrivals_def split: option.splits sum.splits)
qed

section \<open>A concrete sample\<close>

definition demo_profile :: profile where
  "demo_profile =
     \<lparr>sha256 = ''abc'',
      routes = [\<lparr>route_method = ''POST'', path_pattern = ''/v1/chat'', route_class = Some ''inference''\<rparr>,
                \<lparr>route_method = ''GET'', path_pattern = ''/health'', route_class = Some ''probe''\<rparr>],
      health_cache_ms = 30000, health_refresh_bound_ms = 5000, f_rows = ''/rows'', f_row_path = ''path'',
      f_row_timestamp = ''ts'', f_row_memory_flag = ''live'', f_page_limit = 2, f_admission = [''/adm''],
      f_active = ''/active'', f_pending_by_model = ''/pending'', f_health_timestamp = ''/ts''\<rparr>"

definition demo_row :: "int \<Rightarrow> pyval" where
  "demo_row t = VDict [(VStr ''path'', VStr ''/v1/chat''), (VStr ''ts'', VInt t), (VStr ''live'', VBool False)]"

definition demo_batch :: batch where
  "demo_batch = \<lparr>records = [(''GET'', ''/health'')], b_boot = ''boot'', b_ready = True, b_barrier = True,
                 b_continuous = True, b_overflow = False\<rparr>"

definition demo_answers :: answers where
  "demo_answers =
     \<lparr>a_start = 100, a_recheck = None, a_poll = Inr demo_batch, a_prime = None, a_primed = 100, a_t0 = 101,
      a_w0 = 1001,
      a_health = Inr (VDict [(VStr ''adm'', VInt 0), (VStr ''ts'', VInt 1000500)]), a_t1 = 101, a_w1 = 1001,
      a_history = Inr (VDict [(VStr ''active'', VList []), (VStr ''pending'', VDict [(VStr ''m'', VInt 0)])]),
      a_pages = (\<lambda>k. Inr (VDict [(VStr ''rows'', VList (page_rows [] [demo_row 2000] 2 k))]))\<rparr>"

definition demo_sampler :: sampler where
  "demo_sampler = \<lparr>st_container = ''c'', st_started = ''s'', st_profile = demo_profile, st_tolerance_ms = 10,
                   st_min_wait_ms = 300000\<rparr>"

lemma demo_prime: "fl (100 + prime_gap demo_profile) < 1000"
proof -
  have "fl (100 + prime_gap demo_profile) \<le> fl 115"
    by (rule fl_mono) (simp add: prime_gap_def demo_profile_def fl_int [of 15, simplified])
  then show ?thesis
    by (simp add: fl_int [of 115, simplified])
qed

lemma demo_wall [simp]: "wall_of demo_answers = 1001000"
  by (simp add: wall_of_def demo_answers_def fl_int [of 1001000, simplified])

lemma demo_classify: "classify_path demo_profile ''/v1/chat'' = Some ''inference''"
  "classify_route demo_profile ''GET'' ''/health'' = Some ''probe''"
  by (simp_all add: classify_path_def classify_route_def demo_profile_def clean_path_def starts_with_def)

lemma demo_ptrs:
  "json_ptr d ''/rows'' = ptr_step (Some d) ''rows''" "json_ptr d ''/adm'' = ptr_step (Some d) ''adm''"
  "json_ptr d ''/active'' = ptr_step (Some d) ''active''" "json_ptr d ''/pending'' = ptr_step (Some d) ''pending''"
  "json_ptr d ''/ts'' = ptr_step (Some d) ''ts''"
  by (simp_all add: json_ptr_def unescape_part_def)

lemma demo_logs:
  "call_logs render demo_profile 300000 10 1001000 (a_pages demo_answers) =
     Inr \<lparr>sc_newest = Some 2000, sc_inflight = False, sc_gap = False, sc_failure = None\<rparr>"
  by (simp add: call_logs_def ROW_PAGES_def eval_nat_numeral demo_answers_def page_rows_def demo_row_def scan0_def
      scan_row_def row_stamp_def scan_done_def require_list_def max_opt_def vget_def Let_def demo_classify
      demo_profile_def [THEN arg_cong [of _ _ f_rows]] demo_profile_def [THEN arg_cong [of _ _ f_row_path]]
      demo_profile_def [THEN arg_cong [of _ _ f_row_timestamp]] demo_profile_def [THEN arg_cong [of _ _ f_page_limit]]
      demo_profile_def [THEN arg_cong [of _ _ f_row_memory_flag]] demo_ptrs)

lemma demo_fields:
  "f_admission demo_profile = [''/adm'']" "f_active demo_profile = ''/active''"
  "f_pending_by_model demo_profile = ''/pending''" "f_health_timestamp demo_profile = ''/ts''"
  "f_rows demo_profile = ''/rows''" "f_page_limit demo_profile = 2" "f_row_path demo_profile = ''path''"
  "f_row_timestamp demo_profile = ''ts''" "f_row_memory_flag demo_profile = ''live''"
  "health_cache_ms demo_profile = 30000" "health_refresh_bound_ms demo_profile = 5000"
  "st_profile demo_sampler = demo_profile" "st_tolerance_ms demo_sampler = 10" "st_min_wait_ms demo_sampler = 300000"
  by (simp_all add: demo_profile_def demo_sampler_def)

lemma demo_bracket: "\<not> bracket_bad demo_sampler demo_answers"
  by (simp add: bracket_bad_def demo_answers_def demo_sampler_def fl_int [of 0, simplified])

lemma demo_read:
  "read_stage render demo_sampler demo_answers w =
     Inr (w\<lparr>w_smp := (w_smp w)\<lparr>admission := 0, active := 0, pending := 0\<rparr>\<rparr>,
       \<lparr>sc_newest = Some 2000, sc_inflight = False, sc_gap = False, sc_failure = None\<rparr>, 1000500)"
  by (simp add: read_stage_def Let_def demo_fields demo_logs raise_at_def)
     (simp add: demo_answers_def demo_ptrs sum_counts_def or_schema_def require_dict_def vget_def)

lemma demo_after:
  "after_journal demo_sampler (begin_work demo_sampler demo_answers c) demo_batch =
     (let w = begin_work demo_sampler demo_answers c in
      w\<lparr>w_smp := (w_smp w)\<lparr>boot_id := ''boot'', feed_ready := True, barrier_seen := True, continuous := True,
                            overflow := False, arrival_generation := c_arrival c\<rparr>\<rparr>)"
  by (simp add: after_journal_def Let_def demo_batch_def demo_fields note_record_def demo_classify begin_work_def
      journal_failure_def first_failure_def)

lemma judge_ok:
  assumes "journal_failure b (w_gap w \<or> sc_gap sc) = None" "sc_failure sc = None" "\<not> bracket_bad u a"
    "c_last (w_col w) = None" "check_freshness ts (wall_of a) (health_cache_ms (st_profile u))
       (health_refresh_bound_ms (st_profile u)) (st_tolerance_ms u) = None"
  shows "\<exists>wf. judge_stage u a b sc ts w = Inr wf \<and> w_smp wf = (w_smp (note_rows a sc ts w))\<lparr>is_unknown := False,
       why := (if is_busy u a sc (w_smp (note_rows a sc ts w)) then R_busy else R_ready)\<rparr>"
  unfolding judge_stage_def Let_def assms(1,2,4,5) using assms(3) by simp

lemma demo_idle: "classify (snd (collect render demo_sampler demo_answers 1000 new_collector)) = Idle"
proof -
  have j: "journal_stage demo_sampler demo_answers (begin_work demo_sampler demo_answers new_collector) =
      Inr (after_journal demo_sampler (begin_work demo_sampler demo_answers new_collector) demo_batch, demo_batch)"
    using journal_stage_iff by (simp add: demo_answers_def)
  have p: "prime_stage demo_sampler demo_answers 1000 w = Inr ()" for w
    using demo_prime by (simp add: prime_stage_iff demo_fields) (simp add: demo_answers_def)
  define w where "w = after_journal demo_sampler (begin_work demo_sampler demo_answers new_collector) demo_batch"
  define sc where "sc = \<lparr>sc_newest = Some (2000::int), sc_inflight = False, sc_gap = False, sc_failure = (None :: reason option)\<rparr>"
  define w' where "w' = w\<lparr>w_smp := (w_smp w)\<lparr>admission := 0, active := 0, pending := 0\<rparr>\<rparr>"
  have f: "w_gap w' = False" "c_last (w_col w') = None" "active (w_smp w') = 0" "pending (w_smp w') = 0"
    "admission (w_smp w') = 0" "feed_ready (w_smp w')" "barrier_seen (w_smp w')" "continuous (w_smp w')"
    "\<not> overflow (w_smp w')"
    by (simp_all add: w'_def w_def demo_after Let_def new_collector_def)
  have jf: "journal_failure demo_batch (w_gap w' \<or> sc_gap sc) = None"
    by (simp add: f sc_def demo_batch_def)
  have nb: "\<not> is_busy demo_sampler demo_answers sc (w_smp (note_rows demo_answers sc 1000500 w'))"
    by (simp add: is_busy_def f) (simp add: sc_def demo_fields)
  obtain wf where wf: "judge_stage demo_sampler demo_answers demo_batch sc 1000500 w' = Inr wf"
    "w_smp wf = (w_smp (note_rows demo_answers sc 1000500 w'))\<lparr>is_unknown := False, why := R_ready\<rparr>"
    using judge_ok [OF jf _ demo_bracket f(2), of 1000500] nb by (auto simp: sc_def check_freshness_def demo_fields)
  have "collect render demo_sampler demo_answers 1000 new_collector = (w_col wf, w_smp wf)"
    using wf(1) unfolding collect_eq sample_body_def j by (simp add: p demo_read sc_def w'_def w_def)
  then show ?thesis
    by (simp add: wf(2) classify_def f) (simp add: note_rows_def Let_def f)
qed

lemma idle_sample_evidence_witness:
  "\<exists>sc. call_logs (\<lambda>_. []) demo_profile 300000 10 1001000 (a_pages demo_answers) = Inr sc
     \<and> sc_newest sc = Some 2000 \<and> (300000::int) \<le> 1001000 - 2000"
  using idle_sample_evidence [OF demo_idle, of "\<lambda>_. []"] by (auto simp: demo_fields demo_logs)

lemma idle_sample_no_recent_client_witness:
  "client_row (\<lambda>_. []) demo_profile (demo_row 2000) \<and> row_trace demo_profile (demo_row 2000) = Some 2000
   \<and> (300000::int) \<le> 1001000 - 2000"
proof -
  have s: "serves (st_profile demo_sampler) [] [demo_row 2000] (a_pages demo_answers)"
    by (simp add: serves_def demo_fields demo_answers_def require_list_def demo_ptrs vget_def)
  have n: "newest_first (st_profile demo_sampler) [demo_row 2000]"
    by (simp add: newest_first_def)
  have t: "row_trace demo_profile (demo_row 2000) = Some 2000"
    by (simp add: row_trace_def demo_fields demo_row_def vget_def)
  have k: "client_row (\<lambda>_. []) demo_profile (demo_row 2000)"
    by (simp add: client_row_def demo_fields demo_row_def vget_def demo_classify)
  show ?thesis
    using idle_sample_no_recent_client [OF demo_idle _ s n, of "\<lambda>_. []"] t k by (simp add: demo_fields)
qed

lemma structural_failure_is_unknown_witness:
  "is_unknown (snd (collect (\<lambda>_. []) demo_sampler (demo_answers\<lparr>a_poll := Inr (demo_batch\<lparr>b_overflow := True\<rparr>)\<rparr>)
     1000 new_collector))"
  using structural_failure_is_unknown [of "demo_answers\<lparr>a_poll := Inr (demo_batch\<lparr>b_overflow := True\<rparr>)\<rparr>"
      "demo_batch\<lparr>b_overflow := True\<rparr>" demo_sampler "\<lambda>_. []" 1000 new_collector]
  by (simp add: demo_answers_def)

end
