(* ===== verification/Agent_Stream.thy ===== *)
theory Agent_Stream
  imports Py_Value
begin

text \<open>
  The bounded agent runner (\<open>pylib/agent_runner.py\<close>), part one: the limits of a run, and the thread
  that drains one of the client's streams into a private file of bounded size. What the thread's
  source and file answer is the list of its rounds; bytes are naturals.
\<close>

datatype outcome = Completed | Timeout | Transcript_limit | Stderr_limit | Boundary_failure

section \<open>Limits\<close>

record run_limits =
  runtime_seconds :: rat
  grace_seconds :: rat
  stream_limit_bytes :: int

definition DEFAULT_RUNTIME_SECONDS :: rat where "DEFAULT_RUNTIME_SECONDS = 300"
definition DEFAULT_GRACE_SECONDS :: rat where "DEFAULT_GRACE_SECONDS = 10"
definition DEFAULT_STREAM_LIMIT_BYTES :: int where "DEFAULT_STREAM_LIMIT_BYTES = 33554432"

definition default_limits :: run_limits where
  "default_limits =
     \<lparr>runtime_seconds = DEFAULT_RUNTIME_SECONDS, grace_seconds = DEFAULT_GRACE_SECONDS,
      stream_limit_bytes = DEFAULT_STREAM_LIMIT_BYTES\<rparr>"

text \<open>\<open>RunLimits.__post_init__\<close>: the error names the field.\<close>

definition positive_seconds :: "string \<Rightarrow> pyval \<Rightarrow> (string, rat) result" where
  "positive_seconds name v =
     (case finite_num v of
        Some n \<Rightarrow> if 0 < nval n then Inr (nval n) else Inl name
      | None \<Rightarrow> Inl name)"

definition run_limits_of :: "pyval \<Rightarrow> pyval \<Rightarrow> pyval \<Rightarrow> (string, run_limits) result" where
  "run_limits_of runtime grace stream =
     bindR (positive_seconds ''runtime_seconds'' runtime) (\<lambda>r.
     bindR (positive_seconds ''grace_seconds'' grace) (\<lambda>g.
       case stream of
         VInt n \<Rightarrow> if 0 < n then Inr \<lparr>runtime_seconds = r, grace_seconds = g, stream_limit_bytes = n\<rparr>
                  else Inl ''stream_limit_bytes''
       | _ \<Rightarrow> Inl ''stream_limit_bytes''))"

definition exceeds_maxima :: "run_limits \<Rightarrow> bool" where
  "exceeds_maxima l \<longleftrightarrow>
     DEFAULT_RUNTIME_SECONDS < runtime_seconds l \<or> DEFAULT_GRACE_SECONDS < grace_seconds l
     \<or> DEFAULT_STREAM_LIMIT_BYTES < stream_limit_bytes l"

section \<open>Draining a stream\<close>

record drain_state =
  stored_bytes :: nat
  exceeded :: bool
  failed :: bool

definition drain0 :: drain_state where
  "drain0 = \<lparr>stored_bytes = 0, exceeded = False, failed = False\<rparr>"

text \<open>
  One round: what \<open>source.read\<close> answers and, if the round writes, what \<open>destination.write\<close> does with
  the bytes given to it (\<open>Wrote n\<close>: it took the first \<open>n\<close>; \<open>Write_failed\<close>: an \<open>OSError\<close>).
\<close>

datatype write_answer = Wrote nat | Write_failed
datatype 'a round = Chunk "'a list" write_answer | End_of_file | Read_failed

record 'a drain =
  d_state :: drain_state
  d_enabled :: bool
  d_events :: "outcome list"
  d_file :: "'a list"
  d_running :: bool

definition drain_start :: "'a drain" where
  "drain_start = \<lparr>d_state = drain0, d_enabled = True, d_events = [], d_file = [], d_running = True\<rparr>"

definition put_event :: "outcome \<Rightarrow> 'a drain \<Rightarrow> 'a drain" where
  "put_event e d = d\<lparr>d_events := d_events d @ [e]\<rparr>"

definition mark_failed :: "'a drain \<Rightarrow> 'a drain" where
  "mark_failed d = put_event Boundary_failure (d\<lparr>d_state := (d_state d)\<lparr>failed := True\<rparr>\<rparr>)"

definition write_retained :: "'a list \<Rightarrow> write_answer \<Rightarrow> 'a drain \<Rightarrow> 'a drain" where
  "write_retained retained w d =
     (if retained \<noteq> [] \<and> d_enabled d then
        (let n = (case w of Wrote k \<Rightarrow> k | Write_failed \<Rightarrow> 0);
             d1 = d\<lparr>d_state := (d_state d)\<lparr>stored_bytes := stored_bytes (d_state d) + n\<rparr>,
                    d_file := d_file d @ take n retained\<rparr>
         in if n \<noteq> length retained then mark_failed (d1\<lparr>d_enabled := False\<rparr>) else d1)
      else d)"

definition drain_chunk :: "nat \<Rightarrow> outcome \<Rightarrow> 'a list \<Rightarrow> write_answer \<Rightarrow> 'a drain \<Rightarrow> 'a drain" where
  "drain_chunk limit lo chunk w d =
     (let remaining = limit - stored_bytes (d_state d);
          d1 = write_retained (take remaining chunk) w d
      in if remaining < length chunk \<and> \<not> exceeded (d_state d1)
         then put_event lo (d1\<lparr>d_state := (d_state d1)\<lparr>exceeded := True\<rparr>\<rparr>) else d1)"

text \<open>One round of the loop; an empty chunk is the end of the stream.\<close>

definition drain_round :: "nat \<Rightarrow> outcome \<Rightarrow> 'a drain \<Rightarrow> 'a round \<Rightarrow> 'a drain" where
  "drain_round limit lo d r =
     (if \<not> d_running d then d
      else (case r of
              Read_failed \<Rightarrow> (mark_failed d)\<lparr>d_running := False\<rparr>
            | End_of_file \<Rightarrow> d\<lparr>d_running := False\<rparr>
            | Chunk chunk w \<Rightarrow>
                if chunk = [] then d\<lparr>d_running := False\<rparr> else drain_chunk limit lo chunk w d))"

text \<open>The thread: its rounds, and the closing of the source in the \<open>finally\<close> block.\<close>

definition drain_stream :: "nat \<Rightarrow> outcome \<Rightarrow> 'a round list \<Rightarrow> bool \<Rightarrow> 'a drain" where
  "drain_stream limit lo rounds close_ok =
     (let d = foldl (drain_round limit lo) drain_start rounds in if close_ok then d else mark_failed d)"

section \<open>What the file holds\<close>

text \<open>The bytes the source gave before the stream ended.\<close>

fun received :: "'a round list \<Rightarrow> 'a list" where
  "received (Chunk c w # rs) = (if c = [] then [] else c @ received rs)"
| "received _ = []"

definition honest_round :: "nat \<Rightarrow> 'a drain \<Rightarrow> 'a round \<Rightarrow> bool" where
  "honest_round limit d r =
     (case r of Chunk c (Wrote n) \<Rightarrow> n \<le> length (take (limit - stored_bytes (d_state d)) c) | _ \<Rightarrow> True)"

text \<open>A write never reports more bytes than it was given.\<close>

fun honest :: "nat \<Rightarrow> outcome \<Rightarrow> 'a drain \<Rightarrow> 'a round list \<Rightarrow> bool" where
  "honest limit lo d [] = True"
| "honest limit lo d (r # rs) = (honest_round limit d r \<and> honest limit lo (drain_round limit lo d r) rs)"

text \<open>The invariant of the drain, over the bytes received so far.\<close>

definition drain_inv :: "nat \<Rightarrow> outcome \<Rightarrow> 'a list \<Rightarrow> 'a drain \<Rightarrow> bool" where
  "drain_inv limit lo bs d \<longleftrightarrow>
     stored_bytes (d_state d) = length (d_file d) \<and> length (d_file d) \<le> limit
     \<and> (\<exists>ys. bs = d_file d @ ys)
     \<and> (d_enabled d \<longrightarrow> d_file d = take limit bs \<and> (exceeded (d_state d) \<longleftrightarrow> limit < length bs))
     \<and> (\<not> d_enabled d \<longrightarrow> failed (d_state d))
     \<and> (failed (d_state d) \<longleftrightarrow> Boundary_failure \<in> set (d_events d))
     \<and> (exceeded (d_state d) \<longleftrightarrow> lo \<in> set (d_events d))
     \<and> length (d_events d) \<le> (if exceeded (d_state d) then 1 else 0) + (if d_enabled d then 0 else 1)
         + (if d_running d then 0 else 1)"

lemma drain_start_inv: "drain_inv limit lo [] drain_start"
  by (simp add: drain_inv_def drain_start_def drain0_def)

lemma mark_failed_simps [simp]:
  "d_state (mark_failed d) = (d_state d)\<lparr>failed := True\<rparr>" "d_file (mark_failed d) = d_file d"
  "d_enabled (mark_failed d) = d_enabled d" "d_events (mark_failed d) = d_events d @ [Boundary_failure]"
  "d_running (mark_failed d) = d_running d"
  by (simp_all add: mark_failed_def put_event_def)

lemma write_retained_simps:
  fixes rt :: "'a list" and w :: write_answer and d :: "'a drain"
  defines "n \<equiv> (case w of Wrote k \<Rightarrow> k | Write_failed \<Rightarrow> 0)"
  defines "d1 \<equiv> write_retained rt w d" and "on \<equiv> rt \<noteq> [] \<and> d_enabled d"
  shows "d_running d1 = d_running d" "exceeded (d_state d1) = exceeded (d_state d)"
    "d_file d1 = d_file d @ (if on then take n rt else [])"
    "stored_bytes (d_state d1) = stored_bytes (d_state d) + (if on then n else 0)"
    "d_enabled d1 \<longleftrightarrow> d_enabled d \<and> (on \<longrightarrow> n = length rt)"
    "failed (d_state d1) \<longleftrightarrow> failed (d_state d) \<or> (on \<and> n \<noteq> length rt)"
    "d_events d1 = d_events d @ (if on \<and> n \<noteq> length rt then [Boundary_failure] else [])"
  unfolding d1_def on_def n_def by (simp_all add: write_retained_def Let_def)

lemma write_retained_inv:
  fixes d :: "'a drain"
  assumes "drain_inv limit lo bs d" "case w of Wrote n \<Rightarrow> n \<le> length rt | _ \<Rightarrow> True"
    "rt = take (limit - stored_bytes (d_state d)) c" "lo \<noteq> Boundary_failure" "d_running d"
  defines "d1 \<equiv> write_retained rt w d"
  shows "stored_bytes (d_state d1) = length (d_file d1)" "length (d_file d1) \<le> limit"
    "\<exists>ys. bs @ c = d_file d1 @ ys"
    "d_enabled d1 \<Longrightarrow> d_file d1 = take limit (bs @ c)" "\<not> d_enabled d1 \<Longrightarrow> failed (d_state d1)"
    "failed (d_state d1) \<longleftrightarrow> Boundary_failure \<in> set (d_events d1)"
    "exceeded (d_state d1) \<longleftrightarrow> lo \<in> set (d_events d1)"
    "length (d_events d1) \<le> (if exceeded (d_state d1) then 1 else 0) + (if d_enabled d1 then 0 else 1)"
proof -
  define n where "n = (case w of Wrote k \<Rightarrow> k | Write_failed \<Rightarrow> 0)"
  have n: "n \<le> length rt"
    using assms(2) by (simp add: n_def split: write_answer.splits)
  note I = assms(1) [unfolded drain_inv_def] and W = write_retained_simps [of rt w d, folded d1_def n_def]
  have full: "d_file d @ rt = take limit (bs @ c)" if "d_enabled d"
    using I assms(3) that by (cases "length bs \<le> limit") (simp_all add: min_def)
  show "stored_bytes (d_state d1) = length (d_file d1)" "\<not> d_enabled d1 \<Longrightarrow> failed (d_state d1)"
    "failed (d_state d1) \<longleftrightarrow> Boundary_failure \<in> set (d_events d1)"
    unfolding W using I n by auto
  show "exceeded (d_state d1) \<longleftrightarrow> lo \<in> set (d_events d1)"
    unfolding W using I assms(4) by auto
  show "length (d_events d1) \<le> (if exceeded (d_state d1) then 1 else 0) + (if d_enabled d1 then 0 else 1)"
    unfolding W using I assms(5) by auto
  show "length (d_file d1) \<le> limit"
    unfolding W using I assms(3) n by auto
  show "d_file d1 = take limit (bs @ c)" if "d_enabled d1"
    using that full unfolding W by auto
  have "\<exists>zs. take limit (bs @ c) = d_file d1 @ zs" if "rt \<noteq> [] \<and> d_enabled d"
    using full that unfolding W by (metis append.assoc append_take_drop_id)
  moreover have "d_file d1 = d_file d" if "\<not> (rt \<noteq> [] \<and> d_enabled d)"
    using that unfolding W by auto
  ultimately show "\<exists>ys. bs @ c = d_file d1 @ ys"
    using I by (metis append.assoc append_take_drop_id)
qed

lemma drain_chunk_inv:
  assumes "drain_inv limit lo bs d" "d_running d" "honest_round limit d (Chunk c w)" "lo \<noteq> Boundary_failure"
  shows "drain_inv limit lo (bs @ c) (drain_chunk limit lo c w d) \<and> d_running (drain_chunk limit lo c w d)"
proof -
  define rt where "rt = take (limit - stored_bytes (d_state d)) c"
  have h: "case w of Wrote n \<Rightarrow> n \<le> length rt | _ \<Rightarrow> True"
    using assms(3) by (auto simp: honest_round_def rt_def split: write_answer.splits)
  define d1 where "d1 = write_retained rt w d"
  note W = write_retained_inv [OF assms(1) h rt_def assms(4,2), folded d1_def]
  have s: "d_running d1" "exceeded (d_state d1) = exceeded (d_state d)" "d_enabled d1 \<Longrightarrow> d_enabled d"
    using assms(2) by (simp_all add: d1_def write_retained_simps)
  have e: "drain_chunk limit lo c w d =
      (if limit - stored_bytes (d_state d) < length c \<and> \<not> exceeded (d_state d1)
       then put_event lo (d1\<lparr>d_state := (d_state d1)\<lparr>exceeded := True\<rparr>\<rparr>) else d1)"
    by (simp add: drain_chunk_def Let_def rt_def d1_def)
  have x: "limit < length (bs @ c) \<longleftrightarrow> exceeded (d_state d1) \<or> limit - stored_bytes (d_state d) < length c"
    if "d_enabled d1"
    using s assms(1) that by (auto simp: drain_inv_def min_def split: if_splits)
  show ?thesis
  proof (cases "limit - stored_bytes (d_state d) < length c \<and> \<not> exceeded (d_state d1)")
    case True
    with W x s assms(4) show ?thesis
      unfolding e by (simp add: drain_inv_def put_event_def)
  next
    case False
    with W x s show ?thesis
      unfolding e by (auto simp: drain_inv_def)
  qed
qed

lemma drain_round_stopped: "\<not> d_running d \<Longrightarrow> foldl (drain_round limit lo) d rs = d"
  by (induction rs) (simp_all add: drain_round_def)

lemma drain_round_simps:
  assumes "d_running d"
  shows "drain_round limit lo d Read_failed = (mark_failed d)\<lparr>d_running := False\<rparr>"
    "drain_round limit lo d End_of_file = d\<lparr>d_running := False\<rparr>"
    "drain_round limit lo d (Chunk c w) = (if c = [] then d\<lparr>d_running := False\<rparr> else drain_chunk limit lo c w d)"
  using assms by (simp_all add: drain_round_def)

lemma drain_inv_stop:
  assumes "drain_inv limit lo bs d" "d_running d"
  shows "drain_inv limit lo bs (d\<lparr>d_running := False\<rparr>)"
    "lo \<noteq> Boundary_failure \<Longrightarrow> drain_inv limit lo bs ((mark_failed d)\<lparr>d_running := False\<rparr>)"
  using assms by (auto simp: drain_inv_def)

lemma drain_rounds_inv:
  assumes "drain_inv limit lo bs d" "d_running d" "honest limit lo d rs" "lo \<noteq> Boundary_failure"
  shows "drain_inv limit lo (bs @ received rs) (foldl (drain_round limit lo) d rs)"
  using assms
proof (induction rs arbitrary: d bs)
  case Nil
  then show ?case by simp
next
  case (Cons r rs)
  show ?case
  proof (cases r)
    case (Chunk c w)
    show ?thesis
    proof (cases "c = []")
      case True
      with Cons.prems Chunk show ?thesis
        by (simp add: drain_round_simps drain_round_stopped drain_inv_stop)
    next
      case False
      have "drain_inv limit lo (bs @ c) (drain_chunk limit lo c w d) \<and> d_running (drain_chunk limit lo c w d)"
        using Cons.prems Chunk by (intro drain_chunk_inv) simp_all
      with Cons.IH [of "bs @ c" "drain_chunk limit lo c w d"] Cons.prems Chunk False show ?thesis
        by (simp add: drain_round_simps)
    qed
  next
    case End_of_file
    with Cons.prems show ?thesis
      by (simp add: drain_round_simps drain_round_stopped drain_inv_stop)
  next
    case Read_failed
    with Cons.prems show ?thesis
      by (simp add: drain_round_simps drain_round_stopped drain_inv_stop)
  qed
qed

text \<open>
  C16: the drain of a stream stores exactly what it may. The file holds at most the limit, always a
  prefix of what the client wrote, and the reported size is its length; unless the thread reports a
  failure the file is the whole output up to the limit and the limit event is raised exactly when
  there was more; failures and limits reach the queue, which gets at most four events.
\<close>

theorem drain_stream_exact:
  assumes "honest limit lo drain_start rounds" "lo \<noteq> Boundary_failure"
  shows "stored_bytes (d_state (drain_stream limit lo rounds ok)) = length (d_file (drain_stream limit lo rounds ok))
    \<and> length (d_file (drain_stream limit lo rounds ok)) \<le> limit
    \<and> (\<exists>ys. received rounds = d_file (drain_stream limit lo rounds ok) @ ys)
    \<and> (\<not> failed (d_state (drain_stream limit lo rounds ok)) \<longrightarrow>
         d_file (drain_stream limit lo rounds ok) = take limit (received rounds)
         \<and> (exceeded (d_state (drain_stream limit lo rounds ok)) \<longleftrightarrow> limit < length (received rounds)))
    \<and> (failed (d_state (drain_stream limit lo rounds ok)) \<longleftrightarrow>
         Boundary_failure \<in> set (d_events (drain_stream limit lo rounds ok)))
    \<and> (exceeded (d_state (drain_stream limit lo rounds ok)) \<longleftrightarrow>
         lo \<in> set (d_events (drain_stream limit lo rounds ok)))
    \<and> length (d_events (drain_stream limit lo rounds ok)) \<le> 4"
proof -
  have "drain_inv limit lo ([] @ received rounds) (foldl (drain_round limit lo) drain_start rounds)"
    by (rule drain_rounds_inv [OF drain_start_inv _ assms]) (simp add: drain_start_def)
  then show ?thesis
    using assms(2) by (auto simp: drain_stream_def drain_inv_def Let_def split: if_splits)
qed

lemma drain_stream_exact_witness:
  "let d = drain_stream 3 Transcript_limit [Chunk [7, 8] (Wrote 2), Chunk [9, 10::int] (Wrote 1), End_of_file] True
   in d_file d = [7, 8, 9] \<and> d_events d = [Transcript_limit] \<and> length (d_events d) \<le> 4"
  using drain_stream_exact [of 3 Transcript_limit "[Chunk [7, 8] (Wrote 2), Chunk [9, 10::int] (Wrote 1), End_of_file]" True]
  by (simp add: drain_stream_def drain_start_def drain0_def drain_round_def drain_chunk_def write_retained_def
      put_event_def honest_round_def)

end
