(* ===== verification/Agent_Scope.thy ===== *)
theory Agent_Scope
  imports Agent_Stream
begin

text \<open>
  The bounded agent runner, part two: \<open>SystemdScopeBackend\<close> of \<open>pylib/agent_runner.py\<close>, which decodes
  what \<open>systemctl show\<close> and the file \<open>cgroup.events\<close> answer. A cgroup path is the list of its
  components below the cgroup root.
\<close>

datatype boundary_error =
    Query_failed
  | Query_rejected
  | Malformed_query
  | Incomplete_query
  | Missing_scope_with_path
  | Scope_not_loaded
  | Invalid_path
  | Maxima_exceeded
  | Launch_failed

section \<open>The control group of a scope\<close>

datatype show_answer = Show_failed | Show_done int string

definition expected_fields :: "string list" where
  "expected_fields = [''LoadState'', ''ControlGroup'']"

definition show_line ::
  "(string, string) dict \<Rightarrow> string \<Rightarrow> (boundary_error, (string, string) dict) result" where
  "show_line flds line =
     (case partition_at (CHR ''='') line of (name, sep, value) \<Rightarrow>
        if \<not> sep \<or> name \<notin> set expected_fields \<or> name \<in> set (keys flds) then Inl Malformed_query
        else Inr (dput name value flds))"

text \<open>
  The checks on \<open>PurePosixPath(text)\<close>: absolute with the root \<open>/\<close>, not the root itself, already in
  normal form, and without \<open>..\<close>. The components come from splitting the text.
\<close>

definition posix_parts :: "string \<Rightarrow> string list option" where
  "posix_parts text =
     (case text of
        [] \<Rightarrow> None
      | c # rest \<Rightarrow>
          if c = CHR ''/'' \<and> list_all (\<lambda>p. p \<noteq> [] \<and> p \<noteq> ''.'' \<and> p \<noteq> ''..'') (split_on (CHR ''/'') rest)
          then Some (split_on (CHR ''/'') rest) else None)"

definition scope_path :: "string \<Rightarrow> string \<Rightarrow> (boundary_error, string list option) result" where
  "scope_path load_state text =
     (if load_state = ''not-found'' then (if text \<noteq> [] then Inl Missing_scope_with_path else Inr None)
      else if load_state \<noteq> ''loaded'' then Inl Scope_not_loaded
      else if text = [] then Inr None
      else (case posix_parts text of None \<Rightarrow> Inl Invalid_path | Some ps \<Rightarrow> Inr (Some ps)))"

definition cgroup_path :: "show_answer \<Rightarrow> (boundary_error, string list option) result" where
  "cgroup_path a =
     (case a of
        Show_failed \<Rightarrow> Inl Query_failed
      | Show_done rc out \<Rightarrow>
          if rc \<noteq> 0 then Inl Query_rejected
          else bindR (foldR show_line [] (splitlines out)) (\<lambda>flds.
                 case (dget flds ''LoadState'', dget flds ''ControlGroup'') of
                   (Some load, Some text) \<Rightarrow> scope_path load text
                 | _ \<Rightarrow> Inl Incomplete_query))"

section \<open>Emptiness of a control group\<close>

text \<open>
  What reading \<open>cgroup.events\<close> gives: its text; no such file, with what \<open>stat\<close> of the directory then
  says; the error \<open>ENODEV\<close>; another error, or text that is not ASCII.
\<close>

datatype stat_answer = Dir_present | Dir_absent | Dir_no_device | Dir_error
datatype events_answer = Events_text string | Events_absent stat_answer | Events_no_device | Events_error

datatype probe = Scope_empty bool | Removal_in_progress | Probe_failed

definition events_line :: "(string, string) dict \<Rightarrow> string \<Rightarrow> (unit, (string, string) dict) result" where
  "events_line flds line =
     (case split_ws line of
        [k, v] \<Rightarrow> if k \<in> set (keys flds) then Inl () else Inr (dput k v flds)
      | _ \<Rightarrow> Inl ())"

definition populated_probe :: "string \<Rightarrow> probe" where
  "populated_probe text =
     (case foldR events_line [] (splitlines text) of
        Inl _ \<Rightarrow> Probe_failed
      | Inr flds \<Rightarrow>
          (case dget flds ''populated'' of
             None \<Rightarrow> Probe_failed
           | Some v \<Rightarrow> if v = ''0'' then Scope_empty True else if v = ''1'' then Scope_empty False else Probe_failed))"

definition cgroup_empty :: "events_answer \<Rightarrow> probe" where
  "cgroup_empty a =
     (case a of
        Events_text t \<Rightarrow> populated_probe t
      | Events_absent Dir_absent \<Rightarrow> Scope_empty True
      | Events_absent Dir_no_device \<Rightarrow> Removal_in_progress
      | Events_absent Dir_error \<Rightarrow> Probe_failed
      | Events_absent Dir_present \<Rightarrow> Probe_failed
      | Events_no_device \<Rightarrow> Removal_in_progress
      | Events_error \<Rightarrow> Probe_failed)"

section \<open>Correctness of the decoders\<close>

lemma split_on_nonempty [simp]: "split_on c s \<noteq> []"
  by (cases s) (auto split: list.splits)

lemma split_on_no_sep: "p \<in> set (split_on c s) \<Longrightarrow> c \<notin> set p"
  by (induction s arbitrary: p) (fastforce split: list.splits if_splits)+

fun join_with :: "char \<Rightarrow> string list \<Rightarrow> string" where
  "join_with c [] = []"
| "join_with c [p] = p"
| "join_with c (p # q # ps) = p @ c # join_with c (q # ps)"

lemma join_with_Cons: "ps \<noteq> [] \<Longrightarrow> join_with c (p # ps) = p @ c # join_with c ps"
  by (cases ps) auto

lemma join_split: "join_with c (split_on c s) = s"
proof (induction s)
  case Nil
  then show ?case by simp
next
  case (Cons x xs)
  obtain p ps where p: "split_on c xs = p # ps"
    using split_on_nonempty by (metis neq_Nil_conv)
  with Cons show ?case
    by (cases ps) auto
qed

text \<open>
  A path taken from \<open>systemctl show\<close> stays below the cgroup root: it has at least one component,
  no component is empty, \<open>.\<close>, \<open>..\<close> or contains a slash, and joined with slashes the components are
  the text that systemd printed.
\<close>

theorem cgroup_path_confined:
  assumes "cgroup_path (Show_done 0 out) = Inr (Some ps)"
  shows "ps \<noteq> [] \<and> list_all (\<lambda>p. p \<noteq> [] \<and> p \<noteq> ''.'' \<and> p \<noteq> ''..'' \<and> CHR ''/'' \<notin> set p) ps
    \<and> (\<exists>flds. foldR show_line [] (splitlines out) = Inr flds
        \<and> dget flds ''LoadState'' = Some ''loaded''
        \<and> dget flds ''ControlGroup'' = Some (CHR ''/'' # join_with (CHR ''/'') ps))"
proof -
  obtain flds load tx where f: "foldR show_line [] (splitlines out) = Inr flds"
    "dget flds ''LoadState'' = Some load" "dget flds ''ControlGroup'' = Some tx"
    "scope_path load tx = Inr (Some ps)"
    using assms by (auto simp: cgroup_path_def split: option.splits)
  then have l: "load = ''loaded''" and p: "posix_parts tx = Some ps"
    by (auto simp: scope_path_def split: option.splits if_splits)
  from p obtain rest where r: "tx = CHR ''/'' # rest" "ps = split_on (CHR ''/'') rest"
    "list_all (\<lambda>p. p \<noteq> [] \<and> p \<noteq> ''.'' \<and> p \<noteq> ''..'') ps"
    by (auto simp: posix_parts_def split: list.splits if_splits)
  then have "list_all (\<lambda>p. p \<noteq> [] \<and> p \<noteq> ''.'' \<and> p \<noteq> ''..'' \<and> CHR ''/'' \<notin> set p) ps"
    using split_on_no_sep by (fastforce simp: list_all_iff)
  with f l r show ?thesis
    by (simp add: join_split)
qed

lemmas parse_eval = cgroup_path_def splitlines_def is_line_end_def show_line_def partition_at_def expected_fields_def
  scope_path_def posix_parts_def

lemma cgroup_path_confined_witness:
  "cgroup_path (Show_done 0 ''LoadState=loaded\<newline>ControlGroup=/u/a.scope\<newline>'') = Inr (Some [''u'', ''a.scope''])
   \<and> list_all (\<lambda>p. p \<noteq> ''..'') [''u'', ''a.scope'']"
proof -
  have e: "cgroup_path (Show_done 0 ''LoadState=loaded\<newline>ControlGroup=/u/a.scope\<newline>'') = Inr (Some [''u'', ''a.scope''])"
    by (simp add: parse_eval)
  show ?thesis
    using cgroup_path_confined [OF e] e by simp
qed

text \<open>The probe answers empty only for an explicit \<open>populated 0\<close> or a directory that is gone.\<close>

lemma cgroup_empty_True:
  "cgroup_empty a = Scope_empty True \<longleftrightarrow>
     a = Events_absent Dir_absent
     \<or> (\<exists>t flds. a = Events_text t \<and> foldR events_line [] (splitlines t) = Inr flds
          \<and> dget flds ''populated'' = Some ''0'')"
  by (auto simp: cgroup_empty_def populated_probe_def
      split: events_answer.splits stat_answer.splits sum.splits option.splits if_splits)

end
