(* ===== verification/Agent_Runner.thy ===== *)
theory Agent_Runner
  imports Agent_Scope
begin

text \<open>
  The bounded agent runner, part three: starting the scope, watching the client, stopping it and
  proving that nothing of it is left (\<open>pylib/agent_runner.py\<close>). The program acts on a world it cannot
  see into: a record of operations says what each call answers and how the world changes; every answer
  the code looks at is noted in a history, which no operation reads. Loops take fuel; \<open>None\<close> is a run
  that had too little of it.
\<close>

datatype unix_signal = SIGTERM | SIGKILL

section \<open>The outside\<close>

text \<open>
  \<open>os_poll\<close>: \<open>None\<close> is an exception, \<open>Some None\<close> a running process. \<open>os_alive\<close>, \<open>os_join\<close> and \<open>os_drained\<close>
  take the index of a reader thread (0: transcript, 1: stderr). \<open>os_kill\<close> and the calls on the process
  answer whether they succeeded, \<open>os_wait\<close> moreover whether the process ended in time.
\<close>

datatype wait_answer = Exited | Wait_timeout | Wait_error
datatype start_answer = Start_failed | Started bool

record 'w os =
  os_clock :: "'w \<Rightarrow> rat \<times> 'w"
  os_sleep :: "rat \<Rightarrow> 'w \<Rightarrow> 'w"
  os_prepare :: "'w \<Rightarrow> bool \<times> 'w"
  os_start :: "string list \<Rightarrow> run_limits \<Rightarrow> 'w \<Rightarrow> start_answer \<times> 'w"
  os_show :: "rat \<Rightarrow> 'w \<Rightarrow> show_answer \<times> 'w"
  os_events :: "string list \<Rightarrow> 'w \<Rightarrow> events_answer \<times> 'w"
  os_kill :: "unix_signal \<Rightarrow> rat \<Rightarrow> 'w \<Rightarrow> bool \<times> 'w"
  os_poll :: "'w \<Rightarrow> int option option \<times> 'w"
  os_terminate :: "'w \<Rightarrow> bool \<times> 'w"
  os_kill_process :: "'w \<Rightarrow> bool \<times> 'w"
  os_wait :: "rat \<Rightarrow> 'w \<Rightarrow> wait_answer \<times> 'w"
  os_thread_start :: "nat \<Rightarrow> 'w \<Rightarrow> bool \<times> 'w"
  os_alive :: "nat \<Rightarrow> 'w \<Rightarrow> bool \<times> 'w"
  os_join :: "nat \<Rightarrow> 'w \<Rightarrow> 'w"
  os_next :: "'w \<Rightarrow> outcome option \<times> 'w"
  os_drained :: "nat \<Rightarrow> 'w \<Rightarrow> drain_state \<times> 'w"
  os_close :: "'w \<Rightarrow> bool \<times> 'w"

datatype obs =
    O_clock rat
  | O_path "(boundary_error, string list option) result"
  | O_probe probe
  | O_signal unix_signal bool
  | O_local unix_signal bool
  | O_wait rat wait_answer
  | O_poll "int option option"
  | O_alive nat bool
  | O_event "outcome option"
  | O_drained nat drain_state
  | O_close bool
  | O_started bool
  | O_thread nat bool

section \<open>Programs over the outside\<close>

type_synonym 'w st = "'w \<times> obs list"
type_synonym ('w, 'a) prog = "'w st \<Rightarrow> ('a \<times> 'w st) option"

definition ret :: "'a \<Rightarrow> ('w, 'a) prog" where
  "ret x s = Some (x, s)"

definition bnd :: "('w, 'a) prog \<Rightarrow> ('a \<Rightarrow> ('w, 'b) prog) \<Rightarrow> ('w, 'b) prog" where
  "bnd m f s = (case m s of None \<Rightarrow> None | Some (x, s') \<Rightarrow> f x s')"

definition no_fuel :: "('w, 'a) prog" where
  "no_fuel s = None"

definition ask :: "('w \<Rightarrow> 'a \<times> 'w) \<Rightarrow> ('a \<Rightarrow> obs) \<Rightarrow> ('w, 'a) prog" where
  "ask op note s = (case op (fst s) of (x, w) \<Rightarrow> Some (x, w, snd s @ [note x]))"

definition quiet :: "('w \<Rightarrow> 'a \<times> 'w) \<Rightarrow> ('w, 'a) prog" where
  "quiet op s = (case op (fst s) of (x, w) \<Rightarrow> Some (x, w, snd s))"

definition act :: "('w \<Rightarrow> 'w) \<Rightarrow> ('w, unit) prog" where
  "act op s = Some ((), op (fst s), snd s)"

definition clock :: "'w os \<Rightarrow> ('w, rat) prog" where
  "clock h = ask (os_clock h) O_clock"

definition sleep :: "'w os \<Rightarrow> rat \<Rightarrow> ('w, unit) prog" where
  "sleep h d = act (os_sleep h d)"

definition poll :: "'w os \<Rightarrow> ('w, int option option) prog" where
  "poll h = ask (os_poll h) O_poll"

definition query_path :: "'w os \<Rightarrow> rat \<Rightarrow> ('w, (boundary_error, string list option) result) prog" where
  "query_path h t = ask (\<lambda>w. case os_show h t w of (a, w') \<Rightarrow> (cgroup_path a, w')) O_path"

definition probe_scope :: "'w os \<Rightarrow> string list \<Rightarrow> ('w, probe) prog" where
  "probe_scope h p = ask (\<lambda>w. case os_events h p w of (a, w') \<Rightarrow> (cgroup_empty a, w')) O_probe"

definition signal_scope :: "'w os \<Rightarrow> unix_signal \<Rightarrow> rat \<Rightarrow> ('w, bool) prog" where
  "signal_scope h sig t = ask (os_kill h sig t) (O_signal sig)"

section \<open>Watching the process and its readers\<close>

definition POLL_SECONDS :: rat where "POLL_SECONDS = fl (1 / 100)"

text \<open>\<open>_poll_process\<close>: the exit status, and whether polling failed.\<close>

definition poll_process :: "'w os \<Rightarrow> ('w, int option \<times> bool) prog" where
  "poll_process h = bnd (poll h) (\<lambda>r. ret (case r of None \<Rightarrow> (None, True) | Some x \<Rightarrow> (x, False)))"

fun any_alive :: "'w os \<Rightarrow> nat list \<Rightarrow> ('w, bool) prog" where
  "any_alive h [] = ret False"
| "any_alive h (t # ts) = bnd (ask (os_alive h t) (O_alive t)) (\<lambda>a. if a then ret True else any_alive h ts)"

definition execution_finished :: "'w os \<Rightarrow> nat list \<Rightarrow> ('w, bool \<times> bool) prog" where
  "execution_finished h ts =
     bnd (poll_process h) (\<lambda>(status, poll_failed).
       if status = None then ret (False, poll_failed)
       else bnd (any_alive h ts) (\<lambda>a. ret (\<not> a, poll_failed)))"

fun next_event :: "'w os \<Rightarrow> nat \<Rightarrow> outcome option \<Rightarrow> ('w, outcome option) prog" where
  "next_event h 0 selected = no_fuel"
| "next_event h (Suc n) selected =
     bnd (ask (os_next h) O_event) (\<lambda>e.
       case e of
         None \<Rightarrow> ret selected
       | Some x \<Rightarrow> if x = Boundary_failure then ret (Some x)
                   else next_event h n (case selected of None \<Rightarrow> Some x | Some y \<Rightarrow> Some y))"

definition cleanup_now :: "'w os \<Rightarrow> string list option \<Rightarrow> nat list \<Rightarrow> ('w, bool \<times> bool) prog" where
  "cleanup_now h path ts =
     bnd (execution_finished h ts) (\<lambda>(finished, poll_failed).
       if poll_failed then ret (False, True)
       else if \<not> finished then ret (False, False)
       else (case path of
               None \<Rightarrow> ret (False, True)
             | Some p \<Rightarrow>
                 bnd (probe_scope h p) (\<lambda>r. ret (case r of
                    Scope_empty b \<Rightarrow> (b, False) | Removal_in_progress \<Rightarrow> (False, False)
                  | Probe_failed \<Rightarrow> (False, True)))))"

section \<open>Reaping the local launcher\<close>

fun join_all :: "'w os \<Rightarrow> nat list \<Rightarrow> ('w, unit) prog" where
  "join_all h [] = ret ()"
| "join_all h (t # ts) = bnd (act (os_join h t)) (\<lambda>_. join_all h ts)"

text \<open>\<open>terminate\<close>, wait, \<open>kill\<close>, wait: \<open>False\<close> when the process is still there or a call raised.\<close>

definition end_process :: "'w os \<Rightarrow> rat \<Rightarrow> ('w, bool) prog" where
  "end_process h grace =
     bnd (ask (os_terminate h) (O_local SIGTERM)) (\<lambda>ok.
       if \<not> ok then ret False
       else bnd (ask (os_wait h grace) (O_wait grace)) (\<lambda>a.
         case a of
           Wait_error \<Rightarrow> ret False
         | Exited \<Rightarrow> ret True
         | Wait_timeout \<Rightarrow>
             bnd (ask (os_kill_process h) (O_local SIGKILL)) (\<lambda>ok2.
               if \<not> ok2 then ret False
               else bnd (ask (os_wait h grace) (O_wait grace)) (\<lambda>b. ret (b = Exited)))))"

definition reap_end :: "'w os \<Rightarrow> nat list \<Rightarrow> rat \<Rightarrow> ('w, bool) prog" where
  "reap_end h ts grace =
     bnd (poll_process h) (\<lambda>(status, poll_failed).
       if poll_failed then ret False
       else bnd (if status = None then end_process h grace else ret True) (\<lambda>ended.
         if \<not> ended then ret False
         else bnd (join_all h ts) (\<lambda>_.
              bnd (execution_finished h ts) (\<lambda>(finished, pf). ret (finished \<and> \<not> pf)))))"

fun reap_local_launcher :: "'w os \<Rightarrow> nat \<Rightarrow> nat list \<Rightarrow> rat \<Rightarrow> rat \<Rightarrow> ('w, bool) prog" where
  "reap_local_launcher h 0 ts dl grace = no_fuel"
| "reap_local_launcher h (Suc n) ts dl grace =
     bnd (clock h) (\<lambda>t.
       if \<not> t < dl then reap_end h ts grace
       else bnd (execution_finished h ts) (\<lambda>(finished, poll_failed).
         if poll_failed then ret False
         else if finished then ret True
         else bnd (sleep h POLL_SECONDS) (\<lambda>_. reap_local_launcher h n ts dl grace)))"

section \<open>Waiting for an empty scope\<close>

text \<open>The result: clean-up proved, boundary failed, the scope is still populated.\<close>

definition reap_after_empty :: "'w os \<Rightarrow> nat \<Rightarrow> nat list \<Rightarrow> rat \<Rightarrow> rat \<Rightarrow> bool \<Rightarrow> ('w, bool \<times> bool \<times> bool) prog" where
  "reap_after_empty h n ts dl grace bf =
     bnd (reap_local_launcher h n ts dl grace) (\<lambda>reaped. ret (reaped, bf \<or> \<not> reaped, False))"

definition final_probe ::
  "'w os \<Rightarrow> nat \<Rightarrow> string list \<Rightarrow> nat list \<Rightarrow> rat \<Rightarrow> rat \<Rightarrow> bool \<Rightarrow> ('w, bool \<times> bool \<times> bool) prog" where
  "final_probe h n p ts dl grace bf =
     bnd (probe_scope h p) (\<lambda>r.
       case r of
         Scope_empty b \<Rightarrow> if b then reap_after_empty h n ts dl grace bf else ret (False, bf, True)
       | Removal_in_progress \<Rightarrow> ret (False, True, False)
       | Probe_failed \<Rightarrow> ret (False, True, False))"

definition nap :: "'w os \<Rightarrow> rat \<Rightarrow> ('w, unit) prog" where
  "nap h dl =
     bnd (clock h) (\<lambda>t. let remaining = fl (dl - t) in
       if 0 < remaining then sleep h (min POLL_SECONDS remaining) else ret ())"

fun wait_empty ::
  "'w os \<Rightarrow> nat \<Rightarrow> nat \<Rightarrow> string list \<Rightarrow> nat list \<Rightarrow> rat \<Rightarrow> rat \<Rightarrow> bool \<Rightarrow> ('w, bool \<times> bool \<times> bool) prog" where
  "wait_empty h m 0 p ts dl grace bf = no_fuel"
| "wait_empty h m (Suc n) p ts dl grace bf =
     bnd (clock h) (\<lambda>t.
       if \<not> t < dl then final_probe h m p ts dl grace bf
       else bnd (probe_scope h p) (\<lambda>r.
         if r = Scope_empty True then reap_after_empty h m ts dl grace bf
         else bnd (nap h dl) (\<lambda>_. wait_empty h m n p ts dl grace (bf \<or> r = Probe_failed))))"

definition wait_for_cleanup ::
  "'w os \<Rightarrow> nat \<Rightarrow> string list option \<Rightarrow> nat list \<Rightarrow> rat \<Rightarrow> rat \<Rightarrow> ('w, bool \<times> bool \<times> bool) prog" where
  "wait_for_cleanup h n path ts dl grace =
     (case path of None \<Rightarrow> ret (False, True, False) | Some p \<Rightarrow> wait_empty h n n p ts dl grace False)"

section \<open>Stopping the client\<close>

fun await_exit :: "'w os \<Rightarrow> nat \<Rightarrow> rat \<Rightarrow> ('w, unit) prog" where
  "await_exit h 0 dl = no_fuel"
| "await_exit h (Suc n) dl =
     bnd (clock h) (\<lambda>t.
       if \<not> t < dl then ret ()
       else bnd (poll_process h) (\<lambda>(status, poll_failed).
         if poll_failed \<or> status \<noteq> None then ret ()
         else bnd (sleep h POLL_SECONDS) (\<lambda>_. await_exit h n dl)))"

text \<open>Without a control group nothing can be proved; the launcher is stopped as well as possible.\<close>

definition stop_unknown :: "'w os \<Rightarrow> nat \<Rightarrow> nat list \<Rightarrow> run_limits \<Rightarrow> ('w, bool \<times> bool) prog" where
  "stop_unknown h n ts l =
     bnd (signal_scope h SIGTERM (grace_seconds l)) (\<lambda>_.
     bnd (clock h) (\<lambda>t.
     bnd (await_exit h n (fl (t + grace_seconds l))) (\<lambda>_.
     bnd (clock h) (\<lambda>t2.
     bnd (reap_local_launcher h n ts (fl (t2 + grace_seconds l)) (grace_seconds l)) (\<lambda>_.
       ret (False, True))))))"

definition stop_known :: "'w os \<Rightarrow> nat \<Rightarrow> string list \<Rightarrow> nat list \<Rightarrow> run_limits \<Rightarrow> bool \<Rightarrow> ('w, bool \<times> bool) prog" where
  "stop_known h n p ts l bf =
     bnd (signal_scope h SIGTERM (grace_seconds l)) (\<lambda>ok.
     bnd (clock h) (\<lambda>t.
     bnd (wait_for_cleanup h n (Some p) ts (fl (t + grace_seconds l)) (grace_seconds l)) (\<lambda>(proved, pf, populated).
       let bf1 = bf \<or> \<not> ok \<or> pf in
       if proved \<or> \<not> populated then ret (proved, bf1)
       else
         bnd (signal_scope h SIGKILL (grace_seconds l)) (\<lambda>ok2.
         bnd (clock h) (\<lambda>t2.
         bnd (wait_for_cleanup h n (Some p) ts (fl (t2 + grace_seconds l)) (grace_seconds l)) (\<lambda>(proved2, pf2, _).
           ret (proved2, bf1 \<or> \<not> ok2 \<or> pf2 \<or> \<not> proved2)))))))"

definition stop_and_prove ::
  "'w os \<Rightarrow> nat \<Rightarrow> string list option \<Rightarrow> nat list \<Rightarrow> run_limits \<Rightarrow> ('w, bool \<times> bool) prog" where
  "stop_and_prove h n path ts l =
     bnd (cleanup_now h path ts) (\<lambda>(proved, bf).
       if proved then ret (True, bf)
       else (case path of None \<Rightarrow> stop_unknown h n ts l | Some p \<Rightarrow> stop_known h n p ts l bf))"

section \<open>Results\<close>

record run_result =
  r_outcome :: outcome
  r_exit_status :: "int option"
  r_transcript_bytes :: nat
  r_stderr_bytes :: nat
  r_cleanup_proved :: bool

definition drained :: "'w os \<Rightarrow> nat \<Rightarrow> ('w, drain_state) prog" where
  "drained h i = ask (os_drained h i) (O_drained i)"

text \<open>The state of a reader that was not started is the fresh one.\<close>

definition reader_state :: "'w os \<Rightarrow> nat list \<Rightarrow> nat \<Rightarrow> ('w, drain_state) prog" where
  "reader_state h ts i = (if i \<in> set ts then drained h i else ret drain0)"

definition make_result :: "'w os \<Rightarrow> outcome \<Rightarrow> bool \<Rightarrow> nat list \<Rightarrow> bool \<Rightarrow> ('w, run_result) prog" where
  "make_result h out has_process ts proved =
     bnd (if has_process then poll_process h else ret (None, False)) (\<lambda>(status, poll_failed).
     bnd (reader_state h ts 0) (\<lambda>d0.
     bnd (reader_state h ts 1) (\<lambda>d1.
       ret \<lparr>r_outcome = (if poll_failed then Boundary_failure else out), r_exit_status = status,
            r_transcript_bytes = stored_bytes d0, r_stderr_bytes = stored_bytes d1,
            r_cleanup_proved = (if poll_failed then False else proved)\<rparr>)))"

definition close_and_result :: "'w os \<Rightarrow> outcome \<Rightarrow> bool \<Rightarrow> nat list \<Rightarrow> bool \<Rightarrow> ('w, run_result) prog" where
  "close_and_result h out has_process ts proved =
     bnd (ask (os_close h) O_close) (\<lambda>ok.
       make_result h (if ok then out else Boundary_failure) has_process ts proved)"

section \<open>The run\<close>

text \<open>
  Looking for the control group until the runtime deadline: the path, whether the time ran out, and
  whether the boundary failed.
\<close>

fun find_path :: "'w os \<Rightarrow> nat \<Rightarrow> rat \<Rightarrow> run_limits \<Rightarrow> ('w, string list option \<times> outcome option \<times> bool) prog" where
  "find_path h 0 dl l = no_fuel"
| "find_path h (Suc n) dl l =
     bnd (clock h) (\<lambda>t. let remaining = fl (dl - t) in
       if remaining \<le> 0 then ret (None, Some Timeout, False)
       else bnd (query_path h (min (grace_seconds l) remaining)) (\<lambda>q.
         case q of
           Inl _ \<Rightarrow> ret (None, None, True)
         | Inr (Some p) \<Rightarrow> bnd (sleep h (min POLL_SECONDS remaining)) (\<lambda>_. ret (Some p, None, False))
         | Inr None \<Rightarrow>
             bnd (poll_process h) (\<lambda>(status, poll_failed).
               if poll_failed \<or> status \<noteq> None then ret (None, None, True)
               else bnd (sleep h (min POLL_SECONDS remaining)) (\<lambda>_. find_path h n dl l))))"

text \<open>What the main loop ends with: the run is complete and clean, or an outcome is pending.\<close>

datatype watch = Clean | Pending outcome bool

definition judge_finished :: "'w os \<Rightarrow> string list \<Rightarrow> ('w, watch option) prog" where
  "judge_finished h p =
     bnd (drained h 0) (\<lambda>d0.
     bnd (drained h 1) (\<lambda>d1.
       if failed d0 \<or> failed d1 then ret (Some (Pending Boundary_failure True))
       else if exceeded d0 then ret (Some (Pending Transcript_limit False))
       else if exceeded d1 then ret (Some (Pending Stderr_limit False))
       else bnd (cleanup_now h (Some p) [0, 1]) (\<lambda>(proved, proof_failed).
         ret (if proof_failed then Some (Pending Boundary_failure True)
              else if proved then Some Clean else None))))"

fun watch_loop :: "'w os \<Rightarrow> nat \<Rightarrow> nat \<Rightarrow> rat \<Rightarrow> string list \<Rightarrow> ('w, watch) prog" where
  "watch_loop h m 0 dl p = no_fuel"
| "watch_loop h m (Suc n) dl p =
     bnd (next_event h m None) (\<lambda>e.
       case e of
         Some x \<Rightarrow> ret (Pending x (x = Boundary_failure))
       | None \<Rightarrow>
           bnd (clock h) (\<lambda>t.
             if dl \<le> t then ret (Pending Timeout False)
             else bnd (execution_finished h [0, 1]) (\<lambda>(finished, poll_failed).
               if poll_failed then ret (Pending Boundary_failure True)
               else bnd (if finished then judge_finished h p else ret None) (\<lambda>j.
                 case j of
                   Some w \<Rightarrow> ret w
                 | None \<Rightarrow> bnd (nap h dl) (\<lambda>_. watch_loop h m n dl p)))))"

definition finish :: "'w os \<Rightarrow> nat \<Rightarrow> string list \<Rightarrow> run_limits \<Rightarrow> outcome \<Rightarrow> bool \<Rightarrow> ('w, run_result) prog" where
  "finish h n p l pending bf =
     bnd (stop_and_prove h n (Some p) [0, 1] l) (\<lambda>(proved, stop_failed).
     bnd (drained h 0) (\<lambda>d0.
     bnd (drained h 1) (\<lambda>d1.
       close_and_result h
         (if bf \<or> stop_failed \<or> \<not> proved \<or> pending = Boundary_failure \<or> failed d0 \<or> failed d1
          then Boundary_failure else pending) True [0, 1] proved)))"

text \<open>The threads that were started, and whether all were.\<close>

fun start_threads :: "'w os \<Rightarrow> nat list \<Rightarrow> ('w, nat list \<times> bool) prog" where
  "start_threads h [] = ret ([], True)"
| "start_threads h (t # ts) =
     bnd (ask (os_thread_start h t) (O_thread t)) (\<lambda>ok.
       if \<not> ok then ret ([], False)
       else bnd (start_threads h ts) (\<lambda>(us, all_ok). ret (t # us, all_ok)))"

definition supervise ::
  "'w os \<Rightarrow> nat \<Rightarrow> rat \<Rightarrow> run_limits \<Rightarrow> string list option \<Rightarrow> outcome option \<Rightarrow> bool \<Rightarrow> ('w, run_result) prog" where
  "supervise h n dl l path pending bf =
     bnd (start_threads h [0, 1]) (\<lambda>(ts, all_ok).
       if \<not> all_ok then
         bnd (stop_and_prove h n path ts l) (\<lambda>(proved, _). close_and_result h Boundary_failure True ts proved)
       else (case path of
         None \<Rightarrow>
           bnd (stop_and_prove h n None [0, 1] l) (\<lambda>(proved, stop_failed).
             close_and_result h Boundary_failure True [0, 1] (proved \<and> \<not> (bf \<or> stop_failed)))
       | Some p \<Rightarrow>
           (case pending of
              Some x \<Rightarrow> finish h n p l x bf
            | None \<Rightarrow>
                if bf then finish h n p l Boundary_failure bf
                else bnd (watch_loop h n n dl p) (\<lambda>w.
                  case w of
                    Clean \<Rightarrow> close_and_result h Completed True [0, 1] True
                  | Pending x b \<Rightarrow> finish h n p l x b))))"

text \<open>Launching the scope, after the outputs were opened and emptied.\<close>

definition launch :: "'w os \<Rightarrow> nat \<Rightarrow> rat \<Rightarrow> string list \<Rightarrow> run_limits \<Rightarrow> ('w, run_result) prog" where
  "launch h n dl command l =
     bnd (quiet (os_start h command l)) (\<lambda>a.
       case a of
         Start_failed \<Rightarrow> close_and_result h Boundary_failure False [] False
       | Started pipes \<Rightarrow>
           bnd (find_path h n dl l) (\<lambda>(path, pending, bf).
             if \<not> pipes then
               bnd (stop_and_prove h n path [] l) (\<lambda>(proved, _).
                 close_and_result h Boundary_failure True [] proved)
             else supervise h n dl l path pending bf))"

definition run_bounded_agent :: "'w os \<Rightarrow> nat \<Rightarrow> string list \<Rightarrow> run_limits \<Rightarrow> ('w, run_result) prog" where
  "run_bounded_agent h n command l =
     (if command = [] \<or> exceeds_maxima l then make_result h Boundary_failure False [] False
      else
        bnd (clock h) (\<lambda>t0. let dl = fl (t0 + runtime_seconds l) in
        bnd (quiet (os_prepare h)) (\<lambda>ok.
          if \<not> ok then close_and_result h Boundary_failure False [] False
          else launch h n dl command l)))"

section \<open>Reasoning about runs\<close>

text \<open>Whenever the program returns, its result and the answers it added to the history satisfy \<open>P\<close>.\<close>

definition spec :: "('w, 'a) prog \<Rightarrow> ('a \<Rightarrow> obs list \<Rightarrow> bool) \<Rightarrow> bool" where
  "spec m P \<longleftrightarrow> (\<forall>s x s'. m s = Some (x, s') \<longrightarrow> (\<exists>l. snd s' = snd s @ l \<and> P x l))"

named_theorems specs \<open>specifications of the programs\<close>

lemma spec_ret: "P x [] \<Longrightarrow> spec (ret x) P"
  by (simp add: spec_def ret_def)

lemma spec_no_fuel: "spec no_fuel P"
  by (simp add: spec_def no_fuel_def)

lemma spec_ask: "(\<And>w. P (fst (op w)) [note (fst (op w))]) \<Longrightarrow> spec (ask op note) P"
  unfolding spec_def ask_def by (auto split: prod.splits) (metis fst_conv)

lemma spec_quiet: "(\<And>x. P x []) \<Longrightarrow> spec (quiet op) P"
  by (auto simp: spec_def quiet_def split: prod.splits)

lemma spec_act: "P () [] \<Longrightarrow> spec (act op) P"
  by (simp add: spec_def act_def)

lemma spec_conseq: "spec m P \<Longrightarrow> (\<And>x l. P x l \<Longrightarrow> Q x l) \<Longrightarrow> spec m Q"
  unfolding spec_def by blast

lemma spec_bnd:
  assumes "spec m P" "\<And>x k. P x k \<Longrightarrow> spec (f x) (\<lambda>y l. Q y (k @ l))"
  shows "spec (bnd m f) Q"
  unfolding spec_def
proof (intro allI impI)
  fix s y s'
  assume "bnd m f s = Some (y, s')"
  then obtain x s1 where x: "m s = Some (x, s1)" "f x s1 = Some (y, s')"
    by (auto simp: bnd_def split: option.splits)
  from assms(1) x(1) obtain k where k: "snd s1 = snd s @ k" "P x k"
    unfolding spec_def by blast
  from assms(2) [OF k(2)] x(2) obtain l where "snd s' = snd s1 @ l" "Q y (k @ l)"
    unfolding spec_def by blast
  with k show "\<exists>l. snd s' = snd s @ l \<and> Q y l"
    by auto
qed

lemma spec_if: "(b \<Longrightarrow> spec m P) \<Longrightarrow> (\<not> b \<Longrightarrow> spec m' P) \<Longrightarrow> spec (if b then m else m') P"
  by simp

lemma spec_bnd_pair:
  "spec m P \<Longrightarrow> (\<And>a b k. P (a, b) k \<Longrightarrow> spec (f a b) (\<lambda>y l. Q y (k @ l))) \<Longrightarrow> spec (bnd m (\<lambda>(a, b). f a b)) Q"
  by (erule spec_bnd) auto

lemma spec_bnd_triple:
  "spec m P \<Longrightarrow> (\<And>a b c k. P (a, b, c) k \<Longrightarrow> spec (f a b c) (\<lambda>y l. Q y (k @ l)))
     \<Longrightarrow> spec (bnd m (\<lambda>(a, b, c). f a b c)) Q"
  by (erule spec_bnd) auto

lemma spec_case_option:
  "(x = None \<Longrightarrow> spec m P) \<Longrightarrow> (\<And>y. x = Some y \<Longrightarrow> spec (f y) P) \<Longrightarrow>
     spec (case x of None \<Rightarrow> m | Some y \<Rightarrow> f y) P"
  by (cases x) simp_all

lemma spec_let: "spec (f x) P \<Longrightarrow> spec (let y = x in f y) P"
  by simp

lemmas spec_intros = spec_ret spec_no_fuel spec_quiet spec_act spec_if spec_case_option spec_let

text \<open>A stretch of the history without signals, to the scope or to the launcher.\<close>

definition calm :: "obs list \<Rightarrow> bool" where
  "calm l \<longleftrightarrow> (\<forall>sig b. O_signal sig b \<notin> set l \<and> O_local sig b \<notin> set l)"

lemma calm_simps [simp]:
  "calm []" "calm (a @ b) \<longleftrightarrow> calm a \<and> calm b"
  "calm (x # l) \<longleftrightarrow> (\<forall>sig b. x \<noteq> O_signal sig b \<and> x \<noteq> O_local sig b) \<and> calm l"
  by (auto simp: calm_def)

text \<open>The process was seen to have exited and then every one of its readers to have stopped.\<close>

definition exit_seen :: "nat list \<Rightarrow> obs list \<Rightarrow> bool" where
  "exit_seen ts l \<longleftrightarrow> (\<exists>c. l = O_poll (Some (Some c)) # map (\<lambda>t. O_alive t False) ts)"

lemma calm_readers [simp]: "calm (map (\<lambda>t. O_alive t False) ts)"
  by (auto simp: calm_def)

lemma exit_seen_calm: "exit_seen ts l \<Longrightarrow> calm l"
  by (auto simp: exit_seen_def)

lemma clock_spec: "spec (clock h) (\<lambda>t l. l = [O_clock t])"
  unfolding clock_def by (rule spec_ask) simp

lemma sleep_spec: "spec (sleep h d) (\<lambda>_ l. l = [])"
  unfolding sleep_def by (rule spec_act) simp

lemma probe_spec: "spec (probe_scope h p) (\<lambda>r l. l = [O_probe r])"
  unfolding probe_scope_def by (rule spec_ask) simp

lemma drained_spec: "spec (drained h i) (\<lambda>d l. l = [O_drained i d])"
  unfolding drained_def by (rule spec_ask) simp

lemma signal_spec: "spec (signal_scope h sig t) (\<lambda>b l. l = [O_signal sig b])"
  unfolding signal_scope_def by (rule spec_ask) simp

lemma poll_process_spec:
  "spec (poll_process h) (\<lambda>x l. \<exists>r. l = [O_poll r] \<and> x = (case r of None \<Rightarrow> (None, True) | Some v \<Rightarrow> (v, False)))"
  unfolding poll_process_def poll_def
  by (rule spec_bnd [OF spec_ask [where P = "\<lambda>r l. l = [O_poll r]"]])
     (auto intro!: spec_ret)

lemma any_alive_spec:
  "spec (any_alive h ts) (\<lambda>a l. calm l \<and> (\<not> a \<longrightarrow> l = map (\<lambda>t. O_alive t False) ts))"
proof (induction ts)
  case Nil
  show ?case by (auto intro: spec_ret)
next
  case (Cons t ts)
  show ?case
    unfolding any_alive.simps
    by (rule spec_bnd [OF spec_ask [where P = "\<lambda>a l. l = [O_alive t a]"]])
       (auto intro!: spec_ret spec_conseq [OF Cons])
qed

lemma execution_finished_spec:
  "spec (execution_finished h ts) (\<lambda>x l. calm l \<and> (fst x \<longrightarrow> exit_seen ts l \<and> \<not> snd x))"
  unfolding execution_finished_def
proof (rule spec_bnd_pair [OF poll_process_spec], rule spec_if)
  fix status :: "int option" and pf k
  assume k: "\<exists>r. k = [O_poll r] \<and> (status, pf) = (case r of None \<Rightarrow> (None, True) | Some v \<Rightarrow> (v, False))"
  then show "spec (ret (False, pf)) (\<lambda>y l. calm (k @ l) \<and> (fst y \<longrightarrow> exit_seen ts (k @ l) \<and> \<not> snd y))"
    by (auto intro: spec_ret)
  assume "status \<noteq> None"
  with k obtain c where "k = [O_poll (Some (Some c))]" "\<not> pf"
    by (auto split: option.splits)
  then show "spec (bnd (any_alive h ts) (\<lambda>a. ret (\<not> a, pf)))
      (\<lambda>y l. calm (k @ l) \<and> (fst y \<longrightarrow> exit_seen ts (k @ l) \<and> \<not> snd y))"
    by (intro spec_bnd [OF any_alive_spec] spec_ret) (auto simp: exit_seen_def)
qed

text \<open>The queue holds only what the readers put there.\<close>

definition queue_law :: "'w os \<Rightarrow> bool" where
  "queue_law h \<longleftrightarrow> (\<forall>w. fst (os_next h w) \<in> {None, Some Boundary_failure, Some Transcript_limit, Some Stderr_limit})"

definition event_ok :: "outcome \<Rightarrow> bool" where
  "event_ok x \<longleftrightarrow> x = Boundary_failure \<or> x = Transcript_limit \<or> x = Stderr_limit"

lemma queue_lawD: "queue_law h \<Longrightarrow> fst (os_next h w) = Some x \<Longrightarrow> event_ok x"
  unfolding queue_law_def event_ok_def by (metis insertE option.distinct(1) option.inject singletonD)

lemma ask_next_spec:
  "queue_law h \<Longrightarrow> spec (ask (os_next h) O_event) (\<lambda>e l. l = [O_event e] \<and> (\<forall>x. e = Some x \<longrightarrow> event_ok x))"
  by (rule spec_ask) (simp add: queue_lawD)

lemma next_event_spec:
  assumes "queue_law h" "\<And>x. sel = Some x \<Longrightarrow> event_ok x"
  shows "spec (next_event h n sel) (\<lambda>e l. calm l \<and> (\<forall>x. e = Some x \<longrightarrow> event_ok x \<and> (O_event (Some x) \<in> set l \<or> sel = Some x))
     \<and> (e = None \<longrightarrow> sel = None \<and> l = [O_event None]))"
  using assms(2)
proof (induction n arbitrary: sel)
  case 0
  then show ?case by (simp add: spec_no_fuel)
next
  case (Suc n)
  show ?case
    unfolding next_event.simps
  proof (rule spec_bnd [OF ask_next_spec [OF assms(1)]], intro spec_intros)
    fix e k y
    assume k: "k = [O_event e] \<and> (\<forall>x. e = Some x \<longrightarrow> event_ok x)" and e: "e = Some y"
    then have "event_ok y"
      by simp
    then show "spec (next_event h n (case sel of None \<Rightarrow> Some y | Some z \<Rightarrow> Some z))
        (\<lambda>a l. calm (k @ l) \<and> (\<forall>x. a = Some x \<longrightarrow> event_ok x \<and> (O_event (Some x) \<in> set (k @ l) \<or> sel = Some x))
           \<and> (a = None \<longrightarrow> sel = None \<and> k @ l = [O_event None]))"
      using Suc.prems k e
      by (intro spec_conseq [OF Suc.IH]) (auto split: option.splits)
  qed (use Suc.prems in \<open>auto simp: event_ok_def\<close>)
qed

text \<open>What a proof of clean-up has seen: the scope empty, the process gone and its readers stopped.\<close>

definition ends_exited :: "nat list \<Rightarrow> obs list \<Rightarrow> bool" where
  "ends_exited ts l \<longleftrightarrow> (\<exists>k e. l = k @ e \<and> exit_seen ts e)"

definition emptied :: "nat list \<Rightarrow> obs list \<Rightarrow> bool" where
  "emptied ts l \<longleftrightarrow>
     (\<exists>a e b. l = a @ e @ b \<and> exit_seen ts e \<and> O_probe (Scope_empty True) \<in> set a \<union> set b)"

lemma ends_exited_after: "ends_exited ts l \<Longrightarrow> ends_exited ts (k @ l)"
  unfolding ends_exited_def by (metis append_assoc)

lemma ends_exited_Cons: "ends_exited ts l \<Longrightarrow> ends_exited ts (x # l)"
  using ends_exited_after [of ts l "[x]"] by simp

lemma exit_ends: "exit_seen ts e \<Longrightarrow> ends_exited ts e"
  unfolding ends_exited_def by (metis append_Nil)

lemma emptied_after: "emptied ts l \<Longrightarrow> emptied ts (k @ l)"
proof -
  assume "emptied ts l"
  then obtain a e b where "l = a @ e @ b" "exit_seen ts e" "O_probe (Scope_empty True) \<in> set a \<union> set b"
    unfolding emptied_def by blast
  then show ?thesis
    unfolding emptied_def by (intro exI [of _ "k @ a"] exI [of _ e] exI [of _ b]) auto
qed

lemma emptied_before: "emptied ts l \<Longrightarrow> emptied ts (l @ m)"
proof -
  assume "emptied ts l"
  then obtain a e b where "l = a @ e @ b" "exit_seen ts e" "O_probe (Scope_empty True) \<in> set a \<union> set b"
    unfolding emptied_def by blast
  then show ?thesis
    unfolding emptied_def by (intro exI [of _ a] exI [of _ e] exI [of _ "b @ m"]) auto
qed

lemma emptied_Cons: "emptied ts l \<Longrightarrow> emptied ts (x # l)"
  using emptied_after [of ts l "[x]"] by simp

lemma emptied_probe_first: "ends_exited ts l \<Longrightarrow> O_probe (Scope_empty True) \<in> set k \<Longrightarrow> emptied ts (k @ l)"
proof -
  assume "ends_exited ts l" and p: "O_probe (Scope_empty True) \<in> set k"
  then obtain a e where "l = a @ e" "exit_seen ts e"
    unfolding ends_exited_def by blast
  with p show ?thesis
    unfolding emptied_def by (intro exI [of _ "k @ a"] exI [of _ e] exI [of _ "[]"]) auto
qed

lemmas emptied_intros = ends_exited_after ends_exited_Cons exit_ends emptied_after emptied_Cons

lemma cleanup_now_spec:
  "spec (cleanup_now h path ts) (\<lambda>x l. calm l \<and> (fst x \<longrightarrow> \<not> snd x \<and> path \<noteq> None
     \<and> (\<exists>e. exit_seen ts e \<and> l = e @ [O_probe (Scope_empty True)])))"
  unfolding cleanup_now_def
  by (rule spec_bnd_pair [OF execution_finished_spec], intro spec_intros)
     (auto intro!: spec_bnd [OF probe_spec] spec_ret split: probe.splits)

lemma cleanup_now_emptied: "exit_seen ts e \<Longrightarrow> emptied ts (e @ [O_probe (Scope_empty True)])"
  unfolding emptied_def by (intro exI [of _ "[]"] exI [of _ e] exI [of _ "[O_probe (Scope_empty True)]"]) simp

lemma join_all_spec: "spec (join_all h ts) (\<lambda>_ l. l = [])"
  by (induction ts) (auto intro!: spec_ret spec_bnd [OF spec_act [where P = "\<lambda>_ l. l = []"]])

text \<open>
  The launcher itself is left alone; or it is terminated once, after it was polled and found running; or it is
  moreover killed once, directly after a wait of the grace period for it had run out.
\<close>

definition settled :: "rat \<Rightarrow> obs list \<Rightarrow> bool" where
  "settled g l \<longleftrightarrow>
     calm l
     \<or> (\<exists>k ok m. l = k @ [O_poll (Some None), O_local SIGTERM ok] @ m \<and> calm k \<and> calm m)
     \<or> (\<exists>k ok m. l = k @ [O_poll (Some None), O_local SIGTERM True, O_wait g Wait_timeout, O_local SIGKILL ok] @ m
          \<and> calm k \<and> calm m)"

lemma settled_calm: "calm l \<Longrightarrow> settled g l"
  by (simp add: settled_def)

lemma settled_term: "calm k \<Longrightarrow> calm m \<Longrightarrow> settled g (k @ [O_poll (Some None), O_local SIGTERM ok] @ m)"
  unfolding settled_def by blast

lemma settled_kill:
  "calm k \<Longrightarrow> calm m \<Longrightarrow>
     settled g (k @ [O_poll (Some None), O_local SIGTERM True, O_wait g Wait_timeout, O_local SIGKILL ok] @ m)"
  unfolding settled_def by blast

lemma settledE:
  assumes "settled g l"
  obtains "calm l"
  | k ok m where "l = k @ [O_poll (Some None), O_local SIGTERM ok] @ m" "calm k" "calm m"
  | k ok m where "l = k @ [O_poll (Some None), O_local SIGTERM True, O_wait g Wait_timeout, O_local SIGKILL ok] @ m"
      "calm k" "calm m"
  using assms unfolding settled_def by blast

lemma settled_around: "settled g l \<Longrightarrow> calm j \<Longrightarrow> calm j' \<Longrightarrow> settled g (j @ l @ j')"
proof (erule settledE)
  fix k ok m
  assume c: "calm j" "calm j'" "calm k" "calm m"
  show "settled g (j @ l @ j')" if "l = k @ [O_poll (Some None), O_local SIGTERM ok] @ m"
    using that c settled_term [of "j @ k" "m @ j'" g ok] by simp
  show "settled g (j @ l @ j')"
    if "l = k @ [O_poll (Some None), O_local SIGTERM True, O_wait g Wait_timeout, O_local SIGKILL ok] @ m"
    using that c settled_kill [of "j @ k" "m @ j'" g ok] by simp
qed (simp add: settled_calm)

lemma settled_after: "calm k \<Longrightarrow> settled g l \<Longrightarrow> settled g (k @ l)"
  using settled_around [of g l k "[]"] by simp

lemma settled_before: "settled g l \<Longrightarrow> calm k \<Longrightarrow> settled g (l @ k)"
  using settled_around [of g l "[]" k] by simp

lemma settled_Cons: "settled g l \<Longrightarrow> calm [x] \<Longrightarrow> settled g (x # l)"
  using settled_after [of "[x]" g l] by simp

text \<open>What ending the process adds to the poll that found it running.\<close>

lemma terminate_spec: "spec (ask op (O_local sig)) (\<lambda>ok l. l = [O_local sig ok])"
  by (rule spec_ask) simp

lemma wait_spec: "spec (ask op (O_wait g)) (\<lambda>a l. l = [O_wait g a])"
  by (rule spec_ask) simp

lemma end_process_spec: "spec (end_process h grace) (\<lambda>_ l. settled grace (O_poll (Some None) # l))"
  unfolding end_process_def
proof (rule spec_bnd [OF terminate_spec], rule spec_if)
  fix ok k
  assume k: "k = [O_local SIGTERM ok]"
  show "spec (ret False) (\<lambda>_ l. settled grace (O_poll (Some None) # k @ l))"
    using k settled_term [of "[]" "[]" grace ok] by (auto intro: spec_ret)
  assume "\<not> \<not> ok"
  then have ok: "ok"
    by simp
  show "spec (bnd (ask (os_wait h grace) (O_wait grace)) (\<lambda>a. case a of Exited \<Rightarrow> ret True
         | Wait_timeout \<Rightarrow> bnd (ask (os_kill_process h) (O_local SIGKILL)) (\<lambda>ok2.
               if \<not> ok2 then ret False else bnd (ask (os_wait h grace) (O_wait grace)) (\<lambda>b. ret (b = Exited)))
         | Wait_error \<Rightarrow> ret False))
     (\<lambda>_ l. settled grace (O_poll (Some None) # k @ l))"
  proof (rule spec_bnd [OF wait_spec])
    fix a k1
    assume k1: "k1 = [O_wait grace a]"
    have one: "settled grace (O_poll (Some None) # k @ k1 @ [])"
      using settled_term [of "[]" "[O_wait grace a]" grace ok] k k1 by simp
    show "spec (case a of Exited \<Rightarrow> ret True
         | Wait_timeout \<Rightarrow> bnd (ask (os_kill_process h) (O_local SIGKILL)) (\<lambda>ok2.
               if \<not> ok2 then ret False else bnd (ask (os_wait h grace) (O_wait grace)) (\<lambda>b. ret (b = Exited)))
         | Wait_error \<Rightarrow> ret False)
       (\<lambda>_ l. settled grace (O_poll (Some None) # k @ k1 @ l))"
    proof (cases a)
      case Wait_timeout
      have two: "settled grace (O_poll (Some None) # k @ k1 @ [O_local SIGKILL ok2] @ m)" if "calm m" for ok2 m
        using settled_kill [of "[]" m grace ok2] that k k1 ok Wait_timeout by simp
      show ?thesis
        unfolding Wait_timeout wait_answer.case
        by (intro spec_bnd [OF terminate_spec] spec_if spec_bnd [OF wait_spec] spec_ret) (simp_all add: two [simplified])
    qed (use one in \<open>auto intro: spec_ret\<close>)
  qed
qed

lemma reap_end_spec:
  "spec (reap_end h ts grace) (\<lambda>r l. settled grace l \<and> (r \<longrightarrow> ends_exited ts l))"
  unfolding reap_end_def
proof (rule spec_bnd_pair [OF poll_process_spec], rule spec_if)
  fix status :: "int option" and pf k
  assume k: "\<exists>r. k = [O_poll r] \<and> (status, pf) = (case r of None \<Rightarrow> (None, True) | Some v \<Rightarrow> (v, False))"
  then show "spec (ret False) (\<lambda>y l. settled grace (k @ l) \<and> (y \<longrightarrow> ends_exited ts (k @ l)))"
    by (auto intro!: spec_ret settled_calm)
  assume "\<not> pf"
  have e: "spec (if status = None then end_process h grace else ret True) (\<lambda>_ l. settled grace (k @ l))"
  proof (rule spec_if)
    assume "status = None"
    with k \<open>\<not> pf\<close> have "k = [O_poll (Some None)]"
      by (auto split: option.splits)
    then show "spec (end_process h grace) (\<lambda>_ l. settled grace (k @ l))"
      using end_process_spec by simp
  qed (use k in \<open>auto intro!: spec_ret settled_calm\<close>)
  show "spec (bnd (if status = None then end_process h grace else ret True) (\<lambda>ended.
      if \<not> ended then ret False
      else bnd (join_all h ts) (\<lambda>_. bnd (execution_finished h ts) (\<lambda>(finished, pf). ret (finished \<and> \<not> pf)))))
     (\<lambda>y l. settled grace (k @ l) \<and> (y \<longrightarrow> ends_exited ts (k @ l)))"
    by (intro spec_bnd [OF e] spec_if spec_bnd [OF join_all_spec] spec_bnd_pair [OF execution_finished_spec] spec_ret)
       (auto simp: emptied_intros settled_before simp flip: append_assoc)
qed

lemma reap_spec:
  "spec (reap_local_launcher h n ts dl grace) (\<lambda>r l. settled grace l \<and> (r \<longrightarrow> ends_exited ts l))"
proof (induction n)
  case 0
  show ?case by (simp add: spec_no_fuel)
next
  case (Suc n)
  show ?case
    unfolding reap_local_launcher.simps
  proof (rule spec_bnd [OF clock_spec], rule spec_if)
    fix t k
    assume k: "k = [O_clock t]"
    show "spec (reap_end h ts grace) (\<lambda>r l. settled grace (k @ l) \<and> (r \<longrightarrow> ends_exited ts (k @ l)))"
      using k by (intro spec_conseq [OF reap_end_spec]) (auto simp: emptied_intros settled_Cons)
    show "spec (bnd (execution_finished h ts) (\<lambda>(finished, poll_failed).
         if poll_failed then ret False else if finished then ret True
         else bnd (sleep h POLL_SECONDS) (\<lambda>_. reap_local_launcher h n ts dl grace)))
        (\<lambda>r l. settled grace (k @ l) \<and> (r \<longrightarrow> ends_exited ts (k @ l)))"
      using k
      by (intro spec_bnd_pair [OF execution_finished_spec] spec_if spec_ret spec_bnd [OF sleep_spec] spec_conseq [OF Suc.IH])
         (auto simp: emptied_intros settled_calm intro: settled_Cons settled_after)
  qed
qed

text \<open>What waiting for an empty scope ends with.\<close>

definition waited :: "rat \<Rightarrow> nat list \<Rightarrow> rat \<Rightarrow> bool \<times> bool \<times> bool \<Rightarrow> obs list \<Rightarrow> bool" where
  "waited grace ts dl x l \<longleftrightarrow>
     settled grace l \<and> (fst x \<longrightarrow> emptied ts l \<and> \<not> snd (snd x))
     \<and> (snd (snd x) \<longrightarrow> calm l \<and> (\<exists>k t. l = k @ [O_clock t, O_probe (Scope_empty False)] \<and> dl \<le> t))"

lemma waited_after: "calm k \<Longrightarrow> waited grace ts dl x l \<Longrightarrow> waited grace ts dl x (k @ l)"
  unfolding waited_def using emptied_after settled_after by (metis append_assoc calm_simps(2))

lemma reap_after_empty_spec:
  assumes "calm k" "O_probe (Scope_empty True) \<in> set k"
  shows "spec (reap_after_empty h n ts dl grace bf) (\<lambda>x l. waited grace ts dl' x (k @ l))"
  unfolding reap_after_empty_def using assms
  by (intro spec_bnd [OF reap_spec] spec_ret) (auto simp: waited_def emptied_probe_first settled_after)

lemma final_probe_spec:
  assumes "dl \<le> t"
  shows "spec (final_probe h n p ts dl grace bf) (\<lambda>x l. waited grace ts dl x ([O_clock t] @ l))"
  unfolding final_probe_def
proof (rule spec_bnd [OF probe_spec])
  fix r k
  assume k: "k = [O_probe r]"
  show "spec (case r of Scope_empty b \<Rightarrow> if b then reap_after_empty h n ts dl grace bf else ret (False, bf, True)
      | Removal_in_progress \<Rightarrow> ret (False, True, False) | Probe_failed \<Rightarrow> ret (False, True, False))
     (\<lambda>x l. waited grace ts dl x ([O_clock t] @ k @ l))"
  proof (cases r)
    case (Scope_empty b)
    show ?thesis
    proof (cases b)
      case True
      with Scope_empty k show ?thesis
        using reap_after_empty_spec [of "[O_clock t, O_probe (Scope_empty True)]" h n ts dl grace bf dl] by simp
    next
      case False
      with Scope_empty k assms show ?thesis
        by (auto intro!: spec_ret exI [of _ "[]"] simp: waited_def settled_calm)
    qed
  qed (use k in \<open>auto intro!: spec_ret simp: waited_def settled_calm\<close>)
qed

lemma nap_spec: "spec (nap h dl) (\<lambda>_ l. calm l)"
  unfolding nap_def
  by (intro spec_bnd [OF clock_spec] spec_let spec_if spec_conseq [OF sleep_spec] spec_ret) auto

lemma wait_empty_spec: "spec (wait_empty h m n p ts dl grace bf) (waited grace ts dl)"
proof (induction n arbitrary: bf)
  case 0
  show ?case by (simp add: spec_no_fuel)
next
  case (Suc n)
  show ?case
    unfolding wait_empty.simps
  proof (rule spec_bnd [OF clock_spec], rule spec_if)
    fix t k
    assume "k = [O_clock t]" "\<not> t < dl"
    then show "spec (final_probe h m p ts dl grace bf) (\<lambda>x l. waited grace ts dl x (k @ l))"
      using final_probe_spec [of dl t] by simp
  next
    fix t k
    assume k: "k = [O_clock t]"
    show "spec (bnd (probe_scope h p) (\<lambda>r. if r = Scope_empty True then reap_after_empty h m ts dl grace bf
         else bnd (nap h dl) (\<lambda>_. wait_empty h m n p ts dl grace (bf \<or> r = Probe_failed))))
        (\<lambda>x l. waited grace ts dl x (k @ l))"
    proof (rule spec_bnd [OF probe_spec], rule spec_if)
      fix r j
      assume j: "j = [O_probe r]"
      show "spec (reap_after_empty h m ts dl grace bf) (\<lambda>x l. waited grace ts dl x (k @ j @ l))" if "r = Scope_empty True"
        using reap_after_empty_spec [of "k @ j" h m ts dl grace bf dl] k j that by simp
      show "spec (bnd (nap h dl) (\<lambda>_. wait_empty h m n p ts dl grace (bf \<or> r = Probe_failed)))
          (\<lambda>x l. waited grace ts dl x (k @ j @ l))"
        using k j
        by (intro spec_bnd [OF nap_spec] spec_conseq [OF Suc.IH])
           (simp del: append.simps add: waited_after flip: append_assoc)
    qed
  qed
qed

lemma wait_for_cleanup_spec: "spec (wait_for_cleanup h n (Some p) ts dl grace) (waited grace ts dl)"
  unfolding wait_for_cleanup_def using wait_empty_spec by simp

lemma await_exit_spec: "spec (await_exit h n dl) (\<lambda>_ l. calm l)"
proof (induction n)
  case 0
  show ?case by (simp add: spec_no_fuel)
next
  case (Suc n)
  show ?case
    unfolding await_exit.simps
    by (intro spec_bnd [OF clock_spec] spec_if spec_ret spec_bnd_pair [OF poll_process_spec]
        spec_bnd [OF sleep_spec] spec_conseq [OF Suc]) auto
qed

section \<open>Signals\<close>

text \<open>
  The signals of a run, to the scope and to the launcher: none; one \<open>SIGTERM\<close> to the scope; or one \<open>SIGTERM\<close>
  to the scope and later one \<open>SIGKILL\<close>, sent right after the scope was seen populated at a time past the grace
  period. The launcher itself is signalled, as \<open>settled\<close> says, only after the last signal to the scope.
\<close>

definition escalation :: "rat \<Rightarrow> obs list \<Rightarrow> bool" where
  "escalation grace l \<longleftrightarrow>
     calm l
     \<or> (\<exists>k ok m. l = k @ O_signal SIGTERM ok # m \<and> calm k \<and> settled grace m)
     \<or> (\<exists>k ok t0 m t ok2 r.
          l = k @ [O_signal SIGTERM ok, O_clock t0] @ m @ [O_clock t, O_probe (Scope_empty False), O_signal SIGKILL ok2] @ r
          \<and> calm k \<and> calm m \<and> settled grace r \<and> fl (t0 + grace) \<le> t)"

lemma escalation_calm: "calm l \<Longrightarrow> escalation g l"
  by (simp add: escalation_def)

lemma escalation_term: "calm k \<Longrightarrow> settled g m \<Longrightarrow> escalation g (k @ O_signal SIGTERM ok # m)"
  unfolding escalation_def by blast

lemma escalation_kill:
  "calm k \<Longrightarrow> calm m \<Longrightarrow> settled g r \<Longrightarrow> fl (t0 + g) \<le> t \<Longrightarrow>
     escalation g (k @ [O_signal SIGTERM ok, O_clock t0] @ m @ [O_clock t, O_probe (Scope_empty False), O_signal SIGKILL ok2] @ r)"
  unfolding escalation_def by blast

lemma escalation_after: "calm j \<Longrightarrow> escalation g l \<Longrightarrow> escalation g (j @ l)"
proof -
  assume j: "calm j" and "escalation g l"
  then consider "calm l" | k ok m where "l = k @ O_signal SIGTERM ok # m" "calm k" "settled g m"
    | k ok t0 m t ok2 r where
      "l = k @ [O_signal SIGTERM ok, O_clock t0] @ m @ [O_clock t, O_probe (Scope_empty False), O_signal SIGKILL ok2] @ r"
      "calm k" "calm m" "settled g r" "fl (t0 + g) \<le> t"
    unfolding escalation_def by blast
  then show ?thesis
  proof cases
    case 1
    with j show ?thesis by (simp add: escalation_calm)
  next
    case 2
    with j escalation_term [of "j @ k" g m ok] show ?thesis by simp
  next
    case 3
    with j escalation_kill [of "j @ k" m g r t0 t ok ok2] show ?thesis by simp
  qed
qed

lemma escalation_before: "calm j \<Longrightarrow> escalation g l \<Longrightarrow> escalation g (l @ j)"
proof -
  assume j: "calm j" and "escalation g l"
  then consider "calm l" | k ok m where "l = k @ O_signal SIGTERM ok # m" "calm k" "settled g m"
    | k ok t0 m t ok2 r where
      "l = k @ [O_signal SIGTERM ok, O_clock t0] @ m @ [O_clock t, O_probe (Scope_empty False), O_signal SIGKILL ok2] @ r"
      "calm k" "calm m" "settled g r" "fl (t0 + g) \<le> t"
    unfolding escalation_def by blast
  then show ?thesis
  proof cases
    case 1
    with j show ?thesis by (simp add: escalation_calm)
  next
    case 2
    with j escalation_term [of k g "m @ j" ok] show ?thesis by (simp add: settled_before)
  next
    case 3
    with j escalation_kill [of k m g "r @ j" t0 t ok ok2] show ?thesis by (simp add: settled_before)
  qed
qed

section \<open>Stopping\<close>

text \<open>What stopping the client guarantees of its history.\<close>

definition stopped :: "rat \<Rightarrow> nat list \<Rightarrow> bool \<Rightarrow> obs list \<Rightarrow> bool" where
  "stopped grace ts proved l \<longleftrightarrow> escalation grace l \<and> (proved \<longrightarrow> emptied ts l)"

lemma stopped_after: "calm k \<Longrightarrow> stopped g ts b l \<Longrightarrow> stopped g ts b (k @ l)"
  by (simp add: stopped_def escalation_after emptied_after)

lemma stopped_before: "calm k \<Longrightarrow> stopped g ts b l \<Longrightarrow> stopped g ts b (l @ k)"
  by (simp add: stopped_def escalation_before emptied_before)

lemma stop_unknown_spec: "spec (stop_unknown h n ts l) (\<lambda>x k. stopped (grace_seconds l) ts (fst x) k)"
  unfolding stop_unknown_def
proof (rule spec_bnd [OF signal_spec], rule spec_bnd [OF clock_spec], rule spec_bnd [OF await_exit_spec],
    rule spec_bnd [OF clock_spec], rule spec_bnd [OF reap_spec], rule spec_ret)
  fix ok k t k1 u k2 t2 k3 reaped k4
  assume "k = [O_signal SIGTERM ok]" "k1 = [O_clock t]" "calm k2" "k3 = [O_clock t2]"
    "settled (grace_seconds l) k4 \<and> (reaped \<longrightarrow> ends_exited ts k4)"
  moreover from this have "settled (grace_seconds l) (O_clock t # k2 @ O_clock t2 # k4)"
    by (intro settled_Cons settled_after) simp_all
  ultimately show "stopped (grace_seconds l) ts (fst (False, True)) (k @ k1 @ k2 @ k3 @ k4 @ [])"
    using escalation_term [of "[]" "grace_seconds l" "O_clock t # k2 @ O_clock t2 # k4" ok] by (simp add: stopped_def)
qed

lemma stop_known_spec: "spec (stop_known h n p ts l bf) (\<lambda>x k. stopped (grace_seconds l) ts (fst x) k)"
  unfolding stop_known_def
proof (rule spec_bnd [OF signal_spec], rule spec_bnd [OF clock_spec], rule spec_bnd_triple [OF wait_for_cleanup_spec],
    rule spec_let, rule spec_if)
  fix ok k t k1 proved pf populated k2
  assume a: "k = [O_signal SIGTERM ok]" "k1 = [O_clock t]"
    "waited (grace_seconds l) ts (fl (t + grace_seconds l)) (proved, pf, populated) k2"
  have "settled (grace_seconds l) (O_clock t # k2)"
    using a(3) by (intro settled_Cons) (auto simp: waited_def)
  note T = escalation_term [OF _ this, of "[]" ok]
  show "spec (ret (proved, bf \<or> \<not> ok \<or> pf)) (\<lambda>x j. stopped (grace_seconds l) ts (fst x) (k @ k1 @ k2 @ j))"
    using a T emptied_after [of ts k2 "[O_signal SIGTERM ok, O_clock t]"]
    by (intro spec_ret) (auto simp: stopped_def waited_def)
  assume np: "\<not> (proved \<or> \<not> populated)"
  then obtain m t1 where m: "k2 = m @ [O_clock t1, O_probe (Scope_empty False)]" "fl (t + grace_seconds l) \<le> t1"
    using a(3) by (auto simp: waited_def)
  show "spec (bnd (signal_scope h SIGKILL (grace_seconds l)) (\<lambda>ok2. bnd (clock h) (\<lambda>t2.
         bnd (wait_for_cleanup h n (Some p) ts (fl (t2 + grace_seconds l)) (grace_seconds l)) (\<lambda>(proved2, pf2, _).
           ret (proved2, (bf \<or> \<not> ok \<or> pf) \<or> \<not> ok2 \<or> pf2 \<or> \<not> proved2)))))
     (\<lambda>x j. stopped (grace_seconds l) ts (fst x) (k @ k1 @ k2 @ j))"
  proof (rule spec_bnd [OF signal_spec], rule spec_bnd [OF clock_spec],
      rule spec_bnd_triple [OF wait_for_cleanup_spec], rule spec_ret)
    fix ok2 k3 t2 k4 proved2 pf2 x k5
    assume b: "k3 = [O_signal SIGKILL ok2]" "k4 = [O_clock t2]"
      "waited (grace_seconds l) ts (fl (t2 + grace_seconds l)) (proved2, pf2, x) k5"
    have "calm m" "settled (grace_seconds l) (O_clock t2 # k5)"
      using a(3) b(3) m(1) np by (auto simp: waited_def intro: settled_Cons)
    then have "escalation (grace_seconds l) (k @ k1 @ k2 @ k3 @ k4 @ k5 @ [])"
      using escalation_kill [of "[]" m "grace_seconds l" "O_clock t2 # k5" t t1 ok ok2] m a b by simp
    moreover have "emptied ts (k @ k1 @ k2 @ k3 @ k4 @ k5 @ [])" if proved2
      using that b(3) by (auto simp: waited_def intro!: emptied_after)
    ultimately show "stopped (grace_seconds l) ts
        (fst (proved2, (bf \<or> \<not> ok \<or> pf) \<or> \<not> ok2 \<or> pf2 \<or> \<not> proved2)) (k @ k1 @ k2 @ k3 @ k4 @ k5 @ [])"
      by (simp add: stopped_def)
  qed
qed

lemma stop_and_prove_spec: "spec (stop_and_prove h n path ts l) (\<lambda>x k. stopped (grace_seconds l) ts (fst x) k)"
  unfolding stop_and_prove_def
proof (rule spec_bnd_pair [OF cleanup_now_spec], rule spec_if)
  fix proved bf k
  assume k: "calm k \<and> (fst (proved, bf) \<longrightarrow> \<not> snd (proved, bf) \<and> path \<noteq> None
     \<and> (\<exists>e. exit_seen ts e \<and> k = e @ [O_probe (Scope_empty True)]))"
  show "spec (ret (True, bf)) (\<lambda>x j. stopped (grace_seconds l) ts (fst x) (k @ j))" if proved
    using k that cleanup_now_emptied by (intro spec_ret) (auto simp: stopped_def escalation_calm)
  show "spec (case path of None \<Rightarrow> stop_unknown h n ts l | Some p \<Rightarrow> stop_known h n p ts l bf)
     (\<lambda>x j. stopped (grace_seconds l) ts (fst x) (k @ j))"
    using k stopped_after
    by (intro spec_case_option spec_conseq [OF stop_unknown_spec] spec_conseq [OF stop_known_spec]) blast+
qed

section \<open>The main loop\<close>

definition clean_end :: "rat \<Rightarrow> obs list \<Rightarrow> bool" where
  "clean_end dl l \<longleftrightarrow>
     (\<exists>k t e d0 d1 e'. l = k @ [O_event None, O_clock t] @ e @ [O_drained 0 d0, O_drained 1 d1] @ e' @ [O_probe (Scope_empty True)]
        \<and> t < dl \<and> exit_seen [0, 1] e \<and> exit_seen [0, 1] e' \<and> \<not> failed d0 \<and> \<not> failed d1 \<and> \<not> exceeded d0 \<and> \<not> exceeded d1)"

text \<open>The evidence for a pending outcome.\<close>

definition evidence :: "rat \<Rightarrow> outcome \<Rightarrow> obs list \<Rightarrow> bool" where
  "evidence dl x l \<longleftrightarrow>
     x = Boundary_failure
     \<or> x = Timeout \<and> (\<exists>t. O_clock t \<in> set l \<and> dl \<le> t)
     \<or> x = Transcript_limit \<and> (O_event (Some x) \<in> set l \<or> (\<exists>d. O_drained 0 d \<in> set l \<and> exceeded d))
     \<or> x = Stderr_limit \<and> (O_event (Some x) \<in> set l \<or> (\<exists>d. O_drained 1 d \<in> set l \<and> exceeded d))"

lemma evidence_frame: "evidence dl x l \<Longrightarrow> evidence dl x (k @ l @ m)"
  unfolding evidence_def by auto

lemma clean_end_after: "clean_end dl l \<Longrightarrow> clean_end dl (j @ l)"
  unfolding clean_end_def by (metis append_assoc)

lemma clean_end_emptied: "clean_end dl l \<Longrightarrow> emptied [0, 1] l"
proof -
  assume "clean_end dl l"
  then obtain k t e d0 d1 e' where
    "l = (k @ [O_event None, O_clock t] @ e @ [O_drained 0 d0, O_drained 1 d1]) @ e' @ [O_probe (Scope_empty True)]"
    "exit_seen [0, 1] e'"
    unfolding clean_end_def by auto
  then show ?thesis
    using cleanup_now_emptied emptied_after by metis
qed

definition pending_ok :: "rat \<Rightarrow> watch \<Rightarrow> obs list \<Rightarrow> bool" where
  "pending_ok dl w l \<longleftrightarrow> (\<forall>x b. w = Pending x b \<longrightarrow> evidence dl x l \<and> x \<noteq> Completed)"

lemma pending_ok_simps [simp]: "pending_ok dl Clean l" "pending_ok dl (Pending x b) l \<longleftrightarrow> evidence dl x l \<and> x \<noteq> Completed"
  by (simp_all add: pending_ok_def)

lemma pending_ok_after: "pending_ok dl w l \<Longrightarrow> pending_ok dl w (k @ l)"
  using evidence_frame [of dl _ l k "[]"] by (simp add: pending_ok_def)

definition judged_clean :: "obs list \<Rightarrow> bool" where
  "judged_clean l \<longleftrightarrow>
     (\<exists>d0 d1 e. l = [O_drained 0 d0, O_drained 1 d1] @ e @ [O_probe (Scope_empty True)] \<and> exit_seen [0, 1] e
        \<and> \<not> failed d0 \<and> \<not> failed d1 \<and> \<not> exceeded d0 \<and> \<not> exceeded d1)"

lemma judge_finished_spec:
  "spec (judge_finished h p) (\<lambda>j l. calm l \<and> (j = Some Clean \<longrightarrow> judged_clean l) \<and> (\<forall>w. j = Some w \<longrightarrow> pending_ok dl w l))"
  unfolding judge_finished_def
proof (rule spec_bnd [OF drained_spec], rule spec_bnd [OF drained_spec], intro spec_if)
  fix d0 d1 k k1
  assume k: "k = [O_drained 0 d0]" "k1 = [O_drained 1 d1]"
  let ?P = "\<lambda>j l. calm (k @ k1 @ l) \<and> (j = Some Clean \<longrightarrow> judged_clean (k @ k1 @ l))
      \<and> (\<forall>w. j = Some w \<longrightarrow> pending_ok dl w (k @ k1 @ l))"
  show "spec (ret (Some (Pending Boundary_failure True))) ?P"
    using k by (auto intro!: spec_ret simp: evidence_def)
  show "spec (ret (Some (Pending Transcript_limit False))) ?P" if "exceeded d0"
    using k that by (auto intro!: spec_ret simp: evidence_def)
  show "spec (ret (Some (Pending Stderr_limit False))) ?P" if "exceeded d1"
    using k that by (auto intro!: spec_ret simp: evidence_def)
  assume ok: "\<not> (failed d0 \<or> failed d1)" "\<not> exceeded d0" "\<not> exceeded d1"
  show "spec (bnd (cleanup_now h (Some p) [0, 1]) (\<lambda>(proved, proof_failed).
      ret (if proof_failed then Some (Pending Boundary_failure True) else if proved then Some Clean else None))) ?P"
  proof (rule spec_bnd_pair [OF cleanup_now_spec], rule spec_ret)
    fix proved pf k2
    assume "calm k2 \<and> (fst (proved, pf) \<longrightarrow> \<not> snd (proved, pf) \<and> Some p \<noteq> None
        \<and> (\<exists>e. exit_seen [0, 1] e \<and> k2 = e @ [O_probe (Scope_empty True)]))"
    then show "?P (if pf then Some (Pending Boundary_failure True) else if proved then Some Clean else None) (k2 @ [])"
      using k ok by (auto simp: evidence_def judged_clean_def)
  qed
qed

definition watched :: "rat \<Rightarrow> watch \<Rightarrow> obs list \<Rightarrow> bool" where
  "watched dl w l \<longleftrightarrow> calm l \<and> (w = Clean \<longrightarrow> clean_end dl l) \<and> pending_ok dl w l"

lemma watched_after: "calm k \<Longrightarrow> watched dl w l \<Longrightarrow> watched dl w (k @ l)"
  by (simp add: watched_def clean_end_after pending_ok_after)

lemma clean_end_intro:
  "t < dl \<Longrightarrow> exit_seen [0, 1] e \<Longrightarrow> judged_clean l \<Longrightarrow> clean_end dl ([O_event None] @ [O_clock t] @ e @ l)"
  unfolding clean_end_def judged_clean_def
  by (elim exE conjE, intro exI [of _ "[]"] exI [of _ t] exI [of _ e]) auto

lemma next_event_first:
  "queue_law h \<Longrightarrow> spec (next_event h n None) (\<lambda>e l. calm l
     \<and> (\<forall>x. e = Some x \<longrightarrow> event_ok x \<and> O_event (Some x) \<in> set l) \<and> (e = None \<longrightarrow> l = [O_event None]))"
  by (rule spec_conseq [OF next_event_spec]) auto

lemma watch_loop_spec:
  assumes "queue_law h"
  shows "spec (watch_loop h m n dl p) (watched dl)"
proof (induction n)
  case 0
  show ?case by (simp add: spec_no_fuel)
next
  case (Suc n)
  show ?case
    unfolding watch_loop.simps
  proof (rule spec_bnd [OF next_event_first [OF assms]], rule spec_case_option)
    fix e k x
    assume k: "calm k \<and> (\<forall>x. e = Some x \<longrightarrow> event_ok x \<and> O_event (Some x) \<in> set k) \<and> (e = None \<longrightarrow> k = [O_event None])"
    show "spec (ret (Pending x (x = Boundary_failure))) (\<lambda>y l. watched dl y (k @ l))" if "e = Some x"
      using k that by (auto intro!: spec_ret simp: watched_def evidence_def event_ok_def)
    assume "e = None"
    with k have k0: "k = [O_event None]"
      by simp
    show "spec (bnd (clock h) (\<lambda>t. if dl \<le> t then ret (Pending Timeout False)
        else bnd (execution_finished h [0, 1]) (\<lambda>(finished, poll_failed).
           if poll_failed then ret (Pending Boundary_failure True)
           else bnd (if finished then judge_finished h p else ret None) (\<lambda>j.
             case j of None \<Rightarrow> bnd (nap h dl) (\<lambda>_. watch_loop h m n dl p) | Some w \<Rightarrow> ret w))))
       (\<lambda>y l. watched dl y (k @ l))"
    proof (rule spec_bnd [OF clock_spec], rule spec_if)
      fix t k1
      assume k1: "k1 = [O_clock t]"
      show "spec (ret (Pending Timeout False)) (\<lambda>y l. watched dl y (k @ k1 @ l))" if "dl \<le> t"
        using k0 k1 that by (auto intro!: spec_ret simp: watched_def evidence_def)
      assume t: "\<not> dl \<le> t"
      show "spec (bnd (execution_finished h [0, 1]) (\<lambda>(finished, poll_failed).
           if poll_failed then ret (Pending Boundary_failure True)
           else bnd (if finished then judge_finished h p else ret None) (\<lambda>j.
             case j of None \<Rightarrow> bnd (nap h dl) (\<lambda>_. watch_loop h m n dl p) | Some w \<Rightarrow> ret w)))
         (\<lambda>y l. watched dl y (k @ k1 @ l))"
      proof (rule spec_bnd_pair [OF execution_finished_spec], rule spec_if)
        fix fin pf k2
        assume k2: "calm k2 \<and> (fst (fin, pf) \<longrightarrow> exit_seen [0, 1] k2 \<and> \<not> snd (fin, pf))"
        show "spec (ret (Pending Boundary_failure True)) (\<lambda>y l. watched dl y (k @ k1 @ k2 @ l))"
          using k0 k1 k2 by (auto intro!: spec_ret simp: watched_def evidence_def)
        have j: "spec (if fin then judge_finished h p else ret None)
            (\<lambda>j l. calm l \<and> (j = Some Clean \<longrightarrow> fin \<and> judged_clean l) \<and> (\<forall>w. j = Some w \<longrightarrow> pending_ok dl w l))"
          by (cases fin) (auto intro: spec_conseq [OF judge_finished_spec] spec_ret)
        show "spec (bnd (if fin then judge_finished h p else ret None) (\<lambda>j.
             case j of None \<Rightarrow> bnd (nap h dl) (\<lambda>_. watch_loop h m n dl p) | Some w \<Rightarrow> ret w))
           (\<lambda>y l. watched dl y (k @ k1 @ k2 @ l))"
        proof (rule spec_bnd [OF j], rule spec_case_option)
          fix j k3 w
          assume k3: "calm k3 \<and> (j = Some Clean \<longrightarrow> fin \<and> judged_clean k3) \<and> (\<forall>w. j = Some w \<longrightarrow> pending_ok dl w k3)"
          show "spec (ret w) (\<lambda>y l. watched dl y (k @ k1 @ k2 @ k3 @ l))" if "j = Some w"
            using k0 k1 k2 k3 t that clean_end_intro [of t dl k2 k3] pending_ok_after [of dl w k3 "k @ k1 @ k2"]
            by (intro spec_ret) (cases w; auto simp: watched_def)
          have "calm (k @ k1 @ k2 @ k3)"
            using k0 k1 k2 k3 by simp
          then show "spec (bnd (nap h dl) (\<lambda>_. watch_loop h m n dl p)) (\<lambda>y l. watched dl y (k @ k1 @ k2 @ k3 @ l))"
            by (intro spec_bnd [OF nap_spec] spec_conseq [OF Suc.IH])
               (simp del: append.simps add: watched_after flip: append_assoc)
        qed
      qed
    qed
  qed
qed

section \<open>The result of a run\<close>

definition completed_end :: "rat \<Rightarrow> obs list \<Rightarrow> bool" where
  "completed_end dl l \<longleftrightarrow> calm l \<and> (\<exists>k m. l = k @ O_close True # m \<and> clean_end dl k)"

definition reported :: "rat \<Rightarrow> rat \<Rightarrow> run_result \<Rightarrow> obs list \<Rightarrow> bool" where
  "reported dl grace r l \<longleftrightarrow>
     escalation grace l
     \<and> (r_cleanup_proved r \<longrightarrow> emptied [] l)
     \<and> (r_outcome r \<noteq> Boundary_failure \<longrightarrow> r_cleanup_proved r \<and> emptied [0, 1] l)
     \<and> (r_outcome r = Completed \<longrightarrow> completed_end dl l)
     \<and> (r_outcome r \<noteq> Completed \<longrightarrow> evidence dl (r_outcome r) l)"

lemma completed_end_after: "calm k \<Longrightarrow> completed_end dl l \<Longrightarrow> completed_end dl (k @ l)"
  unfolding completed_end_def using clean_end_after by (metis append_assoc calm_simps(2))

lemma reported_after: "calm k \<Longrightarrow> reported dl g r l \<Longrightarrow> reported dl g r (k @ l)"
  unfolding reported_def
  using escalation_after emptied_after completed_end_after evidence_frame [of dl "r_outcome r" l k "[]"] by simp

lemma emptied_weaken: "emptied ts l \<Longrightarrow> emptied [] l"
proof -
  assume "emptied ts l"
  then obtain a e b where l: "l = a @ e @ b" "exit_seen ts e" "O_probe (Scope_empty True) \<in> set a \<union> set b"
    unfolding emptied_def by blast
  then obtain c where "e = O_poll (Some (Some c)) # map (\<lambda>t. O_alive t False) ts"
    by (auto simp: exit_seen_def)
  with l show ?thesis
    unfolding emptied_def
    by (intro exI [of _ a] exI [of _ "[O_poll (Some (Some c))]"] exI [of _ "map (\<lambda>t. O_alive t False) ts @ b"])
       (auto simp: exit_seen_def)
qed

lemma reader_state_spec: "spec (reader_state h ts i) (\<lambda>_ l. calm l)"
  unfolding reader_state_def by (intro spec_if spec_conseq [OF drained_spec] spec_ret) auto

lemma poll_calm: "spec (poll_process h) (\<lambda>_ l. calm l)"
  by (rule spec_conseq [OF poll_process_spec]) auto

lemma make_result_spec:
  "spec (make_result h out hp ts proved) (\<lambda>r l. calm l \<and> (r_cleanup_proved r \<longrightarrow> proved)
     \<and> (r_outcome r \<noteq> Boundary_failure \<longrightarrow> r_outcome r = out \<and> r_cleanup_proved r = proved))"
proof -
  have p: "spec (if hp then poll_process h else ret (None, False)) (\<lambda>_ l. calm l)"
    by (auto intro: poll_calm spec_ret)
  show ?thesis
    unfolding make_result_def
    by (intro spec_bnd_pair [OF p] spec_bnd [OF reader_state_spec] spec_ret) auto
qed

lemma close_and_result_spec:
  "spec (close_and_result h out hp ts proved) (\<lambda>r l. calm l \<and> (r_cleanup_proved r \<longrightarrow> proved)
     \<and> (r_outcome r \<noteq> Boundary_failure \<longrightarrow> r_outcome r = out \<and> r_cleanup_proved r = proved
          \<and> (\<exists>m. l = O_close True # m)))"
  unfolding close_and_result_def
  by (rule spec_bnd [OF spec_ask [where P = "\<lambda>ok l. l = [O_close ok]"]], simp,
      rule spec_conseq [OF make_result_spec]) (auto split: if_splits)

lemma boundary_reported:
  assumes "stopped g ts proved k" "proved' \<longrightarrow> proved"
  shows "spec (close_and_result h Boundary_failure hp ts' proved') (\<lambda>r l. reported dl g r (k @ l))"
proof (rule spec_conseq [OF close_and_result_spec])
  fix r :: run_result and l
  assume r: "calm l \<and> (r_cleanup_proved r \<longrightarrow> proved')
     \<and> (r_outcome r \<noteq> Boundary_failure \<longrightarrow> r_outcome r = Boundary_failure \<and> r_cleanup_proved r = proved'
          \<and> (\<exists>m. l = O_close True # m))"
  then have "r_outcome r = Boundary_failure"
    by blast
  with r assms stopped_before [of l g ts proved k] show "reported dl g r (k @ l)"
    by (auto simp: reported_def stopped_def evidence_def intro: emptied_weaken)
qed

lemma stop_boundary_spec:
  assumes "calm k" "\<And>x y. f x y \<longrightarrow> x"
  shows "spec (bnd (stop_and_prove h n path ts l) (\<lambda>(proved, sf). close_and_result h Boundary_failure True ts' (f proved sf)))
    (\<lambda>r j. reported dl (grace_seconds l) r (k @ j))"
proof (rule spec_bnd_pair [OF stop_and_prove_spec])
  fix proved sf :: bool and i
  assume "stopped (grace_seconds l) ts (fst (proved, sf)) i"
  then have "stopped (grace_seconds l) ts proved (k @ i)"
    using assms(1) stopped_after by simp
  from boundary_reported [OF this assms(2)]
  show "spec (close_and_result h Boundary_failure True ts' (f proved sf)) (\<lambda>r j. reported dl (grace_seconds l) r (k @ i @ j))"
    by simp
qed

lemma finish_spec:
  assumes "evidence dl pending j \<and> pending \<noteq> Completed" "calm j"
  shows "spec (finish h n p l pending bf) (\<lambda>r k. reported dl (grace_seconds l) r (j @ k))"
  unfolding finish_def
proof (rule spec_bnd_pair [OF stop_and_prove_spec], rule spec_bnd [OF drained_spec], rule spec_bnd [OF drained_spec],
    rule spec_conseq [OF close_and_result_spec])
  fix proved sf k k0 k1 m and d0 d1 :: drain_state and r :: run_result
  let ?out = "if bf \<or> sf \<or> \<not> proved \<or> pending = Boundary_failure \<or> failed d0 \<or> failed d1
     then Boundary_failure else pending"
  assume k: "stopped (grace_seconds l) [0, 1] (fst (proved, sf)) k" "k0 = [O_drained 0 d0]" "k1 = [O_drained 1 d1]"
    and r: "calm m \<and> (r_cleanup_proved r \<longrightarrow> proved)
     \<and> (r_outcome r \<noteq> Boundary_failure \<longrightarrow> r_outcome r = ?out \<and> r_cleanup_proved r = proved
          \<and> (\<exists>m'. m = O_close True # m'))"
  have st: "stopped (grace_seconds l) [0, 1] proved (j @ (k @ k0 @ k1 @ m))"
    using k r assms(2) by (intro stopped_after stopped_before) auto
  have ev: "evidence dl pending (j @ (k @ k0 @ k1 @ m))"
    using evidence_frame [of dl pending j "[]"] assms(1) by simp
  show "reported dl (grace_seconds l) r (j @ k @ k0 @ k1 @ m)"
  proof (cases "r_outcome r = Boundary_failure")
    case True
    with st r show ?thesis
      by (auto simp: reported_def stopped_def evidence_def intro: emptied_weaken)
  next
    case False
    with r have o: "r_outcome r = pending" "proved" "r_cleanup_proved r"
      by (auto split: if_splits)
    with st ev assms(1) show ?thesis
      by (auto simp: reported_def stopped_def intro: emptied_weaken)
  qed
qed

lemma start_threads_spec: "spec (start_threads h ts) (\<lambda>_ l. calm l)"
proof (induction ts)
  case Nil
  show ?case by (auto intro: spec_ret)
next
  case (Cons t ts)
  show ?case
    unfolding start_threads.simps
    by (rule spec_bnd [OF spec_ask [where P = "\<lambda>ok l. l = [O_thread t ok]"]], simp)
       (auto intro!: spec_ret spec_bnd_pair [OF Cons])
qed

lemma supervise_spec:
  assumes "queue_law h" "calm j" "path \<noteq> None \<Longrightarrow> pending = None"
  shows "spec (supervise h n dl l path pending bf) (\<lambda>r k. reported dl (grace_seconds l) r (j @ k))"
  unfolding supervise_def
proof (rule spec_bnd_pair [OF start_threads_spec], rule spec_if)
  fix ts ok k
  assume k: "calm k"
  show "spec (bnd (stop_and_prove h n path ts l) (\<lambda>(proved, _). close_and_result h Boundary_failure True ts proved))
     (\<lambda>r k'. reported dl (grace_seconds l) r (j @ k @ k'))"
    using stop_boundary_spec [of "j @ k" "\<lambda>x _. x"] k assms(2) by simp
  show "spec (case path of
         None \<Rightarrow> bnd (stop_and_prove h n None [0, 1] l) (\<lambda>(proved, stop_failed).
             close_and_result h Boundary_failure True [0, 1] (proved \<and> \<not> (bf \<or> stop_failed)))
       | Some p \<Rightarrow> (case pending of
              None \<Rightarrow> if bf then finish h n p l Boundary_failure bf
                else bnd (watch_loop h n n dl p) (\<lambda>w. case w of
                    Clean \<Rightarrow> close_and_result h Completed True [0, 1] True
                  | Pending x b \<Rightarrow> finish h n p l x b)
            | Some x \<Rightarrow> finish h n p l x bf))
     (\<lambda>r k'. reported dl (grace_seconds l) r (j @ k @ k'))"
  proof (rule spec_case_option, goal_cases)
    case 1
    show ?case
      using stop_boundary_spec [of "j @ k" "\<lambda>x y. x \<and> \<not> (bf \<or> y)"] k assms(2) by simp
  next
    case (2 p)
    then have pn: "pending = None"
      using assms(3) by simp
    have f: "spec (finish h n p l Boundary_failure bf) (\<lambda>r k'. reported dl (grace_seconds l) r (j @ k @ k'))"
      using finish_spec [of dl Boundary_failure "j @ k" h n p l bf] k assms(2) by (simp add: evidence_def)
    have w: "spec (case w of Clean \<Rightarrow> close_and_result h Completed True [0, 1] True | Pending x b \<Rightarrow> finish h n p l x b)
        (\<lambda>r k'. reported dl (grace_seconds l) r (j @ k @ i @ k'))" if "watched dl w i" for w i
    proof (cases w)
      case Clean
      have e: "emptied [0, 1] (j @ k @ i @ m)" "clean_end dl (j @ k @ i)" "calm i" for m
        using that Clean emptied_after [OF emptied_after [OF emptied_before [OF clean_end_emptied]], of dl i j k m]
          clean_end_after [OF clean_end_after, of dl i j k]
        by (auto simp: watched_def)
      show ?thesis
        unfolding Clean watch.case
      proof (rule spec_conseq [OF close_and_result_spec], goal_cases)
        case (1 r m)
        then have c: "calm (j @ k @ i @ m)"
          using k assms(2) e(3) by simp
        show ?case
        proof (cases "r_outcome r = Boundary_failure")
          case True
          with c e(1) show ?thesis
            by (auto simp: reported_def evidence_def intro: escalation_calm emptied_weaken)
        next
          case False
          with 1 obtain m' where "m = O_close True # m'" "r_outcome r = Completed" "r_cleanup_proved r"
            by auto
          moreover from this(1) c e(2) have "completed_end dl (j @ k @ i @ m)"
            unfolding completed_end_def by (intro conjI exI [of _ "j @ k @ i"] exI [of _ m']) simp_all
          ultimately show ?thesis
            using c e(1) emptied_weaken [OF e(1)] by (simp add: reported_def escalation_calm)
        qed
      qed
    next
      case (Pending x b)
      with that have "evidence dl x (j @ k @ i) \<and> x \<noteq> Completed" "calm (j @ k @ i)"
        using k assms(2) evidence_frame [of dl x i "j @ k" "[]"] by (auto simp: watched_def)
      from finish_spec [OF this] Pending show ?thesis
        by simp
    qed
    show ?case
      unfolding pn option.case by (intro spec_if f spec_bnd [OF watch_loop_spec [OF assms(1)]] w)
  qed
qed

lemma find_path_spec:
  "spec (find_path h n dl l) (\<lambda>x k. calm k \<and> (fst x \<noteq> None \<longrightarrow> fst (snd x) = None))"
proof (induction n)
  case 0
  show ?case by (simp add: spec_no_fuel)
next
  case (Suc n)
  have q: "spec (query_path h t) (\<lambda>_ k. calm k)" for t
    unfolding query_path_def by (rule spec_ask) simp
  show ?case
    unfolding find_path.simps
  proof (rule spec_bnd [OF clock_spec], intro spec_let spec_if)
    fix t k
    assume k: "k = [O_clock t]"
    show "spec (ret (None, Some Timeout, False)) (\<lambda>x j. calm (k @ j) \<and> (fst x \<noteq> None \<longrightarrow> fst (snd x) = None))"
      using k by (auto intro: spec_ret)
    show "spec (bnd (query_path h (min (grace_seconds l) (fl (dl - t)))) (\<lambda>q. case q of
           Inl _ \<Rightarrow> ret (None, None, True)
         | Inr None \<Rightarrow> bnd (poll_process h) (\<lambda>(status, poll_failed).
               if poll_failed \<or> status \<noteq> None then ret (None, None, True)
               else bnd (sleep h (min POLL_SECONDS (fl (dl - t)))) (\<lambda>_. find_path h n dl l))
         | Inr (Some p) \<Rightarrow> bnd (sleep h (min POLL_SECONDS (fl (dl - t)))) (\<lambda>_. ret (Some p, None, False))))
       (\<lambda>x j. calm (k @ j) \<and> (fst x \<noteq> None \<longrightarrow> fst (snd x) = None))"
      using k
      by (intro spec_bnd [OF q])
         (auto split: sum.splits option.splits intro!: spec_ret spec_if spec_bnd [OF sleep_spec]
            spec_bnd_pair [OF poll_calm] spec_conseq [OF Suc.IH])
  qed
qed

lemma not_launched_spec:
  "calm k \<Longrightarrow> spec (close_and_result h Boundary_failure False [] False) (\<lambda>r j. reported dl g r (k @ j))"
  by (rule boundary_reported [where proved = False and ts = "[]"]) (auto simp: stopped_def escalation_calm)

lemma launch_spec:
  assumes "queue_law h" "calm k"
  shows "spec (launch h n dl command l) (\<lambda>r j. reported dl (grace_seconds l) r (k @ j))"
  unfolding launch_def
proof (rule spec_bnd [OF spec_quiet [where P = "\<lambda>_ l. l = []"]], simp)
  fix a and k2 :: "obs list"
  assume k2: "k2 = []"
  have s: "spec (bnd (stop_and_prove h n path [] l) (\<lambda>(proved, _). close_and_result h Boundary_failure True [] proved))
      (\<lambda>r j. reported dl (grace_seconds l) r (k @ i @ j))" if "calm i" for path i
    using stop_boundary_spec [of "k @ i" "\<lambda>x _. x"] assms(2) that by simp
  have v: "spec (supervise h n dl l path pending bf) (\<lambda>r j. reported dl (grace_seconds l) r (k @ i @ j))"
    if "calm i" "path \<noteq> None \<longrightarrow> pending = None" for path pending bf i
    using supervise_spec [OF assms(1), of "k @ i" path pending n dl l bf] that assms(2) by simp
  show "spec (case a of Start_failed \<Rightarrow> close_and_result h Boundary_failure False [] False
          | Started pipes \<Rightarrow> bnd (find_path h n dl l) (\<lambda>(path, pending, bf).
                if \<not> pipes then bnd (stop_and_prove h n path [] l) (\<lambda>(proved, _).
                    close_and_result h Boundary_failure True [] proved)
                else supervise h n dl l path pending bf))
       (\<lambda>r j. reported dl (grace_seconds l) r (k @ k2 @ j))"
  proof (cases a)
    case Start_failed
    with not_launched_spec [OF assms(2)] k2 show ?thesis by simp
  next
    case (Started pipes)
    show ?thesis
      unfolding Started k2 start_answer.case append_Nil
      by (intro spec_bnd_triple [OF find_path_spec] spec_if) (use s v in auto)
  qed
qed

definition reported_run :: "run_limits \<Rightarrow> run_result \<Rightarrow> obs list \<Rightarrow> bool" where
  "reported_run l r k \<longleftrightarrow>
     (\<exists>t0 j. k = O_clock t0 # j \<and> reported (fl (t0 + runtime_seconds l)) (grace_seconds l) r k)"

lemma run_spec:
  assumes "queue_law h" "command \<noteq> []" "\<not> exceeds_maxima l"
  shows "spec (run_bounded_agent h n command l) (reported_run l)"
proof -
  have u: "run_bounded_agent h n command l =
        bnd (clock h) (\<lambda>t0. let dl = fl (t0 + runtime_seconds l) in
        bnd (quiet (os_prepare h)) (\<lambda>ok.
          if \<not> ok then close_and_result h Boundary_failure False [] False else launch h n dl command l))"
    using assms by (simp add: run_bounded_agent_def)
  have P: "spec m (\<lambda>r j. reported_run l r (O_clock t0 # j))"
    if "spec m (\<lambda>r j. reported (fl (t0 + runtime_seconds l)) (grace_seconds l) r ([O_clock t0] @ j))"
    for m :: "('a, run_result) prog" and t0
    using that by (rule spec_conseq) (auto simp: reported_run_def)
  show ?thesis
    unfolding u
    by (rule spec_bnd [OF clock_spec], rule spec_let, rule spec_bnd [OF spec_quiet [where P = "\<lambda>_ l. l = []"]], simp)
       (auto intro!: P [unfolded append_Cons append_Nil] spec_if not_launched_spec [of "[O_clock t]" for t, simplified]
          launch_spec [OF assms(1), of "[O_clock t]" for t, simplified])
qed

end
