(* ===== verification/Float_Sums.thy ===== *)
theory Float_Sums
  imports Py_Float
begin

text \<open>
  Sums and differences of binary64 values: rounding is idempotent, the difference of two values within
  a factor of two is exact, and adding a positive amount to a value overshoots by at most that amount.
  The bounded loops over clock readings rest on these.
\<close>

lemma round_half_even_error: "\<bar>of_int (round_half_even x) - x\<bar> \<le> 1 / 2"
proof -
  let ?f = "of_int \<lfloor>x\<rfloor> :: rat"
  have "?f \<le> x" "x < ?f + 1"
    by linarith+
  then show ?thesis
    unfolding round_half_even_def Let_def by (simp add: abs_le_iff)
qed

lemma fl_pos_error: "\<bar>fl_pos a - a\<bar> \<le> ulp a / 2"
proof -
  have "\<bar>of_int (round_half_even (a / ulp a)) - a / ulp a\<bar> * ulp a \<le> 1 / 2 * ulp a"
    by (intro mult_right_mono round_half_even_error) (simp add: less_imp_le)
  moreover have "fl_pos a - a = (of_int (round_half_even (a / ulp a)) - a / ulp a) * ulp a"
    using ulp_pos [of a] less_imp_neq [OF ulp_pos [of a]] by (simp add: fl_pos_def left_diff_distrib)
  then have "\<bar>fl_pos a - a\<bar> = \<bar>of_int (round_half_even (a / ulp a)) - a / ulp a\<bar> * ulp a"
    using ulp_pos [of a] by (simp only: abs_mult abs_of_pos)
  ultimately show ?thesis
    by simp
qed

lemma fl_of_pos: "0 < a \<Longrightarrow> fl a = fl_pos a"
  by (simp add: fl_def)

lemma fl_pos_mantissa:
  assumes "0 < a"
  shows "round_half_even (a / ulp a) \<le> 2 ^ 53" "0 \<le> round_half_even (a / ulp a)"
proof -
  have "fl_pos a \<le> 2 ^ 53 * ulp a"
    using fl_pos_bounds(2) [OF assms] unfolding ulp_scale_Suc .
  then have "of_int (round_half_even (a / ulp a)) \<le> (of_int (2 ^ 53) :: rat)"
    by (simp add: fl_pos_def)
  then show "round_half_even (a / ulp a) \<le> 2 ^ 53"
    by (simp only: of_int_le_iff)
  show "0 \<le> round_half_even (a / ulp a)"
    using assms ulp_pos [of a] by (intro round_half_even_ge) (simp add: less_imp_le)
qed

lemma fl_idem [simp]: "fl (fl x) = fl x"
proof -
  have p: "fl (fl_pos a) = fl_pos a" if "0 < a" for a
    unfolding fl_pos_def ulp_def using fl_pos_mantissa [OF that, unfolded ulp_def] by (intro fl_exact) simp
  have m: "fl (- y) = - fl y" for y
    by (simp add: fl_def)
  show ?thesis
    using p [of x] p [of "- x"] m by (simp add: fl_def [of x])
qed

text \<open>A positive value is an integer of at most 53 bits times its unit in the last place.\<close>

lemma float_mantissa:
  assumes "fl t = t" "0 < t"
  shows "\<exists>m. t = of_int m * ulp t \<and> 2 ^ 52 \<le> m \<and> m < 2 ^ 53"
proof -
  let ?m = "round_half_even (t / ulp t)"
  have t: "t = of_int ?m * ulp t"
    using assms by (simp add: fl_def fl_pos_def)
  have "of_int (2 ^ 52) * ulp t \<le> of_int ?m * ulp t" "of_int ?m * ulp t < of_int (2 ^ 53) * ulp t"
    unfolding t [symmetric] using ilog2_bounds [OF assms(2)] ulp_scale [of t] ulp_scale_Suc [of t] by simp_all
  then have "(of_int (2 ^ 52) :: rat) \<le> of_int ?m" "(of_int ?m :: rat) < of_int (2 ^ 53)"
    using ulp_pos [of t] by (simp_all only: mult_le_cancel_right_pos mult_less_cancel_right_pos)
  then have "2 ^ 52 \<le> ?m" "?m < 2 ^ 53"
    by (simp_all only: of_int_le_iff of_int_less_iff)
  with t show ?thesis
    by blast
qed

lemma ulp_mono: "0 < a \<Longrightarrow> a \<le> b \<Longrightarrow> \<exists>k. ulp b = of_int (2 ^ k) * ulp a"
  using powi2_split [of "ilog2 a - 52" "ilog2 b - 52"] ilog2_mono [of a b] by (auto simp: ulp_def)

lemma fl_diff_exact:
  assumes "fl t = t" "fl d = d" "0 < t" "t \<le> d" "d \<le> 2 * t"
  shows "fl (d - t) = d - t"
proof -
  obtain m where m: "t = of_int m * ulp t" "2 ^ 52 \<le> m" "m < 2 ^ 53"
    using float_mantissa [OF assms(1,3)] by blast
  obtain n where n: "d = of_int n * ulp d"
    using float_mantissa [OF assms(2)] assms(3,4) by force
  obtain k where k: "ulp d = of_int (2 ^ k) * ulp t"
    using ulp_mono [OF assms(3,4)] by blast
  have e: "d - t = of_int (n * 2 ^ k - m) * ulp t"
    using m(1) n k by (simp add: left_diff_distrib)
  have "of_int (n * 2 ^ k - m) * ulp t \<le> of_int m * ulp t" "0 \<le> of_int (n * 2 ^ k - m) * ulp t"
    unfolding e [symmetric] m(1) [symmetric] using assms(4,5) by simp_all
  then have "of_int (n * 2 ^ k - m) \<le> (of_int m :: rat)" "(0 :: rat) \<le> of_int (n * 2 ^ k - m)"
    using ulp_pos [of t] by (simp_all only: mult_le_cancel_right_pos) (simp add: zero_le_mult_iff)
  then have "n * 2 ^ k - m \<le> m" "0 \<le> n * 2 ^ k - m"
    by (simp_all only: of_int_le_iff of_int_0_le_iff)
  with m(3) show ?thesis
    unfolding e ulp_def by (intro fl_exact) simp
qed

lemma fl_add_upper:
  assumes "fl t = t" "0 < t" "0 < d"
  shows "fl (t + d) \<le> t + 2 * d"
proof (cases "ulp t \<le> d")
  case True
  have "ulp (t + d) \<le> 2 * d"
  proof (cases "d \<le> t")
    case le: True
    have "t + d < 2 powi (ilog2 t + 2)"
      using le ilog2_bounds(2) [OF assms(2)] by (simp add: power_int_add)
    then have "2 powi ilog2 (t + d) < (2::rat) powi (ilog2 t + 2)"
      using ilog2_bounds(1) [of "t + d"] assms by simp
    then have "ilog2 (t + d) \<le> ilog2 t + 1"
      by (metis add.commute linorder_not_le powi2_mono zle_add1_eq_le add.assoc one_add_one)
    then have "ulp (t + d) \<le> 2 powi (ilog2 t + 1 - 52)"
      unfolding ulp_def by (intro powi2_mono) simp
    also have "\<dots> = 2 * ulp t"
      by (simp add: ulp_def power_int_add power_int_diff)
    finally show ?thesis
      using True by simp
  next
    case False
    have "1 * ulp (t + d) \<le> 2 ^ 52 * ulp (t + d)"
      by (intro mult_right_mono) (simp_all add: less_imp_le)
    also have "\<dots> \<le> t + d"
      unfolding ulp_scale using ilog2_bounds(1) [of "t + d"] assms by simp
    finally show ?thesis
      using False by linarith
  qed
  moreover have "fl (t + d) \<le> t + d + ulp (t + d) / 2"
    using fl_pos_error [of "t + d"] abs_ge_self [of "fl_pos (t + d) - (t + d)"] fl_of_pos [of "t + d"] assms(2,3)
    by linarith
  ultimately show ?thesis
    by linarith
next
  case False
  obtain m where m: "t = of_int m * ulp t" "2 ^ 52 \<le> m" "m < 2 ^ 53"
    using float_mantissa [OF assms(1,2)] by blast
  have u: "0 < ulp t" by simp
  have "of_int (m + 1) * ulp t \<le> of_int (2 ^ 53) * ulp t"
    using m(3) by (intro mult_right_mono) (simp_all only: of_int_le_iff, simp_all add: less_imp_le)
  then have "t + ulp t \<le> 2 powi (ilog2 t + 1)"
    using m(1) ulp_scale_Suc [of t] by (simp add: distrib_right)
  then have "2 powi ilog2 (t + d) < (2::rat) powi (ilog2 t + 1)"
    using False ilog2_bounds(1) [of "t + d"] assms by simp
  then have "ilog2 (t + d) \<le> ilog2 t"
    by (metis linorder_not_le powi2_mono zle_add1_eq_le)
  then have "ilog2 (t + d) = ilog2 t"
    using ilog2_mono [of t "t + d"] assms by simp
  then have e: "ulp (t + d) = ulp t"
    by (simp add: ulp_def)
  have x: "(t + d) / ulp t = of_int m + d / ulp t"
    by (simp add: add_divide_distrib) (metis m(1) u less_irrefl nonzero_mult_div_cancel_right)
  have f: "fl (t + d) = of_int (round_half_even (of_int m + d / ulp t)) * ulp t"
    using assms by (simp add: fl_of_pos fl_pos_def e x)
  show ?thesis
  proof (cases "d / ulp t < 1 / 2")
    case True
    then have fl: "\<lfloor>of_int m + d / ulp t\<rfloor> = m"
      using assms(3) u by (intro floor_unique) simp_all
    with True have "round_half_even (of_int m + d / ulp t) = m"
      unfolding round_half_even_def Let_def fl by simp
    with f m(1) assms(3) show ?thesis
      by simp
  next
    case d: False
    have "round_half_even (of_int m + d / ulp t) \<le> m + 1"
      using False u by (intro round_half_even_le) (simp add: divide_le_eq)
    then have "fl (t + d) \<le> of_int (m + 1) * ulp t"
      unfolding f using u by (intro mult_right_mono) (simp_all only: of_int_le_iff less_imp_le)
    also have "\<dots> = t + ulp t"
      using m(1) by (simp add: distrib_right)
    also have "\<dots> \<le> t + 2 * d"
      using d u by (simp add: not_less divide_le_eq le_divide_eq)
    finally show ?thesis .
  qed
qed

lemma fl_le_0 [simp]: "fl x \<le> 0 \<longleftrightarrow> x \<le> 0"
  using fl_mono [of x 0] fl_pos_gt0 [of x] by (cases "0 < x") (auto simp: fl_of_pos)

end
