(* ===== verification/Agent_Termination.thy ===== *)
theory Agent_Termination
  imports Agent_Runner Float_Sums
begin

text \<open>
  The bounded agent runner, part four: it returns. The laws of the outside are those the code relies
  on: the monotonic clock does not go back and its readings are binary64 values from 1 second up, a
  sleep lasts at least as long as asked, and the queue hands out no more events than a budget that
  nothing increases (a reader puts at most four).
\<close>

definition later :: "('w \<Rightarrow> rat) \<Rightarrow> ('w \<Rightarrow> nat) \<Rightarrow> 'w \<Rightarrow> 'w \<Rightarrow> bool" where
  "later now budget w w' \<longleftrightarrow> now w \<le> now w' \<and> budget w' \<le> budget w"

definition host_laws :: "'w os \<Rightarrow> ('w \<Rightarrow> rat) \<Rightarrow> ('w \<Rightarrow> nat) \<Rightarrow> bool" where
  "host_laws h now budget \<longleftrightarrow>
     (\<forall>w. now w \<le> fst (os_clock h w) \<and> fst (os_clock h w) \<le> now (snd (os_clock h w))
          \<and> fl (fst (os_clock h w)) = fst (os_clock h w) \<and> 1 \<le> fst (os_clock h w) \<and> later now budget w (snd (os_clock h w)))
     \<and> (\<forall>d w. 0 \<le> d \<longrightarrow> now w + d \<le> now (os_sleep h d w) \<and> later now budget w (os_sleep h d w))
     \<and> (\<forall>w. later now budget w (snd (os_next h w)) \<and> (fst (os_next h w) \<noteq> None \<longrightarrow> budget (snd (os_next h w)) < budget w))
     \<and> (\<forall>w. later now budget w (snd (os_prepare h w)))
     \<and> (\<forall>c l w. later now budget w (snd (os_start h c l w)))
     \<and> (\<forall>t w. later now budget w (snd (os_show h t w)))
     \<and> (\<forall>p w. later now budget w (snd (os_events h p w)))
     \<and> (\<forall>sig t w. later now budget w (snd (os_kill h sig t w)))
     \<and> (\<forall>w. later now budget w (snd (os_poll h w)))
     \<and> (\<forall>w. later now budget w (snd (os_terminate h w)))
     \<and> (\<forall>w. later now budget w (snd (os_kill_process h w)))
     \<and> (\<forall>t w. later now budget w (snd (os_wait h t w)))
     \<and> (\<forall>i w. later now budget w (snd (os_thread_start h i w)))
     \<and> (\<forall>i w. later now budget w (snd (os_alive h i w)))
     \<and> (\<forall>i w. later now budget w (os_join h i w))
     \<and> (\<forall>i w. later now budget w (snd (os_drained h i w)))
     \<and> (\<forall>w. later now budget w (snd (os_close h w)))"

section \<open>Programs that return\<close>

definition ends :: "('w \<Rightarrow> rat) \<Rightarrow> ('w \<Rightarrow> nat) \<Rightarrow> ('w \<Rightarrow> bool) \<Rightarrow> ('w, 'a) prog \<Rightarrow> bool" where
  "ends now budget Q m \<longleftrightarrow>
     (\<forall>s :: 'w st. Q (fst s) \<longrightarrow> (\<exists>x s'. m s = Some (x, s') \<and> later now budget (fst s) (fst s')))"

definition stable :: "('w \<Rightarrow> rat) \<Rightarrow> ('w \<Rightarrow> nat) \<Rightarrow> ('w \<Rightarrow> bool) \<Rightarrow> bool" where
  "stable now budget Q \<longleftrightarrow> (\<forall>w w'. Q w \<longrightarrow> later now budget w w' \<longrightarrow> Q w')"

lemma later_refl [simp]: "later now budget w w"
  by (simp add: later_def)

lemma later_trans [trans]: "later now budget a b \<Longrightarrow> later now budget b c \<Longrightarrow> later now budget a c"
  by (auto simp: later_def)

lemma ends_weaken: "ends now budget Q m \<Longrightarrow> (\<And>w. P w \<Longrightarrow> Q w) \<Longrightarrow> ends now budget P m"
  by (simp add: ends_def)

lemma ends_ret: "ends now budget Q (ret x)"
  by (simp add: ends_def ret_def)

lemma ends_ask: "(\<And>w. later now budget w (snd (op w))) \<Longrightarrow> ends now budget Q (ask op note)"
  unfolding ends_def ask_def by (auto split: prod.splits) (metis snd_conv)

lemma ends_quiet: "(\<And>w. later now budget w (snd (op w))) \<Longrightarrow> ends now budget Q (quiet op)"
  unfolding ends_def quiet_def by (auto split: prod.splits) (metis snd_conv)

lemma ends_act: "(\<And>w. later now budget w (op w)) \<Longrightarrow> ends now budget Q (act op)"
  unfolding ends_def act_def by simp

lemma ends_bnd:
  fixes m :: "('w, 'a) prog"
  assumes "ends now budget Q m" "stable now budget Q" "\<And>x. ends now budget Q (f x)"
  shows "ends now budget Q (bnd m f)"
  unfolding ends_def
proof (intro allI impI)
  fix s :: "'w st"
  assume q: "Q (fst s)"
  then obtain x s1 where x: "m s = Some (x, s1)" "later now budget (fst s) (fst s1)"
    using assms(1) unfolding ends_def by blast
  with q assms(2) have "Q (fst s1)"
    by (auto simp: stable_def)
  with assms(3) [of x] obtain y s2 where "f x s1 = Some (y, s2)" "later now budget (fst s1) (fst s2)"
    unfolding ends_def by blast
  with x show "\<exists>x s'. bnd m f s = Some (x, s') \<and> later now budget (fst s) (fst s')"
    by (auto simp: bnd_def intro: later_trans)
qed

lemma ends_pair: "(\<And>a b. ends now budget Q (f a b)) \<Longrightarrow> ends now budget Q (case x of (a, b) \<Rightarrow> f a b)"
  by (cases x) simp

lemma ends_if: "(b \<Longrightarrow> ends now budget Q m) \<Longrightarrow> (\<not> b \<Longrightarrow> ends now budget Q m') \<Longrightarrow> ends now budget Q (if b then m else m')"
  by simp

lemma ends_option: "(x = None \<Longrightarrow> ends now budget Q m) \<Longrightarrow> (\<And>y. x = Some y \<Longrightarrow> ends now budget Q (f y)) \<Longrightarrow>
    ends now budget Q (case x of None \<Rightarrow> m | Some y \<Rightarrow> f y)"
  by (cases x) simp_all

lemma stable_True [simp]: "stable now budget (\<lambda>_. True)"
  by (simp add: stable_def)

lemma ends_any: "ends now budget (\<lambda>_. True) m \<Longrightarrow> ends now budget Q m"
  by (erule ends_weaken) simp

section \<open>The straight-line programs\<close>

named_theorems ending \<open>programs that return in every world that keeps the laws\<close>

lemma op_later:
  assumes "host_laws h now budget"
  shows "later now budget w (snd (os_clock h w))" "later now budget w (snd (os_next h w))"
    "later now budget w (snd (os_prepare h w))" "later now budget w (snd (os_start h c l w))"
    "later now budget w (snd (os_show h d w))" "later now budget w (snd (os_events h p w))"
    "later now budget w (snd (os_kill h sig d w))" "later now budget w (snd (os_poll h w))"
    "later now budget w (snd (os_terminate h w))" "later now budget w (snd (os_kill_process h w))"
    "later now budget w (snd (os_wait h d w))" "later now budget w (snd (os_thread_start h i w))"
    "later now budget w (snd (os_alive h i w))" "later now budget w (os_join h i w)"
    "later now budget w (snd (os_drained h i w))" "later now budget w (snd (os_close h w))"
  using assms by (simp_all add: host_laws_def)

lemma ends_clock [ending]: "host_laws h now budget \<Longrightarrow> ends now budget Q (clock h)"
  unfolding clock_def by (rule ends_ask) (rule op_later)

lemma ends_poll_process [ending]: "host_laws h now budget \<Longrightarrow> ends now budget Q (poll_process h)"
  unfolding poll_process_def poll_def
  by (rule ends_any) (intro ends_bnd ends_ask ends_ret op_later stable_True)

lemma ends_drained [ending]: "host_laws h now budget \<Longrightarrow> ends now budget Q (drained h i)"
  unfolding drained_def by (rule ends_ask) (rule op_later)

lemma ends_probe [ending]: "host_laws h now budget \<Longrightarrow> ends now budget Q (probe_scope h p)"
  unfolding probe_scope_def by (rule ends_ask) (simp add: op_later case_prod_beta)

lemma ends_query [ending]: "host_laws h now budget \<Longrightarrow> ends now budget Q (query_path h t)"
  unfolding query_path_def by (rule ends_ask) (simp add: op_later case_prod_beta)

lemma ends_signal [ending]: "host_laws h now budget \<Longrightarrow> ends now budget Q (signal_scope h sig t)"
  unfolding signal_scope_def by (rule ends_ask) (rule op_later)

lemma ends_any_alive [ending]: "host_laws h now budget \<Longrightarrow> ends now budget Q (any_alive h ts)"
proof (rule ends_any, induction ts)
  case Nil
  show ?case by (simp add: ends_ret)
next
  case (Cons t ts)
  then show ?case
    by (auto intro!: ends_bnd ends_ask ends_ret op_later)
qed

lemma ends_execution_finished [ending]:
  "host_laws h now budget \<Longrightarrow> ends now budget Q (execution_finished h ts)"
  unfolding execution_finished_def
  by (rule ends_any) (auto intro!: ends_bnd ending ends_ret)

lemma ends_cleanup_now [ending]: "host_laws h now budget \<Longrightarrow> ends now budget Q (cleanup_now h path ts)"
  unfolding cleanup_now_def
  by (rule ends_any) (auto intro!: ends_bnd ending ends_ret ends_option)

lemma ends_join_all [ending]: "host_laws h now budget \<Longrightarrow> ends now budget Q (join_all h ts)"
proof (rule ends_any, induction ts)
  case Nil
  show ?case by (simp add: ends_ret)
next
  case (Cons t ts)
  then show ?case
    by (auto intro!: ends_bnd ends_act op_later)
qed

lemma ends_end_process [ending]: "host_laws h now budget \<Longrightarrow> ends now budget Q (end_process h g)"
  unfolding end_process_def
  by (rule ends_any) (auto intro!: ends_bnd ends_ask ends_ret op_later split: wait_answer.splits)

lemma ends_reap_end [ending]: "host_laws h now budget \<Longrightarrow> ends now budget Q (reap_end h ts g)"
  unfolding reap_end_def
  by (rule ends_any) (auto intro!: ends_bnd ending ends_ret)

lemma ends_reader_state [ending]: "host_laws h now budget \<Longrightarrow> ends now budget Q (reader_state h ts i)"
  unfolding reader_state_def by (auto intro!: ending ends_ret)

lemma ends_make_result [ending]: "host_laws h now budget \<Longrightarrow> ends now budget Q (make_result h out hp ts b)"
  unfolding make_result_def
  by (rule ends_any) (auto intro!: ends_bnd ending ends_ret)

lemma ends_close_and_result [ending]:
  "host_laws h now budget \<Longrightarrow> ends now budget Q (close_and_result h out hp ts b)"
  unfolding close_and_result_def
  by (rule ends_any) (auto intro!: ends_bnd ending ends_ask op_later)

lemma ends_start_threads [ending]: "host_laws h now budget \<Longrightarrow> ends now budget Q (start_threads h ts)"
proof (rule ends_any, induction ts)
  case Nil
  show ?case by (simp add: ends_ret)
next
  case (Cons t ts)
  then show ?case
    by (auto intro!: ends_bnd ends_ask ends_ret op_later)
qed

lemma ends_judge_finished [ending]: "host_laws h now budget \<Longrightarrow> ends now budget Q (judge_finished h p)"
  unfolding judge_finished_def
  by (rule ends_any) (auto intro!: ends_bnd ending ends_ret)

section \<open>Time\<close>

lemma POLL_bounds: "1 / 128 \<le> POLL_SECONDS" "0 < POLL_SECONDS"
proof -
  have "fl (of_int 1 * 2 powi (- 7)) = of_int 1 * 2 powi (- 7)"
    by (rule fl_exact) simp
  then have "fl (1 / 128) = 1 / 128"
    by (simp add: power_int_minus)
  moreover have "fl (1 / 128) \<le> fl (1 / 100)"
    by (rule fl_mono) simp
  ultimately show "1 / 128 \<le> POLL_SECONDS"
    by (simp add: POLL_SECONDS_def)
  then show "0 < POLL_SECONDS"
    by linarith
qed

text \<open>
  The time left until a deadline, as the code computes it: it is zero or less exactly when the deadline
  has passed, and a nap of it or of one polling interval reaches the deadline or lasts one interval.
\<close>

lemma POLL_le_1: "POLL_SECONDS \<le> 1" "fl POLL_SECONDS = POLL_SECONDS"
  using fl_mono [of "1 / 100" 1] fl_int [of 1] by (simp_all add: POLL_SECONDS_def)

lemma min_POLL:
  assumes "fl t = t" "1 \<le> t" "fl dl = dl" "0 < dl - t"
  shows "min POLL_SECONDS (dl - t) \<le> min POLL_SECONDS (fl (dl - t))"
proof (cases "POLL_SECONDS \<le> dl - t")
  case True
  then have "POLL_SECONDS \<le> fl (dl - t)"
    using fl_mono [of POLL_SECONDS "dl - t"] POLL_le_1(2) by simp
  then show ?thesis
    by simp
next
  case False
  then have "fl (dl - t) = dl - t"
    using assms POLL_le_1(1) by (intro fl_diff_exact) linarith+
  then show ?thesis
    by simp
qed

text \<open>At most \<open>n\<close> naps are left until the deadline.\<close>

definition in_time :: "('w \<Rightarrow> rat) \<Rightarrow> rat \<Rightarrow> nat \<Rightarrow> 'w \<Rightarrow> bool" where
  "in_time now dl n w \<longleftrightarrow> dl - now w \<le> of_nat n * POLL_SECONDS"

lemma in_time_mono: "in_time now dl m w \<Longrightarrow> m \<le> n \<Longrightarrow> in_time now dl n w"
  unfolding in_time_def using POLL_bounds(2)
  by (meson less_imp_le mult_right_mono of_nat_mono order_trans)

lemma stable_in_time: "stable now budget (in_time now dl n)"
  by (auto simp: stable_def in_time_def later_def)

lemma stable_conj: "stable now budget P \<Longrightarrow> stable now budget Q \<Longrightarrow> stable now budget (\<lambda>w. P w \<and> Q w)"
  by (auto simp: stable_def)

lemma stable_after: "stable now budget (\<lambda>w. t \<le> now w)"
  by (auto simp: stable_def later_def)

lemma stable_budget: "stable now budget (\<lambda>w. budget w < m)"
  by (auto simp: stable_def later_def)

lemmas stables = stable_True stable_in_time stable_conj stable_after stable_budget

text \<open>Reading the clock: the reading lies between the world before and the world after.\<close>

lemma ends_bnd_clock:
  assumes laws: "host_laws h now budget" and st: "stable now budget Q"
    and f: "\<And>w t. Q w \<Longrightarrow> now w \<le> t \<Longrightarrow> fl t = t \<and> 1 \<le> t \<Longrightarrow> ends now budget (\<lambda>w'. Q w' \<and> t \<le> now w') (f t)"
  shows "ends now budget Q (bnd (clock h) f)"
  unfolding ends_def
proof (intro allI impI)
  fix s :: "'a st"
  assume q: "Q (fst s)"
  obtain t w' where c: "os_clock h (fst s) = (t, w')"
    by (cases "os_clock h (fst s)")
  then have l: "now (fst s) \<le> t" "t \<le> now w'" "fl t = t \<and> 1 \<le> t" "later now budget (fst s) w'"
    using laws unfolding host_laws_def by (metis fst_conv snd_conv)+
  then have "Q w'"
    using q st by (auto simp: stable_def)
  with f [OF q l(1,3)] l(2) obtain x s' where
    "f t (w', snd s @ [O_clock t]) = Some (x, s')" "later now budget w' (fst s')"
    unfolding ends_def by fastforce
  with c l(4) show "\<exists>x s'. bnd (clock h) f s = Some (x, s') \<and> later now budget (fst s) (fst s')"
    by (auto simp: bnd_def clock_def ask_def intro: later_trans)
qed

lemma ends_bnd_sleep:
  assumes laws: "host_laws h now budget" and d: "0 \<le> d"
    and q: "\<And>w w'. Q w \<Longrightarrow> now w + d \<le> now w' \<Longrightarrow> later now budget w w' \<Longrightarrow> P w'"
    and f: "ends now budget P (f ())"
  shows "ends now budget Q (bnd (sleep h d) f)"
  unfolding ends_def
proof (intro allI impI)
  fix s :: "'a st"
  assume "Q (fst s)"
  have l: "now (fst s) + d \<le> now (os_sleep h d (fst s))" "later now budget (fst s) (os_sleep h d (fst s))"
    using laws d by (simp_all add: host_laws_def)
  with q \<open>Q (fst s)\<close> have "P (os_sleep h d (fst s))"
    by blast
  with f obtain x s' where "f () (os_sleep h d (fst s), snd s) = Some (x, s')" "later now budget (os_sleep h d (fst s)) (fst s')"
    unfolding ends_def by fastforce
  with l(2) show "\<exists>x s'. bnd (sleep h d) f s = Some (x, s') \<and> later now budget (fst s) (fst s')"
    by (auto simp: bnd_def sleep_def act_def intro: later_trans)
qed

lemma in_time_0: "in_time now dl 0 w \<Longrightarrow> now w \<le> t \<Longrightarrow> \<not> t < dl"
  by (simp add: in_time_def)

lemma in_time_sleep:
  "in_time now dl (Suc n) w \<Longrightarrow> now w + POLL_SECONDS \<le> now w' \<Longrightarrow> in_time now dl n w'"
  by (simp add: in_time_def algebra_simps)

section \<open>The loops\<close>

lemma ends_reap:
  assumes "host_laws h now budget"
  shows "ends now budget (in_time now dl n) (reap_local_launcher h (Suc n) ts dl g)"
proof (induction n)
  case 0
  show ?case
    unfolding reap_local_launcher.simps
    by (intro ends_bnd_clock [OF assms] stables ends_if ends_reap_end [OF assms]) (auto dest: in_time_0)
next
  case (Suc n)
  show ?case
    by (subst reap_local_launcher.simps(2), intro ends_bnd_clock [OF assms] stables ends_if ends_reap_end [OF assms]
          ends_bnd_sleep [OF assms, where P = "in_time now dl n"] ends_bnd ends_execution_finished [OF assms] ends_pair ends_ret Suc.IH)
       (use POLL_bounds in \<open>auto intro: in_time_sleep\<close>)
qed

lemma ends_await_exit:
  assumes "host_laws h now budget"
  shows "ends now budget (in_time now dl n) (await_exit h (Suc n) dl)"
proof (induction n)
  case 0
  show ?case
    unfolding await_exit.simps
    by (intro ends_bnd_clock [OF assms] stables ends_if ends_ret) (auto dest: in_time_0)
next
  case (Suc n)
  show ?case
    by (subst await_exit.simps(2), intro ends_bnd_clock [OF assms] stables ends_if
          ends_bnd_sleep [OF assms, where P = "in_time now dl n"] ends_bnd ends_poll_process [OF assms] ends_pair ends_ret Suc.IH)
       (use POLL_bounds in \<open>auto intro: in_time_sleep\<close>)
qed

lemma ends_next_event:
  assumes "host_laws h now budget"
  shows "ends now budget (\<lambda>w. budget w < n) (next_event h n sel)"
proof (induction n arbitrary: sel)
  case 0
  show ?case by (simp add: ends_def)
next
  case (Suc n)
  show ?case
    unfolding ends_def
  proof (intro allI impI)
    fix s :: "'a st"
    assume b: "budget (fst s) < Suc n"
    obtain e w' where e: "os_next h (fst s) = (e, w')"
      by (cases "os_next h (fst s)")
    then have l: "later now budget (fst s) w'" "e \<noteq> None \<longrightarrow> budget w' < budget (fst s)"
      using assms unfolding host_laws_def by (metis fst_conv snd_conv)+
    show "\<exists>x s'. next_event h (Suc n) sel s = Some (x, s') \<and> later now budget (fst s) (fst s')"
    proof (cases e)
      case None
      with e l show ?thesis
        by (simp add: bnd_def ask_def ret_def)
    next
      case (Some x)
      with l b have "budget w' < n"
        by simp
      with Suc [of "case sel of None \<Rightarrow> Some x | Some y \<Rightarrow> Some y"] obtain y s' where
        "next_event h n (case sel of None \<Rightarrow> Some x | Some y \<Rightarrow> Some y) (w', snd s @ [O_event e]) = Some (y, s')"
        "later now budget w' (fst s')"
        unfolding ends_def by fastforce
      with e Some l show ?thesis
        by (cases s') (auto simp: bnd_def ask_def ret_def intro: later_trans)
    qed
  qed
qed

text \<open>A nap before a deadline uses up one of the naps left.\<close>

lemma in_time_min:
  assumes "in_time now dl (Suc n) w1" "t \<le> now w1" "now w1 + d \<le> now w2" "min POLL_SECONDS (dl - t) \<le> d"
  shows "in_time now dl n w2"
proof (cases "POLL_SECONDS \<le> dl - t")
  case True
  with assms show ?thesis by (auto intro: in_time_sleep)
next
  case False
  with assms have "dl - now w2 \<le> 0"
    by simp
  moreover have "0 \<le> of_nat n * POLL_SECONDS"
    using POLL_bounds(2) by simp
  ultimately show ?thesis
    unfolding in_time_def by linarith
qed

lemma ends_bnd_min_sleep:
  assumes laws: "host_laws h now budget" and g: "fl dl = dl" "fl t = t \<and> 1 \<le> t" "0 < dl - t" and st: "stable now budget R"
    and f: "ends now budget (\<lambda>w. in_time now dl n w \<and> R w) (f ())"
  shows "ends now budget (\<lambda>w. (in_time now dl (Suc n) w \<and> R w) \<and> t \<le> now w)
    (bnd (sleep h (min POLL_SECONDS (fl (dl - t)))) f)"
proof -
  have m: "min POLL_SECONDS (dl - t) \<le> min POLL_SECONDS (fl (dl - t))"
    using g by (intro min_POLL) auto
  then have "0 \<le> min POLL_SECONDS (fl (dl - t))"
    using g(3) POLL_bounds(2) by linarith
  then show ?thesis
    by (rule ends_bnd_sleep [OF laws, where P = "\<lambda>w. in_time now dl n w \<and> R w"])
       (use f st m in \<open>auto simp: stable_def intro: in_time_min\<close>)
qed

lemma ends_bnd_nap:
  assumes laws: "host_laws h now budget" and g: "fl dl = dl" and st: "stable now budget R"
    and f: "ends now budget (\<lambda>w. in_time now dl n w \<and> R w) (f ())"
  shows "ends now budget (\<lambda>w. in_time now dl (Suc n) w \<and> R w) (bnd (nap h dl) f)"
proof -
  have e: "bnd (nap h dl) f = bnd (clock h) (\<lambda>t. bnd (let remaining = fl (dl - t) in
       if 0 < remaining then sleep h (min POLL_SECONDS remaining) else ret ()) f)"
    by (auto simp: nap_def bnd_def fun_eq_iff split: option.splits)
  show ?thesis
    unfolding e
  proof (intro ends_bnd_clock [OF laws] stables st)
    fix w t
    assume w: "in_time now dl (Suc n) w \<and> R w" "now w \<le> t" "fl t = t \<and> 1 \<le> t"
    show "ends now budget (\<lambda>w'. (in_time now dl (Suc n) w' \<and> R w') \<and> t \<le> now w')
        (bnd (let remaining = fl (dl - t) in
           if 0 < remaining then sleep h (min POLL_SECONDS remaining) else ret ()) f)"
    proof (cases "0 < dl - t")
      case False
      have "bnd (ret ()) f = f ()"
        by (simp add: bnd_def ret_def fun_eq_iff)
      moreover have "in_time now dl n w'" if "t \<le> now w'" for w'
        using False that POLL_bounds(2) unfolding in_time_def
        by (meson diff_le_0_iff_le less_imp_le mult_nonneg_nonneg not_less of_nat_0_le_iff order_trans)
      moreover have "\<not> 0 < fl (dl - t)"
        using False by (simp add: not_less)
      ultimately show ?thesis
        using f by (auto intro: ends_weaken)
    next
      case True
      then have "0 < fl (dl - t)"
        using fl_le_0 [of "dl - t"] by linarith
      with ends_bnd_min_sleep [of h now budget dl t R n f] laws g w(3) True st f show ?thesis
        by simp
    qed
  qed
qed

lemma ends_reap_after_empty:
  assumes "host_laws h now budget"
  shows "ends now budget (in_time now dl n) (reap_after_empty h (Suc n) ts dl g bf)"
  unfolding reap_after_empty_def by (intro ends_bnd ends_reap assms stables ends_ret)

lemma ends_final_probe:
  assumes "host_laws h now budget"
  shows "ends now budget (in_time now dl n) (final_probe h (Suc n) p ts dl g bf)"
  unfolding final_probe_def
  by (intro ends_bnd ends_probe assms stables)
     (auto split: probe.splits intro!: ends_ret ends_reap_after_empty assms)

lemma ends_wait_empty:
  assumes "host_laws h now budget" "fl dl = dl" "n \<le> m"
  shows "ends now budget (in_time now dl n) (wait_empty h (Suc m) (Suc n) p ts dl g bf)"
  using assms(3)
proof (induction n arbitrary: bf)
  case 0
  show ?case
    unfolding wait_empty.simps
    by (intro ends_bnd_clock [OF assms(1)] stables ends_if ends_weaken [OF ends_final_probe [OF assms(1), where n = m]])
       (auto dest: in_time_0 intro: in_time_mono)
next
  case (Suc n)
  have k: "ends now budget (\<lambda>w. in_time now dl (Suc n) w \<and> t \<le> now w)
      (bnd (nap h dl) (\<lambda>_. wait_empty h (Suc m) (Suc n) p ts dl g b))" for t b
    by (rule ends_bnd_nap [OF assms(1,2) stable_after], rule ends_weaken [OF Suc.IH]) (use Suc.prems in auto)
  show ?case
    by (subst wait_empty.simps(2), intro ends_bnd_clock [OF assms(1)] stables ends_if k
          ends_weaken [OF ends_final_probe [OF assms(1), where n = m]] ends_weaken [OF ends_reap_after_empty [OF assms(1), where n = m]]
          ends_bnd [OF ends_probe [OF assms(1)]])
       (use Suc.prems in \<open>auto intro: in_time_mono\<close>)
qed

section \<open>The run\<close>

text \<open>\<open>m\<close> naps cover twice a duration, the most by which a rounded deadline can lie ahead.\<close>

definition covers :: "nat \<Rightarrow> rat \<Rightarrow> bool" where
  "covers m d \<longleftrightarrow> 0 < d \<and> 2 * d \<le> of_nat m * POLL_SECONDS"

lemma covers_in_time:
  "covers m d \<Longrightarrow> fl t = t \<and> 1 \<le> t \<Longrightarrow> t \<le> now w \<Longrightarrow> in_time now (fl (t + d)) m w"
  using fl_add_upper [of t d] by (simp add: covers_def in_time_def)

lemma ends_stop_unknown:
  assumes "host_laws h now budget" "covers m (grace_seconds l)"
  shows "ends now budget Q (stop_unknown h (Suc m) ts l)"
  unfolding stop_unknown_def
  by (rule ends_any, intro ends_bnd [OF ends_signal [OF assms(1)]] stables ends_bnd_clock [OF assms(1)]
        ends_bnd [OF ends_weaken [OF ends_await_exit [OF assms(1), where n = m]]]
        ends_bnd [OF ends_weaken [OF ends_reap [OF assms(1), where n = m]]] ends_ret)
     (auto intro: covers_in_time [OF assms(2)])

lemma ends_wait_for_cleanup:
  assumes "host_laws h now budget" "covers m d" "fl t = t \<and> 1 \<le> t"
  shows "ends now budget (\<lambda>w. Q w \<and> t \<le> now w) (wait_for_cleanup h (Suc m) (Some p) ts (fl (t + d)) g)"
  unfolding wait_for_cleanup_def option.case
  by (rule ends_weaken [OF ends_wait_empty [OF assms(1) fl_idem order_refl]])
     (auto intro: covers_in_time [OF assms(2,3)])

lemma ends_stop_known:
  assumes "host_laws h now budget" "covers m (grace_seconds l)"
  shows "ends now budget Q (stop_known h (Suc m) p ts l bf)"
  unfolding stop_known_def
  by (rule ends_any, intro ends_bnd [OF ends_signal [OF assms(1)]] stables ends_bnd_clock [OF assms(1)]
        ends_bnd [OF ends_wait_for_cleanup [OF assms]] ends_pair)
     (auto simp: Let_def intro!: ends_ret ends_bnd [OF ends_signal [OF assms(1)]] stables ends_bnd_clock [OF assms(1)]
        ends_bnd [OF ends_wait_for_cleanup [OF assms]])

lemma ends_stop_and_prove:
  assumes "host_laws h now budget" "covers m (grace_seconds l)"
  shows "ends now budget Q (stop_and_prove h (Suc m) path ts l)"
  unfolding stop_and_prove_def
  by (rule ends_any, intro ends_bnd [OF ends_cleanup_now [OF assms(1)]] stables ends_pair ends_if ends_ret ends_option
        ends_stop_unknown [OF assms] ends_stop_known [OF assms])

lemma ends_finish:
  assumes "host_laws h now budget" "covers m (grace_seconds l)"
  shows "ends now budget Q (finish h (Suc m) p l pending bf)"
  unfolding finish_def
  by (rule ends_any, intro ends_bnd [OF ends_stop_and_prove [OF assms]] ends_bnd [OF ends_drained [OF assms(1)]]
        stables ends_pair ends_close_and_result [OF assms(1)])

lemma ends_watch_loop:
  assumes "host_laws h now budget" "fl dl = dl"
  shows "ends now budget (\<lambda>w. in_time now dl n w \<and> budget w < m) (watch_loop h m (Suc n) dl p)"
proof (induction n)
  case 0
  show ?case
    unfolding watch_loop.simps
    by (intro ends_bnd [OF ends_weaken [OF ends_next_event [OF assms(1)]]] stables ends_option ends_ret
          ends_bnd_clock [OF assms(1)] ends_if) (auto dest: in_time_0)
next
  case (Suc n)
  have k: "ends now budget (\<lambda>w. (in_time now dl (Suc n) w \<and> budget w < m) \<and> t \<le> now w)
      (bnd (nap h dl) (\<lambda>_. watch_loop h m (Suc n) dl p))" for t
    by (rule ends_weaken [OF ends_bnd_nap [OF assms stable_budget Suc.IH]]) auto
  show ?case
    by (subst watch_loop.simps(2), intro ends_bnd [OF ends_weaken [OF ends_next_event [OF assms(1)]]] stables ends_option
          ends_ret ends_bnd_clock [OF assms(1)] ends_if ends_bnd [OF ends_execution_finished [OF assms(1)]] ends_pair k
          ends_bnd [OF ends_if [OF ends_judge_finished [OF assms(1)] ends_ret]]) auto
qed

lemma ends_find_path:
  assumes "host_laws h now budget" "fl dl = dl"
  shows "ends now budget (in_time now dl n) (find_path h (Suc n) dl l)"
proof (induction n)
  case 0
  show ?case
    unfolding find_path.simps
    by (intro ends_bnd_clock [OF assms(1)] stables) (auto dest: in_time_0 simp: Let_def intro: ends_ret)
next
  case (Suc n)
  have k: "ends now budget (\<lambda>w. in_time now dl (Suc n) w \<and> t \<le> now w)
      (bnd (sleep h (min POLL_SECONDS (fl (dl - t)))) f)"
    if "ends now budget (in_time now dl n) (f ())" "0 < dl - t" "fl t = t" "1 \<le> t" for t and f :: "unit \<Rightarrow> ('a, 'b) prog"
    by (rule ends_weaken [OF ends_bnd_min_sleep [OF assms _ _ stable_True]]) (use that in auto)
  show ?case
    by (subst find_path.simps(2), intro ends_bnd_clock [OF assms(1)] stables)
       (auto simp: Let_def not_le simp del: find_path.simps split: sum.splits option.splits
          intro!: ends_ret ends_bnd [OF ends_query [OF assms(1)]] stables ends_bnd [OF ends_poll_process [OF assms(1)]] k Suc.IH)
qed

lemma ends_supervise:
  assumes "host_laws h now budget" "covers m (grace_seconds l)" "fl dl = dl"
  shows "ends now budget (\<lambda>w. in_time now dl m w \<and> budget w < Suc m) (supervise h (Suc m) dl l path pending bf)"
  unfolding supervise_def
  by (intro ends_bnd [OF ends_start_threads [OF assms(1)]] stables ends_pair ends_if ends_option
        ends_bnd [OF ends_stop_and_prove [OF assms(1,2)]] ends_close_and_result [OF assms(1)]
        ends_finish [OF assms(1,2)] ends_bnd [OF ends_watch_loop [OF assms(1,3), where n = m]])
     (auto split: watch.splits intro: ends_close_and_result [OF assms(1)] ends_finish [OF assms(1,2)])

lemma ends_launch:
  assumes "host_laws h now budget" "covers m (grace_seconds l)" "fl dl = dl"
  shows "ends now budget (\<lambda>w. in_time now dl m w \<and> budget w < Suc m) (launch h (Suc m) dl command l)"
  unfolding launch_def
  by (intro ends_bnd [OF ends_quiet] op_later [OF assms(1)] stables)
     (auto split: start_answer.splits simp del: find_path.simps intro!: ends_close_and_result [OF assms(1)]
        ends_bnd [OF ends_weaken [OF ends_find_path [OF assms(1,3), where n = m]]] stables
        ends_bnd [OF ends_stop_and_prove [OF assms(1,2)]] ends_supervise [OF assms])

lemma ends_run:
  assumes "host_laws h now budget" "covers m (grace_seconds l)" "covers m (runtime_seconds l)"
  shows "ends now budget (\<lambda>w. budget w < Suc m) (run_bounded_agent h (Suc m) command l)"
  unfolding run_bounded_agent_def
  by (intro ends_if ends_make_result [OF assms(1)] ends_bnd_clock [OF assms(1)] stables)
     (auto simp: Let_def intro!: ends_bnd [OF ends_quiet] op_later [OF assms(1)] stables ends_close_and_result [OF assms(1)]
        ends_weaken [OF ends_launch [OF assms(1,2)]] covers_in_time [OF assms(3)])

end
