(* ===== verification/Agent_Run.thy ===== *)
theory Agent_Run
  imports Agent_Termination
begin

text \<open>
  The bounded agent runner, part five: what one run reports, over every world. The history of a run is
  the sequence of answers it saw; the properties say what a caller may conclude from the result.
\<close>

text \<open>
  A concrete world, to show that the laws hold somewhere: the clock of world \<open>k\<close> reads \<open>2 ^ k\<close>
  seconds, a sleep of \<open>d\<close> seconds moves on by the least whole number not below \<open>d\<close>, and the client
  has exited, its readers are done and its scope is gone.
\<close>

definition quick_os :: "nat os" where
  "quick_os = \<lparr>os_clock = (\<lambda>k. (2 ^ k, k)), os_sleep = (\<lambda>d k. k + nat \<lceil>d\<rceil>), os_prepare = (\<lambda>k. (True, k)),
     os_start = (\<lambda>_ _ k. (Started True, k)),
     os_show = (\<lambda>_ k. (Show_done 0 ''LoadState=loaded\<newline>ControlGroup=/u/a.scope\<newline>'', k)),
     os_events = (\<lambda>_ k. (Events_absent Dir_absent, k)), os_kill = (\<lambda>_ _ k. (True, k)), os_poll = (\<lambda>k. (Some (Some 0), k)),
     os_terminate = (\<lambda>k. (True, k)), os_kill_process = (\<lambda>k. (True, k)), os_wait = (\<lambda>_ k. (Exited, k)),
     os_thread_start = (\<lambda>_ k. (True, k)), os_alive = (\<lambda>_ k. (False, k)), os_join = (\<lambda>_ k. k), os_next = (\<lambda>k. (None, k)),
     os_drained = (\<lambda>_ k. (drain0, k)), os_close = (\<lambda>k. (True, k))\<rparr>"

definition small_limits :: run_limits where
  "small_limits = \<lparr>runtime_seconds = 300, grace_seconds = 5, stream_limit_bytes = 1000\<rparr>"

lemma small_limits_simps [simp]:
  "runtime_seconds small_limits = 300" "grace_seconds small_limits = 5" "\<not> exceeds_maxima small_limits"
  by (simp_all add: small_limits_def exceeds_maxima_def DEFAULT_RUNTIME_SECONDS_def DEFAULT_GRACE_SECONDS_def
      DEFAULT_STREAM_LIMIT_BYTES_def)

lemma quick_laws: "host_laws quick_os (\<lambda>k. 2 ^ k) (\<lambda>_. 0)"
proof -
  have f: "fl (2 ^ k) = 2 ^ k" for k
    using fl_exact [of 1 "int k"] by simp
  have p: "(2::rat) ^ k + d \<le> 2 ^ (k + nat \<lceil>d\<rceil>)" if "0 \<le> d" for d k
  proof -
    let ?n = "nat \<lceil>d\<rceil>"
    have "d \<le> of_nat ?n"
      by (simp add: that le_of_int_ceiling)
    also have "\<dots> \<le> 2 ^ ?n - 1"
      using of_nat_mono [OF Suc_leI [OF less_exp [of ?n]], where 'a = rat] by simp
    also have "\<dots> \<le> 2 ^ k * (2 ^ ?n - 1)"
      using mult_right_mono [of 1 "2 ^ k" "2 ^ ?n - 1 :: rat"] by simp
    finally show ?thesis
      by (simp add: power_add algebra_simps)
  qed
  show ?thesis
    by (simp add: host_laws_def later_def quick_os_def f p power_increasing)
qed

text \<open>
  C15: a run always returns. In every world that keeps the laws (a monotonic clock, sleeps that last,
  at most eight events from the two readers), for positive limits that do not exceed the production
  maxima, 80000 rounds of every loop are enough: a deadline lies at most 600 s ahead after rounding,
  and a nap takes at least 1/128 s of it.
\<close>

theorem run_returns:
  assumes "host_laws h now budget" "budget (fst s) \<le> 8"
    "0 < runtime_seconds l" "0 < grace_seconds l" "\<not> exceeds_maxima l"
  shows "\<exists>r s'. run_bounded_agent h (Suc 80000) command l s = Some (r, s')"
proof -
  have "600 \<le> of_nat 80000 * POLL_SECONDS"
    using POLL_bounds(1) by simp
  then have "covers 80000 (grace_seconds l)" "covers 80000 (runtime_seconds l)"
    using assms(3-5)
    by (auto simp: covers_def exceeds_maxima_def DEFAULT_RUNTIME_SECONDS_def DEFAULT_GRACE_SECONDS_def)
  note e = ends_run [OF assms(1) this, of command]
  have "budget (fst s) < Suc 80000"
    using assms(2) by simp
  with e show ?thesis
    unfolding ends_def by blast
qed



lemma run_returns_witness:
  "\<exists>r s'. run_bounded_agent quick_os (Suc 80000) [''true''] small_limits (0, []) = Some (r, s')"
  by (rule run_returns [OF quick_laws]) simp_all

section \<open>What a result says\<close>

lemma reported_runD:
  assumes "queue_law h" "command \<noteq> []" "\<not> exceeds_maxima l" "run_bounded_agent h n command l (w, past) = Some (r, s')"
  shows "\<exists>t0 new. snd s' = past @ O_clock t0 # new
    \<and> reported (fl (t0 + runtime_seconds l)) (grace_seconds l) r (O_clock t0 # new)"
  using run_spec [OF assms(1-3), of n] assms(4) unfolding spec_def reported_run_def by fastforce

lemma rejected_run:
  assumes "command = [] \<or> exceeds_maxima l" "run_bounded_agent h n command l (w, past) = Some (r, s')"
  shows "r_outcome r = Boundary_failure \<and> \<not> r_cleanup_proved r \<and> snd s' = past"
  using assms by (auto simp: run_bounded_agent_def make_result_def bnd_def ret_def reader_state_def)

lemma quick_run:
  "\<exists>r s'. run_bounded_agent quick_os 3 [''true''] small_limits (0, []) = Some (r, s') \<and> r_outcome r = Completed"
proof -
  have c: "\<lceil>POLL_SECONDS\<rceil> = 1"
    using POLL_bounds(2) POLL_le_1(1) by (simp add: ceiling_eq_iff)
  have m: "min POLL_SECONDS 300 = POLL_SECONDS"
    using POLL_le_1(1) by simp
  have f: "fl 301 = 301" "fl 300 = 300"
    using fl_int [of 301] fl_int [of 300] by simp_all
  have n: "nat \<lceil>POLL_SECONDS\<rceil> = 1"
    using c by simp
  show ?thesis
    by (simp add: run_bounded_agent_def bnd_def clock_def ask_def quiet_def quick_os_def Let_def launch_def numeral_3_eq_3 f
        query_path_def parse_eval sleep_def act_def m n supervise_def poll_process_def poll_def ret_def
        execution_finished_def judge_finished_def drained_def drain0_def cleanup_now_def probe_scope_def cgroup_empty_def
        close_and_result_def make_result_def reader_state_def)
qed


lemma queue_quick: "queue_law quick_os"
  by (simp add: queue_law_def quick_os_def)

text \<open>
  C13: a completed run is a clean one. The client and both readers had ended before the deadline, no
  stream had failed or reached its limit and nothing was left in the queue; after that the process was
  seen to have ended once more and its control group to be empty; no signal was ever sent; the outputs
  were closed without an error, and the result says that the clean-up is proved.
\<close>

theorem completed_run_is_clean:
  assumes "queue_law h" "run_bounded_agent h n command l (w, past) = Some (r, s')" "r_outcome r = Completed"
  shows "r_cleanup_proved r \<and>
    (\<exists>t0 before t e d0 d1 e' rest.
       snd s' = past @ O_clock t0 # before @ [O_event None, O_clock t] @ e @ [O_drained 0 d0, O_drained 1 d1]
          @ e' @ [O_probe (Scope_empty True), O_close True] @ rest
       \<and> t < fl (t0 + runtime_seconds l) \<and> exit_seen [0, 1] e \<and> exit_seen [0, 1] e'
       \<and> \<not> failed d0 \<and> \<not> failed d1 \<and> \<not> exceeded d0 \<and> \<not> exceeded d1 \<and> calm before \<and> calm rest)"
proof -
  have "command \<noteq> []" "\<not> exceeds_maxima l"
    using rejected_run [OF _ assms(2)] assms(3) by auto
  from reported_runD [OF assms(1) this assms(2)] obtain t0 new where
    new: "snd s' = past @ O_clock t0 # new" and rep: "reported (fl (t0 + runtime_seconds l)) (grace_seconds l) r (O_clock t0 # new)"
    by blast
  then have "completed_end (fl (t0 + runtime_seconds l)) (O_clock t0 # new)"
    using assms(3) by (simp add: reported_def)
  then obtain j rest where j: "O_clock t0 # new = j @ O_close True # rest" "clean_end (fl (t0 + runtime_seconds l)) j"
    "calm (O_clock t0 # new)"
    unfolding completed_end_def by blast
  then obtain k t e d0 d1 e' where
    c: "j = k @ [O_event None, O_clock t] @ e @ [O_drained 0 d0, O_drained 1 d1] @ e' @ [O_probe (Scope_empty True)]"
    and k: "t < fl (t0 + runtime_seconds l)" "exit_seen [0, 1] e" "exit_seen [0, 1] e'"
      "\<not> failed d0" "\<not> failed d1" "\<not> exceeded d0" "\<not> exceeded d1"
    unfolding clean_end_def by blast
  obtain before where b: "k = O_clock t0 # before"
    using j(1) c by (cases k) auto
  then have n: "new = before @ [O_event None, O_clock t] @ e @ [O_drained 0 d0, O_drained 1 d1] @ e'
      @ [O_probe (Scope_empty True), O_close True] @ rest"
    using j(1) c by simp
  have "calm before" "calm rest"
    using j(3) unfolding n by simp_all
  moreover have "r_cleanup_proved r"
    using rep assms(3) by (simp add: reported_def)
  ultimately show ?thesis
    using k new n by blast
qed

lemma completed_run_is_clean_witness:
  "\<exists>r s'. run_bounded_agent quick_os 3 [''true''] small_limits (0, []) = Some (r, s') \<and> r_cleanup_proved r"
  using quick_run completed_run_is_clean [OF queue_quick] by blast

text \<open>
  An outcome is backed by what the run saw. A proved clean-up means that the process was seen to
  have ended and the control group to be empty; every outcome but a boundary failure comes with a
  proved clean-up and with both readers seen to have stopped; a timeout was read off the clock, and a
  limit was reported by its reader or found in its final state.
\<close>

theorem run_outcome_evidence:
  assumes "queue_law h" "run_bounded_agent h n command l (w, past) = Some (r, s')"
  shows "(r_cleanup_proved r \<longrightarrow> emptied [] (drop (length past) (snd s')))
    \<and> (r_outcome r \<noteq> Boundary_failure \<longrightarrow> r_cleanup_proved r \<and> emptied [0, 1] (drop (length past) (snd s')))
    \<and> (r_outcome r = Timeout \<longrightarrow>
         (\<exists>t0 k t. drop (length past) (snd s') = O_clock t0 # k \<and> O_clock t \<in> set (O_clock t0 # k)
            \<and> fl (t0 + runtime_seconds l) \<le> t))
    \<and> (r_outcome r = Transcript_limit \<longrightarrow> O_event (Some Transcript_limit) \<in> set (snd s')
         \<or> (\<exists>d. O_drained 0 d \<in> set (snd s') \<and> exceeded d))
    \<and> (r_outcome r = Stderr_limit \<longrightarrow> O_event (Some Stderr_limit) \<in> set (snd s')
         \<or> (\<exists>d. O_drained 1 d \<in> set (snd s') \<and> exceeded d))"
proof (cases "command = [] \<or> exceeds_maxima l")
  case True
  with rejected_run [OF _ assms(2)] show ?thesis
    by simp
next
  case False
  with reported_runD [OF assms(1) _ _ assms(2)] obtain t0 new where
    "snd s' = past @ O_clock t0 # new" "reported (fl (t0 + runtime_seconds l)) (grace_seconds l) r (O_clock t0 # new)"
    by blast
  then show ?thesis
    by (auto simp: reported_def evidence_def)
qed

lemma run_outcome_evidence_witness:
  "\<exists>r s'. run_bounded_agent quick_os 3 [''true''] small_limits (0, []) = Some (r, s') \<and> emptied [0, 1] (snd s')"
  using quick_run run_outcome_evidence [OF queue_quick, of 3 "[''true'']" small_limits 0 "[]"] by fastforce

text \<open>
  C14: signals escalate. A run sends the control group no signal at all, or one SIGTERM and nothing more, or
  one SIGTERM and one SIGKILL; the SIGKILL only after the whole grace period, when a last look found the
  control group still populated. The launcher process itself is signalled only after the last of these, never
  in a run that signals the group not at all: it is terminated at most once, directly after a poll found it
  running, and killed at most once, directly after a wait of the grace period for it ran out.
\<close>

theorem signals_escalate:
  assumes "queue_law h" "run_bounded_agent h n command l (w, past) = Some (r, s')"
  shows "escalation (grace_seconds l) (drop (length past) (snd s'))"
proof (cases "command = [] \<or> exceeds_maxima l")
  case True
  with rejected_run [OF _ assms(2)] show ?thesis
    by (simp add: escalation_calm)
next
  case False
  with reported_runD [OF assms(1) _ _ assms(2)] show ?thesis
    by (auto simp: reported_def)
qed

lemma signals_escalate_witness:
  "\<exists>r s'. run_bounded_agent quick_os 3 [''true''] small_limits (0, []) = Some (r, s') \<and> escalation 5 (snd s')"
  using quick_run signals_escalate [OF queue_quick, of 3 "[''true'']" small_limits 0 "[]"] by fastforce

end
