(* ===== verification/Config.thy ===== *)
theory Config
  imports Resources Budget
begin

text \<open>
  The configuration \<open>models.yml\<close> (\<open>pylib/config.py\<close>): migration of old files, validation, and the
  choice of enabled models. A configuration is the decoded YAML mapping; an issue is one constructor
  per message of the source. The order of the issues is the order in which the code appends them.
\<close>

section \<open>Constants\<close>

definition REQUIRED_SECTIONS :: "string list" where
  "REQUIRED_SECTIONS = [''server'', ''gpu'', ''runtime'', ''models'']"

definition REQUIRED_MODEL_KEYS :: "string list" where
  "REQUIRED_MODEL_KEYS =
     [''alias'', ''label'', ''parameters'', ''quantization'', ''enabled'', ''file'', ''url'', ''size_bytes'',
      ''vram_budget'', ''ctx_size'', ''client_max_output_tokens'', ''n_gpu_layers'']"

definition VALID_BACKENDS :: "string list" where
  "VALID_BACKENDS = [''vulkan'', ''cpu'']"

definition SAMPLING_FIELDS :: "string list" where
  "SAMPLING_FIELDS = [''temperature'', ''top_p'', ''top_k'', ''repeat_penalty'']"

definition DEFAULT_OMNIROUTE_IMAGE :: string where
  "DEFAULT_OMNIROUTE_IMAGE = ''docker.io/diegosouzapw/omniroute:latest''"

definition DEFAULT_OMNIROUTE_PORT :: int where "DEFAULT_OMNIROUTE_PORT = 20128"

definition DEFAULT_REMOTE_SETUP_IMAGE :: string where
  "DEFAULT_REMOTE_SETUP_IMAGE = ''docker.io/library/python:3.13-alpine''"

definition DEFAULT_REMOTE_SETUP_PORT :: int where "DEFAULT_REMOTE_SETUP_PORT = 20130"

definition DEFAULT_SYSTEM_ONE_IMAGE :: string where
  "DEFAULT_SYSTEM_ONE_IMAGE = ''localhost/llm-env-system-one:rocm''"

definition DEFAULT_SYSTEM_ONE_PORT :: int where "DEFAULT_SYSTEM_ONE_PORT = 8010"

definition LAYA_MODEL_ALIASES :: "(string, string) dict" where
  "LAYA_MODEL_ALIASES =
     [(''en'', ''english''), (''laya'', ''english''), (''default'', ''english''),
      (''multi'', ''multilingual''), (''ml'', ''multilingual''), (''laya-multilingual'', ''multilingual''),
      (''typed'', ''typed-decisions''), (''typed_decisions'', ''typed-decisions''),
      (''laya-typed-decisions'', ''typed-decisions''), (''decisions'', ''typed-decisions'')]"

definition canonical_laya_model_name :: "string \<Rightarrow> string option" where
  "canonical_laya_model_name token =
     (let key = map lower (strip token) in
      case dget LAYA_MODEL_ALIASES key of
        Some c \<Rightarrow> Some c
      | None \<Rightarrow> if key \<in> set [''english'', ''multilingual'', ''typed-decisions''] then Some key else None)"

section \<open>Migration\<close>

text \<open>
  \<open>edit k f d\<close>: apply \<open>f\<close> to the mapping under key \<open>k\<close>, if there is one; the other values stay.
\<close>

definition edit :: "string \<Rightarrow> (pydict \<Rightarrow> pydict) \<Rightarrow> pydict \<Rightarrow> pydict" where
  "edit k f d = (case vget d k of Some (VDict e) \<Rightarrow> vput k (VDict (f e)) d | _ \<Rightarrow> d)"

definition migrate_runtime :: "pydict \<Rightarrow> pydict" where
  "migrate_runtime r = setdefault ''ubatch_size'' (VInt 512) (setdefault ''parallel_slots'' (VInt 1) r)"

definition migrate_model :: "pyval \<Rightarrow> pyval" where
  "migrate_model m =
     (case m of
        VDict d \<Rightarrow>
          if has_key d ''client_max_output_tokens'' then m
          else (case vget d ''ctx_size'' of
                  Some (VInt n) \<Rightarrow> if 0 < n then VDict (vput ''client_max_output_tokens'' (VInt (min n 8192)) d) else m
                | _ \<Rightarrow> m)
      | _ \<Rightarrow> m)"

definition migrate_models :: "pydict \<Rightarrow> pydict" where
  "migrate_models cfg =
     (case vget cfg ''models'' of
        Some (VList ms) \<Rightarrow> vput ''models'' (VList (map migrate_model ms)) cfg
      | _ \<Rightarrow> cfg)"

definition llm_server_defaults :: "pydict \<Rightarrow> pydict" where
  "llm_server_defaults r =
     setdefault ''cpu_ceiling_floor_pct'' (VInt 20)
      (setdefault ''cpu_ceiling_pct'' (VInt 60)
      (setdefault ''memory_ceiling_floor_pct'' (VInt 30)
      (setdefault ''memory_ceiling_pct'' (VInt 46)
      (setdefault ''memory_mib'' (VInt 0)
      (setdefault ''cpus'' (VInt 0) r)))))"

definition retire_services :: "pydict \<Rightarrow> pydict" where
  "retire_services r =
     foldl (\<lambda>d s. vpop s d) r [''omniroute'', ''remote_setup'', ''phoenix'', ''system_one'']"

fun drop_evidence :: "pyval \<Rightarrow> pyval" where
  "drop_evidence (VDict d) = VDict (vpop ''memory_max_evidence'' d)"
| "drop_evidence v = v"

definition migrate_resources :: "pydict \<Rightarrow> pydict" where
  "migrate_resources r =
     edit ''overrides'' (map (\<lambda>(k, v). (k, drop_evidence v)))
       (retire_services (edit ''llm_server'' llm_server_defaults (setdefault ''llm_server'' (VDict []) r)))"

definition migrate_omniroute :: "pydict \<Rightarrow> pydict" where
  "migrate_omniroute o1 =
     setdefault ''initial_password'' (VStr [])
      (setdefault ''port'' (VInt DEFAULT_OMNIROUTE_PORT)
      (setdefault ''image'' (VStr DEFAULT_OMNIROUTE_IMAGE) o1))"

definition migrate_remote_setup :: "pydict \<Rightarrow> pydict" where
  "migrate_remote_setup r =
     setdefault ''port'' (VInt DEFAULT_REMOTE_SETUP_PORT) (setdefault ''image'' (VStr DEFAULT_REMOTE_SETUP_IMAGE) r)"

definition migrate_llm_server :: "pydict \<Rightarrow> pydict" where
  "migrate_llm_server l = setdefault ''enabled'' (VBool True) l"

definition migrate_system_one :: "pydict \<Rightarrow> pydict" where
  "migrate_system_one s =
     setdefault ''idle_unload_seconds'' (VInt 600)
      (setdefault ''vram_reserve_mib'' (VInt 5120)
      (setdefault ''models'' (VStr ''english,multilingual'')
      (setdefault ''image'' (VStr DEFAULT_SYSTEM_ONE_IMAGE)
      (setdefault ''port'' (VInt DEFAULT_SYSTEM_ONE_PORT)
      (setdefault ''enabled'' (VBool False) s)))))"

definition migrate_gpu :: "pydict \<Rightarrow> pydict" where
  "migrate_gpu g =
     vpop ''benchmark''
      (setdefault ''vram_budget_ceiling_floor_pct'' (VInt 30)
      (setdefault ''vram_budget_ceiling_mib'' (vget_or g ''vram_total_mib'' (VInt 0))
      (setdefault ''vram_budget_ceiling_pct'' (VInt 95) g)))"

text \<open>A section is created when it is absent and completed when it is a mapping.\<close>

definition section_defaults :: "string \<Rightarrow> (pydict \<Rightarrow> pydict) \<Rightarrow> pydict \<Rightarrow> pydict" where
  "section_defaults k f cfg = edit k f (setdefault k (VDict []) cfg)"

definition migrate_config :: "pydict \<Rightarrow> pydict" where
  "migrate_config cfg =
     edit ''gpu'' migrate_gpu
      (section_defaults ''system_one'' migrate_system_one
      (section_defaults ''llm_server'' migrate_llm_server
      (section_defaults ''remote_setup'' migrate_remote_setup
      (section_defaults ''omniroute'' migrate_omniroute
      (section_defaults ''resources'' migrate_resources
      (migrate_models
      (edit ''runtime'' migrate_runtime cfg)))))))"

text \<open>
  \<open>load_config\<close>: what reading the file gives and the YAML parser are parameters.
\<close>

datatype read_answer = File_text string | File_missing | File_unreadable
datatype load_error = Config_not_found | Cannot_read | Invalid_yaml | Root_not_mapping

definition load_config ::
  "(string \<Rightarrow> pyval option) \<Rightarrow> read_answer \<Rightarrow> bool \<Rightarrow> (load_error, pydict) result" where
  "load_config parse answer migrate =
     (case answer of
        File_missing \<Rightarrow> Inl Config_not_found
      | File_unreadable \<Rightarrow> Inl Cannot_read
      | File_text t \<Rightarrow>
          (case parse t of
             None \<Rightarrow> Inl Invalid_yaml
           | Some (VDict d) \<Rightarrow> Inr (if migrate then migrate_config d else d)
           | Some _ \<Rightarrow> Inl Root_not_mapping))"

section \<open>Validation\<close>

datatype model_name = Alias string | At_index nat

datatype issue =
    Bad_version
  | Missing_section string
  | Section_not_mapping string
  | Models_not_list
  | Bad_setting string string
  | Override_issue override_error
  | Empty_checkpoint
  | Unknown_checkpoint string
  | Repeated_checkpoint string
  | Models_empty
  | Model_not_mapping
  | Missing_key model_name string
  | Bad_alias nat
  | Duplicate_alias string
  | Bad_enabled model_name
  | Sampling_not_mapping model_name
  | Unsupported_sampling model_name pyval
  | Bad_sampling model_name string
  | Bad_vram_budget model_name
  | Bad_model_setting model_name string
  | Output_exceeds_context model_name
  | No_model_enabled
  | Models_max_too_large nat

definition require :: "bool \<Rightarrow> issue \<Rightarrow> issue list" where
  "require b e = (if b then [] else [e])"

definition percentage :: "pyval \<Rightarrow> bool" where
  "percentage v \<longleftrightarrow> num_sat (\<lambda>x. 0 < x \<and> x \<le> 100) v"

fun nonblank :: "pyval \<Rightarrow> bool" where
  "nonblank (VStr s) = (strip s \<noteq> [])"
| "nonblank _ = False"

definition required_errors :: "pydict \<Rightarrow> issue list" where
  "required_errors cfg =
     require (eq_int (vget_or cfg ''version'' VNone) 1) Bad_version
     @ concat (map (\<lambda>s. require (has_key cfg s) (Missing_section s)) REQUIRED_SECTIONS)"

definition shape_errors :: "pydict \<Rightarrow> issue list" where
  "shape_errors cfg =
     concat (map (\<lambda>s. require (is_dict (vget_or cfg s VNone)) (Section_not_mapping s)) [''server'', ''gpu'', ''runtime''])
     @ require (is_list (vget_or cfg ''models'' VNone)) Models_not_list"

definition gpu_errors :: "pydict \<Rightarrow> issue list" where
  "gpu_errors gpu =
     (let backend = vget_or gpu ''backend'' VNone;
          mode = vget_or gpu ''reserve_mode'' VNone;
          ceiling = vget_or gpu ''vram_budget_ceiling_mib'' (vget_or gpu ''vram_total_mib'' (VInt 0))
      in require (backend \<in> VStr ` set VALID_BACKENDS) (Bad_setting ''gpu'' ''backend'')
       @ require (is_int (vget_or gpu ''vram_total_mib'' VNone)) (Bad_setting ''gpu'' ''vram_total_mib'')
       @ require (mode \<in> {VStr ''auto'', VStr ''fixed''}) (Bad_setting ''gpu'' ''reserve_mode'')
       @ require (percentage (vget_or gpu ''vram_budget_ceiling_pct'' (VInt 95))) (Bad_setting ''gpu'' ''vram_budget_ceiling_pct'')
       @ require (\<not> is_bool ceiling \<and> (is_positive_int ceiling \<or> eq_int ceiling 0)) (Bad_setting ''gpu'' ''vram_budget_ceiling_mib'')
       @ require (percentage (vget_or gpu ''vram_budget_ceiling_floor_pct'' (VInt 30))) (Bad_setting ''gpu'' ''vram_budget_ceiling_floor_pct''))"

definition runtime_errors :: "pydict \<Rightarrow> issue list" where
  "runtime_errors runtime =
     concat (map (\<lambda>k. require (is_positive_int (vget_or runtime k VNone)) (Bad_setting ''runtime'' k))
       [''models_max'', ''parallel_slots'', ''ubatch_size''])
     @ require (eq_int (vget_or runtime ''parallel_slots'' VNone) 1) (Bad_setting ''runtime'' ''parallel_slots'')"

definition llm_resource_errors :: "pyval \<Rightarrow> issue list" where
  "llm_resource_errors v =
     (case v of
        VDict r \<Rightarrow>
          let memory = vget_or r ''memory_mib'' (VInt 0) in
          require (num_sat (\<lambda>x. 0 \<le> x) (vget_or r ''cpus'' (VInt 0))) (Bad_setting ''resources.llm_server'' ''cpus'')
          @ require (eq_int memory 0 \<or> is_positive_int memory) (Bad_setting ''resources.llm_server'' ''memory_mib'')
          @ concat (map (\<lambda>(k, n). require (percentage (vget_or r k (VInt n))) (Bad_setting ''resources.llm_server'' k))
              [(''memory_ceiling_pct'', 46), (''memory_ceiling_floor_pct'', 30), (''cpu_ceiling_pct'', 60),
               (''cpu_ceiling_floor_pct'', 20)])
      | _ \<Rightarrow> [Section_not_mapping ''resources.llm_server''])"

text \<open>A section that may be absent: \<open>f\<close> checks its mapping.\<close>

definition optional_section :: "string \<Rightarrow> (pydict \<Rightarrow> issue list) \<Rightarrow> pydict \<Rightarrow> issue list" where
  "optional_section s f cfg =
     (case vget cfg s of None \<Rightarrow> [] | Some (VDict d) \<Rightarrow> f d | Some _ \<Rightarrow> [Section_not_mapping s])"

definition resources_errors :: "pydict \<Rightarrow> issue list" where
  "resources_errors r =
     llm_resource_errors (vget_or r ''llm_server'' (VDict []))
     @ map Override_issue (validate_overrides (vget_or r ''overrides'' VNone))"

definition omniroute_errors :: "pydict \<Rightarrow> issue list" where
  "omniroute_errors o1 =
     require (nonblank (vget_or o1 ''image'' VNone)) (Bad_setting ''omniroute'' ''image'')
     @ require (is_positive_int (vget_or o1 ''port'' VNone)) (Bad_setting ''omniroute'' ''port'')
     @ require (is_str (vget_or o1 ''initial_password'' (VStr []))) (Bad_setting ''omniroute'' ''initial_password'')"

definition remote_setup_errors :: "pydict \<Rightarrow> issue list" where
  "remote_setup_errors r =
     require (nonblank (vget_or r ''image'' VNone)) (Bad_setting ''remote_setup'' ''image'')
     @ require (is_positive_int (vget_or r ''port'' VNone)) (Bad_setting ''remote_setup'' ''port'')"

definition llm_server_errors :: "pydict \<Rightarrow> issue list" where
  "llm_server_errors l = require (is_bool (vget_or l ''enabled'' (VBool True))) (Bad_setting ''llm_server'' ''enabled'')"

definition llm_server_enabled :: "pydict \<Rightarrow> bool" where
  "llm_server_enabled cfg =
     (case vget cfg ''llm_server'' of
        Some (VDict l) \<Rightarrow> (case vget l ''enabled'' of Some (VBool b) \<Rightarrow> b | _ \<Rightarrow> True)
      | _ \<Rightarrow> True)"

fun checkpoint_errors :: "string list \<Rightarrow> string list \<Rightarrow> issue list" where
  "checkpoint_errors seen [] = []"
| "checkpoint_errors seen (p # ps) =
     (case canonical_laya_model_name p of
        None \<Rightarrow> Unknown_checkpoint p # checkpoint_errors seen ps
      | Some c \<Rightarrow> (if c \<in> set seen then [Repeated_checkpoint c] else []) @ checkpoint_errors (c # seen) ps)"

definition checkpoints_errors :: "pyval \<Rightarrow> issue list" where
  "checkpoints_errors v =
     (case v of
        VStr raw \<Rightarrow>
          let parts = map strip (split_on (CHR '','') raw) in
          if [] \<in> set parts then [Empty_checkpoint] else checkpoint_errors [] parts
      | _ \<Rightarrow> [])"

fun is_natural :: "pyval \<Rightarrow> bool" where
  "is_natural (VInt n) = (0 \<le> n)"
| "is_natural _ = False"

definition system_one_errors :: "pydict \<Rightarrow> issue list" where
  "system_one_errors s =
     require (is_bool (vget_or s ''enabled'' (VBool False))) (Bad_setting ''system_one'' ''enabled'')
     @ require (is_positive_int (vget_or s ''port'' (VInt DEFAULT_SYSTEM_ONE_PORT))) (Bad_setting ''system_one'' ''port'')
     @ concat (map (\<lambda>k. require (nonblank (vget_or s k (VStr ''x''))) (Bad_setting ''system_one'' k)) [''image'', ''models''])
     @ require (is_positive_int (vget_or s ''vram_reserve_mib'' (VInt 5120))) (Bad_setting ''system_one'' ''vram_reserve_mib'')
     @ require (is_natural (vget_or s ''idle_unload_seconds'' (VInt 600))) (Bad_setting ''system_one'' ''idle_unload_seconds'')
     @ checkpoints_errors (vget_or s ''models'' (VStr ''english''))"

section \<open>Validation of models\<close>

text \<open>
  \<open>VRAM_BUDGET_RE.match(str(budget))\<close>: it is the grammar of \<open>BUDGET_RE\<close> without groups. The text of
  a value that is not a string ends in a digit, a letter of \<open>True\<close>, \<open>inf\<close> or \<open>nan\<close>, or a bracket, so it
  never matches.
\<close>

fun budget_ok :: "pyval \<Rightarrow> bool" where
  "budget_ok VNone = True"
| "budget_ok (VStr s) = (match_budget s \<noteq> None)"
| "budget_ok _ = False"

definition sampling_errors :: "model_name \<Rightarrow> pyval \<Rightarrow> issue list" where
  "sampling_errors name v =
     (case v of
        VDict s \<Rightarrow>
          concat (map (\<lambda>(k, _). require (k \<in> VStr ` set SAMPLING_FIELDS) (Unsupported_sampling name k)) s)
          @ require (num_sat (\<lambda>x. 0 \<le> x) (vget_or s ''temperature'' (VInt 0))) (Bad_sampling name ''temperature'')
          @ require (num_sat (\<lambda>x. 0 \<le> x \<and> x \<le> 1) (vget_or s ''top_p'' (VInt 0))) (Bad_sampling name ''top_p'')
          @ require (is_natural (vget_or s ''top_k'' (VInt 0))) (Bad_sampling name ''top_k'')
          @ require (num_sat (\<lambda>x. 0 < x) (vget_or s ''repeat_penalty'' (VInt 1))) (Bad_sampling name ''repeat_penalty'')
      | _ \<Rightarrow> [Sampling_not_mapping name])"

fun output_exceeds :: "pyval \<Rightarrow> pyval \<Rightarrow> bool" where
  "output_exceeds (VInt c) (VInt out) = (0 < c \<and> 0 < out \<and> c < out)"
| "output_exceeds _ _ = False"

definition model_settings_errors :: "model_name \<Rightarrow> pydict \<Rightarrow> issue list" where
  "model_settings_errors name m =
     require (is_bool (vget_or m ''enabled'' (VBool True))) (Bad_enabled name)
     @ (case vget m ''sampling'' of None \<Rightarrow> [] | Some v \<Rightarrow> sampling_errors name v)
     @ require (budget_ok (vget_or m ''vram_budget'' VNone)) (Bad_vram_budget name)
     @ concat (map (\<lambda>k. require (is_positive_int (vget_or m k VNone)) (Bad_model_setting name k))
         [''ctx_size'', ''client_max_output_tokens''])
     @ require (\<not> output_exceeds (vget_or m ''ctx_size'' VNone) (vget_or m ''client_max_output_tokens'' VNone))
         (Output_exceeds_context name)
     @ require (is_natural (vget_or m ''n_cpu_moe'' (VInt 0))) (Bad_model_setting name ''n_cpu_moe'')
     @ concat (map (\<lambda>k. require (is_positive_int (vget_or m k (VInt 1))) (Bad_model_setting name k))
         [''check_ctx_size'', ''check_timeout_seconds''])"

definition valid_alias :: "pyval option \<Rightarrow> string option" where
  "valid_alias v = (case v of Some (VStr a) \<Rightarrow> if strip a \<noteq> [] then Some a else None | _ \<Rightarrow> None)"

definition name_of :: "nat \<Rightarrow> pydict \<Rightarrow> model_name" where
  "name_of i m = (case valid_alias (vget m ''alias'') of Some a \<Rightarrow> Alias a | None \<Rightarrow> At_index i)"

definition alias_errors :: "nat \<Rightarrow> string list \<Rightarrow> pydict \<Rightarrow> issue list" where
  "alias_errors i seen m =
     (case valid_alias (vget m ''alias'') of
        None \<Rightarrow> [Bad_alias i]
      | Some a \<Rightarrow> require (a \<notin> set seen) (Duplicate_alias a))"

definition key_errors :: "model_name \<Rightarrow> pydict \<Rightarrow> issue list" where
  "key_errors name m = concat (map (\<lambda>k. require (has_key m k) (Missing_key name k)) REQUIRED_MODEL_KEYS)"

fun models_errors :: "nat \<Rightarrow> string list \<Rightarrow> pyval list \<Rightarrow> issue list" where
  "models_errors i seen [] = []"
| "models_errors i seen (v # vs) =
     (case v of
        VDict m \<Rightarrow>
          key_errors (name_of i m) m @ alias_errors i seen m @ model_settings_errors (name_of i m) m
          @ models_errors (Suc i)
              (case valid_alias (vget m ''alias'') of None \<Rightarrow> seen | Some a \<Rightarrow> a # seen) vs
      | _ \<Rightarrow> Model_not_mapping # models_errors (Suc i) seen vs)"

fun model_enabled :: "pyval \<Rightarrow> bool" where
  "model_enabled (VDict m) = (vget m ''enabled'' = Some (VBool True))"
| "model_enabled _ = False"

fun list_items :: "pyval \<Rightarrow> pyval list" where
  "list_items (VList xs) = xs"
| "list_items _ = []"

definition enabled_models :: "pydict \<Rightarrow> pyval list" where
  "enabled_models cfg = filter model_enabled (list_items (vget_or cfg ''models'' (VList [])))"

definition enablement_errors :: "pydict \<Rightarrow> pydict \<Rightarrow> issue list" where
  "enablement_errors cfg runtime =
     (let n = length (enabled_models cfg) in
      if llm_server_enabled cfg then
        require (n \<noteq> 0) No_model_enabled
        @ (case vget runtime ''models_max'' of
             Some (VInt k) \<Rightarrow> require (\<not> (0 < k \<and> int n < k)) (Models_max_too_large n)
           | _ \<Rightarrow> [])
      else [])"

definition body_errors :: "pydict \<Rightarrow> issue list" where
  "body_errors cfg =
     (let runtime = dict_items (vget_or cfg ''runtime'' VNone);
          models = list_items (vget_or cfg ''models'' VNone)
      in gpu_errors (dict_items (vget_or cfg ''gpu'' VNone))
       @ runtime_errors runtime
       @ optional_section ''resources'' resources_errors cfg
       @ optional_section ''omniroute'' omniroute_errors cfg
       @ optional_section ''remote_setup'' remote_setup_errors cfg
       @ optional_section ''llm_server'' llm_server_errors cfg
       @ optional_section ''system_one'' system_one_errors cfg
       @ (if models = [] then [Models_empty] else models_errors 0 [] models @ enablement_errors cfg runtime))"

definition validate_config :: "pydict \<Rightarrow> issue list" where
  "validate_config cfg =
     (if required_errors cfg \<noteq> [] then required_errors cfg
      else if shape_errors cfg \<noteq> [] then shape_errors cfg
      else body_errors cfg)"

definition require_valid_config :: "pydict \<Rightarrow> (issue list, pydict) result" where
  "require_valid_config cfg = (if validate_config cfg = [] then Inr cfg else Inl (validate_config cfg))"


section \<open>Facts on dictionaries\<close>

lemma vget_Nil [simp]: "vget [] k = None"
  by (simp add: vget_def)

lemma vget_Cons [simp]: "vget ((VStr j, v) # d) k = (if j = k then Some v else vget d k)"
  by (auto simp: vget_def)

lemma vput_same: "vget d k = Some v \<Longrightarrow> vput k v d = d"
  unfolding vget_def vput_def by (induction d) auto

lemma vpop_absent: "\<not> has_key d k \<Longrightarrow> vpop k d = d"
  unfolding has_key_def vget_def vpop_def ddel_def by (induction d) (auto split: if_splits)

fun on_dict :: "(pydict \<Rightarrow> pydict) \<Rightarrow> pyval \<Rightarrow> pyval" where
  "on_dict f (VDict e) = VDict (f e)"
| "on_dict f v = v"

fun on_list :: "(pyval \<Rightarrow> pyval) \<Rightarrow> pyval \<Rightarrow> pyval" where
  "on_list f (VList xs) = VList (map f xs)"
| "on_list f v = v"

lemma on_dict_eq [simp]: "on_dict f v = VDict e \<longleftrightarrow> (\<exists>x. v = VDict x \<and> e = f x)"
  by (cases v) auto

lemma on_list_eq [simp]: "on_list f v = VList xs \<longleftrightarrow> (\<exists>ys. v = VList ys \<and> xs = map f ys)"
  by (cases v) auto

lemma vget_edit [simp]:
  "vget (edit k f d) j =
     (if j = k then map_option (on_dict f) (vget d k) else vget d j)"
  by (auto simp: edit_def split: option.splits pyval.splits)

lemma has_key_edit [simp]: "has_key (edit k f d) j \<longleftrightarrow> has_key d j"
  by (auto simp: has_key_def)

lemma edit_fixed: "(\<And>e. vget d k = Some (VDict e) \<Longrightarrow> f e = e) \<Longrightarrow> edit k f d = d"
  by (auto simp: edit_def vput_same split: option.splits pyval.splits)

lemma section_defaults_fixed:
  "has_key cfg k \<Longrightarrow> (\<And>e. vget cfg k = Some (VDict e) \<Longrightarrow> f e = e) \<Longrightarrow> section_defaults k f cfg = cfg"
  by (simp add: section_defaults_def setdefault_present edit_fixed)

lemma vget_section_defaults [simp]:
  "vget (section_defaults k f d) j =
     (if j = k then
        Some (on_dict f (vget_or d k (VDict [])))
      else vget d j)"
  by (auto simp: section_defaults_def vget_or_def split: option.splits)

lemma vget_or_setdefault [simp]:
  "vget_or (setdefault k v d) j w = (if j = k then vget_or d k v else vget_or d j w)"
  by (auto simp: vget_or_def split: option.splits)

lemma vget_or_vpop [simp]: "vget_or (vpop k d) j w = (if j = k then w else vget_or d j w)"
  by (simp add: vget_or_def)

lemma require_Nil [simp]: "require b e = [] \<longleftrightarrow> b"
  by (simp add: require_def)

section \<open>Migration is idempotent\<close>

lemma migrate_runtime_idem: "migrate_runtime (migrate_runtime r) = migrate_runtime r"
  by (simp add: migrate_runtime_def setdefault_present)

lemma migrate_model_idem [simp]: "migrate_model (migrate_model m) = migrate_model m"
  by (auto simp: migrate_model_def has_key_def split: pyval.splits option.splits)

lemma llm_server_defaults_idem: "llm_server_defaults (llm_server_defaults r) = llm_server_defaults r"
  by (simp add: llm_server_defaults_def setdefault_present)

lemma drop_evidence_idem [simp]: "drop_evidence (drop_evidence v) = drop_evidence v"
  by (cases v) (simp_all add: vpop_absent)

lemma vget_retire [simp]:
  "vget (retire_services r) j =
     (if j \<in> {''omniroute'', ''remote_setup'', ''phoenix'', ''system_one''} then None else vget r j)"
  by (simp add: retire_services_def)

lemma retire_absent: "(\<And>s. s \<in> {''omniroute'', ''remote_setup'', ''phoenix'', ''system_one''} \<Longrightarrow> \<not> has_key r s) \<Longrightarrow>
    retire_services r = r"
  by (simp add: retire_services_def vpop_absent)

lemma migrate_resources_idem: "migrate_resources (migrate_resources r) = migrate_resources r"
proof -
  let ?r = "migrate_resources r"
  have h: "has_key ?r ''llm_server''"
    by (simp add: migrate_resources_def has_key_def)
  have l: "edit ''llm_server'' llm_server_defaults ?r = ?r"
    by (rule edit_fixed) (auto simp: migrate_resources_def llm_server_defaults_idem split: pyval.splits if_splits)
  have t: "retire_services ?r = ?r"
    by (rule retire_absent) (auto simp: migrate_resources_def has_key_def)
  have "edit ''overrides'' (map (\<lambda>(k, v). (k, drop_evidence v))) ?r = ?r"
    by (rule edit_fixed) (auto simp: migrate_resources_def split: pyval.splits)
  with h l t show ?thesis
    by (simp add: migrate_resources_def [of ?r] setdefault_present)
qed

lemma migrate_omniroute_idem: "migrate_omniroute (migrate_omniroute r) = migrate_omniroute r"
  by (simp add: migrate_omniroute_def setdefault_present)

lemma migrate_remote_setup_idem: "migrate_remote_setup (migrate_remote_setup r) = migrate_remote_setup r"
  by (simp add: migrate_remote_setup_def setdefault_present)

lemma migrate_llm_server_idem: "migrate_llm_server (migrate_llm_server r) = migrate_llm_server r"
  by (simp add: migrate_llm_server_def)

lemma migrate_system_one_idem: "migrate_system_one (migrate_system_one r) = migrate_system_one r"
  by (simp add: migrate_system_one_def setdefault_present)

lemma migrate_gpu_idem: "migrate_gpu (migrate_gpu g) = migrate_gpu g"
  by (simp add: migrate_gpu_def setdefault_present vpop_absent)

lemmas migrate_idem = migrate_runtime_idem llm_server_defaults_idem migrate_resources_idem migrate_omniroute_idem
  migrate_remote_setup_idem migrate_llm_server_idem migrate_system_one_idem migrate_gpu_idem

lemma vget_migrate_models [simp]:
  "vget (migrate_models cfg) j =
     (if j = ''models'' then map_option (on_list migrate_model) (vget cfg j)
      else vget cfg j)"
  by (auto simp: migrate_models_def split: option.splits pyval.splits)

text \<open>The sections of a migrated configuration.\<close>

definition section_of :: "pydict \<Rightarrow> string \<Rightarrow> (pydict \<Rightarrow> pydict) \<Rightarrow> pyval" where
  "section_of cfg k f = on_dict f (vget_or cfg k (VDict []))"

lemma vget_migrate:
  "vget (migrate_config cfg) ''gpu'' = map_option (on_dict migrate_gpu) (vget cfg ''gpu'')"
  "vget (migrate_config cfg) ''runtime'' = map_option (on_dict migrate_runtime) (vget cfg ''runtime'')"
  "vget (migrate_config cfg) ''models'' = map_option (on_list migrate_model) (vget cfg ''models'')"
  "vget (migrate_config cfg) ''system_one'' = Some (section_of cfg ''system_one'' migrate_system_one)"
  "vget (migrate_config cfg) ''llm_server'' = Some (section_of cfg ''llm_server'' migrate_llm_server)"
  "vget (migrate_config cfg) ''remote_setup'' = Some (section_of cfg ''remote_setup'' migrate_remote_setup)"
  "vget (migrate_config cfg) ''omniroute'' = Some (section_of cfg ''omniroute'' migrate_omniroute)"
  "vget (migrate_config cfg) ''resources'' = Some (section_of cfg ''resources'' migrate_resources)"
  "vget (migrate_config cfg) ''version'' = vget cfg ''version''"
  "vget (migrate_config cfg) ''server'' = vget cfg ''server''"
  by (simp_all add: migrate_config_def section_of_def vget_or_def)

lemma migration_twice: "migrate_config (migrate_config cfg) = migrate_config cfg"
proof -
  let ?c = "migrate_config cfg"
  have r: "edit ''runtime'' migrate_runtime ?c = ?c" "edit ''gpu'' migrate_gpu ?c = ?c"
    by (rule edit_fixed; auto simp: vget_migrate migrate_idem split: pyval.splits)+
  have m: "migrate_models ?c = ?c"
    by (auto simp: migrate_models_def vget_migrate comp_def vput_same split: option.splits pyval.splits)
  have s: "section_defaults k f ?c = ?c"
    if "vget ?c k = Some (section_of cfg k f)" "\<And>e. f (f e) = f e" for k f
    by (rule section_defaults_fixed) (use that in \<open>auto simp: has_key_def section_of_def split: option.splits pyval.splits\<close>)
  show ?thesis
    unfolding migrate_config_def [of ?c] r m
    by (simp add: s vget_migrate migrate_idem r)
qed


text \<open>
  Migrating a migrated configuration changes nothing, neither its values nor the order of its keys.
\<close>

theorem migrate_config_idem: "migrate_config (migrate_config cfg) = migrate_config cfg"
  by (rule migration_twice)

section \<open>Migration keeps a valid configuration valid\<close>

lemma gpu_errors_migrate: "gpu_errors g = [] \<Longrightarrow> gpu_errors (migrate_gpu g) = []"
  by (simp add: gpu_errors_def migrate_gpu_def Let_def percentage_def)

lemma runtime_errors_migrate: "runtime_errors r = [] \<Longrightarrow> runtime_errors (migrate_runtime r) = []"
  by (simp add: runtime_errors_def migrate_runtime_def vget_or_def split: option.splits)

lemma llm_resource_errors_defaults:
  "llm_resource_errors (VDict r) = [] \<Longrightarrow> llm_resource_errors (VDict (llm_server_defaults r)) = []"
  by (simp add: llm_resource_errors_def llm_server_defaults_def)

lemma policy_key_not_evidence: "validate_overrides (VDict d) = [] \<Longrightarrow> map (\<lambda>(k, v). (k, drop_evidence v)) d = d"
proof (rule map_idI)
  fix kv
  assume v: "validate_overrides (VDict d) = []" and m: "kv \<in> set d"
  obtain k ov where kv: "kv = (k, ov)"
    by fastforce
  with v m have e: "service_errors (k, ov) = []"
    by (auto simp: validate_overrides_def)
  then obtain s o1 where o1: "k = VStr s" "ov = VDict o1" "concat (map (field_errors s) o1) = []"
    by (auto simp: service_errors_def Let_def split: pyval.splits if_splits)
  have "\<not> has_key o1 ''memory_max_evidence''"
  proof
    assume "has_key o1 ''memory_max_evidence''"
    then obtain x where "(VStr ''memory_max_evidence'', x) \<in> set o1"
      by (auto simp: has_key_def vget_def dest: map_of_SomeD)
    with o1(3) have "field_errors s (VStr ''memory_max_evidence'', x) = []"
      by auto
    then show False
      by (simp add: field_errors_def POLICY_KEYS_def)
  qed
  with o1 kv show "(case kv of (k, v) \<Rightarrow> (k, drop_evidence v)) = kv"
    by (simp add: vpop_absent)
qed

lemma resources_errors_migrate:
  assumes "resources_errors r = []"
  shows "resources_errors (migrate_resources r) = []"
proof -
  have l: "llm_resource_errors (vget_or r ''llm_server'' (VDict [])) = []"
    and v: "validate_overrides (vget_or r ''overrides'' VNone) = []"
    using assms by (simp_all add: resources_errors_def)
  have "vget_or (migrate_resources r) ''llm_server'' (VDict []) = on_dict llm_server_defaults (vget_or r ''llm_server'' (VDict []))"
    by (auto simp: migrate_resources_def vget_or_def split: option.splits)
  moreover have "llm_resource_errors (on_dict llm_server_defaults (vget_or r ''llm_server'' (VDict []))) = []"
    using l llm_resource_errors_defaults by (cases "vget_or r ''llm_server'' (VDict [])") (auto simp: llm_resource_errors_def)
  moreover have "vget_or (migrate_resources r) ''overrides'' VNone = vget_or r ''overrides'' VNone"
  proof (cases "vget r ''overrides''")
    case (Some w)
    then show ?thesis
      using v policy_key_not_evidence by (cases w) (auto simp: migrate_resources_def vget_or_def)
  qed (simp add: migrate_resources_def vget_or_def)
  ultimately show ?thesis
    using v by (simp add: resources_errors_def)
qed

lemma omniroute_errors_migrate: "omniroute_errors r = [] \<Longrightarrow> omniroute_errors (migrate_omniroute r) = []"
  by (auto simp: omniroute_errors_def migrate_omniroute_def vget_or_def split: option.splits)

lemma remote_setup_errors_migrate: "remote_setup_errors r = [] \<Longrightarrow> remote_setup_errors (migrate_remote_setup r) = []"
  by (auto simp: remote_setup_errors_def migrate_remote_setup_def vget_or_def split: option.splits)

lemma llm_server_errors_migrate: "llm_server_errors r = [] \<Longrightarrow> llm_server_errors (migrate_llm_server r) = []"
  by (auto simp: llm_server_errors_def migrate_llm_server_def)

lemmas text_eval = is_space_def lower_def strip_def of_char_def

lemma default_checkpoints: "checkpoints_errors (VStr ''english,multilingual'') = []"
  by (simp add: checkpoints_errors_def canonical_laya_model_name_def LAYA_MODEL_ALIASES_def text_eval)

lemma default_images:
  "nonblank (VStr DEFAULT_SYSTEM_ONE_IMAGE)" "nonblank (VStr DEFAULT_OMNIROUTE_IMAGE)" "nonblank (VStr DEFAULT_REMOTE_SETUP_IMAGE)"
  "nonblank (VStr ''english,multilingual'')"
  by (simp_all add: DEFAULT_SYSTEM_ONE_IMAGE_def DEFAULT_OMNIROUTE_IMAGE_def DEFAULT_REMOTE_SETUP_IMAGE_def text_eval)

lemma vget_or_default: "vget_or d k (vget_or d k v) = vget_or d k v"
  by (simp add: vget_or_def split: option.splits)

lemma nonblank_default: "nonblank w \<Longrightarrow> nonblank (vget_or s k (VStr ''x'')) \<Longrightarrow> nonblank (vget_or s k w)"
  by (simp add: vget_or_def split: option.splits)

lemma checkpoints_default: "checkpoints_errors w = [] \<Longrightarrow> checkpoints_errors (vget_or s k v) = [] \<Longrightarrow>
    checkpoints_errors (vget_or s k w) = []"
  by (simp add: vget_or_def split: option.splits)

lemma system_one_errors_migrate: "system_one_errors s = [] \<Longrightarrow> system_one_errors (migrate_system_one s) = []"
  using default_images(1,4) default_checkpoints
  by (simp add: system_one_errors_def migrate_system_one_def vget_or_default nonblank_default
      checkpoints_default [OF default_checkpoints, where v = "VStr ''english''"] del: nonblank.simps)

lemma optional_migrate:
  assumes "optional_section k f cfg = []" "vget cfg' k = Some (section_of cfg k g)"
    "\<And>d. f d = [] \<Longrightarrow> f (g d) = []" "f (g []) = []"
  shows "optional_section k f cfg' = []"
  using assms by (auto simp: optional_section_def section_of_def vget_or_def split: option.splits pyval.splits)

lemma empty_sections: "vget_or [] k v = v"
  by (simp add: vget_or_def vget_def)

lemma resources_defaults: "resources_errors (migrate_resources []) = []"
  by (rule resources_errors_migrate)
    (simp add: resources_errors_def empty_sections llm_resource_errors_def num_sat_def percentage_def validate_overrides_def)

lemma omniroute_defaults: "omniroute_errors (migrate_omniroute []) = []"
  using default_images(2)
  by (simp add: omniroute_errors_def migrate_omniroute_def empty_sections DEFAULT_OMNIROUTE_PORT_def del: nonblank.simps)

lemma remote_setup_defaults: "remote_setup_errors (migrate_remote_setup []) = []"
  using default_images(3)
  by (simp add: remote_setup_errors_def migrate_remote_setup_def empty_sections DEFAULT_REMOTE_SETUP_PORT_def del: nonblank.simps)

lemma llm_server_defaults_ok: "llm_server_errors (migrate_llm_server []) = []"
  by (rule llm_server_errors_migrate) (simp add: llm_server_errors_def empty_sections)

lemma english_checkpoint: "checkpoints_errors (VStr ''english'') = []" "nonblank (VStr ''x'')"
  by (simp_all add: checkpoints_errors_def canonical_laya_model_name_def LAYA_MODEL_ALIASES_def text_eval)

lemma system_one_defaults: "system_one_errors (migrate_system_one []) = []"
  using english_checkpoint
  by (intro system_one_errors_migrate)
    (simp add: system_one_errors_def empty_sections DEFAULT_SYSTEM_ONE_PORT_def del: nonblank.simps)

lemma models_errors_dicts:
  "models_errors i seen ms = [] \<Longrightarrow> m \<in> set ms \<Longrightarrow>
     \<exists>d n. m = VDict d \<and> key_errors n d = [] \<and> model_settings_errors n d = []"
proof (induction ms arbitrary: i seen)
  case Nil
  then show ?case by simp
next
  case (Cons v vs)
  then show ?case
    by (cases v) auto
qed

lemma migrate_model_valid: "key_errors n d = [] \<Longrightarrow> migrate_model (VDict d) = VDict d"
  by (auto simp: key_errors_def REQUIRED_MODEL_KEYS_def migrate_model_def)

lemma migrate_models_valid: "models_errors i seen ms = [] \<Longrightarrow> map migrate_model ms = ms"
  by (rule map_idI) (use models_errors_dicts migrate_model_valid in blast)

lemma validate_Nil: "validate_config cfg = [] \<longleftrightarrow> required_errors cfg = [] \<and> shape_errors cfg = [] \<and> body_errors cfg = []"
  by (simp add: validate_config_def)


lemma required_migrate: "required_errors cfg = [] \<Longrightarrow> required_errors (migrate_config cfg) = []"
  by (simp add: required_errors_def REQUIRED_SECTIONS_def has_key_def vget_or_def vget_migrate)

lemma is_dict_on_dict [simp]: "is_dict (on_dict f v) = is_dict v"
  by (cases v) auto

lemma is_list_on_list [simp]: "is_list (on_list f v) = is_list v"
  by (cases v) auto

lemma shape_migrate: "shape_errors cfg = [] \<Longrightarrow> shape_errors (migrate_config cfg) = []"
  by (auto simp: shape_errors_def vget_or_def vget_migrate split: option.splits)

lemma migration_keeps_valid:
  assumes "validate_config cfg = []"
  shows "validate_config (migrate_config cfg) = []"
proof -
  let ?c = "migrate_config cfg"
  have v: "required_errors cfg = []" "shape_errors cfg = []" "body_errors cfg = []"
    using assms by (simp_all add: validate_Nil)
  obtain g r ms where s: "vget cfg ''gpu'' = Some (VDict g)" "vget cfg ''runtime'' = Some (VDict r)" "vget cfg ''models'' = Some (VList ms)"
    using v(1,2) by (auto simp: required_errors_def shape_errors_def REQUIRED_SECTIONS_def has_key_def vget_or_def
        elim!: is_dict.elims is_list.elims)
  have b: "gpu_errors g = []" "runtime_errors r = []" "ms \<noteq> []" "models_errors 0 [] ms = []" "enablement_errors cfg r = []"
    "optional_section ''resources'' resources_errors cfg = []" "optional_section ''omniroute'' omniroute_errors cfg = []"
    "optional_section ''remote_setup'' remote_setup_errors cfg = []" "optional_section ''llm_server'' llm_server_errors cfg = []"
    "optional_section ''system_one'' system_one_errors cfg = []"
    using v(3) s by (auto simp: body_errors_def Let_def vget_or_def split: if_splits)
  have ms: "map migrate_model ms = ms"
    by (rule migrate_models_valid) (rule b(4))
  have c: "vget ?c ''gpu'' = Some (VDict (migrate_gpu g))" "vget ?c ''runtime'' = Some (VDict (migrate_runtime r))"
    "vget ?c ''models'' = Some (VList ms)"
    using s ms by (simp_all add: vget_migrate)
  have l: "llm_server_enabled ?c = llm_server_enabled cfg"
    by (auto simp: llm_server_enabled_def vget_migrate section_of_def migrate_llm_server_def vget_or_def
        split: option.splits pyval.splits)
  have "enabled_models ?c = enabled_models cfg"
    using s c by (simp add: enabled_models_def vget_or_def)
  moreover have "vget (migrate_runtime r) ''models_max'' = vget r ''models_max''"
    by (simp add: migrate_runtime_def)
  ultimately have e: "enablement_errors ?c (migrate_runtime r) = []"
    using b(5) l by (simp add: enablement_errors_def cong: if_cong)
  have o: "optional_section ''resources'' resources_errors ?c = []" "optional_section ''omniroute'' omniroute_errors ?c = []"
    "optional_section ''remote_setup'' remote_setup_errors ?c = []" "optional_section ''llm_server'' llm_server_errors ?c = []"
    "optional_section ''system_one'' system_one_errors ?c = []"
    using optional_migrate [OF b(6) vget_migrate(8) resources_errors_migrate resources_defaults]
      optional_migrate [OF b(7) vget_migrate(7) omniroute_errors_migrate omniroute_defaults]
      optional_migrate [OF b(8) vget_migrate(6) remote_setup_errors_migrate remote_setup_defaults]
      optional_migrate [OF b(9) vget_migrate(5) llm_server_errors_migrate llm_server_defaults_ok]
      optional_migrate [OF b(10) vget_migrate(4) system_one_errors_migrate system_one_defaults] by blast+
  show ?thesis
    unfolding validate_Nil
    using required_migrate [OF v(1)] shape_migrate [OF v(2)] c b(3,4) e o gpu_errors_migrate [OF b(1)] runtime_errors_migrate [OF b(2)]
    by (simp add: body_errors_def vget_or_def)
qed


text \<open>
  Migration never invalidates a configuration: whatever passes validation passes it after
  migration, so a file written by \<open>save_config\<close> can be loaded again.
\<close>

theorem migrate_config_valid: "validate_config cfg = [] \<Longrightarrow> validate_config (migrate_config cfg) = []"
  by (rule migration_keeps_valid)

text \<open>A small configuration: two models, the first of them enabled.\<close>

definition sample_model :: "string \<Rightarrow> bool \<Rightarrow> pyval" where
  "sample_model a b = VDict
     [(VStr ''alias'', VStr a), (VStr ''label'', VStr a), (VStr ''parameters'', VStr ''4B''), (VStr ''quantization'', VStr ''Q4''),
      (VStr ''enabled'', VBool b), (VStr ''file'', VStr ''m.gguf''), (VStr ''url'', VStr ''u''), (VStr ''size_bytes'', VInt 1),
      (VStr ''vram_budget'', VStr ''50%''), (VStr ''ctx_size'', VInt 4096), (VStr ''client_max_output_tokens'', VInt 1024),
      (VStr ''n_gpu_layers'', VInt 99)]"

definition sample_config :: pydict where
  "sample_config =
     [(VStr ''version'', VInt 1), (VStr ''server'', VDict []),
      (VStr ''gpu'', VDict [(VStr ''backend'', VStr ''vulkan''), (VStr ''vram_total_mib'', VInt 16304), (VStr ''reserve_mode'', VStr ''auto'')]),
      (VStr ''runtime'', VDict [(VStr ''models_max'', VInt 1), (VStr ''parallel_slots'', VInt 1), (VStr ''ubatch_size'', VInt 512)]),
      (VStr ''models'', VList [sample_model ''a'' True, sample_model ''b'' False])]"

lemma sample_budget: "match_budget ''50%'' \<noteq> None"
  by (simp add: match_budget_def unit_of_def is_space_def is_digit_def digits_value_def digit_val_def lower_def of_char_def)

lemma sample_model_ok:
  assumes "sample_model a b = VDict d" "strip a \<noteq> []"
  shows "key_errors n d = []" "valid_alias (vget d ''alias'') = Some a" "model_settings_errors n d = []"
    "model_enabled (VDict d) \<longleftrightarrow> b"
  using assms sample_budget
  by (auto simp: sample_model_def key_errors_def REQUIRED_MODEL_KEYS_def has_key_def valid_alias_def model_settings_errors_def
      vget_or_def)

lemma sample_config_valid: "validate_config sample_config = []"
proof -
  obtain d e where d: "sample_model ''a'' True = VDict d" "sample_model ''b'' False = VDict e"
    by (simp add: sample_model_def)
  have a: "strip ''a'' \<noteq> []" "strip ''b'' \<noteq> []"
    by (simp_all add: text_eval)
  note o = sample_model_ok [OF d(1) a(1)] sample_model_ok [OF d(2) a(2)]
  have g: "gpu_errors [(VStr ''backend'', VStr ''vulkan''), (VStr ''vram_total_mib'', VInt 16304), (VStr ''reserve_mode'', VStr ''auto'')] = []"
    by (simp add: gpu_errors_def VALID_BACKENDS_def vget_or_def percentage_def num_sat_def)
  have r: "runtime_errors [(VStr ''models_max'', VInt 1), (VStr ''parallel_slots'', VInt 1), (VStr ''ubatch_size'', VInt 512)] = []"
    by (simp add: runtime_errors_def vget_or_def)
  have m: "models_errors 0 [] [VDict d, VDict e] = []"
    using o by (simp add: alias_errors_def)
  have n: "enabled_models sample_config = [VDict d]"
    using o by (simp add: enabled_models_def sample_config_def d vget_or_def)
  show ?thesis
    unfolding validate_Nil
    using g r m n d
    by (simp add: sample_config_def required_errors_def shape_errors_def body_errors_def REQUIRED_SECTIONS_def has_key_def
        vget_or_def optional_section_def enablement_errors_def llm_server_enabled_def)
qed

lemma migrate_config_valid_witness: "validate_config (migrate_config sample_config) = []"
  by (rule migrate_config_valid) (rule sample_config_valid)

end
