(* ===== verification/Config_Models.thy ===== *)
theory Config_Models
  imports Config
begin

text \<open>
  The choice of the enabled models (\<open>set_enabled_models\<close>, \<open>set_model_enabled\<close> and \<open>sync_models_max\<close> of
  \<open>pylib/config.py\<close>), its abstract specification on the list of models, and the proof that the code
  implements it and keeps a valid configuration valid.
\<close>

section \<open>The operations\<close>

datatype edit_error =
    Duplicate_request string
  | Unknown_request string
  | Nothing_enabled
  | Bad_models_max
  | Final_enabled_model
  | Key_missing
  | Type_mismatch

definition alias_of :: "pyval \<Rightarrow> (edit_error, pyval) result" where
  "alias_of m =
     (case m of
        VDict d \<Rightarrow>
          (case vget d ''alias'' of
             None \<Rightarrow> Inl Key_missing
           | Some v \<Rightarrow> if is_list v \<or> is_dict v then Inl Type_mismatch else Inr v)
      | _ \<Rightarrow> Inl Type_mismatch)"

fun first_duplicate :: "string list \<Rightarrow> string list \<Rightarrow> string option" where
  "first_duplicate seen [] = None"
| "first_duplicate seen (a # as) = (if a \<in> set seen then Some a else first_duplicate (a # seen) as)"

fun set_flag :: "bool \<Rightarrow> pyval \<Rightarrow> pyval" where
  "set_flag b (VDict d) = VDict (vput ''enabled'' (VBool b) d)"
| "set_flag b v = v"

text \<open>
  The models a request selects, by their order in the request, then the others; a repeated alias in
  the file counts as its last model (\<open>models_by_alias\<close> is built in order).
\<close>

definition reordered :: "string list \<Rightarrow> (pyval \<times> pyval) list \<Rightarrow> pyval list" where
  "reordered sel pairs =
     map (\<lambda>a. set_flag True (the (map_of (rev pairs) (VStr a)))) sel
     @ map (\<lambda>(a, m). set_flag False m) (filter (\<lambda>(a, m). a \<notin> VStr ` set sel) pairs)"

definition sync_models_max :: "pydict \<Rightarrow> (edit_error, pydict) result" where
  "sync_models_max cfg =
     (let n = length (enabled_models cfg); cfg1 = setdefault ''runtime'' (VDict []) cfg in
      if n = 0 then Inl Nothing_enabled
      else (case vget cfg1 ''runtime'' of
              Some (VDict r) \<Rightarrow>
                (case vget_or r ''models_max'' (VInt 1) of
                   VInt k \<Rightarrow>
                     if 0 < k then Inr (vput ''runtime'' (VDict (vput ''models_max'' (VInt (min k (int n))) r)) cfg1)
                     else Inl Bad_models_max
                 | _ \<Rightarrow> Inl Bad_models_max)
            | _ \<Rightarrow> Inl Type_mismatch))"

definition configured_max :: "pydict \<Rightarrow> pyval" where
  "configured_max cfg =
     (case vget cfg ''runtime'' of Some (VDict r) \<Rightarrow> vget_or r ''models_max'' (VInt 1) | _ \<Rightarrow> VInt 1)"

definition set_enabled_models :: "pydict \<Rightarrow> string list \<Rightarrow> (edit_error, pydict) result" where
  "set_enabled_models cfg sel =
     (case first_duplicate [] sel of
        Some a \<Rightarrow> Inl (Duplicate_request a)
      | None \<Rightarrow>
          let models = list_items (vget_or cfg ''models'' (VList [])) in
          bindR (mapR alias_of models) (\<lambda>known.
            case min_by (\<lambda>a. a) (filter (\<lambda>a. VStr a \<notin> set known) sel) of
              Some a \<Rightarrow> Inl (Unknown_request a)
            | None \<Rightarrow>
                if sel = [] then Inl Nothing_enabled
                else if \<not> is_positive_int (configured_max cfg) then Inl Bad_models_max
                else sync_models_max (vput ''models'' (VList (reordered sel (zip known models))) cfg)))"

text \<open>The first model with the alias gets the flag; an item that is not a mapping has no \<open>get\<close>.\<close>

fun flag_first :: "string \<Rightarrow> bool \<Rightarrow> pyval list \<Rightarrow> (edit_error, (pyval \<times> pyval list) option) result" where
  "flag_first a b [] = Inr None"
| "flag_first a b (m # ms) =
     (case m of
        VDict d \<Rightarrow>
          if vget d ''alias'' = Some (VStr a) then Inr (Some (m, set_flag b m # ms))
          else bindR (flag_first a b ms) (\<lambda>r. Inr (map_option (\<lambda>(x, ys). (x, m # ys)) r))
      | _ \<Rightarrow> Inl Type_mismatch)"

definition set_model_enabled :: "pydict \<Rightarrow> string \<Rightarrow> bool \<Rightarrow> (edit_error, pydict) result" where
  "set_model_enabled cfg a b =
     bindR (flag_first a b (list_items (vget_or cfg ''models'' (VList [])))) (\<lambda>r.
       case r of
         None \<Rightarrow> Inl (Unknown_request a)
       | Some (m, ms) \<Rightarrow>
           if \<not> b \<and> truthy (vget_or (dict_items m) ''enabled'' VNone) \<and> length (enabled_models cfg) = 1
           then Inl Final_enabled_model
           else Inr (vput ''models'' (VList ms) cfg))"

section \<open>The specification\<close>

text \<open>A model for the choice: its alias, its other settings and whether it is enabled.\<close>

type_synonym choice = "(string \<times> pydict \<times> bool) list"

definition select_models :: "string list \<Rightarrow> choice \<Rightarrow> choice" where
  "select_models sel ms =
     concat (map (\<lambda>a. [(b, d, True). (b, d, _) \<leftarrow> ms, b = a]) sel) @ [(b, d, False). (b, d, _) \<leftarrow> ms, b \<notin> set sel]"

definition switch_model :: "string \<Rightarrow> bool \<Rightarrow> choice \<Rightarrow> choice" where
  "switch_model a f ms = map (\<lambda>(b, d, e). (b, d, if b = a then f else e)) ms"

definition the_alias :: "pydict \<Rightarrow> string" where
  "the_alias d = (case valid_alias (vget d ''alias'') of Some a \<Rightarrow> a | None \<Rightarrow> [])"

definition flag_of :: "pydict \<Rightarrow> bool" where
  "flag_of d \<longleftrightarrow> vget d ''enabled'' = Some (VBool True)"

definition entry :: "pydict \<Rightarrow> string \<times> pydict \<times> bool" where
  "entry d = (the_alias d, vpop ''enabled'' d, flag_of d)"

definition choice_of :: "pydict \<Rightarrow> choice" where
  "choice_of cfg = map (\<lambda>m. entry (dict_items m)) (list_items (vget_or cfg ''models'' (VList [])))"

definition max_of :: "pydict \<Rightarrow> int" where
  "max_of cfg = (case configured_max cfg of VInt k \<Rightarrow> k | _ \<Rightarrow> 0)"

section \<open>Valid models\<close>

definition model_ok :: "pydict \<Rightarrow> bool" where
  "model_ok d \<longleftrightarrow> key_errors (At_index 0) d = [] \<and> model_settings_errors (At_index 0) d = []
     \<and> valid_alias (vget d ''alias'') = Some (the_alias d)"

lemma key_errors_name: "key_errors n d = [] \<longleftrightarrow> key_errors m d = []"
  by (simp add: key_errors_def)

lemma sampling_errors_name: "sampling_errors n v = [] \<longleftrightarrow> sampling_errors m v = []"
  by (auto simp: sampling_errors_def split: pyval.splits)

lemma settings_errors_name: "model_settings_errors n d = [] \<longleftrightarrow> model_settings_errors m d = []"
  using sampling_errors_name [of n _ m] by (auto simp: model_settings_errors_def split: option.splits)

lemma model_okI: "key_errors n d = [] \<Longrightarrow> model_settings_errors n d = [] \<Longrightarrow> valid_alias (vget d ''alias'') = Some a \<Longrightarrow> model_ok d"
  using key_errors_name [of n d "At_index 0"] settings_errors_name [of n d "At_index 0"]
  by (simp add: model_ok_def the_alias_def)

lemma model_ok_errors: "model_ok d \<Longrightarrow> key_errors n d = [] \<and> model_settings_errors n d = []"
  using key_errors_name [of n d "At_index 0"] settings_errors_name [of n d "At_index 0"]
  by (simp add: model_ok_def)

lemma models_errors_Nil:
  "models_errors i seen ms = [] \<longleftrightarrow>
     (\<exists>ds. ms = map VDict ds \<and> (\<forall>d \<in> set ds. model_ok d) \<and> distinct (map the_alias ds)
        \<and> set seen \<inter> set (map the_alias ds) = {})"
proof (induction ms arbitrary: i seen)
  case Nil
  then show ?case by simp
next
  case (Cons v vs)
  show ?case
  proof (cases "\<exists>d. v = VDict d")
    case False
    then show ?thesis by (auto split: pyval.splits)
  next
    case True
    then obtain d where v: "v = VDict d" ..
    show ?thesis
    proof (cases "valid_alias (vget d ''alias'')")
      case None
      then have "\<not> model_ok d"
        by (simp add: model_ok_def)
      with None v show ?thesis
        by (auto simp: alias_errors_def)
    next
      case (Some a)
      have h: "models_errors i seen (v # vs) = [] \<longleftrightarrow> model_ok d \<and> a \<notin> set seen \<and> models_errors (Suc i) (a # seen) vs = []"
        using v Some model_okI model_ok_errors by (auto simp: alias_errors_def)
      have a: "the_alias d = a"
        using Some by (simp add: the_alias_def)
      have "(\<exists>ds. v # vs = map VDict ds \<and> P ds) \<longleftrightarrow> (\<exists>ds. vs = map VDict ds \<and> P (d # ds))" for P
        using v by (auto simp: Cons_eq_map_conv)
      then show ?thesis
        unfolding h Cons.IH using a by auto
    qed
  qed
qed

lemma model_ok_flag:
  assumes "model_ok d"
  shows "model_ok (vput ''enabled'' (VBool b) d)" "the_alias (vput ''enabled'' (VBool b) d) = the_alias d"
proof -
  have k: "key_errors n (vput ''enabled'' (VBool b) d) = []" "model_settings_errors n (vput ''enabled'' (VBool b) d) = []" for n
    using model_ok_errors [OF assms, of n]
    by (simp_all add: key_errors_def REQUIRED_MODEL_KEYS_def model_settings_errors_def vget_or_def)
  moreover have "valid_alias (vget (vput ''enabled'' (VBool b) d) ''alias'') = Some (the_alias d)"
    using assms by (simp add: model_ok_def)
  ultimately show "model_ok (vput ''enabled'' (VBool b) d)" "the_alias (vput ''enabled'' (VBool b) d) = the_alias d"
    by (blast intro: model_okI) (simp add: the_alias_def)
qed

lemma vpop_vput: "has_key d k \<Longrightarrow> vpop k (vput k v d) = vpop k d"
  unfolding has_key_def vget_def vpop_def vput_def ddel_def by (induction d) auto

lemma entry_flag: "model_ok d \<Longrightarrow> entry (vput ''enabled'' (VBool b) d) = (the_alias d, vpop ''enabled'' d, b)"
  using model_ok_flag [of d b]
  by (simp add: entry_def flag_of_def vpop_vput model_ok_def key_errors_def REQUIRED_MODEL_KEYS_def)

lemma alias_of_ok: "model_ok d \<Longrightarrow> alias_of (VDict d) = Inr (VStr (the_alias d))"
  by (auto simp: alias_of_def model_ok_def valid_alias_def split: option.splits pyval.splits if_splits)


section \<open>Valid configurations\<close>

lemma valid_parts:
  assumes "validate_config cfg = []"
  obtains g r ds k where "vget cfg ''gpu'' = Some (VDict g)" "vget cfg ''runtime'' = Some (VDict r)"
    "vget cfg ''models'' = Some (VList (map VDict ds))" "\<forall>d \<in> set ds. model_ok d" "distinct (map the_alias ds)"
    "vget r ''models_max'' = Some (VInt k)" "0 < k" "runtime_errors r = []"
proof -
  have v: "required_errors cfg = []" "shape_errors cfg = []" "body_errors cfg = []"
    using assms by (simp_all add: validate_Nil)
  obtain g r ms where s: "vget cfg ''gpu'' = Some (VDict g)" "vget cfg ''runtime'' = Some (VDict r)" "vget cfg ''models'' = Some (VList ms)"
    using v(1,2) by (auto simp: required_errors_def shape_errors_def REQUIRED_SECTIONS_def has_key_def vget_or_def
        elim!: is_dict.elims is_list.elims)
  have b: "runtime_errors r = []" "models_errors 0 [] ms = []"
    using v(3) s by (auto simp: body_errors_def Let_def vget_or_def split: if_splits)
  obtain ds where "ms = map VDict ds" "\<forall>d \<in> set ds. model_ok d" "distinct (map the_alias ds)"
    using b(2) unfolding models_errors_Nil by blast
  moreover obtain k where "vget r ''models_max'' = Some (VInt k)" "0 < k"
    using b(1) by (auto simp: runtime_errors_def vget_or_def split: option.splits dest!: is_positive_intD)
  ultimately show ?thesis
    using s b that by blast
qed

text \<open>What an edit of the models may change without making the configuration invalid.\<close>

lemma edited_valid:
  assumes v: "validate_config cfg = []" and r: "vget cfg ''runtime'' = Some (VDict r)"
    and m: "vget cfg' ''models'' = Some (VList (map VDict ds))" "ds \<noteq> []" "\<forall>d \<in> set ds. model_ok d" "distinct (map the_alias ds)"
    and r': "vget cfg' ''runtime'' = Some (VDict (vput ''models_max'' (VInt k) r))" "0 < k" "k \<le> int (length (enabled_models cfg'))"
    and o: "\<And>j. j \<noteq> ''models'' \<Longrightarrow> j \<noteq> ''runtime'' \<Longrightarrow> vget cfg' j = vget cfg j"
  shows "validate_config cfg' = []"
proof -
  have b: "required_errors cfg = []" "shape_errors cfg = []" "body_errors cfg = []"
    using v by (simp_all add: validate_Nil)
  have "required_errors cfg' = []"
    using b(1) m(1) r'(1) by (simp add: required_errors_def REQUIRED_SECTIONS_def has_key_def vget_or_def o)
  moreover have "shape_errors cfg' = []"
    using b(2) m(1) r'(1) by (simp add: shape_errors_def vget_or_def o)
  moreover have "runtime_errors (vput ''models_max'' (VInt k) r) = []"
    using b(3) r r'(2) by (simp add: body_errors_def Let_def vget_or_def runtime_errors_def)
  moreover have "models_errors 0 [] (map VDict ds) = []"
    unfolding models_errors_Nil using m(3,4) by auto
  moreover have "enablement_errors cfg' (vput ''models_max'' (VInt k) r) = []"
    using r'(2,3) by (auto simp: enablement_errors_def Let_def)
  ultimately show ?thesis
    using b(3) m(1,2) r'(1) unfolding validate_Nil
    by (simp add: body_errors_def Let_def vget_or_def o optional_section_def split: if_splits)
qed

lemma enabled_count:
  "vget cfg ''models'' = Some (VList (map VDict ds)) \<Longrightarrow>
     length (enabled_models cfg) = length (filter (\<lambda>(_, _, e). e) (choice_of cfg))"
  by (simp add: enabled_models_def choice_of_def vget_or_def filter_map comp_def entry_def flag_of_def)

lemma choice_dicts: "vget cfg ''models'' = Some (VList (map VDict ds)) \<Longrightarrow> choice_of cfg = map entry ds"
  by (simp add: choice_of_def vget_or_def comp_def)

text \<open>Storing new models and then capping \<open>models_max\<close>.\<close>

lemma sync_edited:
  assumes v: "validate_config cfg = []"
    and m: "\<forall>d \<in> set ds. model_ok d" "distinct (map the_alias ds)"
    and e: "filter (\<lambda>(_, _, e). e) (map entry ds) \<noteq> []"
  shows "\<exists>cfg'. sync_models_max (vput ''models'' (VList (map VDict ds)) cfg) = Inr cfg'
    \<and> choice_of cfg' = map entry ds
    \<and> max_of cfg' = min (max_of cfg) (int (length (filter (\<lambda>(_, _, e). e) (map entry ds))))
    \<and> validate_config cfg' = []"
proof -
  let ?c = "vput ''models'' (VList (map VDict ds)) cfg"
  let ?n = "length (filter (\<lambda>(_, _, e). e) (map entry ds))"
  obtain r k where r: "vget cfg ''runtime'' = Some (VDict r)" "vget r ''models_max'' = Some (VInt k)" "0 < k"
    using valid_parts [OF v] by metis
  have c: "vget ?c ''models'' = Some (VList (map VDict ds))" "vget ?c ''runtime'' = Some (VDict r)"
    using r by simp_all
  have n: "length (enabled_models ?c) = ?n"
    using enabled_count [OF c(1)] choice_dicts [OF c(1)] by simp
  let ?d = "vput ''runtime'' (VDict (vput ''models_max'' (VInt (min k (int ?n))) r)) ?c"
  have n0: "0 < ?n"
    using e by (simp only: length_greater_0_conv not_False_eq_True)
  have s: "sync_models_max ?c = Inr ?d"
    using r c n n0 by (simp add: sync_models_max_def Let_def setdefault_present has_key_def vget_or_def)
  have d: "vget ?d ''models'' = Some (VList (map VDict ds))"
    by simp
  have "validate_config ?d = []"
  proof (rule edited_valid [OF v r(1) d])
    show "ds \<noteq> []" "\<forall>d \<in> set ds. model_ok d" "distinct (map the_alias ds)"
      using e m by auto
    show "min k (int ?n) \<le> int (length (enabled_models ?d))"
      using enabled_count [OF d] choice_dicts [OF d] by simp
    show "vget ?d ''runtime'' = Some (VDict (vput ''models_max'' (VInt (min k (int ?n))) r))"
      by simp
    show "0 < min k (int ?n)"
      using r(3) n0 by simp
  qed simp
  moreover have "max_of ?d = min (max_of cfg) (int ?n)"
    using r by (simp add: max_of_def configured_max_def vget_or_def)
  ultimately show ?thesis
    using s choice_dicts [OF d] by blast
qed

section \<open>The choice of models\<close>

lemma mapR_alias_of: "\<forall>d \<in> set ds. model_ok d \<Longrightarrow> mapR alias_of (map VDict ds) = Inr (map (\<lambda>d. VStr (the_alias d)) ds)"
  by (induction ds) (auto simp: alias_of_ok)

lemma first_duplicate_None: "first_duplicate seen sel = None \<longleftrightarrow> distinct sel \<and> set seen \<inter> set sel = {}"
  by (induction sel arbitrary: seen) auto

lemma lookup_alias:
  assumes "distinct (map the_alias ds)" "d \<in> set ds"
  shows "map_of (rev (zip (map (\<lambda>d. VStr (the_alias d)) ds) (map VDict ds))) (VStr (the_alias d)) = Some (VDict d)"
proof -
  have z: "zip (map (\<lambda>d. VStr (the_alias d)) ds) (map VDict ds) = map (\<lambda>d. (VStr (the_alias d), VDict d)) ds"
    by (induction ds) auto
  have "distinct (map fst (rev (map (\<lambda>d. (VStr (the_alias d), VDict d)) ds)))"
    using assms(1) by (simp add: rev_map [symmetric] distinct_map comp_def inj_on_def)
  then show ?thesis
    unfolding z using assms(2) by (intro map_of_is_SomeI) auto
qed

lemma comprehension_alias:
  assumes "distinct (map the_alias ds)" "d \<in> set ds"
  shows "[(b, x, True). (b, x, _) \<leftarrow> map entry ds, b = the_alias d] = [(the_alias d, vpop ''enabled'' d, True)]"
  using assms
proof (induction ds)
  case Nil
  then show ?case by simp
next
  case (Cons x xs)
  have n: "[(b, x, True). (b, x, _) \<leftarrow> map entry xs, b = the_alias y] = []" if "the_alias y \<notin> set (map the_alias xs)" for y
    using that by (induction xs) (auto simp: entry_def)
  show ?case
  proof (cases "d = x")
    case True
    then show ?thesis
      using n [of x] Cons.prems by (simp add: entry_def)
  next
    case False
    with Cons.prems have "the_alias x \<noteq> the_alias d" "d \<in> set xs"
      by auto
    with Cons show ?thesis
      by (simp add: entry_def)
  qed
qed


abbreviation flagged :: "bool \<Rightarrow> pydict \<Rightarrow> pydict" where
  "flagged b d \<equiv> vput ''enabled'' (VBool b) d"

lemma selected_entries:
  assumes "\<forall>d \<in> set ds. model_ok d" "distinct (map the_alias ds)" "set sel \<subseteq> the_alias ` set ds"
  shows "\<exists>es. map (\<lambda>a. set_flag True (the (map_of (rev (zip (map (\<lambda>d. VStr (the_alias d)) ds) (map VDict ds))) (VStr a)))) sel
      = map VDict es \<and> (\<forall>d \<in> set es. model_ok d) \<and> map the_alias es = sel
    \<and> map entry es = concat (map (\<lambda>a. [(b, d, True). (b, d, _) \<leftarrow> map entry ds, b = a]) sel)"
  using assms(3)
proof (induction sel)
  case Nil
  then show ?case by simp
next
  case (Cons a sel)
  then obtain d where d: "d \<in> set ds" "a = the_alias d"
    by auto
  from Cons obtain es where es: "map (\<lambda>a. set_flag True (the (map_of (rev (zip (map (\<lambda>d. VStr (the_alias d)) ds) (map VDict ds))) (VStr a)))) sel
      = map VDict es" "\<forall>d \<in> set es. model_ok d" "map the_alias es = sel"
    "map entry es = concat (map (\<lambda>a. [(b, d, True). (b, d, _) \<leftarrow> map entry ds, b = a]) sel)"
    by auto
  show ?case
    using es lookup_alias [OF assms(2) d(1)] comprehension_alias [OF assms(2) d(1)] model_ok_flag [of d True] entry_flag [of d True]
      assms(1) d
    by (intro exI [of _ "flagged True d # es"]) simp
qed

lemma unselected_entries:
  assumes "\<forall>d \<in> set ds. model_ok d"
  shows "map (\<lambda>(a, m). set_flag False m) (filter (\<lambda>(a, m). a \<notin> VStr ` set sel)
       (zip (map (\<lambda>d. VStr (the_alias d)) ds) (map VDict ds)))
      = map VDict (map (flagged False) (filter (\<lambda>d. the_alias d \<notin> set sel) ds))
    \<and> map entry (map (flagged False) (filter (\<lambda>d. the_alias d \<notin> set sel) ds)) = [(b, d, False). (b, d, _) \<leftarrow> map entry ds, b \<notin> set sel]
    \<and> map the_alias (map (flagged False) (filter (\<lambda>d. the_alias d \<notin> set sel) ds)) = filter (\<lambda>a. a \<notin> set sel) (map the_alias ds)"
  using assms
proof (induction ds)
  case Nil
  then show ?case by simp
next
  case (Cons d ds)
  then have "model_ok d"
    by simp
  with Cons model_ok_flag(2) [of d False] entry_flag [of d False] show ?case
    by (auto simp: entry_def [of d])
qed

lemma reordered_valid:
  assumes "\<forall>d \<in> set ds. model_ok d" "distinct (map the_alias ds)" "set sel \<subseteq> the_alias ` set ds" "distinct sel"
  shows "\<exists>es. reordered sel (zip (map (\<lambda>d. VStr (the_alias d)) ds) (map VDict ds)) = map VDict es
    \<and> (\<forall>d \<in> set es. model_ok d) \<and> distinct (map the_alias es) \<and> map entry es = select_models sel (map entry ds)"
proof -
  let ?us = "map (flagged False) (filter (\<lambda>d. the_alias d \<notin> set sel) ds)"
  obtain es where es: "map (\<lambda>a. set_flag True (the (map_of (rev (zip (map (\<lambda>d. VStr (the_alias d)) ds) (map VDict ds))) (VStr a)))) sel
      = map VDict es" "\<forall>d \<in> set es. model_ok d" "map the_alias es = sel"
    "map entry es = concat (map (\<lambda>a. [(b, d, True). (b, d, _) \<leftarrow> map entry ds, b = a]) sel)"
    using selected_entries [OF assms(1-3)] by blast
  note u = unselected_entries [OF assms(1), of sel]
  have "reordered sel (zip (map (\<lambda>d. VStr (the_alias d)) ds) (map VDict ds)) = map VDict (es @ ?us)"
    unfolding reordered_def es(1) using u by simp
  moreover have "map entry (es @ ?us) = select_models sel (map entry ds)"
    unfolding select_models_def map_append es(4) using u by simp
  moreover have "distinct (map the_alias (es @ ?us))"
    unfolding map_append es(3) u [THEN conjunct2, THEN conjunct2] using assms(2,4) by auto
  moreover have "\<forall>d \<in> set (es @ ?us). model_ok d"
    using es(2) assms(1) model_ok_flag(1) by auto
  ultimately show ?thesis
    by blast
qed

lemma selected_count:
  assumes "distinct (map fst ms)" "set sel \<subseteq> fst ` set ms"
  shows "length (filter (\<lambda>(_, _, e). e) (select_models sel ms)) = length sel"
proof -
  have c: "length [(b, d, True). (b, d, _) \<leftarrow> ms, b = a] = 1" if "a \<in> fst ` set ms" "distinct (map fst ms)" for a and ms :: choice
    using that
  proof (induction ms)
    case (Cons m ms)
    have z: "[(b, d, True). (b, d, _) \<leftarrow> ms, b = a] = []" if "a \<notin> fst ` set ms"
      using that by (induction ms) auto
    show ?case
    proof (cases "fst m = a")
      case True
      with Cons.prems z show ?thesis by (cases m) auto
    next
      case False
      with Cons show ?thesis by (cases m) auto
    qed
  qed simp
  have t: "filter (\<lambda>(_, _, e). e) [(b, d, True). (b, d, _) \<leftarrow> ms, b = a] = [(b, d, True). (b, d, _) \<leftarrow> ms, b = a]" for a
    by (induction ms) auto
  have f: "filter (\<lambda>(_, _, e). e) [(b, d, False). (b, d, _) \<leftarrow> ms, b \<notin> set sel] = []"
    by (induction ms) auto
  have s: "length (filter (\<lambda>(_, _, e). e) (concat (map (\<lambda>a. [(b, d, True). (b, d, _) \<leftarrow> ms, b = a]) as))) = length as"
    if "set as \<subseteq> fst ` set ms" for as
    using that
  proof (induction as)
    case (Cons a as)
    then show ?case
      using c [of a ms] assms(1) by (simp only: list.map concat.simps filter_append t length_append set_simps) simp
  qed simp
  show ?thesis
    unfolding select_models_def filter_append f using s [OF assms(2)] by simp
qed

text \<open>
  C17: choosing models implements its specification. On a valid configuration a request succeeds exactly
  when it is not empty, names no model twice and names known models only; then the requested models
  come first in the order of the request and are the enabled ones, the others follow in their order,
  nothing else of a model changes, \<open>models_max\<close> is capped by the number of enabled models and the
  configuration is valid.
\<close>

theorem set_enabled_models_refines:
  assumes "validate_config cfg = []"
  shows "if sel \<noteq> [] \<and> distinct sel \<and> set sel \<subseteq> fst ` set (choice_of cfg)
    then (\<exists>cfg'. set_enabled_models cfg sel = Inr cfg' \<and> choice_of cfg' = select_models sel (choice_of cfg)
            \<and> max_of cfg' = min (max_of cfg) (int (length sel)) \<and> validate_config cfg' = [])
    else (\<exists>e. set_enabled_models cfg sel = Inl e)"
proof -
  obtain r ds k where r: "vget cfg ''runtime'' = Some (VDict r)" "vget r ''models_max'' = Some (VInt k)" "0 < k"
    and ds: "vget cfg ''models'' = Some (VList (map VDict ds))" "\<forall>d \<in> set ds. model_ok d" "distinct (map the_alias ds)"
    using valid_parts [OF assms] by metis
  have ch: "choice_of cfg = map entry ds" "fst ` set (choice_of cfg) = the_alias ` set ds"
    using choice_dicts [OF ds(1)] by (auto simp: entry_def image_image)
  have known: "set (map (\<lambda>d. VStr (the_alias d)) ds) = VStr ` the_alias ` set ds"
    by auto
  have mx: "is_positive_int (configured_max cfg)"
    using r by (simp add: configured_max_def vget_or_def)
  have e: "set_enabled_models cfg sel =
      (case first_duplicate [] sel of
         Some a \<Rightarrow> Inl (Duplicate_request a)
       | None \<Rightarrow>
           (case min_by (\<lambda>a. a) (filter (\<lambda>a. a \<notin> the_alias ` set ds) sel) of
              Some a \<Rightarrow> Inl (Unknown_request a)
            | None \<Rightarrow> if sel = [] then Inl Nothing_enabled
                else sync_models_max (vput ''models''
                  (VList (reordered sel (zip (map (\<lambda>d. VStr (the_alias d)) ds) (map VDict ds)))) cfg)))"
    using ds mapR_alias_of [OF ds(2)] mx
    by (simp add: set_enabled_models_def vget_or_def known image_iff cong: option.case_cong)
  show ?thesis
  proof (cases "sel \<noteq> [] \<and> distinct sel \<and> set sel \<subseteq> the_alias ` set ds")
    case True
    then obtain es where es: "reordered sel (zip (map (\<lambda>d. VStr (the_alias d)) ds) (map VDict ds)) = map VDict es"
      "\<forall>d \<in> set es. model_ok d" "distinct (map the_alias es)" "map entry es = select_models sel (map entry ds)"
      using reordered_valid [OF ds(2,3), of sel] by blast
    have n: "length (filter (\<lambda>(_, _, e). e) (map entry es)) = length sel"
      unfolding es(4) using True ds(3) by (intro selected_count) (auto simp: entry_def comp_def image_image)
    have "filter (\<lambda>(_, _, e). e) (map entry es) \<noteq> []"
      using n True by (metis length_0_conv)
    from sync_edited [OF assms es(2,3) this] n es(1,4) True e ch show ?thesis
      by (simp add: first_duplicate_None [THEN iffD2] filter_False subset_iff)
  next
    case False
    then show ?thesis
      unfolding ch(2) e
      by (auto split: option.splits simp: first_duplicate_None filter_empty_conv)
  qed
qed


lemma set_enabled_models_refines_witness:
  "\<exists>cfg'. set_enabled_models sample_config [''b'', ''a''] = Inr cfg' \<and> max_of cfg' = 1 \<and> validate_config cfg' = []"
proof -
  have "map the_alias (map dict_items [sample_model ''a'' True, sample_model ''b'' False]) = [''a'', ''b'']"
    by (simp add: sample_model_def the_alias_def valid_alias_def text_eval)
  moreover have "choice_of sample_config = map (\<lambda>m. entry (dict_items m)) [sample_model ''a'' True, sample_model ''b'' False]"
    by (simp add: choice_of_def sample_config_def vget_or_def)
  ultimately have "fst ` set (choice_of sample_config) = {''a'', ''b''}"
    by (simp add: entry_def)
  moreover have "max_of sample_config = 1"
    by (simp add: max_of_def configured_max_def sample_config_def vget_or_def)
  ultimately show ?thesis
    using set_enabled_models_refines [OF sample_config_valid, of "[''b'', ''a'']"] by auto
qed

section \<open>Switching one model\<close>

text \<open>\<open>llmenv.py models enable\<close> and \<open>disable\<close>: the flag is set, then \<open>models_max\<close> is capped.\<close>

definition toggle_model :: "pydict \<Rightarrow> string \<Rightarrow> bool \<Rightarrow> (edit_error, pydict) result" where
  "toggle_model cfg a b = bindR (set_model_enabled cfg a b) sync_models_max"

lemma alias_eq: "model_ok d \<Longrightarrow> vget d ''alias'' = Some (VStr a) \<longleftrightarrow> the_alias d = a"
  by (auto simp: model_ok_def valid_alias_def split: option.splits pyval.splits if_splits)

definition switched :: "string \<Rightarrow> bool \<Rightarrow> pydict \<Rightarrow> pydict" where
  "switched a b d = (if the_alias d = a then flagged b d else d)"

lemma switched_other: "a \<notin> set (map the_alias ds) \<Longrightarrow> map (switched a b) ds = ds"
  by (rule map_idI) (auto simp: switched_def)

lemma flag_first_valid:
  assumes "\<forall>d \<in> set ds. model_ok d" "distinct (map the_alias ds)"
  shows "flag_first a b (map VDict ds) =
    Inr (map_option (\<lambda>d. (VDict d, map VDict (map (switched a b) ds))) (find (\<lambda>d. the_alias d = a) ds))"
  using assms
proof (induction ds)
  case Nil
  then show ?case by simp
next
  case (Cons d ds)
  then have ok: "model_ok d"
    by simp
  show ?case
  proof (cases "the_alias d = a")
    case True
    then have "map (switched a b) ds = ds"
      using Cons.prems(2) by (intro switched_other) auto
    with True ok show ?thesis
      by (auto simp: alias_eq switched_def [of a b d])
  next
    case False
    with Cons ok show ?thesis
      by (simp add: alias_eq switched_def [of a b d] option.map_comp comp_def)
  qed
qed

lemma switched_ok: "model_ok d \<Longrightarrow> model_ok (switched a b d) \<and> the_alias (switched a b d) = the_alias d"
  by (simp add: switched_def model_ok_flag)

lemma switched_entry:
  assumes "model_ok d"
  shows "entry (switched a b d) = (case entry d of (c, x, e) \<Rightarrow> (c, x, if c = a then b else e))"
proof (cases "the_alias d = a")
  case True
  then show ?thesis
    using entry_flag [OF assms, of b] by (simp add: switched_def entry_def [of d])
next
  case False
  then show ?thesis
    by (simp add: switched_def entry_def [of d])
qed

lemma switched_entries: "\<forall>d \<in> set ds. model_ok d \<Longrightarrow> map entry (map (switched a b) ds) = switch_model a b (map entry ds)"
  by (simp add: switch_model_def switched_entry)

lemma last_enabled:
  assumes "d \<in> set ds" "flag_of d" "distinct (map the_alias ds)"
  shows "length (filter flag_of ds) = 1 \<longleftrightarrow> (\<forall>x \<in> set ds. the_alias x \<noteq> the_alias d \<longrightarrow> \<not> flag_of x)"
proof -
  have dis: "distinct (filter flag_of ds)" and inj: "inj_on the_alias (set ds)"
    using assms(3) by (simp_all only: distinct_map distinct_filter)
  have m: "d \<in> set (filter flag_of ds)"
    using assms(1,2) by simp
  have "length (filter flag_of ds) = 1 \<longleftrightarrow> set (filter flag_of ds) = {d}"
  proof
    assume "length (filter flag_of ds) = 1"
    then have "card (set (filter flag_of ds)) = 1"
      using distinct_card [OF dis] by (rule trans [rotated])
    with m show "set (filter flag_of ds) = {d}"
      by (metis card_1_singletonE singletonD)
  next
    assume "set (filter flag_of ds) = {d}"
    with distinct_card [OF dis] show "length (filter flag_of ds) = 1"
      by (metis card_1_singleton_iff One_nat_def)
  qed
  also have "\<dots> \<longleftrightarrow> (\<forall>x \<in> set ds. flag_of x \<longrightarrow> x = d)"
    using m by (simp only: set_filter) blast
  also have "\<dots> \<longleftrightarrow> (\<forall>x \<in> set ds. the_alias x \<noteq> the_alias d \<longrightarrow> \<not> flag_of x)"
    using inj assms(1,2) unfolding inj_on_def by blast
  finally show ?thesis .
qed

text \<open>
  Enabling or disabling one model implements its specification. On a valid configuration it
  succeeds exactly when the alias is known and some model is enabled afterwards; only the flag of that
  model changes, \<open>models_max\<close> is capped and the configuration is valid.
\<close>

theorem toggle_model_refines:
  assumes "validate_config cfg = []"
  shows "if a \<in> fst ` set (choice_of cfg) \<and> (\<exists>(_, _, e) \<in> set (switch_model a b (choice_of cfg)). e)
    then (\<exists>cfg'. toggle_model cfg a b = Inr cfg' \<and> choice_of cfg' = switch_model a b (choice_of cfg)
            \<and> max_of cfg' = min (max_of cfg) (int (length (filter (\<lambda>(_, _, e). e) (choice_of cfg'))))
            \<and> validate_config cfg' = [])
    else (\<exists>e. toggle_model cfg a b = Inl e)"
proof -
  obtain ds where ds: "vget cfg ''models'' = Some (VList (map VDict ds))" "\<forall>d \<in> set ds. model_ok d" "distinct (map the_alias ds)"
    using valid_parts [OF assms] by metis
  have ch: "choice_of cfg = map entry ds" "fst ` set (choice_of cfg) = the_alias ` set ds"
    using choice_dicts [OF ds(1)] by (auto simp: entry_def image_image)
  have sw: "switch_model a b (choice_of cfg) = map entry (map (switched a b) ds)"
    using switched_entries [OF ds(2)] ch(1) by simp
  have n: "length (enabled_models cfg) = length (filter flag_of ds)"
    using enabled_count [OF ds(1)] ch(1) by (simp add: filter_map comp_def entry_def)
  show ?thesis
  proof (cases "find (\<lambda>d. the_alias d = a) ds")
    case None
    then have "a \<notin> the_alias ` set ds"
      by (auto simp: find_None_iff)
    with None ds flag_first_valid [OF ds(2,3), of a b] show ?thesis
      unfolding ch(2) by (simp add: toggle_model_def set_model_enabled_def vget_or_def)
  next
    case (Some d)
    then have d: "d \<in> set ds" "the_alias d = a"
      by (auto simp: find_Some_iff)
    have "is_bool (vget_or d ''enabled'' (VBool True))" "has_key d ''enabled''"
      using ds(2) d(1) by (auto simp: model_ok_def model_settings_errors_def key_errors_def REQUIRED_MODEL_KEYS_def)
    then have t: "truthy (vget_or d ''enabled'' VNone) \<longleftrightarrow> flag_of d"
      by (auto simp: flag_of_def has_key_def vget_or_def elim!: is_bool.elims)
    have s: "toggle_model cfg a b =
       (if \<not> b \<and> flag_of d \<and> length (filter flag_of ds) = 1 then Inl Final_enabled_model
        else sync_models_max (vput ''models'' (VList (map VDict (map (switched a b) ds))) cfg))"
      using Some ds flag_first_valid [OF ds(2,3), of a b] n t
      by (simp add: toggle_model_def set_model_enabled_def vget_or_def [of cfg])
    have fl: "flag_of (switched a b x) \<longleftrightarrow> (if the_alias x = a then b else flag_of x)" for x
      by (simp add: switched_def flag_of_def)
    have some: "(\<exists>(_, _, e) \<in> set (switch_model a b (choice_of cfg)). e) \<longleftrightarrow> (\<exists>x \<in> set ds. if the_alias x = a then b else flag_of x)"
      unfolding sw by (auto simp: entry_def fl)
    show ?thesis
    proof (cases "\<exists>x \<in> set ds. if the_alias x = a then b else flag_of x")
      case True
      then have c: "\<not> (\<not> b \<and> flag_of d \<and> length (filter flag_of ds) = 1)"
        using last_enabled [OF d(1) _ ds(3)] d(2) by (auto split: if_splits)
      have ok: "\<forall>x \<in> set (map (switched a b) ds). model_ok x" "distinct (map the_alias (map (switched a b) ds))"
        using ds(2,3) switched_ok by (auto simp: distinct_map inj_on_def)
      have "filter (\<lambda>(_, _, e). e) (map entry (map (switched a b) ds)) \<noteq> []"
        using True by (auto simp: filter_empty_conv entry_def fl)
      from sync_edited [OF assms ok this] s c sw d True some show ?thesis
        unfolding ch(2) by auto
    next
      case False
      then have b: "\<not> b" "\<forall>x \<in> set ds. the_alias x \<noteq> a \<longrightarrow> \<not> flag_of x"
        using d by auto
      have "\<exists>e. toggle_model cfg a b = Inl e"
      proof (cases "flag_of d")
        case True
        with b s last_enabled [OF d(1) _ ds(3)] d(2) show ?thesis
          by simp
      next
        case nf: False
        let ?c = "vput ''models'' (VList (map VDict (map (switched a b) ds))) cfg"
        have "enabled_models ?c = []"
          using b fl by (auto simp: enabled_models_def vget_or_def filter_empty_conv flag_of_def)
        with s nf show ?thesis
          by (simp add: sync_models_max_def Let_def)
      qed
      with False some show ?thesis
        by simp
    qed
  qed
qed

lemma toggle_model_refines_witness:
  "\<exists>cfg'. toggle_model sample_config ''b'' True = Inr cfg' \<and> validate_config cfg' = []"
proof -
  have "choice_of sample_config = map (\<lambda>m. entry (dict_items m)) [sample_model ''a'' True, sample_model ''b'' False]"
    by (simp add: choice_of_def sample_config_def vget_or_def)
  moreover have "entry (dict_items (sample_model ''a'' True)) = (''a'', vpop ''enabled'' (dict_items (sample_model ''a'' True)), True)"
    "fst (entry (dict_items (sample_model ''b'' False))) = ''b''"
    by (simp_all add: entry_def sample_model_def the_alias_def valid_alias_def flag_of_def text_eval)
  ultimately show ?thesis
    using toggle_model_refines [OF sample_config_valid, of "''b''" True] by (auto simp: switch_model_def)
qed

end
