(* ===== verification/Config_Commands.thy ===== *)
theory Config_Commands
  imports Config_Models
begin

text \<open>
  The commands of \<open>llmenv.py\<close> that edit the configuration f: \<open>models select\<close>, \<open>enable\<close> and
  \<open>disable\<close>, \<open>resource-override set\<close>, \<open>check\<close>, \<open>clear\<close> and \<open>show\<close>, \<open>init\<close> and \<open>migrate-config\<close>. A
  command loads the file, edits the configuration and saves it; one that fails leaves the file alone
  (\<open>save_config\<close> replaces it in one step). The file is the decoded mapping.
\<close>

datatype edit_failure =
    Edit_failed edit_error
  | Invalid_config "issue list"
  | Override_rejected "override_error list"
  | Service_required
  | Field_required
  | Resources_not_mapping

definition lift_fail :: "('a \<Rightarrow> 'e) \<Rightarrow> ('a, 'b) result \<Rightarrow> ('e, 'b) result" where
  "lift_fail f r = (case r of Inl e \<Rightarrow> Inl (f e) | Inr x \<Rightarrow> Inr x)"

definition checked :: "pydict \<Rightarrow> (edit_failure, pydict) result" where
  "checked cfg = lift_fail Invalid_config (require_valid_config cfg)"

text \<open>\<open>save_config\<close> migrates what it writes.\<close>

definition saved :: "pydict \<Rightarrow> pydict" where
  "saved cfg = migrate_config cfg"

section \<open>Overriding the limits of a service\<close>

datatype override_action = Show_overrides | Check_override | Set_override | Clear_override

definition requested_fields :: "rat option \<Rightarrow> rat option \<Rightarrow> int option \<Rightarrow> int option \<Rightarrow> pydict" where
  "requested_fields cmin cmax mmin mmax =
     concat (map (\<lambda>(k, v). case v of None \<Rightarrow> [] | Some x \<Rightarrow> [(VStr k, x)])
       [(''cpus_min'', map_option (\<lambda>x. VFloat (Fin x)) cmin), (''cpus_max'', map_option (\<lambda>x. VFloat (Fin x)) cmax),
        (''memory_min_mib'', map_option VInt mmin), (''memory_max_mib'', map_option VInt mmax)])"

definition current_overrides :: "pydict \<Rightarrow> pydict" where
  "current_overrides resources = filter (\<lambda>(_, v). is_dict v) (dict_items (vget_or resources ''overrides'' VNone))"

definition merge_dicts :: "pydict \<Rightarrow> pydict \<Rightarrow> pydict" where
  "merge_dicts a b = foldl (\<lambda>d (k, v). dput k v d) a b"

definition candidate :: "pydict \<Rightarrow> string \<Rightarrow> pydict \<Rightarrow> pydict" where
  "candidate overrides service req =
     vput service (VDict (merge_dicts (dict_items (vget_or overrides service (VDict []))) req)) overrides"

record override_output =
  out_override :: pydict
  out_effective :: pydict
  out_lowered :: bool
  out_written :: "pydict option"

definition lowered_cap :: "string \<Rightarrow> pydict \<Rightarrow> bool" where
  "lowered_cap service effective \<longleftrightarrow>
     (let cap = intv effective ''memory_max_mib'' in
      service \<in> set OVERRIDABLE_SERVICES \<and> 0 < cap \<and> cap < intv (default_policy service) ''memory_max_mib'')"

definition cleared :: "pydict \<Rightarrow> string option \<Rightarrow> pydict \<Rightarrow> pydict" where
  "cleared cfg service resources =
     (let left = (case service of None \<Rightarrow> [] | Some s \<Rightarrow> vpop s (current_overrides resources)) in
      vput ''resources''
        (VDict (if left = [] then vpop ''overrides'' resources else vput ''overrides'' (VDict left) resources)) cfg)"

definition override_command ::
  "pydict \<Rightarrow> override_action \<Rightarrow> string option \<Rightarrow> pydict \<Rightarrow> (edit_failure, override_output) result" where
  "override_command cfg action service req =
     bindR (if action = Clear_override then Inr cfg else checked cfg) (\<lambda>_.
     case vget_or cfg ''resources'' VNone of
       VDict resources \<Rightarrow>
         let overrides = current_overrides resources in
         (case action of
            Show_overrides \<Rightarrow>
              Inr \<lparr>out_override = overrides, out_effective = [], out_lowered = False, out_written = None\<rparr>
          | Clear_override \<Rightarrow>
              bindR (checked (cleared cfg service resources)) (\<lambda>c.
                Inr \<lparr>out_override = current_overrides (dict_items (vget_or c ''resources'' VNone)), out_effective = [],
                     out_lowered = False, out_written = Some (saved c)\<rparr>)
          | _ \<Rightarrow>
              (case service of
                 None \<Rightarrow> Inl Service_required
               | Some s \<Rightarrow>
                   if req = [] then Inl Field_required
                   else
                     let cand = candidate overrides s req; effective = effective_policy s (VDict cand) in
                     if validate_overrides (VDict cand) \<noteq> [] then Inl (Override_rejected (validate_overrides (VDict cand)))
                     else
                       let out = (\<lambda>w. \<lparr>out_override = dict_items (vget_or cand s VNone), out_effective = effective,
                                     out_lowered = lowered_cap s effective, out_written = w\<rparr>) in
                       if action = Check_override then Inr (out None)
                       else bindR (checked (vput ''resources'' (VDict (vput ''overrides'' (VDict cand) resources)) cfg))
                              (\<lambda>c. Inr (out (Some (saved c))))))
     | _ \<Rightarrow> Inl Resources_not_mapping)"

section \<open>The commands on the file\<close>

datatype command =
    Models_select "string list"
  | Models_toggle string bool
  | Resource_override override_action "string option" pydict
  | Init pydict
  | Migrate_config

text \<open>
  The configuration a command writes, if any. \<open>models\<close> and \<open>resource-override\<close> load the file with
  migration, \<open>migrate-config\<close> without; \<open>init\<close> reads a template instead and writes over the file.
\<close>

definition edit_and_save :: "(pydict \<Rightarrow> (edit_error, pydict) result) \<Rightarrow> pydict \<Rightarrow> (edit_failure, pydict option) result" where
  "edit_and_save op f =
     bindR (checked (migrate_config f)) (\<lambda>cfg.
     bindR (lift_fail Edit_failed (op cfg)) (\<lambda>cfg1.
     bindR (checked cfg1) (\<lambda>cfg2. Inr (Some (saved cfg2)))))"

definition init_command :: "pydict \<Rightarrow> (edit_failure, pydict option) result" where
  "init_command template =
     bindR (checked (migrate_config template)) (\<lambda>cfg.
     bindR (lift_fail Edit_failed (sync_models_max cfg)) (\<lambda>cfg1. Inr (Some (saved cfg1))))"

definition migrate_command :: "pydict \<Rightarrow> (edit_failure, pydict option) result" where
  "migrate_command f = bindR (checked (migrate_config f)) (\<lambda>cfg. Inr (if cfg \<noteq> f then Some (saved cfg) else None))"

definition write_of :: "command \<Rightarrow> pydict \<Rightarrow> (edit_failure, pydict option) result" where
  "write_of c f =
     (case c of
        Models_select sel \<Rightarrow> edit_and_save (\<lambda>cfg. set_enabled_models cfg sel) f
      | Models_toggle a b \<Rightarrow> edit_and_save (\<lambda>cfg. toggle_model cfg a b) f
      | Resource_override action service req \<Rightarrow>
          bindR (override_command (migrate_config f) action service req) (\<lambda>out. Inr (out_written out))
      | Init template \<Rightarrow> init_command template
      | Migrate_config \<Rightarrow> migrate_command f)"

definition run_command :: "pydict \<Rightarrow> command \<Rightarrow> pydict" where
  "run_command f c = (case write_of c f of Inr (Some cfg) \<Rightarrow> cfg | _ \<Rightarrow> f)"

section \<open>What is written is valid and migrated\<close>

definition file_ok :: "pydict \<Rightarrow> bool" where
  "file_ok f \<longleftrightarrow> validate_config f = [] \<and> migrate_config f = f"

lemma checked_Inr [simp]: "checked cfg = Inr c \<longleftrightarrow> c = cfg \<and> validate_config cfg = []"
  by (auto simp: checked_def lift_fail_def require_valid_config_def)

lemma lift_fail_Inr [simp]: "lift_fail f r = Inr c \<longleftrightarrow> r = Inr c"
  by (cases r) (auto simp: lift_fail_def)

lemma saved_ok: "validate_config cfg = [] \<Longrightarrow> file_ok (saved cfg)"
  by (simp add: file_ok_def saved_def migration_keeps_valid migration_twice)

lemma sync_valid:
  assumes "validate_config cfg = []" "sync_models_max cfg = Inr c"
  shows "validate_config c = []"
proof -
  obtain ds where ds: "vget cfg ''models'' = Some (VList (map VDict ds))" "\<forall>d \<in> set ds. model_ok d" "distinct (map the_alias ds)"
    using valid_parts [OF assms(1)] by metis
  have e: "vput ''models'' (VList (map VDict ds)) cfg = cfg"
    using ds(1) by (rule vput_same)
  have "enabled_models cfg \<noteq> []"
    using assms(2) by (auto simp: sync_models_max_def Let_def)
  then have "filter (\<lambda>(_, _, e). e) (map entry ds) \<noteq> []"
    using enabled_count [OF ds(1)] choice_dicts [OF ds(1)] by (metis length_0_conv)
  from sync_edited [OF assms(1) ds(2,3) this] assms(2) show ?thesis
    unfolding e by auto
qed

lemma write_ok:
  assumes "write_of c f = Inr (Some cfg)"
  shows "file_ok cfg"
proof (cases c)
  case (Resource_override action service req)
  with assms show ?thesis
    by (cases action) (auto simp: write_of_def override_command_def Let_def saved_ok
        split: pyval.splits option.splits if_splits)
next
  case (Init template)
  with assms show ?thesis
    by (auto simp: write_of_def init_command_def intro: saved_ok sync_valid)
qed (use assms in \<open>auto simp: write_of_def edit_and_save_def migrate_command_def saved_ok split: if_splits\<close>)

interpretation edits: step_machine run_command file_ok
proof
  fix f c
  assume "file_ok f"
  then show "file_ok (run_command f c)"
    using write_ok by (auto simp: run_command_def split: sum.splits option.splits)
qed

text \<open>
  C18: no sequence of commands can break the configuration file. From a valid, migrated file every
  sequence of \<open>models\<close>, \<open>resource-override\<close>, \<open>init\<close> and \<open>migrate-config\<close> commands, failing ones included,
  leads to a valid, migrated f.
\<close>

theorem commands_keep_file_valid:
  assumes "validate_config f = []" "migrate_config f = f"
  shows "validate_config (foldl run_command f cs) = []
    \<and> migrate_config (foldl run_command f cs) = foldl run_command f cs"
  using edits.run_inv [of f cs] assms by (simp add: file_ok_def)

lemma commands_keep_file_valid_witness:
  "validate_config (foldl run_command (migrate_config sample_config) [Models_select [''b''], Models_toggle ''b'' False]) = []"
  by (rule conjunct1 [OF commands_keep_file_valid])
    (simp_all add: migration_keeps_valid [OF sample_config_valid] migration_twice)

text \<open>
  On a valid f \<open>resource-override set\<close> fails only for the reasons it names: no service, no field, or
  overrides that validation rejects.
\<close>

lemma candidate_keeps_valid:
  assumes "validate_config cfg = []" "vget cfg ''resources'' = Some (VDict resources)"
    "validate_overrides (VDict cand) = []"
  shows "validate_config (vput ''resources'' (VDict (vput ''overrides'' (VDict cand) resources)) cfg) = []"
proof -
  let ?c = "vput ''resources'' (VDict (vput ''overrides'' (VDict cand) resources)) cfg"
  have b: "required_errors cfg = []" "shape_errors cfg = []" "body_errors cfg = []"
    using assms(1) by (simp_all add: validate_Nil)
  have r: "resources_errors resources = []"
    using b(3) assms(2) by (simp add: body_errors_def Let_def optional_section_def)
  have "resources_errors (vput ''overrides'' (VDict cand) resources) = []"
    using r assms(3) by (simp add: resources_errors_def vget_or_def)
  moreover have "required_errors ?c = []" "shape_errors ?c = []"
    using b(1,2) by (simp_all add: required_errors_def shape_errors_def REQUIRED_SECTIONS_def has_key_def vget_or_def)
  ultimately show ?thesis
    using b(3) unfolding validate_Nil
    by (simp add: body_errors_def Let_def vget_or_def optional_section_def enablement_errors_def enabled_models_def
        llm_server_enabled_def cong: if_cong)
qed

end
