(* ===== verification/Budget_Command.thy ===== *)
theory Budget_Command
  imports Config_Models Float_Sums
begin

text \<open>
  The command \<open>llmenv.py budget\<close>: it reads the model files of the enabled models, computes the VRAM
  verdict for the configured card and the RAM verdict for the host, and joins them. The files of the
  models directory are a parameter (a name gives the bytes, or nothing when it cannot be read).
\<close>

section \<open>Settings\<close>

datatype command_error =
    Setting_missing string
  | Setting_type string
  | Config_rejected "issue list"
  | Pci_not_set
  | Gpu_not_present string "string list"
  | Model_file string
  | Gguf_rejected gguf_error
  | Budget_rejected budget_error
  | Resources_rejected resource_error

definition lift :: "('a \<Rightarrow> command_error) \<Rightarrow> ('a, 'b) result \<Rightarrow> (command_error, 'b) result" where
  "lift f r = (case r of Inl e \<Rightarrow> Inl (f e) | Inr x \<Rightarrow> Inr x)"

definition setting :: "pydict \<Rightarrow> string \<Rightarrow> (command_error, pyval) result" where
  "setting d k = (case vget d k of None \<Rightarrow> Inl (Setting_missing k) | Some v \<Rightarrow> Inr v)"

definition int_setting :: "pydict \<Rightarrow> string \<Rightarrow> (command_error, int) result" where
  "int_setting d k = bindR (setting d k) (\<lambda>v. case v of VInt n \<Rightarrow> Inr n | _ \<Rightarrow> Inl (Setting_type k))"

definition str_setting :: "pydict \<Rightarrow> string \<Rightarrow> (command_error, string) result" where
  "str_setting d k = bindR (setting d k) (\<lambda>v. case v of VStr s \<Rightarrow> Inr s | _ \<Rightarrow> Inl (Setting_type k))"

definition subsection_of :: "pydict \<Rightarrow> string \<Rightarrow> pydict" where
  "subsection_of d k = dict_items (vget_or d k (VDict []))"

section \<open>The cost of the models\<close>

definition file_mib :: "byte list \<Rightarrow> int" where
  "file_mib bytes = \<lceil>fl (of_int (int (length bytes)) / of_int (1024 * 1024))\<rceil>"

definition model_cost :: "(string \<Rightarrow> byte list option) \<Rightarrow> pydict \<Rightarrow> pydict \<Rightarrow> (command_error, cost) result" where
  "model_cost files runtime m =
     bindR (str_setting m ''file'') (\<lambda>name.
     case files name of
       None \<Rightarrow> Inl (Model_file name)
     | Some bytes \<Rightarrow>
         bindR (lift Gguf_rejected (read_gguf_header bytes)) (\<lambda>h.
         bindR (lift Gguf_rejected (kv_geometry (metadata h))) (\<lambda>g.
         bindR (case vget m ''n_cpu_moe'' of
                  None \<Rightarrow> Inr 0
                | Some VNone \<Rightarrow> Inr 0
                | Some (VInt n) \<Rightarrow> lift Gguf_rejected (moe_expert_offload_mib bytes (metadata h) n)
                | Some _ \<Rightarrow> Inl (Setting_type ''n_cpu_moe'')) (\<lambda>ram.
         bindR (str_setting m ''alias'') (\<lambda>a.
         bindR (int_setting m ''ctx_size'') (\<lambda>ctx.
         bindR (int_setting runtime ''ubatch_size'') (\<lambda>ub.
         bindR (str_setting runtime ''cache_type_k'') (\<lambda>tk.
         bindR (str_setting runtime ''cache_type_v'') (\<lambda>tv.
         bindR (lift Budget_rejected (kv_cache_components_mib g ctx ub tk tv)) (\<lambda>kv.
           Inr \<lparr>c_alias = a, c_weights_mib = file_mib bytes - ram, c_ram_weights_mib = ram, c_kv = kv\<rparr>))))))))))"

definition model_costs :: "(string \<Rightarrow> byte list option) \<Rightarrow> pydict \<Rightarrow> (command_error, cost list) result" where
  "model_costs files cfg =
     mapR (\<lambda>m. model_cost files (subsection_of cfg ''runtime'') (dict_items m)) (enabled_models cfg)"

section \<open>The limits of the host\<close>

record host_facts =
  cpu_count :: int
  memory_total_mib :: int

definition num_setting :: "pydict \<Rightarrow> string \<Rightarrow> int \<Rightarrow> pynum" where
  "num_setting d k n = (case finite_num (vget_or d k (VInt n)) of Some x \<Rightarrow> x | None \<Rightarrow> IntN n)"

definition limits_for :: "pydict \<Rightarrow> host_facts \<Rightarrow> pynum option \<Rightarrow> (resource_error, limits) result" where
  "limits_for cfg host pct =
     (let resources = subsection_of cfg ''resources''; llm = subsection_of resources ''llm_server'' in
      compute_resource_limits (IntN (cpu_count host)) (memory_total_mib host)
        (case pct of None \<Rightarrow> num_setting llm ''memory_ceiling_pct'' 46 | Some p \<Rightarrow> p)
        (num_setting llm ''memory_ceiling_floor_pct'' 30)
        (num_setting llm ''cpu_ceiling_pct'' 60)
        (num_setting llm ''cpu_ceiling_floor_pct'' 20)
        (truthy (vget_or (subsection_of cfg ''llm_server'') ''enabled'' (VBool True)))
        (truthy (vget_or (subsection_of cfg ''system_one'') ''enabled'' (VBool False)))
        (vget_or resources ''overrides'' VNone))"

section \<open>The RAM check\<close>

datatype ram_remedy =
    Floors_unreachable resource_error
  | No_pct_fits "string list" int int
  | Raise_pct "string list" int int int

record ram_report =
  ram_required :: int
  ram_available :: "int option"
  ram_shortfall :: "int option"
  ram_feasible :: bool
  ram_remedies :: "ram_remedy list"

abbreviation ram_mib :: "sized_model \<Rightarrow> int" where
  "ram_mib m \<equiv> c_ram_weights_mib (m_cost m)"

definition ram_resident :: "int \<Rightarrow> sized_model list \<Rightarrow> sized_model list" where
  "ram_resident models_max ms = take (nat models_max) (sort_key (\<lambda>m. - ram_mib m) ms)"

definition needed_pct :: "int \<Rightarrow> int \<Rightarrow> int" where
  "needed_pct required total_mib = \<lceil>fl (fl (of_int required / of_int total_mib) * 100)\<rceil>"

definition ram_check :: "pydict \<Rightarrow> host_facts \<Rightarrow> int \<Rightarrow> sized_model list \<Rightarrow> (resource_error, ram_report) result" where
  "ram_check cfg host models_max ms =
     (let res = ram_resident models_max ms;
          required = sum_list (map ram_mib res);
          aliases = map (\<lambda>m. c_alias (m_cost m)) (filter (\<lambda>m. 0 < ram_mib m) res)
      in case limits_for cfg host None of
           Inl e \<Rightarrow> Inr \<lparr>ram_required = required, ram_available = None, ram_shortfall = None, ram_feasible = False,
                         ram_remedies = [Floors_unreachable e]\<rparr>
         | Inr l \<Rightarrow>
             let available = l_memory_mib (l_llm_server l) in
             if required \<noteq> 0 \<and> available < required then
               bindR (limits_for cfg host (Some (IntN 100))) (\<lambda>top.
                 let most = l_memory_mib (l_llm_server top) in
                 Inr \<lparr>ram_required = required, ram_available = Some available,
                      ram_shortfall = Some (required - available), ram_feasible = False,
                      ram_remedies =
                        [if most < required then No_pct_fits aliases required most
                         else Raise_pct aliases required available (needed_pct required (memory_total_mib host))]\<rparr>)
             else Inr \<lparr>ram_required = required, ram_available = Some available, ram_shortfall = None,
                       ram_feasible = True, ram_remedies = []\<rparr>)"

section \<open>The command\<close>

record gpu_facts =
  gpu_pci :: string
  gpu_render :: string
  gpu_total :: int
  gpu_used :: int

record budget_report =
  vram_part :: budget
  compositor_on_this_gpu :: bool
  ram_part :: ram_report
  feasible :: bool

definition ceiling_of :: "pydict \<Rightarrow> int option" where
  "ceiling_of gpu = (case vget gpu ''vram_budget_ceiling_mib'' of Some (VInt n) \<Rightarrow> if n = 0 then None else Some n | _ \<Rightarrow> None)"

definition configured_gpu :: "pydict \<Rightarrow> gpu_facts list \<Rightarrow> (command_error, gpu_facts) result" where
  "configured_gpu cfg gpus =
     bindR (setting (subsection_of cfg ''gpu'') ''pci_address'') (\<lambda>v.
       if \<not> truthy v then Inl Pci_not_set
       else (case find (\<lambda>g. VStr (gpu_pci g) = v) gpus of
               Some g \<Rightarrow> Inr g
             | None \<Rightarrow> Inl (Gpu_not_present (text_of v) (map gpu_pci gpus))))"

definition system_one_reserve :: "pydict \<Rightarrow> (command_error, int) result" where
  "system_one_reserve cfg =
     (let s = subsection_of cfg ''system_one'' in
      if truthy (vget_or s ''enabled'' VNone) then int_setting s ''vram_reserve_mib'' else Inr 0)"

definition cmd_budget ::
  "pydict \<Rightarrow> gpu_facts list \<Rightarrow> string option \<Rightarrow> host_facts \<Rightarrow> (string \<Rightarrow> byte list option) \<Rightarrow>
   (command_error, budget_report) result" where
  "cmd_budget cfg0 gpus compositor host files =
     bindR (lift Config_rejected (require_valid_config cfg0)) (\<lambda>cfg.
     bindR (configured_gpu cfg gpus) (\<lambda>g.
     let used = (if compositor = Some (gpu_render g) then gpu_used g else 0);
         gpu = subsection_of cfg ''gpu''; runtime = subsection_of cfg ''runtime'' in
     bindR (int_setting gpu ''reserve_floor_mib'') (\<lambda>flr.
     bindR (model_costs files cfg) (\<lambda>costs.
     bindR (int_setting runtime ''models_max'') (\<lambda>n.
     bindR (str_setting runtime ''cache_type_k'') (\<lambda>tk.
     bindR (str_setting runtime ''cache_type_v'') (\<lambda>tv.
     bindR (system_one_reserve cfg) (\<lambda>extra.
     bindR (lift Budget_rejected (compute_budget (gpu_total g) used flr costs n tk tv (ceiling_of gpu) extra)) (\<lambda>b.
     bindR (lift Resources_rejected (ram_check cfg host n (b_models b))) (\<lambda>r.
       Inr \<lparr>vram_part = b, compositor_on_this_gpu = 0 < used, ram_part = r,
            feasible = (b_feasible b \<and> ram_feasible r)\<rparr>))))))))))"

section \<open>The percentage the command asks for\<close>

lemma fl_lower:
  assumes "0 < x"
  shows "x - x / 2 ^ 53 \<le> fl x"
proof -
  have "2 ^ 52 * ulp x \<le> x"
    unfolding ulp_scale using ilog2_bounds(1) [OF assms] .
  then have "ulp x / 2 \<le> x / 2 ^ 53"
    by simp
  moreover have "x - fl x \<le> ulp x / 2"
    using fl_pos_error [of x] abs_ge_minus_self [of "fl_pos x - x"] assms by (simp add: fl_of_pos)
  ultimately show ?thesis
    by linarith
qed

lemma needed_pct_enough:
  assumes "0 < r" "r \<le> t" "t \<le> 2 ^ 50"
  shows "of_int r - 1 / 4 \<le> (of_int (t * needed_pct r t) / 100 :: rat)"
proof -
  define x :: rat where "x = of_int r / of_int t"
  define a where "a = fl x"
  define f where "f = fl (a * 100)"
  have t: "(0::rat) < of_int t"
    using assms by simp
  have x: "0 < x" "x * of_int t = of_int r"
    using assms t by (simp_all add: x_def)
  have a: "x - x / 2 ^ 53 \<le> a"
    unfolding a_def by (rule fl_lower) (rule x)
  with x(1) have a0: "0 < a" by simp
  have f: "a * 100 - a * 100 / 2 ^ 53 \<le> f"
    unfolding f_def by (rule fl_lower) (use a0 in simp)
  have "(x - x / 2 ^ 53) * (100 - 100 / 2 ^ 53) \<le> a * (100 - 100 / 2 ^ 53)"
    using a by (intro mult_right_mono) simp_all
  also have "\<dots> \<le> f"
    using f by (simp add: algebra_simps)
  finally have "x * ((1 - 1 / 2 ^ 53) * (100 - 100 / 2 ^ 53)) \<le> f"
    by (simp add: algebra_simps)
  moreover have "x * (100 - 100 / 2 ^ 52) \<le> x * ((1 - 1 / 2 ^ 53) * (100 - 100 / 2 ^ 53))"
    using x(1) by (intro mult_left_mono) simp_all
  moreover have "f \<le> of_int (needed_pct r t)"
    unfolding needed_pct_def f_def a_def x_def by (rule le_of_int_ceiling)
  ultimately have "x * (100 - 100 / 2 ^ 52) \<le> of_int (needed_pct r t)"
    by linarith
  then have "of_int t * (x * (100 - 100 / 2 ^ 52)) \<le> of_int t * of_int (needed_pct r t)"
    using t by (intro mult_left_mono) simp_all
  moreover have "of_int t * (x * (100 - 100 / 2 ^ 52)) = of_int r * (100 - 100 / 2 ^ 52)"
    using x(2) by (simp add: mult.assoc [symmetric] mult.commute [of "of_int t"])
  moreover have "of_int r \<le> (of_int (2 ^ 50) :: rat)"
    using assms by (simp only: of_int_le_iff)
  then have "(of_int r :: rat) * 100 - 25 \<le> of_int r * (100 - 100 / 2 ^ 52)"
    by (simp add: algebra_simps)
  ultimately have "of_int r * 100 - 25 \<le> (of_int t * of_int (needed_pct r t) :: rat)"
    by linarith
  then show ?thesis
    by simp
qed


lemma needed_pct_bounds:
  assumes "0 < r" "r \<le> t"
  shows "0 < needed_pct r t" "needed_pct r t \<le> 100"
proof -
  have q: "0 < (of_int r / of_int t :: rat)" "(of_int r / of_int t :: rat) \<le> 1"
    using assms by simp_all
  have a: "0 < fl (of_int r / of_int t)" "fl (of_int r / of_int t) \<le> 1"
    using fl_pos_gt0 [OF q(1)] fl_of_pos [OF q(1)] fl_mono [OF q(2)] fl_int [of 1] by simp_all
  then have p: "0 < fl (of_int r / of_int t) * 100" "fl (of_int r / of_int t) * 100 \<le> 100"
    by simp_all
  have "0 < fl (fl (of_int r / of_int t) * 100)" "fl (fl (of_int r / of_int t) * 100) \<le> 100"
    using fl_pos_gt0 [OF p(1)] fl_of_pos [OF p(1)] fl_mono [OF p(2)] fl_int [of 100] by simp_all
  then show "0 < needed_pct r t" "needed_pct r t \<le> 100"
    by (simp_all add: needed_pct_def ceiling_le_iff)
qed

lemma pct_of_needed:
  assumes "0 < r" "r \<le> t" "t \<le> 2 ^ 50"
  shows "r \<le> pct_of (IntN t) (IntN (needed_pct r t))"
proof -
  have q: "fl (of_int (4 * r - 1) / 4) = of_int (4 * r - 1) / 4"
    by (rule fl_quarter) (use assms in simp)
  have e: "(of_int (4 * r - 1) / 4 :: rat) = of_int r - 1 / 4"
    by simp
  have "of_int r - 1 / 4 \<le> fl (of_int (t * needed_pct r t) / 100)"
    using fl_mono [OF needed_pct_enough [OF assms]] q unfolding e by simp
  then have "round_half_even (of_int r - 1 / 4) \<le> round_half_even (fl (of_int (t * needed_pct r t) / 100))"
    by (rule round_half_even_mono)
  moreover have "\<lfloor>of_int r - 1 / 4 :: rat\<rfloor> = r - 1"
    by (simp add: floor_eq_iff)
  then have "round_half_even (of_int r - 1 / 4) = r"
    by (simp add: round_half_even_def)
  ultimately show ?thesis
    by (simp add: pct_of_def)
qed

text \<open>The percentage enters only the memory of the llm-server.\<close>

lemma memory_floor_nonneg:
  assumes "validate_overrides v = []"
  shows "0 \<le> memory_floor (effective_policy ''omniroute'' v) (effective_policy ''remote_setup'' v)
    (effective_policy ''system_one'' v) (effective_policy ''phoenix'' v) s1"
proof -
  have "0 < intv (effective_policy s v) ''memory_min_mib''" if "s \<in> set OVERRIDABLE_SERVICES" for s
    using validated_ok [OF assms that] by (simp add: policy_ok_def numv_mem)
  from this [OF services(1)] this [OF services(2)] this [OF services(3)] this [OF services(4)] show ?thesis
    by (simp add: memory_floor_def HOST_MEMORY_FLOOR_MIB_def)
qed

lemma limits_memory:
  assumes "compute_resource_limits cpus mem mp mf cp cf en s1 v = Inr l"
  shows "\<exists>mfl \<ge> 0. \<forall>p. \<exists>l'. compute_resource_limits cpus mem p mf cp cf en s1 v = Inr l'
       \<and> l_memory_mib (l_llm_server l')
          = (if en then min (mem - mfl) (max (pct_of (IntN mem) mf) (pct_of (IntN mem) p)) else 0)"
proof -
  have "validate_overrides v = []"
    using assms by (auto simp: compute_resource_limits_def split: if_splits)
  note mfl = memory_floor_nonneg [OF this, of s1]
  show ?thesis
    by (rule exI, rule conjI [OF mfl])
       (use assms in \<open>auto simp: compute_resource_limits_def Let_def llm_server_limits_def split: if_splits\<close>)
qed

lemma limits_for_memory:
  assumes "limits_for cfg host p0 = Inr l"
  shows "\<exists>en mf. \<exists>mfl \<ge> 0. \<forall>p. \<exists>l'. limits_for cfg host (Some p) = Inr l' \<and> l_memory_mib (l_llm_server l')
        = (if en then min (memory_total_mib host - mfl) (max mf (pct_of (IntN (memory_total_mib host)) p)) else 0)"
  using limits_memory [OF assms [unfolded limits_for_def Let_def]] unfolding limits_for_def Let_def option.case by blast

text \<open>
  The advice of the RAM check works. When the check asks to raise \<open>memory_ceiling_pct\<close> to some
  percentage, that percentage is one that validation accepts, and with it the host grants the
  llm-server at least the memory the offloaded experts need, in spite of every rounding on the way.
\<close>

theorem raise_pct_suffices:
  assumes "ram_check cfg host n ms = Inr r" "Raise_pct aliases required available pct \<in> set (ram_remedies r)"
    "memory_total_mib host \<le> 2 ^ 50" "0 < required"
  shows "0 < pct \<and> pct \<le> 100 \<and> (\<exists>l. limits_for cfg host (Some (IntN pct)) = Inr l \<and> required \<le> l_memory_mib (l_llm_server l))"
proof -
  let ?t = "memory_total_mib host"
  obtain l0 top where l: "limits_for cfg host None = Inr l0" "limits_for cfg host (Some (IntN 100)) = Inr top"
    and r: "required \<le> l_memory_mib (l_llm_server top)" "available < required" "pct = needed_pct required ?t"
    using assms(1,2) by (auto simp: ram_check_def Let_def split: sum.splits if_splits)
  obtain en mf mfl where mfl: "0 \<le> mfl" and m: "\<forall>p. \<exists>l'. limits_for cfg host (Some p) = Inr l' \<and> l_memory_mib (l_llm_server l')
      = (if en then min (?t - mfl) (max mf (pct_of (IntN ?t) p)) else 0)"
    using limits_for_memory [OF l(1)] by blast
  have top: "l_memory_mib (l_llm_server top) = (if en then min (?t - mfl) (max mf (pct_of (IntN ?t) (IntN 100))) else 0)"
    using m [rule_format, of "IntN 100"] l(2) by auto
  with r(1) assms(4) mfl have en: en "required \<le> ?t - mfl" "required \<le> ?t"
    by (auto split: if_splits)
  obtain l1 where l1: "limits_for cfg host (Some (IntN pct)) = Inr l1"
    "l_memory_mib (l_llm_server l1) = (if en then min (?t - mfl) (max mf (pct_of (IntN ?t) (IntN pct))) else 0)"
    using m by blast
  have "required \<le> l_memory_mib (l_llm_server l1)"
    using l1(2) en pct_of_needed [OF assms(4) en(3) assms(3)] r(3) by simp
  with l1(1) needed_pct_bounds [OF assms(4) en(3)] r(3) show ?thesis
    by blast
qed


definition sample_host :: host_facts where
  "sample_host = \<lparr>cpu_count = 16, memory_total_mib = 50000\<rparr>"

definition offloaded :: sized_model where
  "offloaded = size_model \<lparr>c_alias = ''a'', c_weights_mib = 4000, c_ram_weights_mib = 30000,
     c_kv = \<lparr>full_kv_mib = 500, swa_kv_mib = 0, kv_mib = 500\<rparr>\<rparr>"

lemma pct_exact: "100 * n \<le> 2 ^ 53 \<Longrightarrow> 0 \<le> n \<Longrightarrow> t * p = 100 * n \<Longrightarrow> pct_of (IntN t) (IntN p) = n"
  by (simp add: pct_of_def fl_int)

lemma sample_policies:
  "intv (effective_policy ''omniroute'' VNone) ''memory_min_mib'' = 768" "numv (effective_policy ''omniroute'' VNone) ''cpus_min'' = IntN 1"
  "intv (effective_policy ''remote_setup'' VNone) ''memory_min_mib'' = 32"
  "numv (effective_policy ''remote_setup'' VNone) ''cpus_min'' = FloatN (1 / 4)"
  by (simp_all add: effective_policy_def policy_entries_def override_of_def default_policy_def DEFAULT_POLICY_def
      policy_dict_def numv_def intv_def vget_or_def)

lemma sample_sections: "subsection_of sample_config ''resources'' = []" "subsection_of sample_config ''llm_server'' = []"
  "subsection_of sample_config ''system_one'' = []" "subsection_of [] k = []"
  by (simp_all add: subsection_of_def sample_config_def vget_or_def)

lemma sample_limits_for:
  "\<exists>l. limits_for sample_config sample_host (Some p) = Inr l
     \<and> l_memory_mib (l_llm_server l) = min 45104 (max 15000 (pct_of (IntN 50000) p))"
proof -
  have f: "fl (13 / 4) = 13 / 4" "fl 3 = 3"
    using fl_quarter [of 13] fl_int [of 3] by simp_all
  have c: "cpu_floor (effective_policy ''omniroute'' VNone) (effective_policy ''remote_setup'' VNone) so ph False = FloatN (13 / 4)"
    "memory_floor (effective_policy ''omniroute'' VNone) (effective_policy ''remote_setup'' VNone) so ph False = 4896" for so ph
    by (simp_all add: cpu_floor_def memory_floor_def sample_policies HOST_CPU_FLOOR_def HOST_MEMORY_FLOOR_MIB_def f)
  have v: "validate_overrides VNone = []"
    by (simp add: validate_overrides_def)
  have s: "limits_for sample_config sample_host (Some p) =
      compute_resource_limits (IntN 16) 50000 p (IntN 30) (IntN 60) (IntN 20) True False VNone"
    by (simp add: limits_for_def Let_def sample_sections num_setting_def vget_or_def sample_host_def)
  show ?thesis
    unfolding s by (simp add: compute_resource_limits_def Let_def c v llm_server_limits_def pct_exact [of 15000])
qed

lemma sample_raise:
  "ram_check sample_config sample_host 1 [offloaded] =
     Inr \<lparr>ram_required = 30000, ram_available = Some 23000, ram_shortfall = Some 7000, ram_feasible = False,
          ram_remedies = [Raise_pct [''a''] 30000 23000 (needed_pct 30000 50000)]\<rparr>"
proof -
  have n: "limits_for sample_config sample_host None = limits_for sample_config sample_host (Some (IntN 46))"
    by (simp add: limits_for_def Let_def sample_sections num_setting_def vget_or_def)
  obtain l where l: "limits_for sample_config sample_host None = Inr l" "l_memory_mib (l_llm_server l) = 23000"
    unfolding n using sample_limits_for [of "IntN 46"] by (auto simp: pct_exact [of 23000])
  obtain t where t: "limits_for sample_config sample_host (Some (IntN 100)) = Inr t" "l_memory_mib (l_llm_server t) = 45104"
    using sample_limits_for [of "IntN 100"] by (auto simp: pct_exact [of 50000])
  show ?thesis
    using l t by (simp add: ram_check_def ram_resident_def offloaded_def size_model_def sample_host_def [symmetric])
      (simp add: sample_host_def)
qed

lemma raise_pct_suffices_witness:
  "\<exists>l. limits_for sample_config sample_host (Some (IntN (needed_pct 30000 50000))) = Inr l \<and> 30000 \<le> l_memory_mib (l_llm_server l)"
  using raise_pct_suffices [OF sample_raise, of "[''a'']" 30000 23000 "needed_pct 30000 50000"] by (simp add: sample_host_def)

text \<open>
  The RAM verdict covers every choice of resident models. For models with non-negative RAM parts,
  the check says feasible exactly when the host can be budgeted at all and any selection of at most
  \<open>models_max\<close> models needs no RAM or fits the memory granted to the llm-server.
\<close>

theorem ram_verdict_complete:
  assumes "ram_check cfg host n ms = Inr r" "\<forall>m \<in> set ms. 0 \<le> ram_mib m" "0 \<le> n" "n \<le> int (length ms)"
  shows "ram_feasible r \<longleftrightarrow>
    (\<exists>l. limits_for cfg host None = Inr l \<and>
      (\<forall>sub. mset sub \<subseteq># mset ms \<longrightarrow> int (length sub) \<le> n \<longrightarrow>
         sum_list (map ram_mib sub) = 0 \<or> sum_list (map ram_mib sub) \<le> l_memory_mib (l_llm_server l)))"
proof (cases "limits_for cfg host None")
  case (Inl e)
  with assms(1) show ?thesis
    by (auto simp: ram_check_def Let_def)
next
  case (Inr l)
  let ?res = "ram_resident n ms"
  have res: "mset ?res \<subseteq># mset ms" "int (length ?res) \<le> n"
    unfolding ram_resident_def by (rule take_sort_key_sub) (use assms(3) in simp)
  have worst: "sum_list (map ram_mib sub) \<le> sum_list (map ram_mib ?res)" "0 \<le> sum_list (map ram_mib sub)"
    if "mset sub \<subseteq># mset ms" "int (length sub) \<le> n" for sub
  proof -
    show "sum_list (map ram_mib sub) \<le> sum_list (map ram_mib ?res)"
      unfolding ram_resident_def by (rule worst_case [OF that assms(4,2)])
    have "set sub \<subseteq> set ms"
      using that(1) by (metis set_mset_mono set_mset_mset)
    then show "0 \<le> sum_list (map ram_mib sub)"
      using assms(2) by (intro sum_list_nonneg) auto
  qed
  have "ram_feasible r \<longleftrightarrow> \<not> (sum_list (map ram_mib ?res) \<noteq> 0 \<and> l_memory_mib (l_llm_server l) < sum_list (map ram_mib ?res))"
    using assms(1) Inr by (auto simp: ram_check_def Let_def split: if_splits)
  then show ?thesis
    using Inr res worst by (fastforce simp: not_less)
qed

lemma ram_verdict_complete_witness:
  "\<exists>l. limits_for sample_config sample_host None = Inr l \<and> \<not> 30000 \<le> l_memory_mib (l_llm_server l)"
proof -
  have "\<not> (\<exists>l. limits_for sample_config sample_host None = Inr l \<and>
      (\<forall>sub. mset sub \<subseteq># mset [offloaded] \<longrightarrow> int (length sub) \<le> 1 \<longrightarrow>
         sum_list (map ram_mib sub) = 0 \<or> sum_list (map ram_mib sub) \<le> l_memory_mib (l_llm_server l)))"
    using ram_verdict_complete [OF sample_raise] by (simp add: offloaded_def size_model_def)
  moreover obtain l where l: "limits_for sample_config sample_host None = Inr l"
    using sample_raise by (cases "limits_for sample_config sample_host None") (auto simp: ram_check_def Let_def)
  ultimately obtain sub where sub: "mset sub \<subseteq># mset [offloaded]" "sum_list (map ram_mib sub) \<noteq> 0"
      "\<not> sum_list (map ram_mib sub) \<le> l_memory_mib (l_llm_server l)"
    by blast
  have "length sub \<le> 1" "set sub \<subseteq> {offloaded}"
    using size_mset_mono [OF sub(1)] set_mset_mono [OF sub(1)] by simp_all
  with sub(2) have "sub = [offloaded]"
    by (cases sub) auto
  with sub(3) l show ?thesis
    by (simp add: offloaded_def size_model_def)
qed

end
