(* ===== verification/Detect.thy ===== *)
theory Detect
  imports Py_Text
begin

text \<open>
  Detection of the graphics cards and of the host (\<open>pylib/detect.py\<close>). What the program reads from
  sysfs and procfs is a record per directory entry: a file that is absent, unreadable or has a text.
  Everything the code computes from it is modelled: the list of cards, the compositor's render node,
  the VRAM of a process, the processes on a render node, the host's CPUs and memory, the index of a
  card for ROCm and the name of its architecture.
\<close>

section \<open>Files\<close>

datatype sys_file = No_file | Bad_file | Content string

datatype detect_error =
    Cannot_read string
  | Not_integer string
  | No_processors
  | Malformed_memory string
  | No_memory_total
  | No_render_minor string
  | Minor_not_found int
  | No_target_version string
  | Version_too_wide int
  | Bad_number string
  | Bad_properties string

definition read_int_required :: "string \<Rightarrow> sys_file \<Rightarrow> (detect_error, int option) result" where
  "read_int_required path f =
     (case f of
        No_file \<Rightarrow> Inr None
      | Bad_file \<Rightarrow> Inl (Cannot_read path)
      | Content t \<Rightarrow> (case parse_int t of None \<Rightarrow> Inl (Not_integer path) | Some n \<Rightarrow> Inr (Some n)))"

definition read_int_optional :: "sys_file \<Rightarrow> int" where
  "read_int_optional f = (case f of Content t \<Rightarrow> (case parse_int t of None \<Rightarrow> 0 | Some n \<Rightarrow> n) | _ \<Rightarrow> 0)"

definition MIB_bytes :: int where "MIB_bytes = 1024 * 1024"

text \<open>A name that is \<open>prefix\<close> followed by digits (\<open>CARD_RE\<close> and \<open>RENDER_RE\<close>).\<close>

definition numbered :: "string \<Rightarrow> string \<Rightarrow> bool" where
  "numbered prefix s \<longleftrightarrow> starts_with prefix s \<and> all_digits (drop (length prefix) s)"

definition is_card :: "string \<Rightarrow> bool" where "is_card = numbered ''card''"
definition is_render :: "string \<Rightarrow> bool" where "is_render = numbered ''renderD''"

section \<open>The cards\<close>

text \<open>An entry of \<open>/sys/class/drm\<close>; \<open>drm_pci\<close> is the name the \<open>device\<close> link resolves to, if there is one.\<close>

record drm_entry =
  drm_name :: string
  drm_pci :: "string option"
  drm_status :: "string option"
  drm_vram_total :: sys_file
  drm_vram_used :: sys_file
  drm_vendor :: "string option"

record gpu =
  card :: string
  pci_address :: string
  render_node :: string
  vram_total_mib :: int
  vram_used_mib :: int
  connected_outputs :: "string list"
  vendor :: string

definition pci_of :: "drm_entry \<Rightarrow> string option" where
  "pci_of e = (case drm_pci e of Some p \<Rightarrow> if p = [] then None else Some p | None \<Rightarrow> None)"

definition render_by_pci :: "drm_entry list \<Rightarrow> (string, string) dict" where
  "render_by_pci entries =
     foldl (\<lambda>d e. case pci_of e of
                      Some p \<Rightarrow> if is_render (drm_name e) then dput p (drm_name e) d else d
                    | None \<Rightarrow> d) [] entries"

definition outputs_by_card :: "drm_entry list \<Rightarrow> (string, string list) dict" where
  "outputs_by_card entries =
     foldl (\<lambda>d e. case drm_status e of
                      Some t \<Rightarrow>
                        if strip t = ''connected'' then
                          let c = takeWhile (\<lambda>x. x \<noteq> CHR ''-'') (drm_name e) in
                          dput c ((case dget d c of None \<Rightarrow> [] | Some os \<Rightarrow> os) @ [drm_name e]) d
                        else d
                    | None \<Rightarrow> d) [] entries"

definition gpu_of ::
  "(string, string) dict \<Rightarrow> (string, string list) dict \<Rightarrow> drm_entry \<Rightarrow> (detect_error, gpu option) result" where
  "gpu_of renders outputs e =
     (case (is_card (drm_name e), pci_of e) of
        (True, Some p) \<Rightarrow>
          bindR (read_int_required (drm_name e) (drm_vram_total e)) (\<lambda>total.
            case total of
              None \<Rightarrow> Inr None
            | Some t \<Rightarrow>
                Inr (Some \<lparr>card = drm_name e, pci_address = p,
                  render_node = (case dget renders p of None \<Rightarrow> [] | Some r \<Rightarrow> r),
                  vram_total_mib = t div MIB_bytes, vram_used_mib = read_int_optional (drm_vram_used e) div MIB_bytes,
                  connected_outputs = sort (case dget outputs (drm_name e) of None \<Rightarrow> [] | Some os \<Rightarrow> os),
                  vendor = (case drm_vendor e of None \<Rightarrow> [] | Some v \<Rightarrow> strip v)\<rparr>))
      | _ \<Rightarrow> Inr None)"

definition list_gpus :: "drm_entry list option \<Rightarrow> (detect_error, gpu list) result" where
  "list_gpus root =
     (case root of
        None \<Rightarrow> Inr []
      | Some entries \<Rightarrow>
          bindR (mapR (gpu_of (render_by_pci entries) (outputs_by_card entries)) entries) (\<lambda>gs.
            Inr (sort_key card (concat (map (\<lambda>g. case g of None \<Rightarrow> [] | Some x \<Rightarrow> [x]) gs)))))"

section \<open>Processes\<close>

text \<open>
  An entry of \<open>/proc\<close>: \<open>comm\<close> and the list of descriptors are \<open>None\<close> when they cannot be read. A
  descriptor has the name its link resolves to and the text of its \<open>fdinfo\<close> file.
\<close>

record descriptor =
  fd_target :: "string option"
  fd_info :: "string option"

record process =
  proc_name :: string
  proc_comm :: "string option"
  proc_fds :: "descriptor list option"
  proc_exe :: "string option"
  proc_cmdline :: "string option"

definition COMPOSITOR_NAMES :: "string list" where
  "COMPOSITOR_NAMES = [''kwin_wayland'', ''kwin_x11'', ''plasmashell'', ''gnome-shell'', ''sway'']"

definition is_pid :: "process \<Rightarrow> bool" where
  "is_pid p \<longleftrightarrow> all_digits (proc_name p)"

definition render_target :: "process \<Rightarrow> string option" where
  "render_target p =
     (case (proc_comm p, proc_fds p) of
        (Some c, Some fds) \<Rightarrow>
          if is_pid p \<and> strip c \<in> set COMPOSITOR_NAMES
          then (case find (\<lambda>fd. case fd_target fd of Some t \<Rightarrow> is_render t | None \<Rightarrow> False) fds of
                  Some fd \<Rightarrow> fd_target fd | None \<Rightarrow> None)
          else None
      | _ \<Rightarrow> None)"

fun first_some :: "'a option list \<Rightarrow> 'a option" where
  "first_some [] = None"
| "first_some (x # xs) = (case x of None \<Rightarrow> first_some xs | Some y \<Rightarrow> Some y)"

definition compositor_render_node :: "process list option \<Rightarrow> string option" where
  "compositor_render_node root =
     (case root of None \<Rightarrow> None | Some ps \<Rightarrow> first_some (map render_target ps))"

section \<open>The VRAM of a descriptor\<close>

text \<open>The text after the first colon of a line.\<close>

definition after_colon :: "string \<Rightarrow> string" where
  "after_colon line = (case partition_at (CHR '':'') line of (_, _, rest) \<Rightarrow> rest)"

definition vram_unit :: "string \<Rightarrow> int option" where
  "vram_unit u =
     (let v = map lower u in
      if v = ''kib'' then Some 1024
      else if v = ''mib'' then Some MIB_bytes
      else if v = ''gib'' then Some (1024 * MIB_bytes)
      else if v = ''b'' then Some 1
      else None)"

definition vram_line :: "string \<Rightarrow> int option" where
  "vram_line line =
     (case split_ws (after_colon line) of
        [amount, u] \<Rightarrow>
          (case (parse_int amount, vram_unit u) of (Some n, Some k) \<Rightarrow> Some (n * k) | _ \<Rightarrow> None)
      | [amount] \<Rightarrow> parse_int amount
      | _ \<Rightarrow> None)"

definition fdinfo_line :: "int \<times> string option \<Rightarrow> string \<Rightarrow> int \<times> string option" where
  "fdinfo_line acc line =
     (if starts_with ''drm-memory-vram:'' line then
        ((case vram_line line of Some n \<Rightarrow> n | None \<Rightarrow> fst acc), snd acc)
      else if starts_with ''drm-client-id:'' line then
        (fst acc, if strip (after_colon line) = [] then snd acc else Some (strip (after_colon line)))
      else acc)"

definition parse_fdinfo :: "string \<Rightarrow> int \<times> string option" where
  "parse_fdinfo text = foldl fdinfo_line (0, None) (splitlines text)"

definition drm_pdev :: "string \<Rightarrow> string option" where
  "drm_pdev text =
     (case find (starts_with ''drm-pdev:'') (splitlines text) of
        None \<Rightarrow> None
      | Some line \<Rightarrow> if strip (after_colon line) = [] then None else Some (strip (after_colon line)))"

section \<open>The VRAM of a process\<close>

text \<open>A client that was seen before is not counted again.\<close>

definition count_client :: "int \<times> string list \<Rightarrow> int \<times> string option \<Rightarrow> int \<times> string list" where
  "count_client acc x =
     (case snd x of
        None \<Rightarrow> (fst acc + fst x, snd acc)
      | Some c \<Rightarrow> if c \<in> set (snd acc) then acc else (fst acc + fst x, c # snd acc))"

definition count_clients :: "(int \<times> string option) list \<Rightarrow> int" where
  "count_clients xs = fst (foldl count_client (0, []) xs)"

text \<open>The \<open>fdinfo\<close> directory of a process: \<open>None\<close> when it cannot be listed.\<close>

definition process_vram_mib :: "string \<Rightarrow> string option list option \<Rightarrow> int option" where
  "process_vram_mib pci_text dir =
     map_option (\<lambda>files.
       count_clients (map parse_fdinfo
         (filter (\<lambda>t. drm_pdev t = Some (strip pci_text)) (concat (map (\<lambda>f. case f of None \<Rightarrow> [] | Some t \<Rightarrow> [t]) files))))
       div MIB_bytes) dir"

record process_report =
  rep_pid :: int
  rep_comm :: string
  rep_exe :: string
  rep_cmdline :: string
  rep_vram_mib :: int

definition node_infos :: "string \<Rightarrow> descriptor list \<Rightarrow> (int \<times> string option) list" where
  "node_infos node fds =
     concat (map (\<lambda>fd. case fd_info fd of Some t \<Rightarrow> [parse_fdinfo t] | None \<Rightarrow> [])
       (filter (\<lambda>fd. fd_target fd = Some node) fds))"

definition nul_to_space :: "string \<Rightarrow> string" where
  "nul_to_space = map (\<lambda>c. if of_char c = (0::nat) then CHR '' '' else c)"

definition process_report :: "string \<Rightarrow> process \<Rightarrow> process_report list" where
  "process_report node p =
     (case (proc_comm p, proc_fds p) of
        (Some c, Some fds) \<Rightarrow>
          if is_pid p \<and> (\<exists>fd \<in> set fds. fd_target fd = Some node) then
            [\<lparr>rep_pid = digits_value (proc_name p), rep_comm = strip c,
              rep_exe = (case proc_exe p of Some e \<Rightarrow> e | None \<Rightarrow> strip c),
              rep_cmdline = (case proc_cmdline p of Some t \<Rightarrow> strip (nul_to_space t) | None \<Rightarrow> []),
              rep_vram_mib = count_clients (node_infos node fds) div MIB_bytes\<rparr>]
          else []
      | _ \<Rightarrow> [])"

definition processes_on_render_node :: "string \<Rightarrow> process list option \<Rightarrow> process_report list" where
  "processes_on_render_node node root =
     (case root of None \<Rightarrow> [] | Some ps \<Rightarrow> concat (map (process_report node) ps))"

section \<open>The host\<close>

record host_resources =
  h_cpu_count :: int
  h_memory_total_mib :: int

definition mem_total_kib :: "string \<Rightarrow> (detect_error, int) result" where
  "mem_total_kib meminfo =
     (case find (starts_with ''MemTotal:'') (splitlines meminfo) of
        None \<Rightarrow> Inl No_memory_total
      | Some line \<Rightarrow>
          (case split_ws line of
             _ # v # _ \<Rightarrow> if all_digits v then Inr (digits_value v) else Inl (Malformed_memory line)
           | _ \<Rightarrow> Inl (Malformed_memory line)))"

definition host_resources_of :: "string option \<Rightarrow> string option \<Rightarrow> (detect_error, host_resources) result" where
  "host_resources_of cpuinfo meminfo =
     (case cpuinfo of
        None \<Rightarrow> Inl (Cannot_read ''cpuinfo'')
      | Some c \<Rightarrow>
          let n = length (filter (starts_with ''processor'') (splitlines c)) in
          if n = 0 then Inl No_processors
          else (case meminfo of
                  None \<Rightarrow> Inl (Cannot_read ''meminfo'')
                | Some m \<Rightarrow>
                    bindR (mem_total_kib m) (\<lambda>kib.
                      Inr \<lparr>h_cpu_count = int n, h_memory_total_mib = kib div 1024\<rparr>)))"

section \<open>ROCm\<close>

text \<open>
  A node of the KFD topology: its name, the text of \<open>gpu_id\<close> and of \<open>properties\<close>. A line of
  \<open>properties\<close> must have two words.
\<close>

record kfd_node =
  kfd_name :: string
  kfd_gpu_id :: string
  kfd_properties :: string

definition kfd_order :: "kfd_node list \<Rightarrow> kfd_node list" where
  "kfd_order nodes = sort_key (\<lambda>n. digits_value (kfd_name n)) (filter (\<lambda>n. all_digits (kfd_name n)) nodes)"

definition is_gpu_node :: "kfd_node \<Rightarrow> bool" where
  "is_gpu_node n \<longleftrightarrow> strip (kfd_gpu_id n) \<noteq> ''0''"

definition property_pair :: "string \<Rightarrow> (detect_error, string \<times> string) result" where
  "property_pair line = (case split_ws line of [a, b] \<Rightarrow> Inr (a, b) | _ \<Rightarrow> Inl (Bad_properties line))"

text \<open>
  \<open>next(...)\<close> over the pairs is lazy: it stops at the first line for the wanted key, so a malformed
  line after it is not seen.
\<close>

fun first_property :: "string \<Rightarrow> string list \<Rightarrow> (detect_error, string option) result" where
  "first_property k [] = Inr None"
| "first_property k (l # ls) =
     bindR (property_pair l) (\<lambda>(a, b). if a = k then Inr (Some b) else first_property k ls)"

definition int_text :: "string \<Rightarrow> (detect_error, int) result" where
  "int_text t = (case parse_int t of None \<Rightarrow> Inl (Bad_number t) | Some n \<Rightarrow> Inr n)"

definition node_minor :: "kfd_node \<Rightarrow> (detect_error, int) result" where
  "node_minor n =
     bindR (first_property ''drm_render_minor'' (splitlines (kfd_properties n))) (\<lambda>v.
       case v of None \<Rightarrow> Inl (No_render_minor (kfd_name n)) | Some t \<Rightarrow> int_text t)"

fun index_of :: "int \<Rightarrow> int list \<Rightarrow> nat option" where
  "index_of x [] = None"
| "index_of x (y # ys) = (if x = y then Some 0 else map_option Suc (index_of x ys))"

definition rocr_visible_index :: "int \<Rightarrow> kfd_node list \<Rightarrow> (detect_error, nat) result" where
  "rocr_visible_index minor nodes =
     bindR (mapR node_minor (filter is_gpu_node (kfd_order nodes))) (\<lambda>gpus.
       case index_of minor gpus of None \<Rightarrow> Inl (Minor_not_found minor) | Some i \<Rightarrow> Inr i)"

definition node_fields :: "kfd_node \<Rightarrow> (detect_error, (string, string) dict) result" where
  "node_fields n = bindR (mapR property_pair (splitlines (kfd_properties n))) (\<lambda>ps. Inr (dict_of ps))"

fun find_version :: "string \<Rightarrow> kfd_node list \<Rightarrow> (detect_error, int option) result" where
  "find_version want [] = Inr None"
| "find_version want (n # ns) =
     (if \<not> is_gpu_node n then find_version want ns
      else bindR (node_fields n) (\<lambda>fs.
             if dget fs ''drm_render_minor'' \<noteq> Some want then find_version want ns
             else (case dget fs ''gfx_target_version'' of
                     None \<Rightarrow> Inl (No_target_version (kfd_name n))
                   | Some raw \<Rightarrow> bindR (int_text raw) (\<lambda>v. Inr (Some v)))))"

definition hex_digit :: "int \<Rightarrow> string" where
  "hex_digit n = (if n < 10 then [char_of (48 + nat n)] else [char_of (87 + nat n)])"

definition gfx_name :: "int \<Rightarrow> (detect_error, string) result" where
  "gfx_name version =
     (let major = version div 10000; rem = version mod 10000; minor = rem div 100; step = rem mod 100 in
      if 15 < minor \<or> 15 < step then Inl (Version_too_wide version)
      else Inr (''gfx'' @ show_int major @ hex_digit minor @ hex_digit step))"

definition remove_prefix :: "string \<Rightarrow> string \<Rightarrow> string" where
  "remove_prefix p s = (if starts_with p s then drop (length p) s else s)"

definition gfx_arch :: "string \<Rightarrow> kfd_node list \<Rightarrow> (detect_error, string) result" where
  "gfx_arch node nodes =
     bindR (int_text (remove_prefix ''renderD'' node)) (\<lambda>minor.
     bindR (find_version (show_int minor) (kfd_order nodes)) (\<lambda>v.
       case v of None \<Rightarrow> Inl (Minor_not_found minor) | Some ver \<Rightarrow> gfx_name ver))"

section \<open>Each client is counted once\<close>

definition clients :: "(int \<times> string option) list \<Rightarrow> string set" where
  "clients xs = {c. \<exists>b. (b, Some c) \<in> set xs}"

definition consistent :: "(string \<Rightarrow> int) \<Rightarrow> (int \<times> string option) list \<Rightarrow> bool" where
  "consistent f xs \<longleftrightarrow> (\<forall>(b, c) \<in> set xs. case c of None \<Rightarrow> True | Some k \<Rightarrow> b = f k)"

lemma clients_simps [simp]:
  "clients [] = {}" "clients ((b, None) # xs) = clients xs" "clients ((b, Some c) # xs) = insert c (clients xs)"
  by (auto simp: clients_def)

lemma finite_clients [simp]: "finite (clients xs)"
proof (induction xs)
  case (Cons x xs)
  then show ?case by (cases x; cases "snd x") auto
qed simp

lemma count_clients_from:
  assumes "consistent f xs"
  shows "fst (foldl count_client (n, seen) xs) = n + sum_list (map fst (filter (\<lambda>x. snd x = None) xs)) + sum f (clients xs - set seen)"
  using assms
proof (induction xs arbitrary: n seen)
  case Nil
  then show ?case by simp
next
  case (Cons x xs)
  obtain b c where x: "x = (b, c)"
    by fastforce
  have con: "consistent f xs"
    using Cons.prems by (simp add: consistent_def)
  show ?case
  proof (cases c)
    case None
    with x Cons.IH [OF con] show ?thesis
      by (simp add: count_client_def)
  next
    case (Some k)
    then have b: "b = f k"
      using Cons.prems x by (simp add: consistent_def)
    show ?thesis
    proof (cases "k \<in> set seen")
      case True
      with x Some Cons.IH [OF con, of n seen] show ?thesis
        by (simp add: count_client_def insert_absorb insert_Diff_if)
    next
      case False
      have "sum f (insert k (clients xs) - set seen) = f k + sum f (clients xs - set (k # seen))"
      proof -
        have "insert k (clients xs) - set seen = insert k (clients xs - set (k # seen))"
          using False by auto
        then show ?thesis
          by simp
      qed
      with x Some b False Cons.IH [OF con, of "n + b" "k # seen"] show ?thesis
        by (simp add: count_client_def)
    qed
  qed
qed

text \<open>
  C19: the VRAM of a process counts every DRM client once. When the descriptors of one client report
  the same amount (duplicates of one descriptor do), the result is the sum of the descriptors without
  a client and of one amount per client, in whole mebibytes, whatever the order and the number of
  duplicates; descriptors of other cards are left out.
\<close>

theorem process_vram_counts_clients:
  assumes "infos = map parse_fdinfo [t. Some t \<leftarrow> files, drm_pdev t = Some (strip pci_text)]" "consistent f infos"
  shows "process_vram_mib pci_text (Some files) =
    Some ((sum_list (map fst (filter (\<lambda>x. snd x = None) infos)) + sum f (clients infos)) div MIB_bytes)"
proof -
  have "infos = map parse_fdinfo
      (filter (\<lambda>t. drm_pdev t = Some (strip pci_text)) (concat (map (\<lambda>x. case x of None \<Rightarrow> [] | Some t \<Rightarrow> [t]) files)))"
    unfolding assms(1) by (induction files) (auto split: option.splits)
  then have "process_vram_mib pci_text (Some files) = Some (count_clients infos div MIB_bytes)"
    by (simp add: process_vram_mib_def)
  then show ?thesis
    using count_clients_from [OF assms(2), of 0 "[]"] by (simp add: count_clients_def)
qed


definition sample_fdinfo :: string where
  "sample_fdinfo = ''drm-pdev: 03:00\<newline>drm-client-id: 7\<newline>drm-memory-vram: 1 mib\<newline>''"

lemmas text_evaluation = is_space_def is_digit_def lower_def strip_def of_char_def splitlines_def is_line_end_def split_ws_def
  partition_at_def starts_with_def after_colon_def parse_int_def digits_value_def digit_val_def

lemma sample_fdinfo_parse:
  "splitlines sample_fdinfo = [''drm-pdev: 03:00'', ''drm-client-id: 7'', ''drm-memory-vram: 1 mib'']"
  "parse_fdinfo sample_fdinfo = (1048576, Some ''7'')" "drm_pdev sample_fdinfo = Some ''03:00''"
proof -
  show l: "splitlines sample_fdinfo = [''drm-pdev: 03:00'', ''drm-client-id: 7'', ''drm-memory-vram: 1 mib'']"
    by (simp add: sample_fdinfo_def text_evaluation)
  have v: "vram_line ''drm-memory-vram: 1 mib'' = Some 1048576"
    by (simp add: vram_line_def vram_unit_def MIB_bytes_def text_evaluation)
  show "parse_fdinfo sample_fdinfo = (1048576, Some ''7'')"
    by (simp add: parse_fdinfo_def l fdinfo_line_def v) (simp add: text_evaluation)
  show "drm_pdev sample_fdinfo = Some ''03:00''"
    by (simp add: drm_pdev_def l) (simp add: text_evaluation)
qed

lemma process_vram_counts_clients_witness:
  "process_vram_mib ''03:00'' (Some [Some sample_fdinfo, None, Some sample_fdinfo]) = Some 1"
proof -
  have s: "strip ''03:00'' = ''03:00''"
    by (simp add: text_evaluation)
  have "map parse_fdinfo [t. Some t \<leftarrow> [Some sample_fdinfo, None, Some sample_fdinfo], drm_pdev t = Some (strip ''03:00'')]
      = [(1048576, Some ''7''), (1048576, Some ''7'')]"
    by (simp add: sample_fdinfo_parse s)
  from process_vram_counts_clients [OF this [symmetric], of "\<lambda>_. 1048576"] show ?thesis
    by (simp add: consistent_def MIB_bytes_def)
qed

section \<open>The index and the name of a card\<close>

lemma index_of_Some: "index_of x ys = Some i \<Longrightarrow> i < length ys \<and> ys ! i = x \<and> x \<notin> set (take i ys)"
  by (induction ys arbitrary: i) (auto split: if_splits)

lemma hex_digit_inj:
  assumes "0 \<le> a" "a \<le> 15" "0 \<le> b" "b \<le> 15" "hex_digit a = hex_digit b"
  shows "a = b"
proof -
  have c: "hex_digit n = [char_of (if n < 10 then 48 + nat n else 87 + nat n)]" for n
    by (simp add: hex_digit_def)
  have "(char_of (if a < 10 then 48 + nat a else 87 + nat a) :: char) = char_of (if b < 10 then 48 + nat b else 87 + nat b)"
    using assms(5) unfolding c by simp
  then have "(if a < 10 then 48 + nat a else 87 + nat a) mod 256 = (if b < 10 then 48 + nat b else 87 + nat b) mod 256"
    by (metis of_char_of)
  with assms(1-4) show ?thesis
    by (auto split: if_splits)
qed

lemma show_nat_inj: "show_nat a = show_nat b \<Longrightarrow> a = b"
  by (metis parse_show_nat of_nat_eq_iff option.inject)

lemma show_nat_no_sign: "show_nat n \<noteq> CHR ''-'' # s"
proof
  assume "show_nat n = CHR ''-'' # s"
  then have "is_digit (CHR ''-'')"
    using show_nat_digits [of n] by (auto simp: all_digits_def)
  then show False
    by (simp add: is_digit_def)
qed

lemma show_int_inj:
  assumes "show_int a = show_int b"
  shows "a = b"
proof (cases "a < 0 \<longleftrightarrow> b < 0")
  case True
  then have "nat (if a < 0 then - a else a) = nat (if b < 0 then - b else b)"
    using assms by (intro show_nat_inj) (simp add: show_int_def split: if_splits)
  with True show ?thesis
    by (simp split: if_splits)
next
  case False
  with assms show ?thesis
    using show_nat_no_sign show_nat_no_sign [THEN not_sym] by (simp add: show_int_def split: if_splits)
qed

lemma split_name:
  assumes "length a2 = 1" "length b2 = 1" "length a3 = 1" "length b3 = 1" "a1 @ a2 @ a3 = b1 @ b2 @ b3"
  shows "a1 = b1 \<and> a2 = b2 \<and> a3 = b3"
  using assms by simp

text \<open>
  The name of an architecture identifies it: two versions that are given the same name are equal.
\<close>

theorem gfx_name_inj:
  assumes "gfx_name v = Inr s" "gfx_name w = Inr s"
  shows "v = w"
proof -
  define av bv aw bw where d: "av = v mod 10000 div 100" "bv = v mod 10000 mod 100" "aw = w mod 10000 div 100" "bw = w mod 10000 mod 100"
  have l: "length (hex_digit n) = 1" for n
    by (simp add: hex_digit_def)
  have n: "show_int (v div 10000) @ hex_digit av @ hex_digit bv = show_int (w div 10000) @ hex_digit aw @ hex_digit bw"
    "av \<le> 15" "bv \<le> 15" "aw \<le> 15" "bw \<le> 15"
    using assms unfolding gfx_name_def Let_def d [symmetric] by (auto split: if_splits)
  have p: "0 \<le> av" "0 \<le> bv" "0 \<le> aw" "0 \<le> bw"
    unfolding d by simp_all
  have "show_int (v div 10000) = show_int (w div 10000)" "hex_digit av = hex_digit aw" "hex_digit bv = hex_digit bw"
    using split_name [OF l l l l n(1)] by simp_all
  then have e: "v div 10000 = w div 10000" "av = aw" "bv = bw"
    using show_int_inj hex_digit_inj [OF p(1) n(2) p(3) n(4)] hex_digit_inj [OF p(2) n(3) p(4) n(5)] by simp_all
  then have "v mod 10000 = w mod 10000"
    unfolding d by (metis div_mult_mod_eq)
  with e(1) show ?thesis
    by (metis div_mult_mod_eq)
qed


lemma gfx_name_inj_witness: "gfx_name 120001 = Inr ''gfx1201'' \<and> (\<forall>w. gfx_name w = Inr ''gfx1201'' \<longleftrightarrow> w = 120001)"
proof -
  have s: "show_int 12 = ''12''"
    by code_simp
  have h: "hex_digit 0 = ''0''" "hex_digit 1 = ''1''"
    by code_simp+
  have g: "gfx_name 120001 = Inr ''gfx1201''"
    using h by (simp add: gfx_name_def Let_def s)
  then show ?thesis
    using gfx_name_inj [OF g] by blast
qed

end
