(* ===== verification/Image_Ref.thy ===== *)
theory Image_Ref
  imports Py_Value Idle_Gate
begin

text \<open>
  Image references and immutable image resolution (\<open>pylib/omniroute_update.py\<close>): the normal form of
  a reference, the manifest and config digests that identify an image, the check of the staged
  image, and the environment and time budget of the commands. Registry bytes come from a
  parameter \<open>run\<close> (\<open>skopeo inspect --raw\<close>), JSON decoding and SHA-256 from the parameters \<open>json\<close> and
  \<open>sha\<close>; nothing is assumed of them.
\<close>

section \<open>Failures\<close>

text \<open>
  \<open>UpdateError\<close> with one constructor per message, \<open>Deferral\<close> with its closed reason, and the
  exceptions Python raises by itself when a document has an unexpected shape.
\<close>

datatype update_problem =
    Malformed_image_id | Manifest_not_json | Unsupported_manifest | No_config_digest
  | No_runnable_manifest nat | Malformed_descriptor_digest | Bytes_mismatch
  | Staged_config_differs | Staged_platform_differs | Path_or_home_unset
  | Deadline_before_start | Deadline_after_run | Command_failed

datatype update_exn = Update_error update_problem | Deferred reason | Uncaught

type_synonym 'a attempt = "(update_exn, 'a) result"

section \<open>Digests and identifiers\<close>

definition is_hex :: "char \<Rightarrow> bool" where
  "is_hex c \<longleftrightarrow> is_digit c \<or> (let n = of_char c :: nat in 97 \<le> n \<and> n \<le> 102)"

definition sha_prefix :: string where "sha_prefix = ''sha256:''"

definition hex64 :: "string \<Rightarrow> bool" where
  "hex64 s \<longleftrightarrow> length s = 64 \<and> list_all is_hex s"

definition digest_text :: "string \<Rightarrow> bool" where
  "digest_text s \<longleftrightarrow> starts_with sha_prefix s \<and> hex64 (drop 7 s)"

fun valid_digest :: "pyval \<Rightarrow> bool" where
  "valid_digest (VStr s) = digest_text s"
| "valid_digest _ = False"

text \<open>A digest, or the error the caller raises without one.\<close>

definition digest_or :: "update_problem \<Rightarrow> pyval \<Rightarrow> string attempt" where
  "digest_or p v =
     (case v of VStr s \<Rightarrow> if valid_digest v then Inr s else Inl (Update_error p) | _ \<Rightarrow> Inl (Update_error p))"

fun canon_image_id :: "pyval \<Rightarrow> string attempt" where
  "canon_image_id (VStr s) =
     (if hex64 s then Inr (sha_prefix @ s)
      else if digest_text s then Inr s else Inl (Update_error Malformed_image_id))"
| "canon_image_id _ = Inl (Update_error Malformed_image_id)"

section \<open>References\<close>

text \<open>\<open>s.rsplit(c, 1)\<close>: the text before and after the last \<open>c\<close> (the text itself after, when there is none).\<close>

definition after_last :: "char \<Rightarrow> string \<Rightarrow> string" where
  "after_last c s = rev (takeWhile (\<lambda>x. x \<noteq> c) (rev s))"

definition before_last :: "char \<Rightarrow> string \<Rightarrow> string" where
  "before_last c s = rev (tl (dropWhile (\<lambda>x. x \<noteq> c) (rev s)))"

definition qualify :: "string \<Rightarrow> string" where
  "qualify name =
     (let head = takeWhile (\<lambda>x. x \<noteq> CHR ''/'') name in
      if CHR ''/'' \<notin> set name then ''docker.io/library/'' @ name
      else if CHR ''.'' \<notin> set head \<and> CHR '':'' \<notin> set head \<and> head \<noteq> ''localhost''
      then ''docker.io/'' @ name else name)"

definition parse_reference :: "string \<Rightarrow> string \<times> string \<times> string" where
  "parse_reference ref =
     (let (name, _, digest) = partition_at (CHR ''@'') ref in
      if CHR '':'' \<in> set (after_last (CHR ''/'') name)
      then (qualify (before_last (CHR '':'') name), after_last (CHR '':'') name, digest)
      else (qualify name, if digest = [] then ''latest'' else [], digest))"

definition same_image :: "string \<Rightarrow> string \<Rightarrow> bool" where
  "same_image configured running =
     (let (c_repo, c_tag, c_digest) = parse_reference configured;
          (r_repo, r_tag, r_digest) = parse_reference running in
      if c_repo \<noteq> r_repo then False
      else if c_digest \<noteq> [] then r_digest = c_digest
      else r_digest \<noteq> [] \<or> r_tag = c_tag)"

text \<open>\<open>pat in s\<close> for text.\<close>

fun contains_text :: "string \<Rightarrow> string \<Rightarrow> bool" where
  "contains_text pat [] = (pat = [])"
| "contains_text pat (c # cs) = (starts_with pat (c # cs) \<or> contains_text pat cs)"

section \<open>Resolving an image\<close>

definition MANIFEST_TYPES :: "string list" where
  "MANIFEST_TYPES = [''application/vnd.oci.image.manifest.v1+json'',
                     ''application/vnd.docker.distribution.manifest.v2+json'']"

definition INDEX_TYPES :: "string list" where
  "INDEX_TYPES = [''application/vnd.oci.image.index.v1+json'',
                  ''application/vnd.docker.distribution.manifest.list.v2+json'']"

record image_identity =
  repository :: string
  source_digest :: string
  manifest_digest :: string
  immutable_ref :: string
  image_config_id :: string
  image_os :: string
  image_architecture :: string
  image_variant :: string
  from_index :: bool

text \<open>\<open>v in S\<close> for a set of texts: a list or a mapping is not hashable.\<close>

fun in_texts :: "pyval \<Rightarrow> string list \<Rightarrow> bool attempt" where
  "in_texts (VStr s) S = Inr (s \<in> set S)"
| "in_texts (VList _) S = Inl Uncaught"
| "in_texts (VDict _) S = Inl Uncaught"
| "in_texts _ S = Inr False"

text \<open>The receiver of a \<open>.get\<close>; \<open>v or {}\<close> with its \<open>.get\<close>.\<close>

fun as_dict :: "pyval \<Rightarrow> pydict attempt" where
  "as_dict (VDict d) = Inr d"
| "as_dict _ = Inl Uncaught"

definition dict_or_empty :: "pyval \<Rightarrow> pydict attempt" where
  "dict_or_empty v = (if truthy v then as_dict v else Inr [])"

text \<open>The items a \<open>for\<close> visits.\<close>

fun items_of :: "pyval \<Rightarrow> pyval list attempt" where
  "items_of (VList vs) = Inr vs"
| "items_of (VDict d) = Inr (keys d)"
| "items_of (VStr s) = Inr (map (\<lambda>c. VStr [c]) s)"
| "items_of _ = Inl Uncaught"

fun filterR :: "('a \<Rightarrow> bool attempt) \<Rightarrow> 'a list \<Rightarrow> 'a list attempt" where
  "filterR P [] = Inr []"
| "filterR P (x # xs) = bindR (P x) (\<lambda>b. bindR (filterR P xs) (\<lambda>ys. Inr (if b then x # ys else ys)))"

lemma filterR_Inr: "filterR P xs = Inr ys \<Longrightarrow> ys = filter (\<lambda>x. P x = Inr True) xs"
  by (induction xs arbitrary: ys) (auto split: if_splits)

definition field_of :: "pydict \<Rightarrow> string \<Rightarrow> pyval" where
  "field_of d k = vget_or d k VNone"

text \<open>What \<open>json.loads\<close> makes of the bytes a command printed.\<close>

datatype decoded = Not_json | Not_text | Json pyval

text \<open>
  \<open>run\<close> answers \<open>skopeo inspect --raw docker://ref\<close>; \<open>sha\<close> is the hexadecimal SHA-256 of bytes.
\<close>

definition digest_of :: "('b \<Rightarrow> string) \<Rightarrow> 'b \<Rightarrow> string" where
  "digest_of sha raw = sha_prefix @ sha raw"

definition fetch ::
  "(string \<Rightarrow> 'b attempt) \<Rightarrow> ('b \<Rightarrow> decoded) \<Rightarrow> string \<Rightarrow> ('b \<times> pyval) attempt" where
  "fetch run json ref =
     bindR (run ref) (\<lambda>raw. case json raw of
         Json v \<Rightarrow> Inr (raw, v)
       | Not_json \<Rightarrow> Inl (Update_error Manifest_not_json)
       | Not_text \<Rightarrow> Inl Uncaught)"

definition config_digest :: "pydict \<Rightarrow> pyval" where
  "config_digest d = (case field_of d ''config'' of VDict c \<Rightarrow> field_of c ''digest'' | _ \<Rightarrow> VNone)"

definition config_id :: "pyval \<Rightarrow> string attempt" where
  "config_id doc =
     bindR (as_dict doc) (\<lambda>d.
     bindR (if eq_int (field_of d ''schemaVersion'') 2 then in_texts (field_of d ''mediaType'') MANIFEST_TYPES
            else Inr False) (\<lambda>ok.
     bindR (ensure ok (Update_error Unsupported_manifest)) (\<lambda>_.
     digest_or No_config_digest (config_digest d))))"

type_synonym platform = "string \<times> string \<times> string"

definition runs_on :: "platform \<Rightarrow> pyval \<Rightarrow> bool attempt" where
  "runs_on pl m =
     (let (os, arch, variant) = pl in
      bindR (as_dict m) (\<lambda>md.
      bindR (in_texts (field_of md ''mediaType'') MANIFEST_TYPES) (\<lambda>manifest.
      if \<not> manifest then Inr False
      else bindR (dict_or_empty (field_of md ''platform'')) (\<lambda>p.
        Inr (field_of p ''os'' = VStr os \<and> field_of p ''architecture'' = VStr arch
             \<and> vget_or p ''variant'' (VStr []) = VStr variant)))))"

definition pinned_to :: "string \<Rightarrow> string \<Rightarrow> string" where
  "pinned_to repo digest = repo @ ''@'' @ digest"

definition select_manifest :: "platform \<Rightarrow> pydict \<Rightarrow> string attempt" where
  "select_manifest pl d =
     bindR (items_of (vget_or d ''manifests'' (VList []))) (\<lambda>ms.
     bindR (filterR (runs_on pl) ms) (\<lambda>matches.
     case matches of
       [m] \<Rightarrow> bindR (as_dict m) (\<lambda>md. digest_or Malformed_descriptor_digest (field_of md ''digest''))
     | _ \<Rightarrow> Inl (Update_error (No_runnable_manifest (length matches)))))"

definition identity_of ::
  "string \<Rightarrow> string \<Rightarrow> string \<Rightarrow> string \<Rightarrow> platform \<Rightarrow> bool \<Rightarrow> image_identity" where
  "identity_of repo source manifest cid pl index =
     \<lparr>repository = repo, source_digest = source, manifest_digest = manifest,
      immutable_ref = pinned_to repo manifest, image_config_id = cid, image_os = fst pl,
      image_architecture = fst (snd pl), image_variant = snd (snd pl), from_index = index\<rparr>"

definition resolve_image ::
  "(string \<Rightarrow> 'b attempt) \<Rightarrow> ('b \<Rightarrow> decoded) \<Rightarrow> ('b \<Rightarrow> string) \<Rightarrow> string \<Rightarrow> platform \<Rightarrow> image_identity attempt" where
  "resolve_image run json sha reference pl =
     (let repo = fst (parse_reference reference) in
      bindR (fetch run json reference) (\<lambda>(raw, doc).
      bindR (as_dict doc) (\<lambda>d.
      bindR (in_texts (field_of d ''mediaType'') INDEX_TYPES) (\<lambda>index.
      if \<not> index then
        bindR (config_id doc) (\<lambda>cid.
          Inr (identity_of repo (digest_of sha raw) (digest_of sha raw) cid pl False))
      else if contains_text ''@sha256:'' reference then Inl (Deferred R_input)
      else
        bindR (select_manifest pl d) (\<lambda>md.
        bindR (fetch run json (pinned_to repo md)) (\<lambda>(sel_raw, sel_doc).
        bindR (ensure (digest_of sha sel_raw = md) (Update_error Bytes_mismatch)) (\<lambda>_.
        bindR (config_id sel_doc) (\<lambda>cid.
          Inr (identity_of repo (digest_of sha raw) md cid pl True)))))))))"

section \<open>The staged image\<close>

definition verify_staged :: "image_identity \<Rightarrow> pydict \<Rightarrow> unit attempt" where
  "verify_staged i inspect =
     bindR (canon_image_id (vget_or inspect ''Id'' (VStr []))) (\<lambda>cid.
     bindR (ensure (cid = image_config_id i) (Update_error Staged_config_differs)) (\<lambda>_.
     ensure (field_of inspect ''Os'' = VStr (image_os i)
             \<and> field_of inspect ''Architecture'' = VStr (image_architecture i)
             \<and> vget_or inspect ''Variant'' (VStr []) = VStr (image_variant i))
       (Update_error Staged_platform_differs)))"

section \<open>Environment and time budget of the commands\<close>

definition BACKEND_VARS :: "string list" where
  "BACKEND_VARS = [''PATH'', ''HOME'', ''XDG_RUNTIME_DIR'', ''CONTAINERS_STORAGE_CONF'', ''CONTAINERS_CONF'',
                   ''CONTAINERS_REGISTRIES_CONF'']"

definition nonempty_var :: "(string, string) dict \<Rightarrow> string \<Rightarrow> bool" where
  "nonempty_var env v = (case dget env v of None \<Rightarrow> False | Some s \<Rightarrow> s \<noteq> [])"

definition backend_env :: "(string, string) dict \<Rightarrow> (string, string) dict attempt" where
  "backend_env env =
     (let out = map (\<lambda>v. (v, the (dget env v))) (filter (nonempty_var env) BACKEND_VARS) in
      if dget out ''PATH'' = None \<or> dget out ''HOME'' = None then Inl (Update_error Path_or_home_unset)
      else Inr out)"

text \<open>
  \<open>with_deadline\<close>: the two clock readings around the command are \<open>t0\<close> and \<open>t1\<close>; \<open>cmd\<close> is the
  command as a function of the timeout it is given.
\<close>

definition with_deadline ::
  "rat \<Rightarrow> rat \<Rightarrow> rat \<Rightarrow> (rat \<Rightarrow> 'a attempt) \<Rightarrow> rat option \<Rightarrow> 'a attempt" where
  "with_deadline limit t0 t1 cmd timeout =
     (let remaining = fl (limit - t0) in
      if remaining \<le> 0 then Inl (Update_error Deadline_before_start)
      else bindR (cmd (min remaining (case timeout of None \<Rightarrow> 60 | Some t \<Rightarrow> t))) (\<lambda>out.
        if limit \<le> t1 then Inl (Update_error Deadline_after_run) else Inr out))"


section \<open>Properties of references\<close>

definition has_registry :: "string \<Rightarrow> bool" where
  "has_registry name \<longleftrightarrow>
     (let head = takeWhile (\<lambda>x. x \<noteq> CHR ''/'') name in
      CHR ''/'' \<in> set name \<and> (CHR ''.'' \<in> set head \<or> CHR '':'' \<in> set head \<or> head = ''localhost''))"

lemma qualified_qualify: "has_registry (qualify name)"
  by (auto simp: has_registry_def qualify_def Let_def takeWhile_append split: if_splits)

lemma qualify_qualified: "has_registry name \<Longrightarrow> qualify name = name"
  by (auto simp: has_registry_def qualify_def Let_def)

lemma qualify_qualify [simp]: "qualify (qualify name) = qualify name"
  by (rule qualify_qualified [OF qualified_qualify])

lemma after_last_set: "set (after_last c s) \<subseteq> set s" "c \<notin> set (after_last c s)"
  unfolding after_last_def by (auto dest: set_takeWhileD)

lemma before_last_set: "set (before_last c s) \<subseteq> set s"
  unfolding before_last_def
  by (metis list.set_sel(2) set_dropWhileD set_rev subsetI tl_Nil)

lemma after_last_sep [simp]: "c \<notin> set t \<Longrightarrow> after_last c (s @ c # t) = t"
  by (simp add: after_last_def takeWhile_append)

lemma before_last_sep [simp]: "c \<notin> set t \<Longrightarrow> before_last c (s @ c # t) = s"
  by (simp add: before_last_def dropWhile_append)

lemma after_last_none: "c \<notin> set s \<Longrightarrow> after_last c s = s"
proof -
  assume "c \<notin> set s"
  then have "takeWhile (\<lambda>x. x \<noteq> c) (rev s) = rev s"
    by (auto simp: takeWhile_eq_all_conv)
  then show ?thesis
    unfolding after_last_def by (simp only: rev_rev_ident)
qed

lemma split_at_last:
  assumes "c \<in> set s"
  shows "s = before_last c s @ c # after_last c s"
proof -
  obtain a t where s: "s = a @ c # t" "c \<notin> set t"
    using split_list_last [OF assms] by blast
  then show ?thesis
    by simp
qed

lemma after_last_append:
  assumes "c \<in> set t"
  shows "after_last c (s @ t) = after_last c t"
proof -
  obtain a b where t: "t = a @ c # b" "c \<notin> set b"
    using split_list_last [OF assms] by blast
  then show ?thesis
    using after_last_sep [of c b "s @ a"] by simp
qed

lemma slash_free_tag:
  assumes "CHR '':'' \<in> set (after_last (CHR ''/'') name)"
  shows "CHR ''/'' \<notin> set (after_last (CHR '':'') name)"
proof -
  let ?l = "after_last (CHR ''/'') name"
  have l: "?l = before_last (CHR '':'') ?l @ CHR '':'' # after_last (CHR '':'') ?l"
    by (rule split_at_last [OF assms])
  have "after_last (CHR '':'') name = after_last (CHR '':'') ?l"
  proof (cases "CHR ''/'' \<in> set name")
    case True
    from split_at_last [OF True]
    have "name = (before_last (CHR ''/'') name @ [CHR ''/'']) @ ?l"
      by simp
    then show ?thesis
      using after_last_append [OF assms] by metis
  qed (simp add: after_last_none)
  then show ?thesis
    using after_last_set [of "CHR ''/''" name] after_last_set(1) [of "CHR '':''" ?l] by auto
qed

lemma after_last_qualify [simp]: "after_last (CHR ''/'') (qualify name) = after_last (CHR ''/'') name"
  using after_last_sep [of "CHR ''/''" name "''docker.io/library''"]
    after_last_append [of "CHR ''/''" name "''docker.io/''"]
  by (simp add: qualify_def Let_def after_last_none)

lemma at_qualify [simp]: "CHR ''@'' \<in> set (qualify name) \<longleftrightarrow> CHR ''@'' \<in> set name"
  by (simp add: qualify_def Let_def)

definition digest_tail :: "string \<Rightarrow> string" where
  "digest_tail d = (if d = [] then [] else CHR ''@'' # d)"

lemma partition_digest_tail:
  "CHR ''@'' \<notin> set n \<Longrightarrow> partition_at (CHR ''@'') (n @ digest_tail d) = (n, d \<noteq> [], d)"
  by (simp add: partition_at_def digest_tail_def takeWhile_eq_all_conv takeWhile_append dropWhile_append)

lemma parse_tagged:
  assumes "has_registry q" "CHR ''/'' \<notin> set t" "CHR '':'' \<notin> set t" "CHR ''@'' \<notin> set q" "CHR ''@'' \<notin> set t"
  shows "parse_reference ((q @ CHR '':'' # t) @ digest_tail d) = (q, t, d)"
proof -
  have at: "CHR ''@'' \<notin> set (q @ CHR '':'' # t)"
    using assms by simp
  have "CHR ''/'' \<in> set q"
    using assms(1) by (simp add: has_registry_def Let_def)
  then obtain a b where q: "q = a @ CHR ''/'' # b" "CHR ''/'' \<notin> set b"
    using split_list_last by metis
  have "after_last (CHR ''/'') (q @ CHR '':'' # t) = b @ CHR '':'' # t"
    using after_last_sep [of "CHR ''/''" "b @ CHR '':'' # t" a] q assms(2) by simp
  then show ?thesis
    using assms(3) qualify_qualified [OF assms(1)]
    unfolding parse_reference_def partition_digest_tail [OF at] by simp
qed

lemma parse_untagged:
  assumes "has_registry q" "CHR '':'' \<notin> set (after_last (CHR ''/'') q)" "CHR ''@'' \<notin> set q"
  shows "parse_reference (q @ digest_tail d) = (q, if d = [] then ''latest'' else [], d)"
  unfolding parse_reference_def partition_digest_tail [OF assms(3)]
  using assms(2) qualify_qualified [OF assms(1)] by simp

text \<open>The canonical text of a parsed reference.\<close>

definition show_reference :: "string \<times> string \<times> string \<Rightarrow> string" where
  "show_reference r =
     (let (repo, tag, digest) = r in
      (if tag = [] then repo else repo @ CHR '':'' # tag) @ digest_tail digest)"

lemma parse_reference_parts:
  assumes "parse_reference ref = (repo, tag, digest)"
  shows "has_registry repo" "CHR ''@'' \<notin> set repo" "CHR ''@'' \<notin> set tag"
    "CHR ''/'' \<notin> set tag" "CHR '':'' \<notin> set tag" "tag = [] \<Longrightarrow> digest = [] \<Longrightarrow> CHR '':'' \<in> set ref"
proof -
  obtain name f d where p: "partition_at (CHR ''@'') ref = (name, f, d)"
    by (metis prod_cases3)
  have at: "CHR ''@'' \<notin> set name" and sub: "set name \<subseteq> set ref"
    using p by (auto simp: partition_at_def Let_def dest: set_takeWhileD)
  define colon where "colon \<longleftrightarrow> CHR '':'' \<in> set (after_last (CHR ''/'') name)"
  have parts: "(repo, tag, digest) =
      (if colon then (qualify (before_last (CHR '':'') name), after_last (CHR '':'') name, d)
       else (qualify name, if d = [] then ''latest'' else [], d))"
    using assms by (simp add: parse_reference_def p colon_def)
  show "has_registry repo"
    using parts qualified_qualify by (auto split: if_splits)
  show "CHR ''@'' \<notin> set repo" "CHR ''@'' \<notin> set tag"
    using parts at before_last_set [of "CHR '':''" name] after_last_set [of "CHR '':''" name]
    by (auto split: if_splits)
  show "CHR '':'' \<notin> set tag"
    using parts after_last_set(2) [of "CHR '':''" name] by (auto split: if_splits)
  show "CHR ''/'' \<notin> set tag"
  proof (cases colon)
    case True
    then show ?thesis
      using parts slash_free_tag [of name] unfolding colon_def by simp
  next
    case False
    then show ?thesis
      using parts by (auto split: if_splits)
  qed
  show "CHR '':'' \<in> set ref" if "tag = []" "digest = []"
    using parts that sub after_last_set(1) [of "CHR ''/''" name]
    by (auto simp: colon_def split: if_splits)
qed


text \<open>
  The parsed form of a reference is a normal form: written out again as
  \<open>repository:tag@digest\<close> (an absent part left out) it parses to the same three parts, so comparing
  parsed references compares what the references name. The only exception is an empty tag
  (\<open>x:\<close> or \<open>x:@digest\<close>), excluded by the second hypothesis.
\<close>

lemma parse_reference_canonical:
  assumes "parse_reference ref = (repo, tag, digest)"
    and "tag \<noteq> [] \<or> digest \<noteq> [] \<and> CHR '':'' \<notin> set (after_last (CHR ''/'') repo)"
  shows "parse_reference (show_reference (repo, tag, digest)) = (repo, tag, digest)"
proof -
  note parts = parse_reference_parts [OF assms(1)]
  show ?thesis
    using assms(2) parse_tagged [OF parts(1,4,5,2,3)] parse_untagged [OF parts(1) _ parts(2)]
    by (cases "tag = []") (auto simp: show_reference_def)
qed

section \<open>Properties of resolution\<close>

lemma digest_or_Inr [simp]: "digest_or p v = Inr s \<longleftrightarrow> v = VStr s \<and> digest_text s"
  by (cases v) (auto simp: digest_or_def)

lemma config_id_Inr:
  "config_id doc = Inr cid \<longleftrightarrow>
   (\<exists>d. doc = VDict d \<and> eq_int (field_of d ''schemaVersion'') 2
      \<and> in_texts (field_of d ''mediaType'') MANIFEST_TYPES = Inr True
      \<and> config_digest d = VStr cid \<and> digest_text cid)"
  by (cases doc) (auto simp: config_id_def split: if_splits)

lemma fetch_Inr: "fetch run json ref = Inr (raw, v) \<longleftrightarrow> run ref = Inr raw \<and> json raw = Json v"
  by (cases "run ref") (auto simp: fetch_def split: decoded.splits)

lemma select_manifest_Inr:
  assumes "select_manifest pl d = Inr md"
  shows "digest_text md"
    and "\<exists>ms m. items_of (vget_or d ''manifests'' (VList [])) = Inr ms \<and> filterR (runs_on pl) ms = Inr [m]"
proof -
  from assms obtain ms xs where ms: "items_of (vget_or d ''manifests'' (VList [])) = Inr ms"
      "filterR (runs_on pl) ms = Inr xs"
    by (auto simp: select_manifest_def)
  obtain m where xs: "xs = [m]"
    using assms ms by (cases xs rule: remdups_adj.cases) (auto simp: select_manifest_def)
  show "digest_text md"
    using assms ms xs by (auto simp: select_manifest_def)
  show "\<exists>ms m. items_of (vget_or d ''manifests'' (VList [])) = Inr ms \<and> filterR (runs_on pl) ms = Inr [m]"
    using ms xs by blast
qed

lemma resolve_image_single:
  assumes "resolve_image run json sha ref pl = Inr i" "\<not> from_index i"
  shows "\<exists>raw doc cid. fetch run json ref = Inr (raw, doc) \<and> config_id doc = Inr cid
     \<and> i = identity_of (fst (parse_reference ref)) (digest_of sha raw) (digest_of sha raw) cid pl False"
  using assms by (auto simp: resolve_image_def Let_def identity_of_def split: if_splits)

lemma resolve_image_index:
  assumes "resolve_image run json sha ref pl = Inr i" "from_index i"
  shows "\<exists>raw d md sel_raw sel_doc cid. fetch run json ref = Inr (raw, VDict d)
     \<and> \<not> contains_text ''@sha256:'' ref \<and> select_manifest pl d = Inr md
     \<and> fetch run json (pinned_to (fst (parse_reference ref)) md) = Inr (sel_raw, sel_doc)
     \<and> digest_of sha sel_raw = md \<and> config_id sel_doc = Inr cid
     \<and> i = identity_of (fst (parse_reference ref)) (digest_of sha raw) md cid pl True"
proof -
  from assms obtain raw doc where f: "fetch run json ref = Inr (raw, doc)"
    by (auto simp: resolve_image_def Let_def)
  obtain d where d: "doc = VDict d"
    using assms f by (cases doc) (auto simp: resolve_image_def Let_def)
  show ?thesis
    using assms f d by (auto simp: resolve_image_def Let_def identity_of_def split: if_splits)
qed

text \<open>
  C20: an image that passes the staging check is the image the registry resolved: its
  identifier is the config digest named by a manifest whose bytes were fetched under the
  recorded reference and hash to the recorded digest, that reference pins the configured repository to
  the digest, and the platform is the requested one.
\<close>

theorem staged_image_is_resolved:
  assumes "resolve_image run json sha ref pl = Inr i" and "verify_staged i inspect = Inr u"
  shows "\<exists>raw d cid.
    run (if from_index i then immutable_ref i else ref) = Inr raw \<and> json raw = Json (VDict d)
    \<and> manifest_digest i = digest_of sha raw
    \<and> immutable_ref i = pinned_to (fst (parse_reference ref)) (digest_of sha raw)
    \<and> config_digest d = VStr cid \<and> digest_text cid
    \<and> canon_image_id (vget_or inspect ''Id'' (VStr [])) = Inr cid
    \<and> field_of inspect ''Os'' = VStr (fst pl) \<and> field_of inspect ''Architecture'' = VStr (fst (snd pl))
    \<and> vget_or inspect ''Variant'' (VStr []) = VStr (snd (snd pl))"
proof (cases "from_index i")
  case True
  from resolve_image_index [OF assms(1) True] assms(2) show ?thesis
    by (auto simp: fetch_Inr config_id_Inr identity_of_def verify_staged_def)
next
  case False
  from resolve_image_single [OF assms(1) False] assms(2) show ?thesis
    by (auto simp: fetch_Inr config_id_Inr identity_of_def verify_staged_def)
qed

text \<open>A small registry: an index with an attestation and one manifest, which is byte string 1.\<close>

definition demo_digest :: "char \<Rightarrow> string" where "demo_digest c = sha_prefix @ replicate 64 c"

definition demo_index :: pyval where
  "demo_index = VDict [(VStr ''mediaType'', VStr ''application/vnd.oci.image.index.v1+json''),
     (VStr ''manifests'', VList
       [VDict [(VStr ''digest'', VStr ''none''), (VStr ''platform'', VDict [(VStr ''os'', VStr ''unknown'')])],
        VDict [(VStr ''digest'', VStr (demo_digest (CHR ''b''))),
               (VStr ''mediaType'', VStr ''application/vnd.oci.image.manifest.v1+json''),
               (VStr ''platform'', VDict [(VStr ''os'', VStr ''linux''), (VStr ''architecture'', VStr ''amd64'')])]])]"

definition demo_manifest :: pyval where
  "demo_manifest = VDict [(VStr ''schemaVersion'', VInt 2),
     (VStr ''mediaType'', VStr ''application/vnd.oci.image.manifest.v1+json''),
     (VStr ''config'', VDict [(VStr ''digest'', VStr (demo_digest (CHR ''c'')))])]"

definition demo_run :: "string \<Rightarrow> nat attempt" where
  "demo_run ref =
     (if ref = ''x/y'' then Inr 0
      else if ref = ''docker.io/x/y@'' @ demo_digest (CHR ''b'') then Inr 1
      else Inl (Update_error Command_failed))"

definition demo_json :: "nat \<Rightarrow> decoded" where
  "demo_json n = Json (if n = 0 then demo_index else demo_manifest)"

definition demo_sha :: "nat \<Rightarrow> string" where
  "demo_sha n = replicate 64 (if n = 0 then CHR ''a'' else CHR ''b'')"

definition demo_platform :: platform where "demo_platform = (''linux'', ''amd64'', [])"

definition demo_identity :: image_identity where
  "demo_identity = identity_of ''docker.io/x/y'' (demo_digest (CHR ''a'')) (demo_digest (CHR ''b''))
     (demo_digest (CHR ''c'')) demo_platform True"

definition demo_staged :: pydict where
  "demo_staged = [(VStr ''Id'', VStr (replicate 64 (CHR ''c''))), (VStr ''Os'', VStr ''linux''),
     (VStr ''Architecture'', VStr ''amd64'')]"

lemma demo_resolves:
  "resolve_image demo_run demo_json demo_sha ''x/y'' demo_platform = Inr demo_identity"
  by code_simp

lemma demo_verifies: "verify_staged demo_identity demo_staged = Inr ()"
  by code_simp

theorem staged_image_is_resolved_witness:
  "\<exists>raw d cid.
    demo_run (if from_index demo_identity then immutable_ref demo_identity else ''x/y'') = Inr raw
    \<and> demo_json raw = Json (VDict d)
    \<and> manifest_digest demo_identity = digest_of demo_sha raw
    \<and> immutable_ref demo_identity = pinned_to (fst (parse_reference ''x/y'')) (digest_of demo_sha raw)
    \<and> config_digest d = VStr cid \<and> digest_text cid
    \<and> canon_image_id (vget_or demo_staged ''Id'' (VStr [])) = Inr cid
    \<and> field_of demo_staged ''Os'' = VStr (fst demo_platform)
    \<and> field_of demo_staged ''Architecture'' = VStr (fst (snd demo_platform))
    \<and> vget_or demo_staged ''Variant'' (VStr []) = VStr (snd (snd demo_platform))"
  by (rule staged_image_is_resolved [OF demo_resolves demo_verifies])

end
