(* ===== verification/Snapshot.thy ===== *)
theory Snapshot
  imports Image_Ref
begin

text \<open>
  The container inventory around a deployment (\<open>pylib/omniroute_update.py\<close>): \<open>take_snapshot\<close>, the
  containers that matter to replacing the target, the comparison of two inventories and the
  deployment fingerprint. \<open>run\<close> answers a command, \<open>json\<close> decodes its output, \<open>realpath\<close> resolves a
  path, \<open>canon\<close> hashes a document in canonical JSON and \<open>rep\<close> is \<open>str()\<close> of a float or container.
\<close>

definition LABEL_PROJECT :: string where "LABEL_PROJECT = ''io.podman.compose.project''"
definition LABEL_SERVICE :: string where "LABEL_SERVICE = ''io.podman.compose.service''"

section \<open>Reading an inspect document\<close>

text \<open>\<open>d.get(k) or {}\<close>, used with a further \<open>.get\<close>.\<close>

definition section_of :: "string \<Rightarrow> pydict \<Rightarrow> pydict attempt" where
  "section_of k d = dict_or_empty (field_of d k)"

definition label_of :: "string \<Rightarrow> pydict \<Rightarrow> pyval attempt" where
  "label_of l d =
     bindR (section_of ''Config'' d) (\<lambda>c. bindR (section_of ''Labels'' c) (\<lambda>ls. Inr (field_of ls l)))"

definition attached :: "pydict \<Rightarrow> pydict attempt" where
  "attached d = bindR (section_of ''NetworkSettings'' d) (section_of ''Networks'')"

definition network_id :: "pyval \<Rightarrow> pyval attempt" where
  "network_id v = bindR (as_dict v) (\<lambda>nd. Inr (field_of nd ''NetworkID''))"

definition hashable :: "pyval \<Rightarrow> pyval attempt" where
  "hashable v = (if is_list v \<or> is_dict v then Inl Uncaught else Inr v)"

definition networks :: "pydict \<Rightarrow> pyval list attempt" where
  "networks d = bindR (attached d) (\<lambda>ns. mapR (\<lambda>v. bindR (network_id v) hashable) (map snd ns))"

definition started_at_value :: "pydict \<Rightarrow> pyval \<Rightarrow> pyval attempt" where
  "started_at_value d none = bindR (section_of ''State'' d) (\<lambda>s. Inr (vget_or s ''StartedAt'' none))"

text \<open>\<open>str(v)\<close>.\<close>

fun str_of :: "(pyval \<Rightarrow> string) \<Rightarrow> pyval \<Rightarrow> string" where
  "str_of rep (VStr s) = s"
| "str_of rep VNone = ''None''"
| "str_of rep (VBool b) = (if b then ''True'' else ''False'')"
| "str_of rep (VInt n) = show_int n"
| "str_of rep v = rep v"

section \<open>Snapshots\<close>

record backend =
  graph_root :: string
  run_root :: string

record snapshot =
  snap_backend :: backend
  containers :: "(string, string) dict"
  deps :: "(string \<times> string) list"
  docs :: "(string, pydict) dict"
  names :: "(string, string) dict"
  started :: "(string, string) dict"
  others :: "string list"

definition keep_keys :: "string list \<Rightarrow> (string, 'v) dict \<Rightarrow> (string, 'v) dict" where
  "keep_keys ids d = filter (\<lambda>p. fst p \<in> set ids) d"

definition restrict :: "snapshot \<Rightarrow> string list \<Rightarrow> snapshot" where
  "restrict s ids =
     \<lparr>snap_backend = snap_backend s, containers = keep_keys ids (containers s),
      deps = filter (\<lambda>d. fst d \<in> set ids) (deps s), docs = keep_keys ids (docs s),
      names = keep_keys ids (names s), started = keep_keys ids (started s),
      others = filter (\<lambda>c. c \<notin> set ids) (keys (containers s))\<rparr>"

definition is_relevant ::
  "snapshot \<Rightarrow> string \<Rightarrow> string \<Rightarrow> pyval list \<Rightarrow> string \<times> pydict \<Rightarrow> bool attempt" where
  "is_relevant s target project nets p =
     (let (cid, d) = p in
      if cid = target \<or> target \<noteq> [] \<and> (cid, target) \<in> set (deps s) then Inr True
      else bindR (networks d) (\<lambda>ns.
        if set ns \<inter> set nets \<noteq> {} then Inr True
        else if project = [] then Inr False
        else bindR (label_of LABEL_PROJECT d) (\<lambda>l. Inr (l = VStr project))))"

definition relevant_ids :: "snapshot \<Rightarrow> string \<Rightarrow> string \<Rightarrow> pyval list \<Rightarrow> string list attempt" where
  "relevant_ids s target project nets =
     bindR (mapR hashable nets) (\<lambda>_.
     bindR (filterR (is_relevant s target project nets) (docs s)) (\<lambda>ps. Inr (keys ps)))"

definition incoming :: "snapshot \<Rightarrow> string \<Rightarrow> string list" where
  "incoming s target = sort (map fst (filter (\<lambda>d. snd d = target) (remdups (deps s))))"

section \<open>Taking a snapshot\<close>

definition inventory ::
  "(string list \<Rightarrow> 'b attempt) \<Rightarrow> ('b \<Rightarrow> decoded) \<Rightarrow> string list \<Rightarrow> pyval attempt" where
  "inventory run json argv =
     (case run argv of
        Inl (Update_error _) \<Rightarrow> Inl (Deferred R_io)
      | Inl e \<Rightarrow> Inl e
      | Inr raw \<Rightarrow>
          (case json raw of Json v \<Rightarrow> Inr v | Not_json \<Rightarrow> Inl (Deferred R_io) | Not_text \<Rightarrow> Inl Uncaught))"

definition INSPECTED :: "string list" where
  "INSPECTED = [''Id'', ''Name'', ''Image'', ''ImageName'', ''Dependencies'', ''Mounts'', ''HostConfig'', ''Config'']"

definition container_facts :: "pydict \<Rightarrow> pydict attempt" where
  "container_facts d =
     bindR (attached d) (\<lambda>ns.
     bindR (mapR (\<lambda>(n, v). bindR (network_id v) (\<lambda>i. Inr (n, i))) ns) (\<lambda>nets.
     bindR (started_at_value d VNone) (\<lambda>st.
     Inr (map (\<lambda>k. (VStr k, field_of d k)) INSPECTED
          @ [(VStr ''networks'', VDict nets), (VStr ''started'', st)]))))"

definition is_container_id :: "pyval \<Rightarrow> bool" where
  "is_container_id v = (case v of VStr s \<Rightarrow> hex64 s | _ \<Rightarrow> False)"

fun the_text :: "pyval \<Rightarrow> string" where
  "the_text (VStr s) = s"
| "the_text _ = []"

definition dependencies_of :: "pydict \<Rightarrow> string list attempt" where
  "dependencies_of d =
     (case field_of d ''Dependencies'' of
        VList ds \<Rightarrow> if list_all is_container_id ds then Inr (map the_text ds) else Inl (Deferred R_schema)
      | _ \<Rightarrow> Inl (Deferred R_schema))"

definition single_doc :: "string \<Rightarrow> pyval \<Rightarrow> pydict attempt" where
  "single_doc cid got =
     (case got of
        VList [VDict d] \<Rightarrow> if vget d ''Id'' = Some (VStr cid) then Inr d else Inl (Deferred R_schema)
      | _ \<Rightarrow> Inl (Deferred R_schema))"

definition name_of :: "(pyval \<Rightarrow> string) \<Rightarrow> string \<Rightarrow> pydict \<Rightarrow> string" where
  "name_of rep cid d =
     (let n = dropWhile (\<lambda>c. c = CHR ''/'') (str_of rep (vget_or d ''Name'' (VStr []))) in
      if n = [] then take 12 cid else n)"

definition add_container ::
  "(string list \<Rightarrow> 'b attempt) \<Rightarrow> ('b \<Rightarrow> decoded) \<Rightarrow> (pyval \<Rightarrow> string) \<Rightarrow> (pydict \<Rightarrow> string)
   \<Rightarrow> snapshot \<Rightarrow> pyval \<Rightarrow> snapshot attempt" where
  "add_container run json rep canon s row_id =
     bindR (ensure (is_container_id row_id) (Deferred R_schema)) (\<lambda>_.
     let cid = the_text row_id in
     bindR (inventory run json [''podman'', ''container'', ''inspect'', ''--format'', ''json'', cid]) (\<lambda>got.
     bindR (single_doc cid got) (\<lambda>d.
     bindR (dependencies_of d) (\<lambda>ds.
     bindR (started_at_value d (VStr [])) (\<lambda>st.
     bindR (container_facts d) (\<lambda>facts.
     Inr (s\<lparr>containers := dput cid (canon facts) (containers s),
            deps := deps s @ map (\<lambda>t. (cid, t)) ds,
            docs := dput cid d (docs s),
            names := dput cid (name_of rep cid d) (names s),
            started := dput cid (str_of rep st) (started s)\<rparr>)))))))"

definition row_ids :: "pyval \<Rightarrow> pyval list attempt" where
  "row_ids rows =
     (case rows of
        VList rs \<Rightarrow>
          mapR (\<lambda>r. case r of
              VDict d \<Rightarrow> (case vget d ''Id'' of Some i \<Rightarrow> Inr i | None \<Rightarrow> Inl (Deferred R_schema))
            | _ \<Rightarrow> Inl (Deferred R_schema)) rs
      | _ \<Rightarrow> Inl (Deferred R_schema))"

definition store_root :: "(string \<Rightarrow> string) \<Rightarrow> pyval \<Rightarrow> string \<Rightarrow> string attempt" where
  "store_root realpath store k =
     (case store of
        VDict d \<Rightarrow> (case vget d k of Some (VStr s) \<Rightarrow> Inr (realpath s) | _ \<Rightarrow> Inl (Deferred R_schema))
      | _ \<Rightarrow> Inl (Deferred R_schema))"

definition take_snapshot ::
  "(string list \<Rightarrow> 'b attempt) \<Rightarrow> ('b \<Rightarrow> decoded) \<Rightarrow> (string \<Rightarrow> string) \<Rightarrow> (pyval \<Rightarrow> string)
   \<Rightarrow> (pydict \<Rightarrow> string) \<Rightarrow> (string, string) dict \<Rightarrow> snapshot attempt" where
  "take_snapshot run json realpath rep canon env =
     (if nonempty_var env ''CONTAINER_HOST'' \<or> nonempty_var env ''CONTAINER_CONNECTION''
      then Inl (Deferred R_input)
      else
        bindR (inventory run json [''podman'', ''info'', ''--format'', ''json'']) (\<lambda>info_v.
        bindR (as_dict info_v) (\<lambda>info.
        bindR (section_of ''host'' info) (\<lambda>host.
        bindR (section_of ''security'' host) (\<lambda>sec.
        bindR (ensure (field_of sec ''rootless'' = VBool True \<and> field_of host ''serviceIsRemote'' = VBool False)
                 (Deferred R_ownership)) (\<lambda>_.
        bindR (store_root realpath (field_of info ''store'') ''graphRoot'') (\<lambda>g.
        bindR (store_root realpath (field_of info ''store'') ''runRoot'') (\<lambda>r.
        bindR (inventory run json [''podman'', ''ps'', ''--all'', ''--no-trunc'', ''--format'', ''json'']) (\<lambda>rows.
        bindR (row_ids rows) (\<lambda>ids.
        foldR (add_container run json rep canon)
          \<lparr>snap_backend = \<lparr>graph_root = g, run_root = r\<rparr>, containers = [], deps = [], docs = [], names = [],
           started = [], others = []\<rparr> ids))))))))))"


section \<open>Comparing two snapshots\<close>

datatype change = Removed string | Appeared string | Restarted string | Changed string

definition shown_name :: "snapshot \<Rightarrow> snapshot \<Rightarrow> string \<Rightarrow> string" where
  "shown_name before after cid =
     (if nonempty_var (names after) cid then the (dget (names after) cid)
      else if nonempty_var (names before) cid then the (dget (names before) cid)
      else take 12 cid)"

definition change_of :: "snapshot \<Rightarrow> snapshot \<Rightarrow> string \<Rightarrow> change list" where
  "change_of before after cid =
     (let name = shown_name before after cid in
      case (dget (containers before) cid, dget (containers after) cid) of
        (_, None) \<Rightarrow> [Removed name]
      | (None, Some _) \<Rightarrow> [Appeared name]
      | (Some h, Some h') \<Rightarrow>
          if h = h' then []
          else if dget (started before) cid \<noteq> dget (started after) cid then [Restarted name] else [Changed name])"

definition changes :: "snapshot \<Rightarrow> snapshot \<Rightarrow> change list" where
  "changes before after =
     concat (map (change_of before after)
       (sort (remdups (keys (containers before) @ keys (containers after)))))"

definition assert_unchanged :: "snapshot \<Rightarrow> snapshot \<Rightarrow> unit attempt" where
  "assert_unchanged before after =
     (if snap_backend before \<noteq> snap_backend after then Inl (Deferred R_ownership)
      else if changes before after \<noteq> [] \<or> set (deps before) \<noteq> set (deps after) then Inl (Deferred R_ownership)
      else Inr ())"

lemma change_of_Nil:
  assumes "dget (containers b) cid \<noteq> None \<or> dget (containers a) cid \<noteq> None"
  shows "change_of b a cid = [] \<longleftrightarrow> dget (containers b) cid = dget (containers a) cid"
  using assms
  by (cases "dget (containers b) cid"; cases "dget (containers a) cid") (simp_all add: change_of_def Let_def)

lemma in_keys_iff: "c \<in> set (keys d) \<longleftrightarrow> dget d c \<noteq> None"
  by (simp add: map_of_eq_None_iff)

lemma changes_Nil_all:
  "changes b a = [] \<longleftrightarrow>
   (\<forall>c. dget (containers b) c \<noteq> None \<or> dget (containers a) c \<noteq> None \<longrightarrow> change_of b a c = [])"
proof -
  have "changes b a = [] \<longleftrightarrow>
      (\<forall>c \<in> set (keys (containers b)) \<union> set (keys (containers a)). change_of b a c = [])"
    by (simp add: changes_def)
  then show ?thesis
    by (simp only: Ball_def Un_iff in_keys_iff)
qed

lemma changes_Nil: "changes b a = [] \<longleftrightarrow> dget (containers b) = dget (containers a)"
  unfolding changes_Nil_all using change_of_Nil by (metis ext)

lemma assert_unchanged_iff:
  "assert_unchanged b a = Inr () \<longleftrightarrow>
   snap_backend b = snap_backend a \<and> dget (containers b) = dget (containers a) \<and> set (deps b) = set (deps a)"
  by (auto simp: assert_unchanged_def changes_Nil)

section \<open>Well-formed snapshots\<close>

text \<open>
  Every container has its document, hash, name and start time; its identifier is canonical, and only
  containers of the inventory have recorded dependencies.
\<close>

definition snapshot_wf :: "snapshot \<Rightarrow> bool" where
  "snapshot_wf s \<longleftrightarrow>
     distinct (keys (containers s)) \<and> keys (docs s) = keys (containers s)
     \<and> keys (names s) = keys (containers s) \<and> keys (started s) = keys (containers s)
     \<and> list_all hex64 (keys (containers s)) \<and> fst ` set (deps s) \<subseteq> set (keys (containers s))"

lemma keys_dput_eq: "keys d = keys e \<Longrightarrow> keys (dput k v d) = keys (dput k w e)"
  by (simp add: keys_dput)

lemma is_container_idD: "is_container_id v \<Longrightarrow> hex64 (the_text v)"
  by (cases v) (simp_all add: is_container_id_def)

lemma set_keys_dput_str: "set (keys (dput k v d)) = insert k (set (keys d))"
  by (simp add: keys_dput insert_absorb)

lemma snapshot_wf_insert:
  assumes wf: "snapshot_wf s" and k: "hex64 k"
  shows "snapshot_wf (s\<lparr>containers := dput k h (containers s), deps := deps s @ map (\<lambda>t. (k, t)) ds,
     docs := dput k d (docs s), names := dput k n (names s), started := dput k st (started s)\<rparr>)"
proof -
  have "list_all hex64 (keys (dput k h (containers s)))"
    using wf k by (simp add: snapshot_wf_def keys_dput)
  moreover have "fst ` set (deps s @ map (\<lambda>t. (k, t)) ds) \<subseteq> set (keys (dput k h (containers s)))"
    using wf unfolding set_keys_dput_str snapshot_wf_def by auto
  moreover have "distinct (keys (dput k h (containers s)))"
    using wf by (simp add: snapshot_wf_def)
  moreover have "keys (docs s) = keys (containers s)" "keys (names s) = keys (containers s)"
      "keys (started s) = keys (containers s)"
    using wf by (simp_all add: snapshot_wf_def)
  ultimately show ?thesis
    unfolding snapshot_wf_def by (simp add: keys_dput del: set_map)
qed

lemma add_container_wf:
  assumes "snapshot_wf s" "add_container run json rep canon s v = Inr s'"
  shows "snapshot_wf s'"
proof -
  from assms(2) obtain d ds st facts where v: "is_container_id v"
    and s': "s' = s\<lparr>containers := dput (the_text v) (canon facts) (containers s),
            deps := deps s @ map (\<lambda>t. (the_text v, t)) ds,
            docs := dput (the_text v) d (docs s),
            names := dput (the_text v) (name_of rep (the_text v) d) (names s),
            started := dput (the_text v) (str_of rep st) (started s)\<rparr>"
    by (auto simp: add_container_def Let_def)
  show ?thesis
    unfolding s' by (rule snapshot_wf_insert [OF assms(1) is_container_idD [OF v]])
qed

lemma take_snapshot_wf:
  assumes "take_snapshot run json realpath rep canon env = Inr s"
  shows "snapshot_wf s"
proof -
  from assms obtain g r ids where
    run: "foldR (add_container run json rep canon)
          \<lparr>snap_backend = \<lparr>graph_root = g, run_root = r\<rparr>, containers = [], deps = [], docs = [], names = [],
           started = [], others = []\<rparr> ids = Inr s"
    by (auto simp: take_snapshot_def split: if_splits)
  show ?thesis
    by (rule foldR_inv [of snapshot_wf, OF add_container_wf _ run])
      (assumption | simp add: snapshot_wf_def)+
qed


section \<open>Restriction keeps what matters\<close>

lemma incoming_Nil: "incoming s t = [] \<longleftrightarrow> (\<forall>c. (c, t) \<notin> set (deps s))"
  by (force simp: incoming_def filter_empty_conv simp flip: set_empty)

lemma set_keep_keys: "dget (keep_keys ids d) c = (if c \<in> set ids then dget d c else None)"
  by (induction d) (auto simp: keep_keys_def)

lemma relevant_ids_Inr:
  assumes "relevant_ids s t p nets = Inr ids"
  shows "ids = keys (filter (\<lambda>x. is_relevant s t p nets x = Inr True) (docs s))"
  using assms by (auto simp: relevant_ids_def dest: filterR_Inr)

lemma relevant_dependent:
  assumes "snapshot_wf s" "relevant_ids s t p nets = Inr ids" "t \<noteq> []" "(c, t) \<in> set (deps s)"
  shows "c \<in> set ids"
proof -
  have "c \<in> set (keys (docs s))"
    using assms(1,4) by (force simp: snapshot_wf_def)
  then obtain d where "(c, d) \<in> set (docs s)"
    by auto
  moreover have "is_relevant s t p nets (c, d) = Inr True"
    using assms(3,4) by (simp add: is_relevant_def)
  ultimately show ?thesis
    using relevant_ids_Inr [OF assms(2)] by force
qed

lemma incoming_restrict:
  assumes "snapshot_wf s" "relevant_ids s t p nets = Inr ids" "t \<noteq> []"
  shows "incoming (restrict s ids) t = incoming s t"
proof -
  have "filter (\<lambda>d. snd d = t) (filter (\<lambda>d. fst d \<in> set ids) (deps s)) = filter (\<lambda>d. snd d = t) (deps s)"
    using relevant_dependent [OF assms] by (auto intro!: filter_cong)
  then show ?thesis
    by (simp add: incoming_def restrict_def flip: remdups_filter)
qed

end
