(* ===== verification/Recheck.thy ===== *)
theory Recheck
  imports Snapshot
begin

text \<open>
  The deployment fingerprint and the recheck before the update commits
  (\<open>pylib/omniroute_update.py\<close>). Command output and files are byte strings; \<open>yaml\<close> decodes the
  provider's output, \<open>dumps\<close> is \<open>json.dumps(..., sort_keys=True)\<close>, \<open>sha\<close> the hexadecimal SHA-256.
\<close>

section \<open>Supported compose services\<close>

definition UNSUPPORTED :: "string list" where
  "UNSUPPORTED = [''include'', ''extends'', ''env_file'', ''secrets'', ''configs'', ''build'', ''network_mode'',
     ''pod'', ''volumes_from'', ''links'']"

text \<open>\<open>_strings\<close>: every text inside a value, mapping keys left out.\<close>

fun strings :: "pyval \<Rightarrow> string list" where
  "strings (VStr s) = [s]"
| "strings (VDict d) = concat (map (\<lambda>p. strings (snd p)) d)"
| "strings (VList vs) = concat (map strings vs)"
| "strings _ = []"

text \<open>\<open>key in v\<close>.\<close>

fun in_value :: "string \<Rightarrow> pyval \<Rightarrow> bool attempt" where
  "in_value k (VDict d) = Inr (has_key d k)"
| "in_value k (VList vs) = Inr (VStr k \<in> set vs)"
| "in_value k (VStr s) = Inr (contains_text k s)"
| "in_value k _ = Inl Uncaught"

fun anyR :: "('a \<Rightarrow> bool attempt) \<Rightarrow> 'a list \<Rightarrow> bool attempt" where
  "anyR P [] = Inr False"
| "anyR P (x # xs) = bindR (P x) (\<lambda>b. if b then Inr True else anyR P xs)"

definition scalable_once :: "pydict \<Rightarrow> bool attempt" where
  "scalable_once svc =
     (if \<not> eq_int (vget_or svc ''scale'' (VInt 1)) 1 then Inr False
      else bindR (section_of ''deploy'' svc) (\<lambda>d. Inr (eq_int (vget_or d ''replicas'' (VInt 1)) 1)))"

fun anonymous_volume :: "pyval \<Rightarrow> bool" where
  "anonymous_volume (VStr v) = (CHR '':'' \<notin> set v)"
| "anonymous_volume _ = False"

definition falsy_or_items :: "pyval \<Rightarrow> pyval list attempt" where
  "falsy_or_items v = (if truthy v then items_of v else Inr [])"

definition reject_service :: "pyval \<Rightarrow> unit attempt" where
  "reject_service svc_v =
     bindR (anyR (\<lambda>k. in_value k svc_v) UNSUPPORTED) (\<lambda>bad.
     bindR (ensure (\<not> bad) (Deferred R_input)) (\<lambda>_.
     bindR (as_dict svc_v) (\<lambda>svc.
     bindR (scalable_once svc) (\<lambda>once.
     bindR (ensure once (Deferred R_input)) (\<lambda>_.
     bindR (ensure (\<not> list_ex (contains_text ''${'') (strings svc_v)) (Deferred R_input)) (\<lambda>_.
     bindR (falsy_or_items (field_of svc ''volumes'')) (\<lambda>vols.
     ensure (\<not> list_ex anonymous_volume vols) (Deferred R_input))))))))"

definition reject_unsupported :: "pydict \<Rightarrow> unit attempt" where
  "reject_unsupported effective =
     bindR (section_of ''services'' effective) (\<lambda>svcs.
     bindR (mapR (\<lambda>p. reject_service (snd p)) svcs) (\<lambda>_. Inr ()))"

definition effective_config ::
  "(string list \<Rightarrow> 'b attempt) \<Rightarrow> ('b \<Rightarrow> pyval option) \<Rightarrow> string \<Rightarrow> string \<Rightarrow> string \<Rightarrow> pydict attempt" where
  "effective_config run yaml provider project compose_path =
     bindR (run [provider, ''--in-pod'', ''false'', ''--env-file'', ''/dev/null'', ''-p'', project, ''-f'',
                 compose_path, ''config'']) (\<lambda>out.
     case yaml out of
       None \<Rightarrow> Inl (Deferred R_io)
     | Some (VDict d) \<Rightarrow> if is_dict (field_of d ''services'') then Inr d else Inl (Deferred R_schema)
     | Some _ \<Rightarrow> Inl (Deferred R_schema))"

section \<open>The fingerprint\<close>

text \<open>The variable names a compose text interpolates: the matches of \<open>${NAME\<close>.\<close>

definition name_start :: "char \<Rightarrow> bool" where
  "name_start c \<longleftrightarrow> c = CHR ''_'' \<or> (let n = of_char c :: nat in 65 \<le> n \<and> n \<le> 90)"

fun var_refs :: "string \<Rightarrow> string list" where
  "var_refs [] = []"
| "var_refs (c # cs) =
     (case cs of
        b # x # rest \<Rightarrow>
          if c = CHR ''$'' \<and> b = CHR ''{'' \<and> name_start x
          then takeWhile (\<lambda>y. name_start y \<or> is_digit y) (x # rest) # var_refs cs else var_refs cs
      | _ \<Rightarrow> var_refs cs)"

definition read_bytes :: "(string \<Rightarrow> string option) \<Rightarrow> string \<Rightarrow> string attempt" where
  "read_bytes files path = (case files path of Some b \<Rightarrow> Inr b | None \<Rightarrow> Inl Uncaught)"

definition env_value :: "(string, string) dict \<Rightarrow> string \<Rightarrow> pyval" where
  "env_value env n = (case dget env n of Some v \<Rightarrow> VStr v | None \<Rightarrow> VNone)"

definition backend_doc :: "backend \<Rightarrow> pydict" where
  "backend_doc b = [(VStr ''graphRoot'', VStr (graph_root b)), (VStr ''runRoot'', VStr (run_root b)),
     (VStr ''rootless'', VBool True), (VStr ''remote'', VBool False)]"

definition fingerprint_parts ::
  "(string list \<Rightarrow> string attempt) \<Rightarrow> (string \<Rightarrow> string option) \<Rightarrow> (string \<Rightarrow> string) \<Rightarrow> (pyval \<Rightarrow> string)
   \<Rightarrow> string \<Rightarrow> string \<Rightarrow> string \<Rightarrow> pydict \<Rightarrow> (string, string) dict \<Rightarrow> snapshot \<Rightarrow> (string, string) dict attempt" where
  "fingerprint_parts run files realpath dumps config_path compose_path provider effective env snap =
     bindR (ensure (\<not> list_ex (\<lambda>n. starts_with ''COMPOSE_'' n \<or> starts_with ''PODMAN_COMPOSE_'' n) (keys env))
              (Deferred R_input)) (\<lambda>_.
     bindR (reject_unsupported effective) (\<lambda>_.
     bindR (read_bytes files config_path) (\<lambda>config_bytes.
     bindR (read_bytes files compose_path) (\<lambda>compose_bytes.
     bindR (run [provider, ''--version'']) (\<lambda>version.
     bindR (read_bytes files provider) (\<lambda>provider_bytes.
     Inr [(''config'', config_bytes), (''config-path'', realpath config_path),
          (''compose'', compose_bytes), (''compose-path'', realpath compose_path),
          (''effective'', dumps (VDict effective)),
          (''interpolation-env'',
             dumps (VDict (map (\<lambda>n. (VStr n, env_value env n)) (sort (remdups (var_refs compose_bytes)))))),
          (''provider'', provider_bytes @ CHR 0x00 # version),
          (''backend'', dumps (VDict (backend_doc (snap_backend snap)))),
          (''containers'', dumps (VDict (map (\<lambda>(c, h). (VStr c, VStr h)) (containers snap)))),
          (''deps'', dumps (VList (map (\<lambda>d. VList (map VStr d))
             (sort (remdups (map (\<lambda>(a, b). [a, b]) (deps snap)))))))]))))))"

definition fingerprint_line :: "(string \<Rightarrow> string) \<Rightarrow> (string, string) dict \<Rightarrow> string \<Rightarrow> string" where
  "fingerprint_line sha parts n = n @ CHR 0x00 # sha (the (dget parts n)) @ [CHR 0x0A]"

definition fingerprint :: "(string \<Rightarrow> string) \<Rightarrow> (string, string) dict \<Rightarrow> string" where
  "fingerprint sha parts = sha_prefix @ sha (concat (map (fingerprint_line sha parts) (sort (keys parts))))"

section \<open>The recheck\<close>

record dir_stat =
  is_directory :: bool
  owner :: int
  permissions :: int

definition check_private_dir :: "dir_stat \<Rightarrow> int \<Rightarrow> unit attempt" where
  "check_private_dir st euid =
     (if \<not> is_directory st \<or> owner st \<noteq> euid \<or> permissions st \<noteq> 448 then Inl (Deferred R_lock) else Inr ())"

text \<open>What the preflight wrote beside the baseline snapshot and its fingerprint.\<close>

record deployment =
  target_id :: string
  project_name :: string
  network_ids :: "pyval list"
  provider_path :: string

text \<open>The \<open>except UpdateError\<close> of \<open>recheck\<close>.\<close>

fun defer_update_error :: "'a attempt \<Rightarrow> 'a attempt" where
  "defer_update_error (Inl (Update_error _)) = Inl (Deferred R_io)"
| "defer_update_error r = r"

definition difference_size :: "string list \<Rightarrow> string list \<Rightarrow> nat" where
  "difference_size xs ys = length (remdups (filter (\<lambda>x. x \<notin> set ys) xs))"

text \<open>The outside world of a recheck: commands, files, and the functions named above.\<close>

record world =
  run_command :: "string list \<Rightarrow> string attempt"
  json_loads :: "string \<Rightarrow> decoded"
  yaml_load :: "string \<Rightarrow> pyval option"
  json_dumps :: "pyval \<Rightarrow> string"
  real_path :: "string \<Rightarrow> string"
  file_bytes :: "string \<Rightarrow> string option"
  sha256_hex :: "string \<Rightarrow> string"
  canon_hash :: "pydict \<Rightarrow> string"
  py_repr :: "pyval \<Rightarrow> string"
  environment :: "(string, string) dict"

definition snapshot_of :: "world \<Rightarrow> snapshot attempt" where
  "snapshot_of w =
     take_snapshot (run_command w) (json_loads w) (real_path w) (py_repr w) (canon_hash w) (environment w)"

definition fingerprint_of :: "world \<Rightarrow> string \<Rightarrow> string \<Rightarrow> string \<Rightarrow> pydict \<Rightarrow> snapshot \<Rightarrow> string attempt" where
  "fingerprint_of w config_path compose_path provider effective snap =
     bindR (fingerprint_parts (run_command w) (file_bytes w) (real_path w) (json_dumps w) config_path compose_path
              provider effective (environment w) snap) (\<lambda>parts. Inr (fingerprint (sha256_hex w) parts))"

definition recheck_inventory ::
  "world \<Rightarrow> string \<Rightarrow> string \<Rightarrow> snapshot \<Rightarrow> string \<Rightarrow> deployment \<Rightarrow> snapshot attempt" where
  "recheck_inventory w config_path compose_path before expected dep =
     bindR (snapshot_of w) (\<lambda>whole.
     bindR (relevant_ids whole (target_id dep) (project_name dep) (network_ids dep)) (\<lambda>ids.
     let snap = restrict whole ids in
     bindR (ensure (target_id dep = [] \<or> target_id dep \<in> set (keys (containers snap))) (Deferred R_ownership)) (\<lambda>_.
     bindR (assert_unchanged before snap) (\<lambda>_.
     bindR (ensure (incoming snap (target_id dep) = []) (Deferred R_ownership)) (\<lambda>_.
     bindR (effective_config (run_command w) (yaml_load w) (provider_path dep) (project_name dep) compose_path) (\<lambda>eff.
     bindR (fingerprint_of w config_path compose_path (provider_path dep) eff snap) (\<lambda>fp.
     bindR (ensure (fp = expected) (Deferred R_ownership)) (\<lambda>_.
     Inr snap))))))))"

definition recheck ::
  "world \<Rightarrow> dir_stat \<Rightarrow> int \<Rightarrow> string \<Rightarrow> string \<Rightarrow> snapshot \<Rightarrow> string \<Rightarrow> deployment \<Rightarrow> (nat \<times> nat) attempt" where
  "recheck w st euid config_path compose_path before expected dep =
     bindR (check_private_dir st euid) (\<lambda>_.
     bindR (defer_update_error (recheck_inventory w config_path compose_path before expected dep)) (\<lambda>snap.
     Inr (difference_size (others snap) (others before), difference_size (others before) (others snap))))"


section \<open>What a passed recheck means\<close>

lemma defer_Inr [simp]: "defer_update_error r = Inr x \<longleftrightarrow> r = Inr x"
  by (cases r rule: defer_update_error.cases) auto

lemma recheck_inventory_Inr:
  assumes "recheck_inventory w config_path compose_path before expected dep = Inr snap"
  shows "\<exists>whole ids eff. snapshot_of w = Inr whole
     \<and> relevant_ids whole (target_id dep) (project_name dep) (network_ids dep) = Inr ids
     \<and> snap = restrict whole ids \<and> (target_id dep = [] \<or> target_id dep \<in> set (keys (containers snap)))
     \<and> assert_unchanged before snap = Inr () \<and> incoming snap (target_id dep) = []
     \<and> effective_config (run_command w) (yaml_load w) (provider_path dep) (project_name dep) compose_path = Inr eff
     \<and> fingerprint_of w config_path compose_path (provider_path dep) eff snap = Inr expected"
  using assms by (auto simp: recheck_inventory_def Let_def simp del: set_map)

lemma snapshot_of_wf: "snapshot_of w = Inr s \<Longrightarrow> snapshot_wf s"
  unfolding snapshot_of_def by (rule take_snapshot_wf)

lemma relevant_container:
  assumes "relevant_ids s t p nets = Inr ids" "t \<in> set ids"
  shows "t \<in> set (keys (docs s))"
  using assms(2) unfolding relevant_ids_Inr [OF assms(1)] by auto

text \<open>
  C21: when the recheck passes for a present target, the target is still there, nothing
  in the whole inventory depends on it (the restriction to relevant containers hides no dependent), every
  relevant container has the hash of the baseline and the baseline has no other, the backend is the
  same, and the fingerprint of the current inputs is the recorded one.
\<close>

theorem recheck_sound:
  assumes "recheck w st euid config_path compose_path before expected dep = Inr counts"
    and "target_id dep \<noteq> []"
  shows "\<exists>whole ids eff. snapshot_of w = Inr whole
     \<and> relevant_ids whole (target_id dep) (project_name dep) (network_ids dep) = Inr ids
     \<and> target_id dep \<in> set (keys (containers whole))
     \<and> (\<forall>c. (c, target_id dep) \<notin> set (deps whole))
     \<and> snap_backend before = snap_backend whole
     \<and> (\<forall>c. dget (containers before) c = (if c \<in> set ids then dget (containers whole) c else None))
     \<and> fingerprint_of w config_path compose_path (provider_path dep) eff (restrict whole ids) = Inr expected"
proof -
  from assms(1) obtain snap where "recheck_inventory w config_path compose_path before expected dep = Inr snap"
    by (auto simp: recheck_def)
  from recheck_inventory_Inr [OF this] obtain whole ids eff where
    s: "snapshot_of w = Inr whole"
    and r: "relevant_ids whole (target_id dep) (project_name dep) (network_ids dep) = Inr ids"
    and snap: "snap = restrict whole ids"
    and present: "target_id dep \<in> set (keys (containers snap))"
    and same: "assert_unchanged before snap = Inr ()" and none: "incoming snap (target_id dep) = []"
    and fp: "fingerprint_of w config_path compose_path (provider_path dep) eff snap = Inr expected"
    using assms(2) by metis
  note wf = snapshot_of_wf [OF s]
  have "incoming whole (target_id dep) = []"
    using none incoming_restrict [OF wf r assms(2)] snap by simp
  then have deps: "\<forall>c. (c, target_id dep) \<notin> set (deps whole)"
    by (simp add: incoming_Nil)
  have kept: "containers snap = keep_keys ids (containers whole)" "snap_backend snap = snap_backend whole"
    using snap by (simp_all add: restrict_def)
  have here: "target_id dep \<in> set (keys (containers whole))"
    using present unfolding kept by (auto simp: keep_keys_def)
  have hashes: "dget (containers before) c = (if c \<in> set ids then dget (containers whole) c else None)" for c
    using same kept by (simp add: assert_unchanged_iff set_keep_keys)
  have backend: "snap_backend before = snap_backend whole"
    using same kept by (simp add: assert_unchanged_iff)
  show ?thesis
    using s r here deps backend hashes fp unfolding snap by blast
qed

text \<open>A host with the target container and an unrelated one; the baseline is what the recheck sees.\<close>

definition demo_id :: "char \<Rightarrow> string" where "demo_id c = replicate 64 c"

definition demo_doc :: "char \<Rightarrow> string \<Rightarrow> pyval" where
  "demo_doc c project = VDict [(VStr ''Id'', VStr (demo_id c)), (VStr ''Name'', VStr [c]), (VStr ''Dependencies'', VList []),
     (VStr ''Config'', VDict [(VStr ''Labels'', VDict [(VStr LABEL_PROJECT, VStr project)])])]"

definition demo_info :: pyval where
  "demo_info = VDict
     [(VStr ''store'', VDict [(VStr ''graphRoot'', VStr ''/g''), (VStr ''runRoot'', VStr ''/r'')]),
      (VStr ''host'', VDict [(VStr ''security'', VDict [(VStr ''rootless'', VBool True)]),
                             (VStr ''serviceIsRemote'', VBool False)])]"

definition demo_ps :: pyval where
  "demo_ps = VList [VDict [(VStr ''Id'', VStr (demo_id (CHR ''a'')))], VDict [(VStr ''Id'', VStr (demo_id (CHR ''b'')))]]"

definition demo_effective :: pyval where
  "demo_effective = VDict [(VStr ''services'', VDict [(VStr ''omniroute'', VDict [(VStr ''image'', VStr ''x/y'')])])]"

definition demo_world :: world where
  "demo_world =
     \<lparr>run_command = (\<lambda>argv. Inr (if argv ! 1 = ''container'' then argv ! 5 else argv ! 1)),
      json_loads = (\<lambda>out. Json (if out = ''info'' then demo_info else if out = ''ps'' then demo_ps
        else if out = demo_id (CHR ''a'') then VList [demo_doc (CHR ''a'') ''llm''] else VList [demo_doc (CHR ''b'') ''other''])),
      yaml_load = (\<lambda>_. Some demo_effective), json_dumps = (\<lambda>_. ''json''), real_path = (\<lambda>p. p),
      file_bytes = (\<lambda>_. Some ''bytes''), sha256_hex = (\<lambda>_. demo_id (CHR ''0'')), canon_hash = (\<lambda>_. ''hash''),
      py_repr = (\<lambda>_. []), environment = []\<rparr>"

definition demo_deployment :: deployment where
  "demo_deployment = \<lparr>target_id = demo_id (CHR ''a''), project_name = ''llm'', network_ids = [],
     provider_path = ''podman-compose''\<rparr>"

definition demo_before :: snapshot where
  "demo_before = \<lparr>snap_backend = \<lparr>graph_root = ''/g'', run_root = ''/r''\<rparr>,
     containers = [(demo_id (CHR ''a''), ''hash'')], deps = [], docs = [], names = [], started = [],
     others = []\<rparr>"

definition demo_stat :: dir_stat where
  "demo_stat = \<lparr>is_directory = True, owner = 1000, permissions = 448\<rparr>"

lemma demo_recheck:
  "recheck demo_world demo_stat 1000 ''c'' ''k'' demo_before (sha_prefix @ demo_id (CHR ''0'')) demo_deployment
   = Inr (1, 0)"
  by code_simp

lemma demo_target: "target_id demo_deployment \<noteq> []"
  by code_simp

theorem recheck_sound_witness:
  "\<exists>whole ids eff. snapshot_of demo_world = Inr whole
     \<and> relevant_ids whole (target_id demo_deployment) (project_name demo_deployment) (network_ids demo_deployment)
       = Inr ids
     \<and> target_id demo_deployment \<in> set (keys (containers whole))
     \<and> (\<forall>c. (c, target_id demo_deployment) \<notin> set (deps whole))
     \<and> snap_backend demo_before = snap_backend whole
     \<and> (\<forall>c. dget (containers demo_before) c = (if c \<in> set ids then dget (containers whole) c else None))
     \<and> fingerprint_of demo_world ''c'' ''k'' (provider_path demo_deployment) eff (restrict whole ids)
       = Inr (sha_prefix @ demo_id (CHR ''0''))"
  by (rule recheck_sound [OF demo_recheck demo_target])


section \<open>What a fingerprint fixes\<close>

definition fingerprint_text :: "(string \<Rightarrow> string) \<Rightarrow> (string, string) dict \<Rightarrow> string" where
  "fingerprint_text sha parts = concat (map (fingerprint_line sha parts) (sort (keys parts)))"

lemma concat_map_eq:
  assumes "concat (map f xs) = concat (map g xs)" "\<And>x. length (f x) = length (g x)" "x \<in> set xs"
  shows "f x = g x"
  using assms(1,3)
proof (induction xs)
  case (Cons y ys)
  then show ?case
    using assms(2) [of y] by auto
qed simp

lemma the_dget_mem: "k \<in> set (keys d) \<Longrightarrow> the (dget d k) \<in> set (map snd d)"
  by (induction d) auto

lemma dict_rebuild: "distinct (keys d) \<Longrightarrow> map (\<lambda>k. (k, the (dget d k))) (keys d) = d"
  unfolding map_map by (rule map_idI) (auto simp: map_of_is_SomeI)

lemma fingerprint_inj:
  assumes fp: "fingerprint sha p = fingerprint sha q" and same: "keys p = keys q" and dist: "distinct (keys p)"
    and len: "\<forall>x. length (sha x) = 64"
    and inj: "inj_on sha ({fingerprint_text sha p, fingerprint_text sha q} \<union> set (map snd p) \<union> set (map snd q))"
  shows "p = q"
proof -
  have "sha (fingerprint_text sha p) = sha (fingerprint_text sha q)"
    using fp by (simp add: fingerprint_def fingerprint_text_def)
  then have "fingerprint_text sha p = fingerprint_text sha q"
    by (rule inj_onD [OF inj]) simp_all
  then have lines: "fingerprint_line sha p k = fingerprint_line sha q k" if "k \<in> set (keys p)" for k
    using concat_map_eq [of "fingerprint_line sha p" "sort (keys p)" "fingerprint_line sha q" k] that len same
    by (simp add: fingerprint_text_def fingerprint_line_def)
  have vals: "the (dget p k) = the (dget q k)" if k: "k \<in> set (keys p)" for k
  proof (rule inj_onD [OF inj])
    show "sha (the (dget p k)) = sha (the (dget q k))"
      using lines [OF k] by (simp add: fingerprint_line_def)
    have "k \<in> set (keys q)"
      using k same by simp
    then show "the (dget p k) \<in> {fingerprint_text sha p, fingerprint_text sha q} \<union> set (map snd p) \<union> set (map snd q)"
      and "the (dget q k) \<in> {fingerprint_text sha p, fingerprint_text sha q} \<union> set (map snd p) \<union> set (map snd q)"
      using the_dget_mem [OF k] the_dget_mem [of k q] by blast+
  qed
  have "p = map (\<lambda>k. (k, the (dget p k))) (keys p)"
    by (rule dict_rebuild [OF dist, symmetric])
  also have "\<dots> = map (\<lambda>k. (k, the (dget q k))) (keys p)"
    by (rule map_cong [OF refl]) (simp only: vals)
  also have "\<dots> = map (\<lambda>k. (k, the (dget q k))) (keys q)"
    by (simp only: same)
  also have "\<dots> = q"
    by (rule dict_rebuild) (use dist same in \<open>simp only:\<close>)
  finally show "p = q" .
qed

definition PART_NAMES :: "string list" where
  "PART_NAMES = [''config'', ''config-path'', ''compose'', ''compose-path'', ''effective'', ''interpolation-env'',
     ''provider'', ''backend'', ''containers'', ''deps'']"

lemma distinct_PART_NAMES: "distinct PART_NAMES"
  by code_simp

lemma fingerprint_parts_Inr:
  assumes "fingerprint_parts run files realpath dumps cp kp prov eff env s = Inr p"
  shows "keys p = PART_NAMES" "dget p ''config'' = files cp" "dget p ''compose'' = files kp"
    "dget p ''config-path'' = Some (realpath cp)" "dget p ''compose-path'' = Some (realpath kp)"
    "dget p ''effective'' = Some (dumps (VDict eff))"
    "dget p ''containers'' = Some (dumps (VDict (map (\<lambda>(c, h). (VStr c, VStr h)) (containers s))))"
  using assms by (auto simp: fingerprint_parts_def PART_NAMES_def read_bytes_def split: option.splits)

text \<open>
  C22: equal fingerprints mean equal inputs: the same configuration and compose files, paths,
  effective services, container hashes and the rest of the ten parts, provided that SHA-256 digests
  are 64 characters and do not collide on the texts hashed here.
\<close>

theorem fingerprint_binds_inputs:
  assumes "fingerprint_parts run files realpath dumps cp kp prov eff env s = Inr p"
    and "fingerprint_parts run' files' realpath' dumps' cp' kp' prov' eff' env' s' = Inr q"
    and "fingerprint sha p = fingerprint sha q"
    and "\<forall>x. length (sha x) = 64"
    and "inj_on sha ({fingerprint_text sha p, fingerprint_text sha q} \<union> set (map snd p) \<union> set (map snd q))"
  shows "p = q \<and> files cp = files' cp' \<and> files kp = files' kp' \<and> realpath cp = realpath' cp'
    \<and> realpath kp = realpath' kp' \<and> dumps (VDict eff) = dumps' (VDict eff')
    \<and> dumps (VDict (map (\<lambda>(c, h). (VStr c, VStr h)) (containers s)))
      = dumps' (VDict (map (\<lambda>(c, h). (VStr c, VStr h)) (containers s')))"
proof -
  note p = fingerprint_parts_Inr [OF assms(1)] and q = fingerprint_parts_Inr [OF assms(2)]
  have "p = q"
    using fingerprint_inj [OF assms(3) _ _ assms(4,5)] p(1) q(1) distinct_PART_NAMES by simp
  then show ?thesis
    using p(2-) q(2-) by simp
qed


text \<open>A digest without collisions on short texts.\<close>

definition pad_sha :: "string \<Rightarrow> string" where
  "pad_sha s = take 64 (s @ replicate 64 (CHR ''!''))"

definition demo_parts :: "(string, string) dict" where
  "demo_parts =
     [(''config'', ''bytes''), (''config-path'', ''c''), (''compose'', ''bytes''), (''compose-path'', ''k''),
      (''effective'', ''json''), (''interpolation-env'', ''json''), (''provider'', ''bytes'' @ CHR 0x00 # ''--version''),
      (''backend'', ''json''), (''containers'', ''json''), (''deps'', ''json'')]"

lemma demo_parts_computed:
  "fingerprint_parts (run_command demo_world) (file_bytes demo_world) (real_path demo_world) (json_dumps demo_world)
     ''c'' ''k'' ''podman-compose'' [] [] demo_before = Inr demo_parts"
  by code_simp

lemma demo_inj:
  "inj_on pad_sha ({fingerprint_text pad_sha demo_parts, fingerprint_text pad_sha demo_parts}
     \<union> set (map snd demo_parts) \<union> set (map snd demo_parts))"
proof -
  have "\<forall>x \<in> set (fingerprint_text pad_sha demo_parts # map snd demo_parts).
      \<forall>y \<in> set (fingerprint_text pad_sha demo_parts # map snd demo_parts). pad_sha x = pad_sha y \<longrightarrow> x = y"
    by code_simp
  then show ?thesis
    by (auto simp: inj_on_def)
qed

lemma demo_len: "\<forall>x. length (pad_sha x) = 64"
  by (auto simp: pad_sha_def min_def)

theorem fingerprint_binds_inputs_witness:
  "demo_parts = demo_parts \<and> file_bytes demo_world ''c'' = file_bytes demo_world ''c''
    \<and> file_bytes demo_world ''k'' = file_bytes demo_world ''k''
    \<and> real_path demo_world ''c'' = real_path demo_world ''c'' \<and> real_path demo_world ''k'' = real_path demo_world ''k''
    \<and> json_dumps demo_world (VDict []) = json_dumps demo_world (VDict [])
    \<and> json_dumps demo_world (VDict (map (\<lambda>(c, h). (VStr c, VStr h)) (containers demo_before)))
      = json_dumps demo_world (VDict (map (\<lambda>(c, h). (VStr c, VStr h)) (containers demo_before)))"
  by (rule fingerprint_binds_inputs [OF demo_parts_computed demo_parts_computed refl demo_len demo_inj])

end
