(* ===== verification/Projection.thy ===== *)
theory Projection
  imports Recheck
begin

text \<open>
  The compose projection of one service (\<open>pylib/omniroute_update.py\<close>): the literal form of a service
  the provider printed with or without dollar escaping, the projection written for the recreate, and
  the check of the provider's own reading of it.
\<close>

section \<open>Dollar escaping\<close>

fun map_strings :: "(string \<Rightarrow> string) \<Rightarrow> pyval \<Rightarrow> pyval" where
  "map_strings f (VStr s) = VStr (f s)"
| "map_strings f (VDict d) = VDict (map (\<lambda>p. (fst p, map_strings f (snd p))) d)"
| "map_strings f (VList vs) = VList (map (map_strings f) vs)"
| "map_strings f v = v"

abbreviation dollar :: char where "dollar \<equiv> CHR ''$''"

definition escape :: "pyval \<Rightarrow> pyval" where
  "escape = map_strings (double_char dollar)"

definition unescape :: "pyval \<Rightarrow> pyval" where
  "unescape = map_strings (undouble_char dollar)"

section \<open>The environment of a service\<close>

definition env_pair :: "string \<Rightarrow> pyval \<times> string" where
  "env_pair item = (let (k, _, v) = partition_at (CHR ''='') item in (VStr k, v))"

definition env_text :: "(pyval \<Rightarrow> string) \<Rightarrow> pyval \<Rightarrow> string" where
  "env_text rep v = (if v = VNone then [] else str_of rep v)"

definition env_dict :: "(pyval \<Rightarrow> string) \<Rightarrow> pyval \<Rightarrow> (pyval, string) dict attempt" where
  "env_dict rep env =
     (case env of
        VDict d \<Rightarrow> Inr (map (\<lambda>p. (fst p, env_text rep (snd p))) d)
      | _ \<Rightarrow> bindR (falsy_or_items env) (\<lambda>items. Inr (dict_of (map (\<lambda>i. env_pair (str_of rep i)) items))))"

text \<open>The comparison is by digest, so that no value is held beside another in a message.\<close>

definition same_value :: "(string \<Rightarrow> string) \<Rightarrow> string \<Rightarrow> string option \<Rightarrow> bool" where
  "same_value sha want actual =
     (case actual of
        None \<Rightarrow> False
      | Some a \<Rightarrow> sha want = sha a \<or> sha want = sha (double_char dollar a))"

section \<open>The literal form of a service\<close>

datatype dollar_form = Plain_form | Escaped_form

definition form_of :: "(string \<Rightarrow> string) \<Rightarrow> (pyval, string) dict \<Rightarrow> pyval \<times> string \<Rightarrow> dollar_form list" where
  "form_of sha running p =
     (let actual = dget running (fst p) in
      if \<not> same_value sha (snd p) actual then []
      else if dollar \<in> set (the actual)
      then [if snd p = the actual then Plain_form else Escaped_form] else [])"

definition running_env :: "(pyval \<Rightarrow> string) \<Rightarrow> pydict \<Rightarrow> (pyval, string) dict attempt" where
  "running_env rep inspect =
     bindR (section_of ''Config'' inspect) (\<lambda>c. env_dict rep (field_of c ''Env''))"

definition to_runtime_literal ::
  "(pyval \<Rightarrow> string) \<Rightarrow> (string \<Rightarrow> string) \<Rightarrow> pydict \<Rightarrow> pydict \<Rightarrow> pydict attempt" where
  "to_runtime_literal rep sha svc inspect =
     bindR (running_env rep inspect) (\<lambda>running.
     bindR (env_dict rep (field_of svc ''environment'')) (\<lambda>env.
     let forms = concat (map (form_of sha running) env) in
     if Plain_form \<in> set forms \<and> Escaped_form \<in> set forms then Inl (Deferred R_input)
     else if Escaped_form \<in> set forms then as_dict (unescape (VDict svc))
     else if forms = [] \<and> list_ex (\<lambda>s. dollar \<in> set s) (strings (VDict svc)) then Inl (Deferred R_input)
     else Inr svc))"

section \<open>Networks and mounts\<close>

definition NAMESPACE_KEYS :: "string list" where
  "NAMESPACE_KEYS = [''pod'', ''network_mode'', ''links'', ''volumes_from'']"

text \<open>\<open>(table.get(k) or {}).get("name") or f"{project}_{k}"\<close>.\<close>

definition real_name :: "(pyval \<Rightarrow> string) \<Rightarrow> string \<Rightarrow> pydict \<Rightarrow> pyval \<Rightarrow> pyval attempt" where
  "real_name rep project table k =
     bindR (hashable k) (\<lambda>_.
     bindR (dict_or_empty (case dget table k of None \<Rightarrow> VNone | Some v \<Rightarrow> v)) (\<lambda>entry.
     let name = field_of entry ''name'' in
     Inr (if truthy name then name else VStr (project @ ''_'' @ str_of rep k))))"

definition resolved_networks ::
  "(pyval \<Rightarrow> string) \<Rightarrow> pydict \<Rightarrow> pydict \<Rightarrow> string \<Rightarrow> (pyval, pyval) dict attempt" where
  "resolved_networks rep svc effective project =
     bindR (section_of ''networks'' effective) (\<lambda>declared.
     bindR (if truthy (field_of svc ''networks'') then items_of (field_of svc ''networks'')
            else Inr [VStr ''default'']) (\<lambda>ks.
     bindR (mapR (\<lambda>k. bindR (real_name rep project declared k) (\<lambda>n. Inr (k, n))) ks) (\<lambda>ps.
     Inr (dict_of ps))))"

definition mount_docs :: "pydict \<Rightarrow> pydict list attempt" where
  "mount_docs inspect = bindR (falsy_or_items (field_of inspect ''Mounts'')) (mapR as_dict)"

definition mounted :: "string \<Rightarrow> pydict list \<Rightarrow> pydict list" where
  "mounted kind ms = filter (\<lambda>m. field_of m ''Type'' = VStr kind) ms"

definition volume_name :: "pydict \<Rightarrow> pyval attempt" where
  "volume_name m = (case vget m ''Name'' of None \<Rightarrow> Inl Uncaught | Some v \<Rightarrow> hashable v)"

definition entry_source :: "pyval \<Rightarrow> (pyval \<times> pyval) attempt" where
  "entry_source entry =
     (case entry of
        VStr s \<Rightarrow> Inr (VStr (takeWhile (\<lambda>c. c \<noteq> CHR '':'') s), VNone)
      | VDict d \<Rightarrow> Inr (vget_or d ''source'' (VStr []), field_of d ''type'')
      | _ \<Rightarrow> Inl Uncaught)"

fun as_text :: "pyval \<Rightarrow> string attempt" where
  "as_text (VStr s) = Inr s"
| "as_text _ = Inl Uncaught"

text \<open>One iteration over the volumes: a bind mount declares nothing, a named volume its real name.\<close>

definition mount_entry ::
  "(pyval \<Rightarrow> string) \<Rightarrow> string \<Rightarrow> pyval list \<Rightarrow> pyval list \<Rightarrow> pydict \<Rightarrow> pyval \<Rightarrow> (string \<times> pyval) option attempt" where
  "mount_entry rep project vols binds effective entry =
     bindR (entry_source entry) (\<lambda>(source_v, kind).
     bindR (as_text source_v) (\<lambda>source.
     if kind = VStr ''bind'' \<or> starts_with ''/'' source \<or> starts_with ''.'' source \<or> starts_with ''~'' source
     then (if \<not> starts_with ''/'' source then Inl (Deferred R_input)
           else if VStr source \<notin> set binds then Inl (Deferred R_ownership) else Inr None)
     else
       bindR (section_of ''volumes'' effective) (\<lambda>table.
       bindR (real_name rep project table (VStr source)) (\<lambda>r.
       bindR (hashable r) (\<lambda>_.
       if r \<notin> set vols then Inl (Deferred R_ownership) else Inr (Some (source, r)))))))"

definition external_named :: "pyval \<Rightarrow> pyval" where
  "external_named r = VDict [(VStr ''external'', VBool True), (VStr ''name'', r)]"

fun put_mount :: "pydict \<Rightarrow> (string \<times> pyval) option \<Rightarrow> pydict" where
  "put_mount out None = out"
| "put_mount out (Some (source, r)) = vput source (external_named r) out"

definition mounts ::
  "(pyval \<Rightarrow> string) \<Rightarrow> pydict \<Rightarrow> pydict \<Rightarrow> string \<Rightarrow> pydict \<Rightarrow> pydict attempt" where
  "mounts rep svc effective project inspect =
     bindR (mount_docs inspect) (\<lambda>ms.
     bindR (mapR volume_name (mounted ''volume'' ms)) (\<lambda>vols.
     bindR (mapR (\<lambda>m. hashable (field_of m ''Source'')) (mounted ''bind'' ms)) (\<lambda>binds.
     bindR (falsy_or_items (field_of svc ''volumes'')) (\<lambda>entries.
     bindR (mapR (mount_entry rep project vols binds effective) entries) (\<lambda>found.
     Inr (foldl put_mount [] found))))))"

section \<open>The projection\<close>

definition reject_namespaces :: "pydict \<Rightarrow> unit attempt" where
  "reject_namespaces svc = ensure (\<not> list_ex (has_key svc) NAMESPACE_KEYS) (Deferred R_input)"

definition same_names :: "pyval list \<Rightarrow> pyval list \<Rightarrow> bool" where
  "same_names xs ys \<longleftrightarrow> set xs = set ys"

text \<open>\<open>{key_to_name[k]: (v or {}) for k, v in base["networks"].items()}\<close> for a mapping, else \<open>{}\<close>.\<close>

definition aliases_of :: "(pyval, pyval) dict \<Rightarrow> pydict \<Rightarrow> pydict attempt" where
  "aliases_of key_to_name base =
     (case field_of base ''networks'' of
        VDict nets \<Rightarrow>
          bindR (mapR (\<lambda>(k, v). case dget key_to_name k of
              None \<Rightarrow> Inl Uncaught
            | Some n \<Rightarrow> bindR (hashable n) (\<lambda>_. Inr (n, if truthy v then v else VDict []))) nets) (\<lambda>ps. Inr (dict_of ps))
      | _ \<Rightarrow> Inr [])"

definition sorted_names :: "pydict \<Rightarrow> string list attempt" where
  "sorted_names nets = bindR (mapR as_text (keys nets)) (\<lambda>ns. Inr (sort ns))"

definition external_network :: "string \<Rightarrow> pyval \<times> pyval" where
  "external_network n = (VStr n, external_named (VStr n))"

definition projected_service :: "pydict \<Rightarrow> string \<Rightarrow> pydict \<Rightarrow> string list \<Rightarrow> pydict" where
  "projected_service base img aliases nets =
     vput ''networks''
       (VDict (map (\<lambda>n. (VStr n, case dget aliases (VStr n) of None \<Rightarrow> VDict [] | Some v \<Rightarrow> v)) nets))
       (vpop ''depends_on'' (vput ''image'' (VStr img) base))"

definition projection_doc :: "string \<Rightarrow> pyval \<Rightarrow> string list \<Rightarrow> pydict \<Rightarrow> pydict" where
  "projection_doc service svc nets volumes =
     [(VStr ''services'', VDict [(VStr service, svc)]), (VStr ''networks'', VDict (map external_network nets)),
      (VStr ''volumes'', VDict volumes)]"

definition service_of :: "pydict \<Rightarrow> string \<Rightarrow> pydict attempt" where
  "service_of effective service =
     bindR (section_of ''services'' effective) (\<lambda>svcs.
     case vget svcs service of None \<Rightarrow> Inl (Deferred R_ownership) | Some v \<Rightarrow> as_dict v)"

definition build_projection ::
  "(pyval \<Rightarrow> string) \<Rightarrow> (string \<Rightarrow> string) \<Rightarrow> pydict \<Rightarrow> string \<Rightarrow> pydict \<Rightarrow> string \<Rightarrow> string \<Rightarrow> pydict attempt" where
  "build_projection rep sha effective service inspect img project =
     bindR (service_of effective service) (\<lambda>svc0.
     bindR (to_runtime_literal rep sha svc0 inspect) (\<lambda>base.
     bindR (reject_namespaces base) (\<lambda>_.
     bindR (attached inspect) (\<lambda>inspected.
     bindR (resolved_networks rep base effective project) (\<lambda>key_to_name.
     bindR (mapR hashable (map snd key_to_name)) (\<lambda>_.
     bindR (ensure (same_names (map snd key_to_name) (keys inspected)) (Deferred R_ownership)) (\<lambda>_.
     bindR (mounts rep base effective project inspect) (\<lambda>volumes.
     bindR (aliases_of key_to_name base) (\<lambda>aliases.
     bindR (sorted_names inspected) (\<lambda>nets.
     Inr (projection_doc service (escape (VDict (projected_service base img aliases nets))) nets volumes)))))))))))"

section \<open>Reading the projection back\<close>

text \<open>Python's \<open>==\<close> on decoded documents: the order of mapping entries and the type of a number do not matter.\<close>

fun number_of :: "pyval \<Rightarrow> pyfloat option" where
  "number_of (VBool b) = Some (Fin (if b then 1 else 0))"
| "number_of (VInt n) = Some (Fin (of_int n))"
| "number_of (VFloat f) = (if f = NaN then None else Some f)"
| "number_of _ = None"

lemma size_zip_left [termination_simp]: "(a, b) \<in> set (zip xs ys) \<Longrightarrow> size a < Suc (size_list size xs)"
  using size_list_estimation' [of a xs "size a" size] by (auto dest: set_zip_leftD)

fun py_eq :: "pyval \<Rightarrow> pyval \<Rightarrow> bool" where
  "py_eq (VStr s) w = (w = VStr s)"
| "py_eq VNone w = (w = VNone)"
| "py_eq (VList vs) w =
     (case w of VList ws \<Rightarrow> length vs = length ws \<and> list_all (\<lambda>p. py_eq (fst p) (snd p)) (zip vs ws) | _ \<Rightarrow> False)"
| "py_eq (VDict d) w =
     (case w of
        VDict e \<Rightarrow> length d = length e
          \<and> list_all (\<lambda>p. case dget e (fst p) of None \<Rightarrow> False | Some x \<Rightarrow> py_eq (snd p) x) d
      | _ \<Rightarrow> False)"
| "py_eq v w = (number_of v \<noteq> None \<and> number_of v = number_of w)"

definition core :: "pydict \<Rightarrow> pydict" where
  "core svc = filter (\<lambda>p. fst p \<notin> {VStr ''image'', VStr ''depends_on'', VStr ''networks''}) svc"

definition projection_matches :: "pydict \<Rightarrow> pydict \<Rightarrow> bool" where
  "projection_matches baseline projected \<longleftrightarrow> py_eq (VDict (core baseline)) (VDict (core projected))"

definition verify_reading ::
  "(pyval \<Rightarrow> string) \<Rightarrow> (string \<Rightarrow> string) \<Rightarrow> pydict \<Rightarrow> string \<Rightarrow> pydict \<Rightarrow> string \<Rightarrow> string \<Rightarrow> pydict \<Rightarrow> unit attempt" where
  "verify_reading rep sha baseline service inspect img project again =
     bindR (section_of ''services'' again) (\<lambda>svcs.
     bindR (ensure (keys svcs = [VStr service]) (Deferred R_ownership)) (\<lambda>_.
     case vget svcs service of
       Some (VDict svc) \<Rightarrow>
         bindR (ensure (field_of svc ''image'' = VStr img \<and> \<not> truthy (field_of svc ''depends_on''))
                  (Deferred R_ownership)) (\<lambda>_.
         bindR (reject_namespaces svc) (\<lambda>_.
         bindR (to_runtime_literal rep sha svc inspect) (\<lambda>resolved.
         bindR (ensure (projection_matches baseline resolved) (Deferred R_ownership)) (\<lambda>_.
         bindR (resolved_networks rep resolved again project) (\<lambda>key_to_name.
         bindR (mapR hashable (map snd key_to_name)) (\<lambda>_.
         bindR (attached inspect) (\<lambda>inspected.
         bindR (ensure (same_names (map snd key_to_name) (keys inspected)) (Deferred R_ownership)) (\<lambda>_.
         bindR (mounts rep resolved again project inspect) (\<lambda>_. Inr ())))))))))
     | _ \<Rightarrow> Inl (Deferred R_ownership)))"

text \<open>\<open>effective["services"][service]\<close>.\<close>

definition service_at :: "pydict \<Rightarrow> string \<Rightarrow> pydict attempt" where
  "service_at effective service =
     bindR (as_dict (field_of effective ''services'')) (\<lambda>svcs. as_dict (field_of svcs service))"

definition verify_projection ::
  "(string list \<Rightarrow> 'b attempt) \<Rightarrow> ('b \<Rightarrow> pyval option) \<Rightarrow> (pyval \<Rightarrow> string) \<Rightarrow> (string \<Rightarrow> string) \<Rightarrow> pydict \<Rightarrow> string
   \<Rightarrow> pydict \<Rightarrow> string \<Rightarrow> string \<Rightarrow> string \<Rightarrow> string \<Rightarrow> unit attempt" where
  "verify_projection run yaml rep sha effective service inspect img project projection_path provider =
     bindR (service_at effective service) (\<lambda>svc0.
     bindR (to_runtime_literal rep sha svc0 inspect) (\<lambda>baseline.
     bindR (effective_config run yaml provider project projection_path) (\<lambda>again.
     verify_reading rep sha baseline service inspect img project again)))"


section \<open>Escaping and reading back\<close>

lemma map_strings_comp: "map_strings g (map_strings f v) = map_strings (g \<circ> f) v"
  by (induction f v rule: map_strings.induct) auto

lemma map_strings_id: "(\<And>s. f s = s) \<Longrightarrow> map_strings f v = v"
  by (induction f v rule: map_strings.induct) (auto intro: map_idI)

lemma unescape_escape [simp]: "unescape (escape v) = v"
  unfolding escape_def unescape_def map_strings_comp by (rule map_strings_id) simp

lemma strings_map_strings: "strings (map_strings f v) = map f (strings v)"
  by (induction f v rule: map_strings.induct) (auto simp: map_concat intro!: arg_cong [of _ _ concat])

lemma escape_id:
  assumes "\<not> list_ex (\<lambda>s. dollar \<in> set s) (strings v)"
  shows "escape v = v"
  using assms unfolding escape_def
  by (induction v rule: strings.induct) (auto simp: double_char_id list_ex_iff intro!: map_idI)

lemma double_dollar_fix: "double_char d s = s \<Longrightarrow> d \<notin> set s"
proof -
  have len: "length s + length (filter (\<lambda>c. c = d) s) = length (double_char d s)" for s
    by (induction s) auto
  assume "double_char d s = s"
  then have "filter (\<lambda>c. c = d) s = []"
    using len [of s] by simp
  then show ?thesis
    by (auto simp: filter_empty_conv)
qed

lemma escape_dict:
  "escape (VDict d) = VDict (map (\<lambda>p. (fst p, escape (snd p))) d)"
  by (simp add: escape_def)

lemma dget_map_values: "dget (map (\<lambda>p. (fst p, f (snd p))) d) k = map_option f (dget d k)"
  by (induction d) auto

lemma partition_double:
  "c \<noteq> d \<Longrightarrow> partition_at c (double_char d s) =
     (double_char d (fst (partition_at c s)), fst (snd (partition_at c s)), double_char d (snd (snd (partition_at c s))))"
  by (induction s) (auto simp: partition_at_def Let_def)

text \<open>An environment given as texts: a mapping to texts, or a list of \<open>KEY=VALUE\<close> with a plain key.\<close>

fun text_entry :: "pyval \<Rightarrow> bool" where
  "text_entry (VStr s) = (dollar \<notin> set (takeWhile (\<lambda>c. c \<noteq> CHR ''='') s))"
| "text_entry _ = False"

fun environment_text :: "pyval \<Rightarrow> bool" where
  "environment_text (VDict d) = list_all (\<lambda>p. is_str (snd p) \<or> snd p = VNone) d"
| "environment_text (VList vs) = list_all text_entry vs"
| "environment_text v = (v = VNone)"

abbreviation double_values :: "(pyval, string) dict \<Rightarrow> (pyval, string) dict" where
  "double_values E \<equiv> map (\<lambda>p. (fst p, double_char dollar (snd p))) E"

lemma dput_double_values: "dput k (double_char dollar v) (double_values d) = double_values (dput k v d)"
  by (induction d) auto

lemma dict_of_double_values: "dict_of (double_values ps) = double_values (dict_of ps)"
  by (induction ps rule: rev_induct) (simp_all add: dict_of_snoc dput_double_values dict_of_def [of "[]"])

lemma env_pair_double:
  "dollar \<notin> set (takeWhile (\<lambda>c. c \<noteq> CHR ''='') s) \<Longrightarrow>
   env_pair (double_char dollar s) = (fst (env_pair s), double_char dollar (snd (env_pair s)))"
  unfolding env_pair_def by (subst partition_double) (auto simp: partition_at_def Let_def double_char_id)

lemma env_dict_list: "env_dict rep (VList vs) = Inr (dict_of (map (\<lambda>i. env_pair (str_of rep i)) vs))"
  by (simp add: env_dict_def falsy_or_items_def dict_of_def)

lemma env_dict_escape:
  assumes "environment_text env" "env_dict rep env = Inr E"
  shows "env_dict rep (escape env) = Inr (double_values E)"
proof (cases env)
  case (VDict d)
  then have "E = map (\<lambda>p. (fst p, env_text rep (snd p))) d"
    using assms(2) by (simp add: env_dict_def)
  moreover have "env_text rep (escape v) = double_char dollar (env_text rep v)" if "is_str v \<or> v = VNone" for v
    using that by (cases v) (auto simp: escape_def env_text_def)
  ultimately show ?thesis
    using VDict assms(1) by (auto simp: env_dict_def escape_dict list_all_iff)
next
  case (VList vs)
  then have E: "E = dict_of (map (\<lambda>i. env_pair (str_of rep i)) vs)"
    using assms(2) by (simp add: env_dict_list)
  have "env_pair (str_of rep (escape i)) = (fst (env_pair (str_of rep i)), double_char dollar (snd (env_pair (str_of rep i))))"
    if "i \<in> set vs" for i
  proof -
    have entry: "text_entry i"
      using that assms(1) VList by (simp add: list_all_iff)
    obtain s where "i = VStr s" "dollar \<notin> set (takeWhile (\<lambda>c. c \<noteq> CHR ''='') s)"
      using entry by (cases i) auto
    then show ?thesis
      using env_pair_double [of s] by (simp add: escape_def)
  qed
  then have eq: "map (\<lambda>i. env_pair (str_of rep (escape i))) vs = double_values (map (\<lambda>i. env_pair (str_of rep i)) vs)"
    by simp
  have "env_dict rep (escape env) = Inr (dict_of (map (\<lambda>i. env_pair (str_of rep (escape i))) vs))"
    by (simp add: VList escape_def env_dict_list comp_def)
  then show ?thesis
    by (simp only: E eq dict_of_double_values)
qed (use assms in \<open>auto simp: env_dict_def escape_def falsy_or_items_def dict_of_def\<close>)


section \<open>Recovering the literal form\<close>

text \<open>
  What makes the form recognisable: a drifted value is not mistaken, by its digest, for a
  form of a running value with a dollar, and some undrifted value has a dollar unless nothing in the
  service has one.
\<close>

definition drift_visible :: "(string \<Rightarrow> string) \<Rightarrow> (pyval, string) dict \<Rightarrow> pyval \<times> string \<Rightarrow> bool" where
  "drift_visible sha running p \<longleftrightarrow>
     (case dget running (fst p) of
        None \<Rightarrow> True
      | Some a \<Rightarrow> dollar \<notin> set a \<or> snd p = a
          \<or> (sha (snd p) \<notin> {sha a, sha (double_char dollar a)}
             \<and> sha (double_char dollar (snd p)) \<notin> {sha a, sha (double_char dollar a)}))"

definition shows_form :: "(pyval, string) dict \<Rightarrow> pyval \<times> string \<Rightarrow> bool" where
  "shows_form running p \<longleftrightarrow> dget running (fst p) = Some (snd p) \<and> dollar \<in> set (snd p)"

definition form_decided ::
  "(string \<Rightarrow> string) \<Rightarrow> (pyval, string) dict \<Rightarrow> (pyval, string) dict \<Rightarrow> pyval \<Rightarrow> bool" where
  "form_decided sha running env svc \<longleftrightarrow>
     list_all (drift_visible sha running) env
     \<and> (list_ex (shows_form running) env \<or> \<not> list_ex (\<lambda>s. dollar \<in> set s) (strings svc))"

lemma form_of_literal:
  assumes "drift_visible sha running p"
  shows "form_of sha running p = (if shows_form running p then [Plain_form] else [])"
  using assms by (cases "dget running (fst p)")
    (auto simp: form_of_def Let_def same_value_def drift_visible_def shows_form_def)

lemma form_of_escaped:
  assumes "drift_visible sha running p"
  shows "form_of sha running (fst p, double_char dollar (snd p)) = (if shows_form running p then [Escaped_form] else [])"
  using assms double_dollar_fix [of dollar "snd p"] by (cases "dget running (fst p)")
    (auto simp: form_of_def Let_def same_value_def drift_visible_def shows_form_def)

lemma forms_literal:
  assumes "list_all (drift_visible sha running) env"
  shows "set (concat (map (form_of sha running) env)) = (if list_ex (shows_form running) env then {Plain_form} else {})"
  using assms by (induction env) (auto simp: form_of_literal)

lemma forms_escaped:
  assumes "list_all (drift_visible sha running) env"
  shows "set (concat (map (form_of sha running) (double_values env)))
     = (if list_ex (shows_form running) env then {Escaped_form} else {})"
  using assms by (induction env) (auto simp: form_of_escaped)

lemma field_of_map: "field_of (map (\<lambda>p. (fst p, escape (snd p))) d) k = escape (field_of d k)"
  by (simp add: field_of_def vget_or_def vget_def dget_map_values escape_def split: option.split)

lemma to_runtime_literal_forms:
  assumes "running_env rep inspect = Inr running" "env_dict rep (field_of svc ''environment'') = Inr env"
    "set (concat (map (form_of sha running) env)) = F"
  shows "to_runtime_literal rep sha svc inspect =
    (if Plain_form \<in> F \<and> Escaped_form \<in> F then Inl (Deferred R_input)
     else if Escaped_form \<in> F then as_dict (unescape (VDict svc))
     else if F = {} \<and> list_ex (\<lambda>s. dollar \<in> set s) (strings (VDict svc)) then Inl (Deferred R_input)
     else Inr svc)"
proof -
  have "concat (map (form_of sha running) env) = [] \<longleftrightarrow> F = {}"
    using assms(3) by (metis set_empty)
  then show ?thesis
    using assms by (simp add: to_runtime_literal_def Let_def del: set_concat concat_eq_Nil_conv set_map)
qed

lemma literal_of_literal:
  assumes "running_env rep inspect = Inr running" "env_dict rep (field_of svc ''environment'') = Inr env"
    "form_decided sha running env (VDict svc)"
  shows "to_runtime_literal rep sha svc inspect = Inr svc"
proof -
  from assms(3) have vis: "list_all (drift_visible sha running) env"
    by (simp add: form_decided_def)
  show ?thesis
    using assms(3) unfolding to_runtime_literal_forms [OF assms(1,2) forms_literal [OF vis]] form_decided_def
    by (cases "list_ex (shows_form running) env") (simp_all del: strings.simps)
qed

lemma literal_of_escaped:
  assumes "running_env rep inspect = Inr running" "env_dict rep (field_of svc ''environment'') = Inr env"
    "environment_text (field_of svc ''environment'')" "form_decided sha running env (VDict svc)"
    "escape (VDict svc) = VDict svc'"
  shows "to_runtime_literal rep sha svc' inspect = Inr svc"
proof (cases "list_ex (shows_form running) env")
  case True
  have svc': "svc' = map (\<lambda>p. (fst p, escape (snd p))) svc"
    using assms(5) by (simp add: escape_dict)
  have env': "env_dict rep (field_of svc' ''environment'') = Inr (double_values env)"
    unfolding svc' field_of_map by (rule env_dict_escape [OF assms(3,2)])
  have "unescape (VDict svc') = VDict svc"
    by (simp flip: assms(5))
  moreover have vis: "list_all (drift_visible sha running) env"
    using assms(4) by (simp add: form_decided_def)
  ultimately show ?thesis
    using True unfolding to_runtime_literal_forms [OF assms(1) env' forms_escaped [OF vis]] by simp
next
  case False
  then have "\<not> list_ex (\<lambda>s. dollar \<in> set s) (strings (VDict svc))"
    using assms(4) by (simp add: form_decided_def del: strings.simps)
  then have "svc' = svc"
    using escape_id assms(5) by simp
  then show ?thesis
    using literal_of_literal [OF assms(1,2,4)] by simp
qed


section \<open>The projection verifies\<close>

text \<open>Documents without a not-a-number and with distinct mapping keys are equal to themselves.\<close>

fun proper :: "pyval \<Rightarrow> bool" where
  "proper (VFloat f) = (f \<noteq> NaN)"
| "proper (VDict d) = (distinct (keys d) \<and> list_all (\<lambda>p. proper (snd p)) d)"
| "proper (VList vs) = list_all proper vs"
| "proper _ = True"

lemma py_eq_refl: "proper v \<Longrightarrow> py_eq v v"
proof (induction v rule: proper.induct)
  case (2 d)
  have "case dget d (fst p) of None \<Rightarrow> False | Some x \<Rightarrow> py_eq (snd p) x" if "p \<in> set d" for p
  proof -
    have found: "dget d (fst p) = Some (snd p)"
      using 2 that by (simp add: map_of_is_SomeI)
    show ?thesis
      unfolding found using 2 that by (simp add: list_all_iff)
  qed
  then show ?case
    by (simp add: list_all_iff)
next
  case (3 vs)
  then show ?case
    by (auto simp: list_all_iff zip_same)
qed auto

lemma core_vput: "k \<in> {''image'', ''depends_on'', ''networks''} \<Longrightarrow> core (vput k v d) = core d"
  unfolding vput_def by (induction d) (auto simp: core_def)

lemma core_vpop: "k \<in> {''image'', ''depends_on'', ''networks''} \<Longrightarrow> core (vpop k d) = core d"
  unfolding vpop_def ddel_def core_def filter_filter by (rule filter_cong) auto

lemma core_projected [simp]: "core (projected_service base img aliases nets) = core base"
  by (simp add: projected_service_def core_vput core_vpop)

lemma proper_filter: "proper (VDict d) \<Longrightarrow> proper (VDict (filter P d))"
  by (auto simp: list_all_iff distinct_map_filter)

lemma projection_matches_projected:
  assumes "proper (VDict base)"
  shows "projection_matches base (projected_service base img aliases nets)"
proof -
  have "proper (VDict (core base))"
    unfolding core_def by (rule proper_filter [OF assms])
  from py_eq_refl [OF this] show ?thesis
    unfolding projection_matches_def core_projected .
qed

lemma field_projected:
  "k \<notin> {''image'', ''depends_on'', ''networks''} \<Longrightarrow>
     field_of (projected_service base img aliases nets) k = field_of base k"
  "field_of (projected_service base img aliases nets) ''image'' = VStr img"
  "field_of (projected_service base img aliases nets) ''depends_on'' = VNone"
  by (auto simp: projected_service_def field_of_def vget_or_def)

lemma has_key_projected:
  "list_ex (has_key (projected_service base img aliases nets)) NAMESPACE_KEYS = list_ex (has_key base) NAMESPACE_KEYS"
  by (auto simp: NAMESPACE_KEYS_def projected_service_def)

lemma hashable_iff [simp]: "hashable v = Inr w \<longleftrightarrow> w = v \<and> \<not> is_list v \<and> \<not> is_dict v"
  by (auto simp: hashable_def)

lemma real_name_truthy: "real_name rep project table k = Inr n \<Longrightarrow> truthy n"
  by (auto simp: real_name_def Let_def split: if_splits)

lemma real_name_external:
  assumes "dget table k = Some (external_named n)"
    "truthy n" "\<not> is_list k" "\<not> is_dict k"
  shows "real_name rep project table k = Inr n"
  using assms
  by (simp add: real_name_def external_named_def hashable_def dict_or_empty_def field_of_def vget_or_def vget_def Let_def)

text \<open>The networks of the projection are read back as the running ones.\<close>

lemma networks_read_back:
  assumes nets: "nets \<noteq> []" "\<forall>n \<in> set nets. n \<noteq> []"
    and svc: "\<exists>f. field_of svc ''networks'' = VDict (map (\<lambda>n. (VStr n, f n)) nets)"
    and again: "field_of again ''networks'' = VDict (map external_network nets)"
  shows "resolved_networks rep svc again project = Inr (dict_of (map (\<lambda>n. (VStr n, VStr n)) nets))"
proof -
  have table: "section_of ''networks'' again = Inr (map external_network nets)"
    by (auto simp: section_of_def again dict_or_empty_def nets)
  have items: "(if truthy (field_of svc ''networks'') then items_of (field_of svc ''networks'') else Inr [VStr ''default''])
      = Inr (map VStr nets)"
    using svc nets by (auto simp: comp_def)
  have lookup: "dget (map external_network nets) (VStr n) = Some (external_named (VStr n))" if "n \<in> set nets" for n
    using that by (induction nets) (auto simp: external_network_def)
  have "real_name rep project (map external_network nets) (VStr n) = Inr (VStr n)" if "n \<in> set nets" for n
    using lookup [OF that] nets(2) that by (intro real_name_external) auto
  then have "mapR (\<lambda>k. bindR (real_name rep project (map external_network nets) k) (\<lambda>n. Inr (k, n))) (map VStr nets)
      = Inr (map (\<lambda>k. (k, k)) (map VStr nets))"
    by (intro mapR_map) auto
  then show ?thesis
    unfolding resolved_networks_def table items by (simp add: comp_def)
qed


text \<open>The volumes of the projection are read back with the same real names.\<close>

lemma put_mounts_lookup:
  assumes "Some (source, r) \<in> set ms" "\<And>r'. Some (source, r') \<in> set ms \<Longrightarrow> r' = r"
  shows "dget (foldl put_mount out ms) (VStr source) = Some (external_named r)"
  using assms
proof (induction ms rule: rev_induct)
  case (snoc m ms)
  show ?case
  proof (cases "\<exists>r'. m = Some (source, r')")
    case True
    then obtain r' where m: "m = Some (source, r')"
      by blast
    have "r' = r"
      by (rule snoc.prems(2)) (simp add: m)
    then show ?thesis
      by (simp add: m vput_def)
  next
    case False
    then have "Some (source, r) \<in> set ms"
      using snoc.prems(1) by auto
    moreover have "\<And>r'. Some (source, r') \<in> set ms \<Longrightarrow> r' = r"
      by (rule snoc.prems(2)) simp
    ultimately have "dget (foldl put_mount out ms) (VStr source) = Some (external_named r)"
      by (rule snoc.IH)
    moreover have "dget (put_mount d m) (VStr source) = dget d (VStr source)" for d
      using False by (cases "(d, m)" rule: put_mount.cases) (auto simp: vput_def)
    ultimately show ?thesis
      by simp
  qed
qed simp

lemma list_all2_set_mem: "list_all2 P xs ys \<Longrightarrow> list_all2 (\<lambda>x y. P x y \<and> y \<in> set ys) xs ys"
  by (auto simp: list_all2_conv_all_nth)

lemma mount_entry_Some:
  assumes "mount_entry rep project vols binds effective e = Inr (Some (source, r))"
  shows "\<exists>table. section_of ''volumes'' effective = Inr table \<and> real_name rep project table (VStr source) = Inr r"
  using assms by (auto simp: mount_entry_def split: if_splits)

lemma mount_entry_again:
  assumes "mount_entry rep project vols binds effective e = Inr m"
    and "\<And>source r. m = Some (source, r) \<Longrightarrow>
      \<exists>table. section_of ''volumes'' again = Inr table \<and> dget table (VStr source) = Some (external_named r)"
  shows "mount_entry rep project vols binds again e = Inr m"
proof (cases m)
  case None
  then show ?thesis
    using assms(1) by (auto simp: mount_entry_def split: if_splits)
next
  case (Some p)
  obtain source r where p: "p = (source, r)"
    by (cases p)
  obtain table where t: "section_of ''volumes'' again = Inr table" "dget table (VStr source) = Some (external_named r)"
    using assms(2) Some p by blast
  obtain table0 where "real_name rep project table0 (VStr source) = Inr r"
    using mount_entry_Some assms(1) Some p by blast
  then have "real_name rep project table (VStr source) = Inr r"
    using real_name_external [OF t(2)] real_name_truthy by simp
  then show ?thesis
    using assms(1) Some p t(1) by (auto simp: mount_entry_def split: if_splits)
qed

lemma mounts_read_back:
  assumes first: "mounts rep svc effective project inspect = Inr volumes"
    and same: "field_of svc' ''volumes'' = field_of svc ''volumes''"
    and again: "field_of again ''volumes'' = VDict volumes"
  shows "mounts rep svc' again project inspect = Inr volumes"
proof -
  from first obtain ms vols binds entries found where
    m: "mount_docs inspect = Inr ms" "mapR volume_name (mounted ''volume'' ms) = Inr vols"
      "mapR (\<lambda>m. hashable (field_of m ''Source'')) (mounted ''bind'' ms) = Inr binds"
      "falsy_or_items (field_of svc ''volumes'') = Inr entries"
    and found: "mapR (mount_entry rep project vols binds effective) entries = Inr found"
    and volumes: "volumes = foldl put_mount [] found"
    unfolding mounts_def by auto
  have table: "section_of ''volumes'' again = Inr volumes"
    by (simp add: section_of_def again dict_or_empty_def)
  have source: "\<exists>e. mount_entry rep project vols binds effective e = Inr m" if "m \<in> set found" for m
    using mapR_member [OF found that] by blast
  have lookup: "dget volumes (VStr source) = Some (external_named r)" if "Some (source, r) \<in> set found" for source r
    unfolding volumes
  proof (rule put_mounts_lookup [OF that])
    fix r'
    assume "Some (source, r') \<in> set found"
    then show "r' = r"
      using source that mount_entry_Some by (metis Inr_inject)
  qed
  have "mapR (mount_entry rep project vols binds again) entries = Inr found"
    unfolding mapR_Inr_iff
  proof (rule list_all2_mono [OF found [unfolded mapR_Inr_iff, THEN list_all2_set_mem]])
    fix e m
    assume "mount_entry rep project vols binds effective e = Inr m \<and> m \<in> set found"
    then show "mount_entry rep project vols binds again e = Inr m"
      using mount_entry_again table lookup by blast
  qed
  then show ?thesis
    unfolding mounts_def same m bindR_Inr volumes by simp
qed


lemma projection_doc_fields:
  "field_of (projection_doc service v nets volumes) ''services'' = VDict [(VStr service, v)]"
  "field_of (projection_doc service v nets volumes) ''networks'' = VDict (map external_network nets)"
  "field_of (projection_doc service v nets volumes) ''volumes'' = VDict volumes"
  by (simp_all add: projection_doc_def field_of_def vget_or_def vget_def)

lemma build_projection_Inr:
  assumes "build_projection rep sha effective service inspect img project = Inr proj"
  shows "\<exists>svc0 base inspected key_to_name volumes aliases nets.
     service_of effective service = Inr svc0 \<and> to_runtime_literal rep sha svc0 inspect = Inr base
     \<and> reject_namespaces base = Inr () \<and> attached inspect = Inr inspected
     \<and> resolved_networks rep base effective project = Inr key_to_name
     \<and> same_names (map snd key_to_name) (keys inspected) \<and> mounts rep base effective project inspect = Inr volumes
     \<and> sorted_names inspected = Inr nets
     \<and> proj = projection_doc service (escape (VDict (projected_service base img aliases nets))) nets volumes"
  using assms unfolding build_projection_def bindR_eq_Inr ensure_eq_Inr by (auto simp del: hashable_iff)

lemma sorted_names_set: "sorted_names nets = Inr ns \<Longrightarrow> set (keys nets) = VStr ` set ns"
proof -
  assume "sorted_names nets = Inr ns"
  then obtain ks where ks: "mapR as_text (keys nets) = Inr ks" "ns = sort ks"
    by (auto simp: sorted_names_def)
  have "as_text v = Inr t \<longleftrightarrow> v = VStr t" for v t
    by (cases v) auto
  then have "keys nets = map VStr ks"
    using ks(1) by (simp add: mapR_Inr_iff list_all2_conv_all_nth list_eq_iff_nth_eq)
  then show ?thesis
    using ks(2) by simp
qed

lemma resolved_names_truthy:
  assumes "resolved_networks rep svc effective project = Inr ps" "n \<in> set (map snd ps)"
  shows "truthy n"
proof -
  obtain table ks qs where q: "mapR (\<lambda>k. bindR (real_name rep project table k) (\<lambda>n. Inr (k, n))) ks = Inr qs"
      and ps: "ps = dict_of qs"
    using assms(1) unfolding resolved_networks_def by auto
  have "truthy (snd p)" if "p \<in> set qs" for p
    using mapR_member [OF q that] by (auto dest: real_name_truthy)
  moreover have "\<exists>k. dget (dict_of qs) k = Some n"
    using assms(2) ps distinct_dict_of [of qs] by (auto intro: map_of_is_SomeI)
  ultimately show ?thesis
    by (auto simp: dget_dict_of dest!: map_of_SomeD)
qed

lemma resolved_networks_nonempty:
  assumes "resolved_networks rep svc effective project = Inr ps"
  shows "ps \<noteq> []"
proof -
  obtain table ks qs where ks: "(if truthy (field_of svc ''networks'') then items_of (field_of svc ''networks'')
        else Inr [VStr ''default'']) = Inr ks"
      and q: "mapR (\<lambda>k. bindR (real_name rep project table k) (\<lambda>n. Inr (k, n))) ks = Inr qs"
      and ps: "ps = dict_of qs"
    using assms unfolding resolved_networks_def by auto
  have "ks \<noteq> []"
    using ks by (cases "field_of svc ''networks''") (auto split: if_splits)
  then have "set qs \<noteq> {}"
    using mapR_length [OF q] by auto
  then have "fst ` set ps \<noteq> {}"
    unfolding ps set_keys_dict_of by simp
  then show ?thesis
    by auto
qed

lemma verify_reading_ok:
  assumes "field_of again ''services'' = VDict [(VStr service, VDict svcX)]"
    "field_of svcX ''image'' = VStr img" "\<not> truthy (field_of svcX ''depends_on'')" "reject_namespaces svcX = Inr ()"
    "to_runtime_literal rep sha svcX inspect = Inr svc" "projection_matches base svc"
    "resolved_networks rep svc again project = Inr ps" "attached inspect = Inr inspected"
    "\<forall>n \<in> set (map snd ps). \<not> is_list n \<and> \<not> is_dict n"
    "same_names (map snd ps) (keys inspected)" "mounts rep svc again project inspect = Inr volumes"
  shows "verify_reading rep sha base service inspect img project again = Inr ()"
proof -
  have "section_of ''services'' again = Inr [(VStr service, VDict svcX)]"
    by (simp add: section_of_def assms(1) dict_or_empty_def)
  moreover have "mapR hashable (map snd ps) = Inr (map id (map snd ps))"
    by (rule mapR_map) (use assms(9) in auto)
  ultimately show ?thesis
    using assms by (simp add: verify_reading_def vget_def del: set_map)
qed


lemma names_read_back:
  assumes "set (keys inspected) = VStr ` set nets"
  shows "same_names (map snd (dict_of (map (\<lambda>n. (VStr n, VStr n)) nets))) (keys inspected)"
    "\<forall>v \<in> set (map snd (dict_of (map (\<lambda>n. (VStr n, VStr n)) nets))). \<not> is_list v \<and> \<not> is_dict v"
proof -
  define d where "d = dict_of (map (\<lambda>n. (VStr n, VStr n)) nets)"
  have same: "snd p = fst p" if "p \<in> set d" for p
  proof -
    have "dget d (fst p) = Some (snd p)"
      using that distinct_dict_of unfolding d_def by (metis map_of_is_SomeI prod.collapse)
    then have "(fst p, snd p) \<in> set (rev (map (\<lambda>n. (VStr n, VStr n)) nets))"
      unfolding d_def dget_dict_of by (rule map_of_SomeD)
    then show ?thesis
      by auto
  qed
  have "snd ` set d = fst ` set d"
    by (rule image_cong [OF refl same])
  also have "\<dots> = VStr ` set nets"
    unfolding d_def set_keys_dict_of by (simp add: image_image)
  finally have vals: "set (map snd d) = VStr ` set nets"
    by simp
  show "same_names (map snd (dict_of (map (\<lambda>n. (VStr n, VStr n)) nets))) (keys inspected)"
    unfolding d_def [symmetric] same_names_def vals assms ..
  show "\<forall>v \<in> set (map snd (dict_of (map (\<lambda>n. (VStr n, VStr n)) nets))). \<not> is_list v \<and> \<not> is_dict v"
    unfolding d_def [symmetric] vals by auto
qed

lemma attached_names:
  assumes "resolved_networks rep base effective project = Inr ps" "same_names (map snd ps) (keys inspected)"
    "set (keys inspected) = VStr ` set nets"
  shows "nets \<noteq> []" "\<forall>n \<in> set nets. n \<noteq> []"
proof -
  have names: "set (map snd ps) = VStr ` set nets"
    using assms(2,3) by (simp add: same_names_def del: set_map)
  then show "nets \<noteq> []"
    using resolved_networks_nonempty [OF assms(1)] by auto
  show "\<forall>n \<in> set nets. n \<noteq> []"
  proof
    fix n
    assume "n \<in> set nets"
    then have "VStr n \<in> set (map snd ps)"
      unfolding names by simp
    then show "n \<noteq> []"
      using resolved_names_truthy [OF assms(1)] by fastforce
  qed
qed

lemma service_at_of: "service_of effective service = Inr d \<Longrightarrow> service_at effective service = Inr d"
proof -
  assume "service_of effective service = Inr d"
  then obtain svcs v where s: "section_of ''services'' effective = Inr svcs" "vget svcs service = Some v" "as_dict v = Inr d"
    by (auto simp: service_of_def split: option.splits)
  have "as_dict (field_of effective ''services'') = Inr svcs"
    using s(1,2) by (auto simp: section_of_def dict_or_empty_def vget_def split: if_splits)
  then show ?thesis
    using s(2,3) by (simp add: service_at_def field_of_def vget_or_def)
qed

lemma map_external_inj: "map external_network ns = map external_network ms \<Longrightarrow> ns = ms"
  by (rule map_injective [of external_network]) (auto simp: external_network_def inj_def)

lemma has_key_map_values: "has_key (map (\<lambda>p. (fst p, f (snd p))) d) k = has_key d k"
  by (simp add: has_key_def vget_def dget_map_values)

text \<open>What the provider's reading of the projected service shows, in either form.\<close>

lemma projected_reading:
  assumes "X = projected_service base img aliases nets \<or> escape (VDict (projected_service base img aliases nets)) = VDict X"
    and "dollar \<notin> set img" and "reject_namespaces base = Inr ()"
  shows "field_of X ''image'' = VStr img" "\<not> truthy (field_of X ''depends_on'')" "reject_namespaces X = Inr ()"
proof -
  let ?svc = "projected_service base img aliases nets"
  have ns: "reject_namespaces ?svc = Inr ()"
    using assms(3) by (simp add: reject_namespaces_def has_key_projected)
  have X: "X = ?svc \<or> X = map (\<lambda>p. (fst p, escape (snd p))) ?svc"
    using assms(1) by (auto simp: escape_dict)
  have esc: "escape (VStr img) = VStr img" "escape VNone = VNone"
    using assms(2) by (simp_all add: escape_def double_char_id)
  show "field_of X ''image'' = VStr img" "\<not> truthy (field_of X ''depends_on'')"
    using X by (auto simp: field_of_map field_projected esc)
  show "reject_namespaces X = Inr ()"
    using X ns by (auto simp: reject_namespaces_def has_key_map_values NAMESPACE_KEYS_def)
qed

text \<open>
  C23: a projection that was built passes its own verification: whether the provider prints
  the projected service with dollars escaped or literally, the reading is recognised, equals the
  effective service outside image, dependencies and networks, and resolves to the running networks
  and volumes. The hypotheses ask that the dollar form can be told from the environment
  (\<open>form_decided\<close>), that environments are texts and that no value is a not-a-number.
\<close>

theorem projection_verifies:
  assumes built: "build_projection rep sha effective service inspect img project = Inr proj"
    and shape: "proj = projection_doc service (escape (VDict svc)) nets volumes"
    and reading: "effective_config run yaml provider project path = Inr again"
      "again = proj \<or> again = projection_doc service (VDict svc) nets volumes"
    and literal: "bindR (service_at effective service) (\<lambda>d. to_runtime_literal rep sha d inspect) = Inr base"
      "proper (VDict base)" "dollar \<notin> set img"
    and form: "running_env rep inspect = Inr running" "env_dict rep (field_of svc ''environment'') = Inr env"
      "environment_text (field_of svc ''environment'')" "form_decided sha running env (VDict svc)"
  shows "verify_projection run yaml rep sha effective service inspect img project path provider = Inr ()"
proof -
  from build_projection_Inr [OF built] obtain svc0 base0 inspected key_to_name volumes0 aliases nets0 where
    b: "service_of effective service = Inr svc0" "to_runtime_literal rep sha svc0 inspect = Inr base0"
      "reject_namespaces base0 = Inr ()" "attached inspect = Inr inspected"
      "resolved_networks rep base0 effective project = Inr key_to_name"
      "same_names (map snd key_to_name) (keys inspected)" "mounts rep base0 effective project inspect = Inr volumes0"
      "sorted_names inspected = Inr nets0"
    and proj: "proj = projection_doc service (escape (VDict (projected_service base0 img aliases nets0))) nets0 volumes0"
    by blast
  have services: "VDict svc = VDict (projected_service base0 img aliases nets0)" and nets: "map external_network nets = map external_network nets0"
    and volumes: "volumes = volumes0"
    using arg_cong [OF trans [OF shape [symmetric] proj], of "\<lambda>p. field_of p ''services''"]
      arg_cong [OF trans [OF shape [symmetric] proj], of "\<lambda>p. field_of p ''networks''"]
      arg_cong [OF trans [OF shape [symmetric] proj], of "\<lambda>p. field_of p ''volumes''"]
    unfolding projection_doc_fields by (auto dest: arg_cong [of _ _ unescape])
  have svc: "svc = projected_service base0 img aliases nets0"
    using services by simp
  have base: "base = base0" "service_at effective service = Inr svc0"
    using service_at_of [OF b(1)] b(2) literal(1) by auto
  have nets_eq: "nets = nets0"
    using nets by (rule map_external_inj)
  have inspected: "set (keys inspected) = VStr ` set nets"
    using sorted_names_set [OF b(8)] nets_eq by simp
  note nonempty = attached_names [OF b(5,6) inspected]
  obtain svcX where X: "field_of again ''services'' = VDict [(VStr service, VDict svcX)]"
      "svcX = svc \<or> escape (VDict svc) = VDict svcX" "field_of again ''networks'' = VDict (map external_network nets)"
      "field_of again ''volumes'' = VDict volumes"
    using reading(2) shape by (auto simp: projection_doc_fields escape_dict)
  note read_fields = projected_reading [OF X(2) [unfolded svc] literal(3) b(3)]
  have lit: "to_runtime_literal rep sha svcX inspect = Inr svc"
    using X(2) literal_of_literal [OF form(1,2,4)] literal_of_escaped [OF form] by blast
  have networks: "resolved_networks rep svc again project = Inr (dict_of (map (\<lambda>n. (VStr n, VStr n)) nets))"
    by (rule networks_read_back [OF nonempty _ X(3)]) (auto simp: svc nets_eq projected_service_def field_of_def vget_or_def)
  have "mounts rep svc again project inspect = Inr volumes0"
    by (rule mounts_read_back [OF b(7) _ X(4) [unfolded volumes]]) (simp add: svc field_projected)
  moreover have "projection_matches base svc"
    unfolding svc base(1) by (rule projection_matches_projected [OF literal(2) [unfolded base(1)]])
  ultimately have "verify_reading rep sha base service inspect img project again = Inr ()"
    using verify_reading_ok [OF X(1) read_fields lit _ networks b(4) names_read_back(2) [OF inspected]
        names_read_back(1) [OF inspected]]
    by blast
  then show ?thesis
    using base b(2) reading(1) by (simp add: verify_projection_def)
qed


text \<open>A service with a dollar in a password, a named volume, a bind mount and one network.\<close>

definition sample_service :: pydict where
  "sample_service =
     [(VStr ''image'', VStr ''x/y:latest''), (VStr ''depends_on'', VList [VStr ''db'']),
      (VStr ''environment'', VDict [(VStr ''PASSWORD'', VStr ''p$w''), (VStr ''MODE'', VStr ''a'')]),
      (VStr ''volumes'', VList [VStr ''data:/d'', VStr ''/etc/x:/y'']),
      (VStr ''networks'', VDict [(VStr ''net'', VNone)])]"

definition sample_effective :: pydict where
  "sample_effective =
     [(VStr ''services'', VDict [(VStr ''omniroute'', VDict sample_service)]),
      (VStr ''networks'', VDict [(VStr ''net'', VDict [(VStr ''name'', VStr ''real'')])])]"

definition sample_inspect :: pydict where
  "sample_inspect =
     [(VStr ''Config'', VDict [(VStr ''Env'', VList [VStr ''PASSWORD=p$w'', VStr ''MODE=b''])]),
      (VStr ''NetworkSettings'', VDict [(VStr ''Networks'', VDict [(VStr ''real'', VDict [])])]),
      (VStr ''Mounts'', VList [VDict [(VStr ''Type'', VStr ''volume''), (VStr ''Name'', VStr ''llm_data'')],
         VDict [(VStr ''Type'', VStr ''bind''), (VStr ''Source'', VStr ''/etc/x'')]])]"

definition sample_rep :: "pyval \<Rightarrow> string" where "sample_rep v = []"
definition sample_sha :: "string \<Rightarrow> string" where "sample_sha s = s"

definition sample_projected :: pydict where
  "sample_projected = projected_service sample_service ''x/y@d'' [(VStr ''real'', VDict [])] [''real'']"

definition sample_volumes :: pydict where
  "sample_volumes = [(VStr ''data'', external_named (VStr ''llm_data''))]"

definition sample_projection :: pydict where
  "sample_projection =
     projection_doc ''omniroute'' (escape (VDict sample_projected)) [''real''] sample_volumes"

definition sample_run :: "string list \<Rightarrow> unit attempt" where "sample_run argv = Inr ()"

definition sample_yaml :: "unit \<Rightarrow> pyval option" where "sample_yaml u = Some (VDict sample_projection)"

definition sample_running :: "(pyval, string) dict" where
  "sample_running = [(VStr ''PASSWORD'', ''p$w''), (VStr ''MODE'', ''b'')]"

definition sample_env :: "(pyval, string) dict" where
  "sample_env = [(VStr ''PASSWORD'', ''p$w''), (VStr ''MODE'', ''a'')]"

lemma sample_built:
  "build_projection sample_rep sample_sha sample_effective ''omniroute'' sample_inspect ''x/y@d'' ''llm'' = Inr sample_projection"
  by code_simp

lemma sample_read: "effective_config sample_run sample_yaml ''podman-compose'' ''llm'' ''/p'' = Inr sample_projection"
  by code_simp

lemma sample_literal:
  "bindR (service_at sample_effective ''omniroute'') (\<lambda>d. to_runtime_literal sample_rep sample_sha d sample_inspect)
   = Inr sample_service"
  by code_simp

lemma sample_facts:
  "proper (VDict sample_service)" "dollar \<notin> set ''x/y@d''" "running_env sample_rep sample_inspect = Inr sample_running"
  "env_dict sample_rep (field_of sample_projected ''environment'') = Inr sample_env"
  "environment_text (field_of sample_projected ''environment'')"
  "form_decided sample_sha sample_running sample_env (VDict sample_projected)"
  by code_simp+

theorem projection_verifies_witness:
  "verify_projection sample_run sample_yaml sample_rep sample_sha sample_effective ''omniroute'' sample_inspect
     ''x/y@d'' ''llm'' ''/p'' ''podman-compose'' = Inr ()"
  by (rule projection_verifies [OF sample_built sample_projection_def sample_read disjI1 [OF refl] sample_literal sample_facts])

end
