(* ===== verification/Omni_Api.thy ===== *)
theory Omni_Api
  imports Recheck
begin

text \<open>
  Calls to OmniRoute's management API (\<open>pylib/omniroute.py\<close>). The service is a parameter: a record of
  two functions on an abstract state of the world, for the login and for one request. A program is a
  state-passing function over the host, which also holds the JSON files of the program, a
  log of the requests sent, and what the disk does with a file that is to be written. The HTTP layer itself (\<open>_login\<close>, \<open>_request\<close>) is those two functions.
\<close>

section \<open>Programs with requests\<close>

datatype api_problem =
    Service_problem string | Bad_provider_listing | Bad_combo_listing | Bad_catalog | Bad_backup_file
  | Bad_json_file | No_usable_id | No_codex_session | Session_not_object | No_codex_email
  | Ambiguous_codex_name | Name_taken | No_safe_name | Bad_import_answer | No_such_combo

text \<open>\<open>OmniRouteError\<close>, or an exception Python raises by itself.\<close>

datatype api_exn = Omni_error api_problem | Python_error

datatype sent = Sent string string "pyval option" bool

datatype json_file = No_file | Not_decodable | Json_file pyval

text \<open>\<open>disk_error\<close>: \<open>None\<close> is a write that succeeds; otherwise what is found under the name after the \<open>OSError\<close>.\<close>

record 'w host =
  net :: 'w
  sent_log :: "sent list"
  json_files :: "string \<Rightarrow> json_file"
  disk_error :: "string \<Rightarrow> pyval \<Rightarrow> 'w \<Rightarrow> json_file option"

record 'w service =
  log_in :: "string \<Rightarrow> 'w \<Rightarrow> (api_exn, string) result \<times> 'w"
  answer :: "string \<Rightarrow> string \<Rightarrow> string \<Rightarrow> pyval option \<Rightarrow> 'w \<Rightarrow> (api_exn, pyval) result \<times> 'w"

type_synonym ('w, 'a) io = "'w host \<Rightarrow> (api_exn, 'a) result \<times> 'w host"

definition ret :: "'a \<Rightarrow> ('w, 'a) io" where "ret x h = (Inr x, h)"

definition raise_exn :: "api_exn \<Rightarrow> ('w, 'a) io" where "raise_exn e h = (Inl e, h)"

definition lift :: "(api_exn, 'a) result \<Rightarrow> ('w, 'a) io" where "lift r h = (r, h)"

definition bind_io :: "('w, 'a) io \<Rightarrow> ('a \<Rightarrow> ('w, 'b) io) \<Rightarrow> ('w, 'b) io" where
  "bind_io m f h = (case m h of (Inl e, h') \<Rightarrow> (Inl e, h') | (Inr x, h') \<Rightarrow> f x h')"

text \<open>\<open>try: m except OmniRouteError as exc: f(exc)\<close>.\<close>

definition catch_omni :: "('w, 'a) io \<Rightarrow> (api_problem \<Rightarrow> ('w, 'a) io) \<Rightarrow> ('w, 'a) io" where
  "catch_omni m f h = (case m h of (Inl (Omni_error p), h') \<Rightarrow> f p h' | r \<Rightarrow> r)"

fun for_each :: "('a \<Rightarrow> ('w, 'b) io) \<Rightarrow> 'a list \<Rightarrow> ('w, 'b list) io" where
  "for_each f [] = ret []"
| "for_each f (x # xs) = bind_io (f x) (\<lambda>y. bind_io (for_each f xs) (\<lambda>ys. ret (y # ys)))"

fun fold_io :: "('s \<Rightarrow> 'a \<Rightarrow> ('w, 's) io) \<Rightarrow> 's \<Rightarrow> 'a list \<Rightarrow> ('w, 's) io" where
  "fold_io f s [] = ret s"
| "fold_io f s (x # xs) = bind_io (f s x) (\<lambda>s'. fold_io f s' xs)"

text \<open>What Python raises on a value of an unexpected shape.\<close>

definition py :: "'a attempt \<Rightarrow> (api_exn, 'a) result" where
  "py r = (case r of Inl _ \<Rightarrow> Inl Python_error | Inr x \<Rightarrow> Inr x)"

definition login :: "'w service \<Rightarrow> string \<Rightarrow> ('w, string) io" where
  "login sv password h = (let (r, w) = log_in sv password (net h) in (r, h\<lparr>net := w\<rparr>))"

definition succeeded :: "('e, 'a) result \<Rightarrow> bool" where
  "succeeded r = (case r of Inl _ \<Rightarrow> False | Inr _ \<Rightarrow> True)"

definition request :: "'w service \<Rightarrow> string \<Rightarrow> string \<Rightarrow> string \<Rightarrow> pyval option \<Rightarrow> ('w, pyval) io" where
  "request sv meth url token payload h =
     (let (r, w) = answer sv meth url token payload (net h) in
      (r, h\<lparr>net := w, sent_log := sent_log h @ [Sent meth url payload (succeeded r)]\<rparr>))"

definition read_json :: "string \<Rightarrow> ('w, json_file) io" where
  "read_json path h = (Inr (json_files h path), h)"

definition with_file :: "string \<Rightarrow> json_file \<Rightarrow> 'w host \<Rightarrow> 'w host" where
  "with_file path f h = h\<lparr>json_files := (json_files h)(path := f)\<rparr>"

text \<open>
  \<open>write_text\<close> truncates the file before it writes, so an error can leave anything there; a temporary file
  that is renamed at the end leaves the old contents.
\<close>

definition write_json :: "string \<Rightarrow> pyval \<Rightarrow> ('w, unit) io" where
  "write_json path v h =
     (case disk_error h path v (net h) of
        None \<Rightarrow> (Inr (), with_file path (Json_file v) h)
      | Some f \<Rightarrow> (Inl Python_error, with_file path f h))"

definition replace_json :: "string \<Rightarrow> pyval \<Rightarrow> ('w, unit) io" where
  "replace_json path v h =
     (case disk_error h path v (net h) of
        None \<Rightarrow> (Inr (), with_file path (Json_file v) h)
      | Some _ \<Rightarrow> (Inl Python_error, h))"

section \<open>Laws of programs\<close>

lemma bind_io_ret [simp]: "bind_io (ret x) f = f x"
  by (simp add: bind_io_def ret_def fun_eq_iff)

lemma bind_io_Inr:
  "bind_io m f h = (Inr y, h') \<longleftrightarrow> (\<exists>x h1. m h = (Inr x, h1) \<and> f x h1 = (Inr y, h'))"
  by (auto simp: bind_io_def split: prod.splits sum.splits)

lemma bind_io_Inl:
  "bind_io m f h = (Inl e, h') \<longleftrightarrow> m h = (Inl e, h') \<or> (\<exists>x h1. m h = (Inr x, h1) \<and> f x h1 = (Inl e, h'))"
  by (auto simp: bind_io_def split: prod.splits sum.splits)

lemma ret_eq [simp]: "ret x h = (r, h') \<longleftrightarrow> r = Inr x \<and> h' = h"
  by (auto simp: ret_def)

lemma lift_eq [simp]: "lift r h = (r', h') \<longleftrightarrow> r = r' \<and> h' = h"
  by (auto simp: lift_def)

lemma raise_eq [simp]: "raise_exn e h = (r, h') \<longleftrightarrow> r = Inl e \<and> h' = h"
  by (auto simp: raise_exn_def)

text \<open>
  A program keeps a relation between the host before and after, whatever its result: the rule for each
  construct, for reflexive and transitive relations.
\<close>

definition keeps :: "('w host \<Rightarrow> 'w host \<Rightarrow> bool) \<Rightarrow> ('w, 'a) io \<Rightarrow> bool" where
  "keeps R m \<longleftrightarrow> (\<forall>h. R h (snd (m h)))"

lemma keeps_if: "(b \<Longrightarrow> keeps R m) \<Longrightarrow> (\<not> b \<Longrightarrow> keeps R n) \<Longrightarrow> keeps R (if b then m else n)"
  by simp

locale host_relation =
  fixes R :: "'w host \<Rightarrow> 'w host \<Rightarrow> bool"
  assumes refl: "R h h" and trans: "R a b \<Longrightarrow> R b c \<Longrightarrow> R a c"
begin

lemma keeps_ret [intro]: "keeps R (ret x)" "keeps R (raise_exn e)" "keeps R (lift r)"
  by (simp_all add: keeps_def ret_def raise_exn_def lift_def refl)

lemma keeps_bind:
  assumes m: "keeps R m" and f: "\<And>x. keeps R (f x)"
  shows "keeps R (bind_io m f)"
  unfolding keeps_def
proof
  fix h
  obtain r h1 where m1: "m h = (r, h1)"
    by (cases "m h")
  have step: "R h h1"
    using m m1 unfolding keeps_def by (metis snd_conv)
  show "R h (snd (bind_io m f h))"
  proof (cases r)
    case (Inl e)
    then show ?thesis
      using m1 step by (simp add: bind_io_def)
  next
    case (Inr x)
    have "R h1 (snd (f x h1))"
      using f unfolding keeps_def by blast
    then show ?thesis
      using Inr m1 trans [OF step] by (simp add: bind_io_def)
  qed
qed

lemma keeps_catch:
  assumes m: "keeps R m" and f: "\<And>p. keeps R (f p)"
  shows "keeps R (catch_omni m f)"
  unfolding keeps_def
proof
  fix h
  obtain r h1 where m1: "m h = (r, h1)"
    by (cases "m h")
  have step: "R h h1"
    using m m1 unfolding keeps_def by (metis snd_conv)
  have "R h1 (snd (f p h1))" for p
    using f unfolding keeps_def by blast
  then show "R h (snd (catch_omni m f h))"
    using m1 step trans by (auto simp: catch_omni_def split: sum.split api_exn.split)
qed

lemma keeps_fold: "(\<And>s x. keeps R (f s x)) \<Longrightarrow> keeps R (fold_io f s xs)"
  by (induction xs arbitrary: s) (auto intro: keeps_bind)

lemma keeps_for_each: "(\<And>x. keeps R (f x)) \<Longrightarrow> keeps R (for_each f xs)"
  by (induction xs) (auto intro!: keeps_bind)

end


text \<open>
  Triples: from a host that satisfies \<open>P\<close> a normal result satisfies \<open>Q\<close>, and a host left by an exception
  satisfies \<open>E\<close>.
\<close>

definition valid ::
  "('w host \<Rightarrow> bool) \<Rightarrow> ('w, 'a) io \<Rightarrow> ('a \<Rightarrow> 'w host \<Rightarrow> bool) \<Rightarrow> ('w host \<Rightarrow> bool) \<Rightarrow> bool" where
  "valid P m Q E \<longleftrightarrow> (\<forall>h. P h \<longrightarrow> (case m h of (Inl e, h') \<Rightarrow> E h' | (Inr x, h') \<Rightarrow> Q x h'))"

lemma valid_ret: "(\<And>h. P h \<Longrightarrow> Q x h) \<Longrightarrow> valid P (ret x) Q E"
  by (simp add: valid_def ret_def)

lemma valid_lift: "(\<And>h x. P h \<Longrightarrow> r = Inr x \<Longrightarrow> Q x h) \<Longrightarrow> (\<And>h. P h \<Longrightarrow> E h) \<Longrightarrow> valid P (lift r) Q E"
  by (cases r) (simp_all add: valid_def lift_def)

lemma valid_bind: "valid P m R E \<Longrightarrow> (\<And>x. valid (R x) (f x) Q E) \<Longrightarrow> valid P (bind_io m f) Q E"
  unfolding valid_def bind_io_def by (fastforce split: prod.splits sum.splits)

lemma valid_catch: "valid P m Q E \<Longrightarrow> (\<And>p. valid E (f p) Q E) \<Longrightarrow> valid P (catch_omni m f) Q E"
  unfolding valid_def catch_omni_def by (fastforce split: prod.splits sum.splits api_exn.splits)

lemma valid_fold:
  assumes "\<And>s x. x \<in> set xs \<Longrightarrow> valid (I s) (f s x) I E"
  shows "valid (I s) (fold_io f s xs) I E"
  using assms
proof (induction xs arbitrary: s)
  case Nil
  then show ?case
    by (simp add: valid_ret)
next
  case (Cons x xs)
  then show ?case
    by (auto intro!: valid_bind [of _ _ I])
qed

lemma valid_if: "(b \<Longrightarrow> valid P m Q E) \<Longrightarrow> (\<not> b \<Longrightarrow> valid P n Q E) \<Longrightarrow> valid P (if b then m else n) Q E"
  by simp

lemma valid_exit: "valid P m Q E \<Longrightarrow> (\<And>h. E h \<Longrightarrow> E' h) \<Longrightarrow> valid P m Q E'"
  unfolding valid_def by (fastforce split: prod.splits sum.splits)

lemma valid_pure: "(A \<Longrightarrow> valid P m Q E) \<Longrightarrow> valid (\<lambda>h. P h \<and> A) m Q E"
  by (auto simp: valid_def)

lemma valid_weaken: "valid P m Q E \<Longrightarrow> (\<And>h. P' h \<Longrightarrow> P h) \<Longrightarrow> valid P' m Q E"
  by (simp add: valid_def)

lemma valid_login: "(\<And>h w. P h \<Longrightarrow> P (h\<lparr>net := w\<rparr>)) \<Longrightarrow> valid P (login sv pw) (\<lambda>_. P) P"
  by (auto simp: valid_def login_def split: prod.splits sum.splits)

lemma valid_request:
  assumes "\<And>h w ok. P h \<Longrightarrow> P (h\<lparr>net := w, sent_log := sent_log h @ [Sent meth url payload ok]\<rparr>)"
  shows "valid P (request sv meth url token payload) (\<lambda>_. P) P"
  using assms by (auto simp: valid_def request_def split: prod.splits sum.splits)

text \<open>Every request sent on the way satisfies \<open>P\<close>.\<close>

definition sends :: "(sent \<Rightarrow> bool) \<Rightarrow> 'w host \<Rightarrow> 'w host \<Rightarrow> bool" where
  "sends P h h' \<longleftrightarrow> (\<exists>xs. sent_log h' = sent_log h @ xs \<and> list_all P xs)"

interpretation sends: host_relation "sends P"
proof unfold_locales
  fix a b c :: "'w host"
  assume "sends P a b" "sends P b c"
  then show "sends P a c"
    unfolding sends_def by (metis append.assoc list_all_append)
qed (simp add: sends_def)

lemma keeps_login [intro]: "keeps (sends P) (login sv pw)"
  by (auto simp: keeps_def login_def sends_def split: prod.split)

lemma keeps_files [intro]:
  "keeps (sends P) (read_json path)" "keeps (sends P) (write_json path v)" "keeps (sends P) (replace_json path v)"
  by (simp_all add: keeps_def read_json_def write_json_def replace_json_def with_file_def sends_def split: option.split)

lemma keeps_request:
  "(\<And>ok. P (Sent meth url payload ok)) \<Longrightarrow> keeps (sends P) (request sv meth url token payload)"
  by (auto simp: keeps_def request_def sends_def split: prod.split)

fun is_get :: "sent \<Rightarrow> bool" where
  "is_get (Sent meth url payload ok) = (meth = ''GET'')"

section \<open>Provider connections\<close>

definition CONNECTION_NAME :: string where "CONNECTION_NAME = ''llm-env-local''"

definition first_list :: "pydict \<Rightarrow> string list \<Rightarrow> pyval list option" where
  "first_list d ks = (case filter is_list (map (field_of d) ks) of VList vs # _ \<Rightarrow> Some vs | _ \<Rightarrow> None)"

definition extract_providers :: "pyval \<Rightarrow> (api_exn, pyval list) result" where
  "extract_providers payload =
     (case payload of
        VList vs \<Rightarrow> Inr vs
      | VDict d \<Rightarrow>
          (case first_list d [''connections'', ''providers'', ''data''] of
             Some vs \<Rightarrow> Inr vs
           | None \<Rightarrow> Inl (Omni_error Bad_provider_listing))
      | _ \<Rightarrow> Inl (Omni_error Bad_provider_listing))"

definition build_payload :: "int \<Rightarrow> string \<Rightarrow> pydict" where
  "build_payload port api_key =
     [(VStr ''provider'', VStr ''llama-cpp''), (VStr ''name'', VStr CONNECTION_NAME), (VStr ''apiKey'', VStr api_key),
      (VStr ''priority'', VInt 1), (VStr ''testStatus'', VStr ''active''),
      (VStr ''providerSpecificData'',
         VDict [(VStr ''baseUrl'', VStr (''http://llm-server:'' @ show_int port @ ''/v1''))])]"

text \<open>\<open>next((c for c in connections if c.get("name") == name), None)\<close>: later elements are not looked at.\<close>

fun find_connection :: "string \<Rightarrow> pyval list \<Rightarrow> (api_exn, pydict option) result" where
  "find_connection n [] = Inr None"
| "find_connection n (c # cs) =
     bindR (py (as_dict c)) (\<lambda>d. if field_of d ''name'' = VStr n then Inr (Some d) else find_connection n cs)"

datatype provision_action = Created pyval | Updated pyval

definition created_id :: "pyval \<Rightarrow> pyval" where
  "created_id created =
     (case created of
        VDict d \<Rightarrow> (case field_of d ''connection'' of VDict c \<Rightarrow> field_of c ''id'' | _ \<Rightarrow> field_of d ''id'')
      | _ \<Rightarrow> VNone)"

definition provision ::
  "'w service \<Rightarrow> (pyval \<Rightarrow> string) \<Rightarrow> string \<Rightarrow> string \<Rightarrow> int \<Rightarrow> string \<Rightarrow> ('w, provision_action) io" where
  "provision sv rep base_url password port api_key =
     bind_io (login sv password) (\<lambda>token.
     bind_io (request sv ''GET'' (base_url @ ''/api/providers'') token None) (\<lambda>listing.
     bind_io (lift (extract_providers listing)) (\<lambda>providers.
     let payload = VDict (build_payload port api_key) in
     bind_io (lift (find_connection CONNECTION_NAME providers)) (\<lambda>existing.
     case existing of
       None \<Rightarrow>
         bind_io (request sv ''POST'' (base_url @ ''/api/providers'') token (Some payload)) (\<lambda>created.
         ret (Created (created_id created)))
     | Some d \<Rightarrow>
         let pid = field_of d ''id'' in
         if \<not> is_str pid \<and> \<not> is_int pid then raise_exn (Omni_error No_usable_id)
         else
           bind_io (request sv ''PUT'' (base_url @ ''/api/providers/'' @ str_of rep pid) token (Some payload)) (\<lambda>_.
           ret (Updated pid))))))"

section \<open>Importing a Codex session\<close>

definition CODEX_EMAIL_CONNECTION_NAMES :: "(string, string) dict" where
  "CODEX_EMAIL_CONNECTION_NAMES =
     [(''castocolina.cl@gmail.com'', ''cco-cl''), (''castocolina.dev@gmail.com'', ''cco-dev'')]"

definition lower_text :: "string \<Rightarrow> string" where "lower_text s = map lower s"

text \<open>\<open>claims\<close> decodes the middle part of the token: base64 without padding, then JSON.\<close>

definition codex_auth_email :: "(string \<Rightarrow> pyval option) \<Rightarrow> pydict \<Rightarrow> string option" where
  "codex_auth_email claims auth =
     (case field_of auth ''tokens'' of
        VDict tokens \<Rightarrow>
          (case field_of tokens ''id_token'' of
             VStr t \<Rightarrow>
               if count_list t (CHR ''.'') \<noteq> 2 then None
               else (case claims (split_on (CHR ''.'') t ! 1) of
                       Some (VDict p) \<Rightarrow>
                         (case field_of p ''email'' of
                            VStr e \<Rightarrow> if CHR ''@'' \<in> set e then Some (lower_text (strip e)) else None
                          | _ \<Rightarrow> None)
                     | _ \<Rightarrow> None)
           | _ \<Rightarrow> None)
      | _ \<Rightarrow> None)"

text \<open>The connection is a Codex one with this name and another email.\<close>

definition owned_by_other :: "string \<Rightarrow> string \<Rightarrow> pydict \<Rightarrow> bool" where
  "owned_by_other n email d \<longleftrightarrow>
     field_of d ''provider'' = VStr ''codex'' \<and> field_of d ''name'' = VStr n
     \<and> (case field_of d ''email'' of VStr other \<Rightarrow> lower_text other \<noteq> lower_text email | _ \<Rightarrow> False)"

fun name_owned_by_other :: "pyval list \<Rightarrow> string \<Rightarrow> string \<Rightarrow> (api_exn, bool) result" where
  "name_owned_by_other [] n email = Inr False"
| "name_owned_by_other (c # cs) n email =
     bindR (py (as_dict c)) (\<lambda>d. if owned_by_other n email d then Inr True else name_owned_by_other cs n email)"

definition has_email :: "string \<Rightarrow> pydict \<Rightarrow> bool" where
  "has_email email_l d \<longleftrightarrow>
     field_of d ''provider'' = VStr ''codex''
     \<and> (case field_of d ''email'' of VStr e \<Rightarrow> lower_text e = email_l | _ \<Rightarrow> False)"

text \<open>The first Codex connection of the email, if any.\<close>

fun connection_of_email :: "string \<Rightarrow> pyval list \<Rightarrow> (api_exn, pydict option) result" where
  "connection_of_email email_l [] = Inr None"
| "connection_of_email email_l (c # cs) =
     bindR (py (as_dict c)) (\<lambda>d. if has_email email_l d then Inr (Some d) else connection_of_email email_l cs)"

fun first_free :: "pyval list \<Rightarrow> string \<Rightarrow> string list \<Rightarrow> (api_exn, string) result" where
  "first_free cs email [] = Inl (Omni_error No_safe_name)"
| "first_free cs email (n # ns) =
     bindR (name_owned_by_other cs n email) (\<lambda>taken. if taken then first_free cs email ns else Inr n)"

definition derived_name :: "string \<Rightarrow> string" where
  "derived_name email_l =
     ''codex-'' @ map (\<lambda>c. if c = CHR ''.'' then CHR ''-'' else c) (takeWhile (\<lambda>c. c \<noteq> CHR ''@'') email_l)"

definition candidate_names :: "string \<Rightarrow> string list" where
  "candidate_names email_l =
     remdups ((case dget CODEX_EMAIL_CONNECTION_NAMES email_l of None \<Rightarrow> [] | Some n \<Rightarrow> [n]) @ [derived_name email_l])"

definition unless_taken ::
  "pyval list \<Rightarrow> string \<Rightarrow> string \<Rightarrow> api_problem \<Rightarrow> (api_exn, string) result" where
  "unless_taken cs n email p =
     bindR (name_owned_by_other cs n email) (\<lambda>taken. if taken then Inl (Omni_error p) else Inr n)"

definition fallback_name :: "pyval list \<Rightarrow> string \<Rightarrow> string option \<Rightarrow> (api_exn, string) result" where
  "fallback_name cs email_l name_override =
     (case name_override of
        Some n \<Rightarrow> if n \<noteq> [] then unless_taken cs n email_l Name_taken else first_free cs email_l (candidate_names email_l)
      | None \<Rightarrow> first_free cs email_l (candidate_names email_l))"

definition resolve_codex_import_name ::
  "pyval list \<Rightarrow> string \<Rightarrow> string option \<Rightarrow> (api_exn, string) result" where
  "resolve_codex_import_name cs email name_override =
     (let email_l = lower_text email in
      bindR (connection_of_email email_l cs) (\<lambda>found.
      case found of
        Some d \<Rightarrow>
          (case field_of d ''name'' of
             VStr n \<Rightarrow> if n \<noteq> [] then unless_taken cs n email_l Ambiguous_codex_name else fallback_name cs email_l name_override
           | _ \<Rightarrow> fallback_name cs email_l name_override)
      | None \<Rightarrow> fallback_name cs email_l name_override))"

end
