(* ===== verification/Omni_Models.thy ===== *)
theory Omni_Models
  imports Omni_Api
begin

text \<open>
  The Codex import, the context-window corrections and the windows of combos
  (\<open>pylib/omniroute.py\<close>).
\<close>

section \<open>Importing a session\<close>

record import_report =
  import_created :: bool
  import_id :: pyval
  import_name :: pyval
  import_email :: string

definition read_auth :: "json_file \<Rightarrow> (api_exn, pydict) result" where
  "read_auth f =
     (case f of
        No_file \<Rightarrow> Inl (Omni_error No_codex_session)
      | Not_decodable \<Rightarrow> Inl (Omni_error Bad_json_file)
      | Json_file (VDict d) \<Rightarrow> Inr d
      | Json_file _ \<Rightarrow> Inl (Omni_error Session_not_object))"

definition import_payload :: "pydict \<Rightarrow> string \<Rightarrow> pydict" where
  "import_payload auth n =
     [(VStr ''source'', VDict [(VStr ''kind'', VStr ''json''), (VStr ''json'', VDict auth)]), (VStr ''name'', VStr n),
      (VStr ''overwriteExisting'', VBool True)]"

definition import_codex_auth ::
  "'w service \<Rightarrow> (string \<Rightarrow> pyval option) \<Rightarrow> string \<Rightarrow> string \<Rightarrow> string \<Rightarrow> string option \<Rightarrow> ('w, import_report) io" where
  "import_codex_auth sv claims base_url password auth_path name_override =
     bind_io (read_json auth_path) (\<lambda>f.
     bind_io (lift (read_auth f)) (\<lambda>auth.
     case codex_auth_email claims auth of
       None \<Rightarrow> raise_exn (Omni_error No_codex_email)
     | Some email \<Rightarrow>
         bind_io (login sv password) (\<lambda>token.
         bind_io (request sv ''GET'' (base_url @ ''/api/providers'') token None) (\<lambda>listing.
         bind_io (lift (extract_providers listing)) (\<lambda>connections.
         bind_io (lift (resolve_codex_import_name connections email name_override)) (\<lambda>n.
         bind_io (request sv ''POST'' (base_url @ ''/api/providers/codex-auth/import'') token
                    (Some (VDict (import_payload auth n)))) (\<lambda>res.
         case res of
           VDict r \<Rightarrow>
             if \<not> has_key r ''connection'' then raise_exn (Omni_error Bad_import_answer)
             else bind_io (lift (py (dict_or_empty (field_of r ''connection'')))) (\<lambda>connection.
               let cname = field_of connection ''name'' in
               ret \<lparr>import_created = truthy (field_of r ''created''), import_id = field_of connection ''id'',
                    import_name = (if truthy cname then cname else VStr n), import_email = email\<rparr>)
         | _ \<Rightarrow> raise_exn (Omni_error Bad_import_answer))))))))"

section \<open>Model families\<close>

definition CODEX_GPT_5_6_CONTEXT_WINDOW :: int where "CODEX_GPT_5_6_CONTEXT_WINDOW = 1050000"
definition KIMI_K3_CONTEXT_WINDOW :: int where "KIMI_K3_CONTEXT_WINDOW = 1048576"
definition GROK_COMPOSER_2_5_FAST_CONTEXT_WINDOW :: int where "GROK_COMPOSER_2_5_FAST_CONTEXT_WINDOW = 200000"

definition CODEX_GPT_5_6_FAMILIES :: "string list" where
  "CODEX_GPT_5_6_FAMILIES = [''gpt-5.6'', ''gpt-5.6-sol'', ''gpt-5.6-terra'', ''gpt-5.6-luna'']"

definition CODEX_EFFORT_SUFFIXES :: "string list" where
  "CODEX_EFFORT_SUFFIXES = [''low'', ''medium'', ''high'', ''xhigh'', ''max'', ''ultra'']"

definition KIMI_CODING_K3_MODELS :: "string list" where "KIMI_CODING_K3_MODELS = [''k3'', ''k3.1-pro'']"

definition ends_with :: "string \<Rightarrow> string \<Rightarrow> bool" where
  "ends_with p s \<longleftrightarrow> starts_with (rev p) (rev s)"

fun strip_effort :: "string list \<Rightarrow> string \<Rightarrow> string option" where
  "strip_effort [] mroot = None"
| "strip_effort (s # ss) mroot =
     (let marker = CHR ''-'' # s; base = take (length mroot - length marker) mroot in
      if ends_with marker mroot \<and> base \<in> set CODEX_GPT_5_6_FAMILIES then Some base else strip_effort ss mroot)"

definition codex_gpt_5_6_family :: "string \<Rightarrow> string option" where
  "codex_gpt_5_6_family mroot =
     (case strip_effort CODEX_EFFORT_SUFFIXES mroot of
        Some b \<Rightarrow> Some b
      | None \<Rightarrow> if mroot \<in> set CODEX_GPT_5_6_FAMILIES then Some mroot else None)"

section \<open>Correcting the context windows\<close>

definition catalog_entries :: "pyval \<Rightarrow> (api_exn, pyval list) result" where
  "catalog_entries catalog =
     (case catalog of
        VDict d \<Rightarrow> (case field_of d ''data'' of VList es \<Rightarrow> Inr es | _ \<Rightarrow> Inl (Omni_error Bad_catalog))
      | _ \<Rightarrow> Inl (Omni_error Bad_catalog))"

text \<open>The provider and the model of an entry, when both are texts.\<close>

definition entry_key :: "pyval \<Rightarrow> (string \<times> string) option" where
  "entry_key e =
     (case e of
        VDict d \<Rightarrow> (case (field_of d ''owned_by'', field_of d ''root'') of
            (VStr p, VStr r) \<Rightarrow> Some (p, r) | _ \<Rightarrow> None)
      | _ \<Rightarrow> None)"

definition override_of_key :: "string \<Rightarrow> string \<Rightarrow> (string \<times> int) option" where
  "override_of_key provider mroot =
     (if provider = ''codex''
      then map_option (\<lambda>f. (f, CODEX_GPT_5_6_CONTEXT_WINDOW)) (codex_gpt_5_6_family mroot)
      else if provider = ''kimi-coding'' \<and> mroot \<in> set KIMI_CODING_K3_MODELS
      then Some (''kimi-k3'', KIMI_K3_CONTEXT_WINDOW) else None)"

text \<open>The first occurrence of every key, in order.\<close>

fun first_keys :: "'a list \<Rightarrow> 'a list \<Rightarrow> 'a list" where
  "first_keys seen [] = []"
| "first_keys seen (k # ks) = (if k \<in> set seen then first_keys seen ks else k # first_keys (k # seen) ks)"

definition override_payload :: "string \<Rightarrow> string \<Rightarrow> int \<Rightarrow> pydict" where
  "override_payload provider mroot window =
     [(VStr ''provider'', VStr provider), (VStr ''modelId'', VStr mroot), (VStr ''contextWindowOverride'', VInt window)]"

definition fix_codex_context_overrides ::
  "'w service \<Rightarrow> string \<Rightarrow> string \<Rightarrow> ('w, (string \<times> string \<times> int) list) io" where
  "fix_codex_context_overrides sv base_url password =
     bind_io (login sv password) (\<lambda>token.
     bind_io (request sv ''GET'' (base_url @ ''/v1/models'') token None) (\<lambda>catalog.
     bind_io (lift (catalog_entries catalog)) (\<lambda>entries.
     fold_io (\<lambda>results (provider, mroot).
       case override_of_key provider mroot of
         None \<Rightarrow> ret results
       | Some (family, window) \<Rightarrow>
           bind_io (request sv ''PUT'' (base_url @ ''/api/provider-models'') token
                      (Some (VDict (override_payload provider mroot window)))) (\<lambda>_.
           ret (results @ [(mroot, family, window)])))
       [] (first_keys [] (List.map_filter entry_key entries)))))"

section \<open>The windows of a combo\<close>

type_synonym windows = "(string, int) dict"
type_synonym limits = "(string, int \<times> int) dict"

definition resolve_member_context_window :: "windows \<Rightarrow> string \<Rightarrow> string \<Rightarrow> limits option \<Rightarrow> int option" where
  "resolve_member_context_window catalog provider model local_limits =
     (if provider = ''llama-cpp'' then map_option fst (dget (case local_limits of None \<Rightarrow> [] | Some l \<Rightarrow> l) model)
      else if provider = ''codex'' \<and> codex_gpt_5_6_family model \<noteq> None then Some CODEX_GPT_5_6_CONTEXT_WINDOW
      else if provider = ''kimi-coding'' \<and> model \<in> set KIMI_CODING_K3_MODELS then Some KIMI_K3_CONTEXT_WINDOW
      else if provider = ''grok-cli'' \<and> model = ''grok-composer-2.5-fast'' then Some GROK_COMPOSER_2_5_FAST_CONTEXT_WINDOW
      else dget catalog model)"

definition add_first :: "string \<Rightarrow> pyval \<Rightarrow> windows \<Rightarrow> windows" where
  "add_first mroot v d =
     (case int_value v of Some n \<Rightarrow> if dget d mroot = None then dput mroot n d else d | None \<Rightarrow> d)"

definition add_entry :: "windows \<times> windows \<Rightarrow> pyval \<Rightarrow> windows \<times> windows" where
  "add_entry acc e =
     (case e of
        VDict d \<Rightarrow>
          (case field_of d ''root'' of
             VStr mroot \<Rightarrow> (add_first mroot (field_of d ''context_length'') (fst acc),
                           add_first mroot (field_of d ''max_output_tokens'') (snd acc))
           | _ \<Rightarrow> acc)
      | _ \<Rightarrow> acc)"

record member =
  m_provider :: string
  m_model :: string
  m_context :: "int option"
  m_output :: "int option"

definition after_first :: "char \<Rightarrow> string \<Rightarrow> string" where
  "after_first c s = (if c \<in> set s then tl (dropWhile (\<lambda>x. x \<noteq> c) s) else s)"

definition member_of :: "windows \<times> windows \<Rightarrow> limits option \<Rightarrow> pyval \<Rightarrow> member option" where
  "member_of catalog local_limits v =
     (case v of
        VDict d \<Rightarrow>
          if field_of d ''kind'' \<noteq> VStr ''model'' then None
          else (case (field_of d ''providerId'', field_of d ''model'') of
            (VStr provider, VStr full) \<Rightarrow>
              let model = after_first (CHR ''/'') full in
              Some \<lparr>m_provider = provider, m_model = model,
                    m_context = resolve_member_context_window (fst catalog) provider model local_limits,
                    m_output = (if provider = ''llama-cpp''
                                then map_option snd (dget (case local_limits of None \<Rightarrow> [] | Some l \<Rightarrow> l) model)
                                else dget (snd catalog) model)\<rparr>
          | _ \<Rightarrow> None)
      | _ \<Rightarrow> None)"

record combo_report =
  r_combo :: string
  r_members :: "member list"
  r_min_context :: "int option"
  r_min_output :: "int option"
  r_limiting :: "string option"

definition least :: "int list \<Rightarrow> int option" where
  "least xs = (if xs = [] then None else Some (Min (set xs)))"

definition known :: "int option list \<Rightarrow> int list" where
  "known xs = List.map_filter (\<lambda>x. x) xs"

definition member_name :: "member \<Rightarrow> string" where
  "member_name m = m_provider m @ ''/'' @ m_model m"

definition report_of :: "string \<Rightarrow> member list \<Rightarrow> combo_report" where
  "report_of n ms =
     (let least_context = least (known (map m_context ms)) in
      \<lparr>r_combo = n, r_members = ms, r_min_context = least_context, r_min_output = least (known (map m_output ms)),
       r_limiting = (case least_context of
          None \<Rightarrow> None
        | Some c \<Rightarrow> map_option member_name (find (\<lambda>m. m_context m = Some c) ms))\<rparr>)"

definition combo_row ::
  "windows \<times> windows \<Rightarrow> limits option \<Rightarrow> string option \<Rightarrow> pyval \<Rightarrow> (api_exn, combo_report option) result" where
  "combo_row catalog local_limits combo_name v =
     (case v of
        VDict d \<Rightarrow>
          (case field_of d ''name'' of
             VStr n \<Rightarrow>
               if combo_name \<noteq> None \<and> combo_name \<noteq> Some n then Inr None
               else bindR (py (falsy_or_items (field_of d ''models''))) (\<lambda>ms.
                 Inr (Some (report_of n (List.map_filter (member_of catalog local_limits) ms))))
           | _ \<Rightarrow> Inr None)
      | _ \<Rightarrow> Inr None)"

definition combo_list :: "pyval \<Rightarrow> (api_exn, pyval list) result" where
  "combo_list payload =
     (case payload of
        VDict d \<Rightarrow> (case field_of d ''combos'' of VList cs \<Rightarrow> Inr cs | _ \<Rightarrow> Inl (Omni_error Bad_combo_listing))
      | _ \<Rightarrow> Inl (Omni_error Bad_combo_listing))"

definition compute_combo_context ::
  "'w service \<Rightarrow> string \<Rightarrow> string \<Rightarrow> string option \<Rightarrow> limits option \<Rightarrow> ('w, combo_report list) io" where
  "compute_combo_context sv base_url password combo_name local_limits =
     bind_io (login sv password) (\<lambda>token.
     bind_io (request sv ''GET'' (base_url @ ''/v1/models'') token None) (\<lambda>catalog.
     bind_io (lift (catalog_entries catalog)) (\<lambda>entries.
     bind_io (request sv ''GET'' (base_url @ ''/api/combos'') token None) (\<lambda>payload.
     bind_io (lift (combo_list payload)) (\<lambda>combos.
     bind_io (lift (mapR (combo_row (foldl add_entry ([], []) entries) local_limits combo_name) combos)) (\<lambda>rows.
     let results = List.map_filter (\<lambda>r. r) rows in
     if combo_name \<noteq> None \<and> results = [] then raise_exn (Omni_error No_such_combo) else ret results))))))"


section \<open>The name of an import\<close>

lemma py_as_dict [simp]: "py (as_dict c) = Inr d \<longleftrightarrow> c = VDict d"
  by (cases c) (auto simp: py_def)

lemma name_free:
  assumes "name_owned_by_other cs n email = Inr False" "VDict d \<in> set cs"
  shows "\<not> owned_by_other n email d"
  using assms by (induction cs) (auto split: if_splits)

lemma unless_taken_Inr: "unless_taken cs n email p = Inr m \<longleftrightarrow> m = n \<and> name_owned_by_other cs n email = Inr False"
  by (auto simp: unless_taken_def split: if_splits)

lemma first_free_Inr: "first_free cs email ns = Inr n \<Longrightarrow> name_owned_by_other cs n email = Inr False"
  by (induction ns) (auto split: if_splits)

lemma fallback_name_Inr: "fallback_name cs email over = Inr n \<Longrightarrow> name_owned_by_other cs n email = Inr False"
  by (auto simp: fallback_name_def unless_taken_Inr first_free_Inr split: option.splits if_splits)

lemma resolve_free:
  assumes "resolve_codex_import_name cs email over = Inr n"
  shows "name_owned_by_other cs n (lower_text email) = Inr False"
proof -
  from assms obtain found where found: "connection_of_email (lower_text email) cs = Inr found"
    by (auto simp: resolve_codex_import_name_def Let_def)
  show ?thesis
    using assms found
    by (cases found; cases "field_of (the found) ''name''")
      (auto simp: resolve_codex_import_name_def Let_def unless_taken_Inr fallback_name_Inr split: if_splits)
qed

lemma resolve_own:
  assumes "resolve_codex_import_name cs email over = Inr n"
    and "connection_of_email (lower_text email) cs = Inr (Some d)" "field_of d ''name'' = VStr m" "m \<noteq> []"
  shows "n = m"
  using assms by (auto simp: resolve_codex_import_name_def Let_def unless_taken_Inr)

text \<open>The name may carry the session of this account: no other account's, and the account's own if it has one.\<close>

definition safe_name :: "pyval list \<Rightarrow> string \<Rightarrow> string \<Rightarrow> bool" where
  "safe_name cs email n \<longleftrightarrow>
     (\<forall>d. VDict d \<in> set cs \<longrightarrow> \<not> owned_by_other n (lower_text email) d)
     \<and> (\<forall>d m. connection_of_email (lower_text email) cs = Inr (Some d) \<longrightarrow> field_of d ''name'' = VStr m \<longrightarrow> m \<noteq> []
          \<longrightarrow> n = m)"

lemma resolve_safe: "resolve_codex_import_name cs email over = Inr n \<Longrightarrow> safe_name cs email n"
  unfolding safe_name_def using name_free [OF resolve_free] resolve_own by blast

text \<open>The two requests of an import that got so far.\<close>

definition import_requests :: "string \<Rightarrow> pydict \<Rightarrow> string \<Rightarrow> bool \<Rightarrow> sent list" where
  "import_requests base_url auth n ok =
     [Sent ''GET'' (base_url @ ''/api/providers'') None True,
      Sent ''POST'' (base_url @ ''/api/providers/codex-auth/import'') (Some (VDict (import_payload auth n))) ok]"

lemma sends_get_refl: "sends is_get h h"
  by (simp add: sends_def)

lemma sends_one_get:
  "sent_log h' = sent_log h @ [Sent ''GET'' url p ok] \<Longrightarrow> sends is_get h h'"
  by (simp add: sends_def)

text \<open>
  C24: a Codex import never overwrites the tokens of another account. Whatever it is given and however it
  ends, either it sent nothing but reads; or it sent the read of the connections and one import, of exactly
  the session of the file, under a name that no Codex connection with another email has among those the
  service listed to it, and that is the account's own connection name when it has one.
\<close>

theorem codex_import_keeps_accounts_apart:
  assumes "import_codex_auth sv claims base_url password path over h = (r, h')"
  shows "sends is_get h h'
    \<or> (\<exists>auth email token w listing w' cs n ok.
         json_files h path = Json_file (VDict auth) \<and> codex_auth_email claims auth = Some email
         \<and> log_in sv password (net h) = (Inr token, w)
         \<and> answer sv ''GET'' (base_url @ ''/api/providers'') token None w = (Inr listing, w')
         \<and> extract_providers listing = Inr cs \<and> safe_name cs email n
         \<and> sent_log h' = sent_log h @ import_requests base_url auth n ok)"
proof (cases "read_auth (json_files h path)")
  case (Inl e)
  with assms show ?thesis
    by (auto simp: import_codex_auth_def bind_io_def read_json_def lift_def sends_get_refl)
next
  case (Inr auth)
  then have f: "json_files h path = Json_file (VDict auth)"
    by (auto simp: read_auth_def split: json_file.splits pyval.splits)
  show ?thesis
  proof (cases "codex_auth_email claims auth")
    case None
    with assms f show ?thesis
      by (auto simp: import_codex_auth_def bind_io_def read_json_def read_auth_def lift_def raise_exn_def sends_get_refl)
  next
    case (Some email)
    obtain lr w where l: "log_in sv password (net h) = (lr, w)"
      by fastforce
    show ?thesis
    proof (cases lr)
      case (Inl e)
      with assms f Some l show ?thesis
        by (auto simp: import_codex_auth_def bind_io_def read_json_def read_auth_def lift_def login_def sends_def)
    next
      case (Inr token)
      obtain gr w' where g: "answer sv ''GET'' (base_url @ ''/api/providers'') token None w = (gr, w')"
        by fastforce
      note run = import_codex_auth_def bind_io_def read_json_def read_auth_def lift_def login_def request_def f Some l g
        option.case sum.case prod.case
      show ?thesis
      proof (cases "bindR gr (\<lambda>v. bindR (extract_providers v) (\<lambda>cs. resolve_codex_import_name cs email over))")
        case (Inl e)
        with assms \<open>lr = Inr token\<close> show ?thesis
          by (intro disjI1 sends_one_get [of _ _ "base_url @ ''/api/providers''" None "succeeded gr"])
             (auto simp: run bindR_def split: sum.splits)
      next
        case n: (Inr n)
        then obtain listing cs where c: "gr = Inr listing" "extract_providers listing = Inr cs"
          "resolve_codex_import_name cs email over = Inr n"
          by (auto simp: bindR_def split: sum.splits)
        obtain ir w2 where i: "answer sv ''POST'' (base_url @ ''/api/providers/codex-auth/import'') token
            (Some (VDict (import_payload auth n))) w' = (ir, w2)"
          by fastforce
        have "sent_log h' = sent_log h @ import_requests base_url auth n (succeeded ir)"
          using assms \<open>lr = Inr token\<close> c i
          by (auto simp: run import_requests_def succeeded_def raise_exn_def ret_def Let_def split: sum.splits pyval.splits if_splits prod.splits)
        with f Some l g c \<open>lr = Inr token\<close> resolve_safe [OF c(3)] show ?thesis
          by blast
      qed
    qed
  qed
qed

definition demo_codex :: "string \<Rightarrow> string \<Rightarrow> pyval" where
  "demo_codex n email =
     VDict [(VStr ''provider'', VStr ''codex''), (VStr ''name'', VStr n), (VStr ''email'', VStr email)]"

text \<open>A service with a connection of another account under the name that the import would choose first.\<close>

definition demo_accounts :: "unit service" where
  "demo_accounts =
     \<lparr>log_in = (\<lambda>_ w. (Inr ''token'', w)),
      answer = (\<lambda>meth url token payload w.
        (if meth = ''GET'' then Inr (VList [demo_codex ''cco-cl'' ''other@x.cl''])
         else Inr (VDict [(VStr ''connection'', VDict [(VStr ''id'', VStr ''i'')])]), w))\<rparr>"

definition demo_session :: pydict where
  "demo_session = [(VStr ''tokens'', VDict [(VStr ''id_token'', VStr ''a.b.c'')])]"

definition demo_claims :: "string \<Rightarrow> pyval option" where
  "demo_claims s = Some (VDict [(VStr ''email'', VStr ''Castocolina.CL@gmail.com'')])"

definition demo_import_host :: "unit host" where
  "demo_import_host =
     \<lparr>net = (), sent_log = [], json_files = (\<lambda>_. Json_file (VDict demo_session)), disk_error = (\<lambda>_ _ _. None)\<rparr>"

lemma demo_import_log:
  "sent_log (snd (import_codex_auth demo_accounts demo_claims ''u'' ''p'' ''f'' None demo_import_host))
   = import_requests ''u'' demo_session ''codex-castocolina-cl'' True"
  by code_simp

lemma demo_session_email: "codex_auth_email demo_claims demo_session = Some ''castocolina.cl@gmail.com''"
  by code_simp

theorem codex_import_keeps_accounts_apart_witness:
  "safe_name [demo_codex ''cco-cl'' ''other@x.cl''] ''castocolina.cl@gmail.com'' ''codex-castocolina-cl''"
proof -
  let ?run = "import_codex_auth demo_accounts demo_claims ''u'' ''p'' ''f'' None demo_import_host"
  have host: "json_files demo_import_host path = Json_file (VDict demo_session)" "sent_log demo_import_host = []" for path
    by (simp_all add: demo_import_host_def)
  have "\<not> sends is_get demo_import_host (snd ?run)"
    unfolding sends_def demo_import_log host by (simp add: import_requests_def)
  then obtain token w listing w' cs n ok where "log_in demo_accounts ''p'' (net demo_import_host) = (Inr token, w)"
    "answer demo_accounts ''GET'' (''u'' @ ''/api/providers'') token None w = (Inr listing, w')"
    "extract_providers listing = Inr cs" "safe_name cs ''castocolina.cl@gmail.com'' n"
    "import_requests ''u'' demo_session ''codex-castocolina-cl'' True = import_requests ''u'' demo_session n ok"
    using codex_import_keeps_accounts_apart [of demo_accounts demo_claims "''u''" "''p''" "''f''" None demo_import_host
        "fst ?run" "snd ?run"] unfolding host demo_import_log prod.collapse
    by (auto simp: demo_session_email)
  then show ?thesis
    by (auto simp: demo_accounts_def extract_providers_def import_requests_def import_payload_def)
qed

section \<open>The least window\<close>

lemma set_known: "set (known xs) = {x. Some x \<in> set xs}"
  unfolding known_def by (induction xs) (auto simp: List.map_filter_simps split: option.splits)

lemma least_None: "least xs = None \<longleftrightarrow> xs = []"
  by (simp add: least_def)

lemma least_Some: "least xs = Some k \<Longrightarrow> k \<in> set xs \<and> (\<forall>x \<in> set xs. k \<le> x)"
  by (auto simp: least_def split: if_splits)

lemma find_first:
  "find P xs = Some x \<Longrightarrow> \<exists>ys zs. xs = ys @ x # zs \<and> P x \<and> list_all (\<lambda>y. \<not> P y) ys"
proof (induction xs)
  case (Cons a xs)
  show ?case
  proof (cases "P a")
    case True
    then show ?thesis
      using Cons.prems by (intro exI [of _ "[]"] exI [of _ xs]) auto
  next
    case False
    then obtain ys zs where "xs = ys @ x # zs" "P x" "list_all (\<lambda>y. \<not> P y) ys"
      using Cons by auto
    then show ?thesis
      using False by (metis append_Cons list.pred_inject(2))
  qed
qed simp

lemma report_of_least:
  assumes "r = report_of n ms"
  shows "(\<forall>m \<in> set ms. \<forall>c. m_context m = Some c \<longrightarrow> (\<exists>k. r_min_context r = Some k \<and> k \<le> c))
    \<and> (\<forall>k. r_min_context r = Some k \<longrightarrow>
        (\<exists>ms1 m ms2. ms = ms1 @ m # ms2 \<and> m_context m = Some k \<and> r_limiting r = Some (member_name m)
           \<and> list_all (\<lambda>x. m_context x \<noteq> Some k) ms1))"
proof (intro conjI ballI allI impI)
  have r: "r_min_context r = least (known (map m_context ms))"
    by (simp add: assms report_of_def Let_def)
  fix m c
  assume "m \<in> set ms" "m_context m = Some c"
  then have "c \<in> set (known (map m_context ms))"
    by (force simp: set_known)
  moreover from this obtain k where "least (known (map m_context ms)) = Some k"
    using least_None [of "known (map m_context ms)"] by (cases "least (known (map m_context ms))") auto
  ultimately show "\<exists>k. r_min_context r = Some k \<and> k \<le> c"
    unfolding r by (auto dest: least_Some)
next
  fix k
  assume k: "r_min_context r = Some k"
  then have "Some k \<in> set (map m_context ms)"
    using least_Some [of "known (map m_context ms)" k] by (simp add: assms report_of_def Let_def set_known)
  then obtain m where m: "find (\<lambda>m. m_context m = Some k) ms = Some m"
    by (cases "find (\<lambda>m. m_context m = Some k) ms") (auto simp: find_None_iff)
  have "r_limiting r = Some (member_name m)"
    using k m by (simp add: assms report_of_def Let_def)
  then show "\<exists>ms1 m ms2. ms = ms1 @ m # ms2 \<and> m_context m = Some k \<and> r_limiting r = Some (member_name m)
      \<and> list_all (\<lambda>x. m_context x \<noteq> Some k) ms1"
    using find_first [OF m] by auto
qed

lemma report_sel: "r_combo (report_of n ms) = n" "r_members (report_of n ms) = ms"
  by (simp_all add: report_of_def Let_def)

lemma combo_row_report:
  "combo_row catalog limits only v = Inr (Some r) \<Longrightarrow> r = report_of (r_combo r) (r_members r)"
  by (auto simp: combo_row_def report_sel split: pyval.splits if_splits)

lemma compute_combo_context_rows:
  assumes "compute_combo_context sv base_url password only limits h = (Inr rs, h')" "r \<in> set rs"
  shows "r = report_of (r_combo r) (r_members r)"
proof -
  from assms(1) obtain entries combos rows where
    rows: "mapR (combo_row (foldl add_entry ([], []) entries) limits only) combos = Inr rows"
    and rs: "rs = List.map_filter (\<lambda>r. r) rows"
    by (auto simp: compute_combo_context_def bind_io_Inr Let_def split: if_splits)
  from assms(2) rs have "Some r \<in> set rows"
    by (auto simp: List.map_filter_def)
  from mapR_member [OF rows this] show ?thesis
    using combo_row_report by blast
qed

lemma compute_combo_context_reads:
  "keeps (sends is_get) (compute_combo_context sv base_url password only limits)"
  unfolding compute_combo_context_def Let_def
  by (intro sends.keeps_bind keeps_login keeps_request sends.keeps_ret; (simp split: if_split)?) (auto intro: sends.keeps_ret)

text \<open>
  The window reported for a combo is the least known window of its members, and the member
  named as limiting is the first in membership order that has it; the computation only reads.
\<close>

theorem combo_window_is_least:
  assumes "compute_combo_context sv base_url password only limits h = (Inr rs, h')" and "r \<in> set rs"
  shows "(\<forall>m \<in> set (r_members r). \<forall>c. m_context m = Some c \<longrightarrow> (\<exists>k. r_min_context r = Some k \<and> k \<le> c))
    \<and> (\<forall>k. r_min_context r = Some k \<longrightarrow>
        (\<exists>ms1 m ms2. r_members r = ms1 @ m # ms2 \<and> m_context m = Some k \<and> r_limiting r = Some (member_name m)
           \<and> list_all (\<lambda>x. m_context x \<noteq> Some k) ms1))
    \<and> sends is_get h h'"
proof -
  have "sends is_get h h'"
    using compute_combo_context_reads assms(1) unfolding keeps_def by (metis snd_conv)
  then show ?thesis
    using report_of_least [OF compute_combo_context_rows [OF assms]] by blast
qed


text \<open>A service that always answers the same catalog and combos.\<close>

definition demo_service :: "unit service" where
  "demo_service =
     \<lparr>log_in = (\<lambda>_ w. (Inr ''token'', w)),
      answer = (\<lambda>meth url token payload w.
        (if ends_with ''/v1/models'' url
         then Inr (VDict [(VStr ''data'', VList
                [VDict [(VStr ''root'', VStr ''glm''), (VStr ''context_length'', VInt 128000)]])])
         else Inr (VDict [(VStr ''combos'', VList
                [VDict [(VStr ''name'', VStr ''mix''), (VStr ''models'', VList
                   [VDict [(VStr ''kind'', VStr ''model''), (VStr ''providerId'', VStr ''codex''),
                           (VStr ''model'', VStr ''cx/gpt-5.6-sol-high'')],
                    VDict [(VStr ''kind'', VStr ''model''), (VStr ''providerId'', VStr ''zai''),
                           (VStr ''model'', VStr ''zai/glm'')]])]])]), w))\<rparr>"

definition demo_host :: "unit host" where
  "demo_host = \<lparr>net = (), sent_log = [], json_files = (\<lambda>_. No_file), disk_error = (\<lambda>_ _ _. None)\<rparr>"

definition demo_report :: combo_report where
  "demo_report = report_of ''mix''
     [\<lparr>m_provider = ''codex'', m_model = ''gpt-5.6-sol-high'', m_context = Some 1050000, m_output = None\<rparr>,
      \<lparr>m_provider = ''zai'', m_model = ''glm'', m_context = Some 128000, m_output = None\<rparr>]"

lemma demo_combo_run:
  "fst (compute_combo_context demo_service ''u'' ''p'' None None demo_host) = Inr [demo_report]"
  by code_simp

theorem combo_window_is_least_witness:
  "\<exists>h'. sends is_get demo_host h' \<and> r_min_context demo_report = Some 128000"
proof -
  obtain h' where "compute_combo_context demo_service ''u'' ''p'' None None demo_host = (Inr [demo_report], h')"
    using demo_combo_run by (metis prod.collapse)
  from combo_window_is_least [OF this, of demo_report] have "sends is_get demo_host h'"
    by simp
  moreover have "r_min_context demo_report = Some 128000"
    by code_simp
  ultimately show ?thesis
    by blast
qed

end
