(* ===== verification/Combos.thy ===== *)
theory Combos
  imports Omni_Models Projection
begin

text \<open>
  Backup and restore of OmniRoute combos and the local combo (\<open>pylib/omniroute_combos.py\<close>). The
  backup files are the JSON files of the host; \<open>now\<close> is the time stamp of a backup.
\<close>

section \<open>Backups\<close>

definition RESTORABLE_COMBO_FIELDS :: "string list" where
  "RESTORABLE_COMBO_FIELDS =
     [''name'', ''description'', ''models'', ''strategy'', ''config'', ''allowedProviders'', ''allowedModelFamilies'',
      ''system_message'', ''tool_filter_regex'', ''context_cache_protection'', ''context_length'', ''dimensions'']"

definition combo_payload :: "pydict \<Rightarrow> pydict" where
  "combo_payload combo =
     map (\<lambda>f. (VStr f, field_of combo f)) (filter (has_key combo) RESTORABLE_COMBO_FIELDS)"

definition backup_combos ::
  "'w service \<Rightarrow> string \<Rightarrow> string \<Rightarrow> string \<Rightarrow> string \<Rightarrow> ('w, string \<times> nat) io" where
  "backup_combos sv now base_url password path =
     bind_io (login sv password) (\<lambda>token.
     bind_io (request sv ''GET'' (base_url @ ''/api/combos'') token None) (\<lambda>payload.
     bind_io (lift (combo_list payload)) (\<lambda>combos.
     let saved = map combo_payload (List.map_filter dict_value combos) in
     bind_io (write_json path (VDict [(VStr ''backed_up_at'', VStr now), (VStr ''combos'', VList (map VDict saved))])) (\<lambda>_.
     ret (path, length saved)))))"

text \<open>A connection with a text provider, name and identifier.\<close>

definition connection_key :: "pyval \<Rightarrow> ((string \<times> string) \<times> string) option" where
  "connection_key c =
     (case c of
        VDict d \<Rightarrow>
          (case (field_of d ''provider'', field_of d ''name'', field_of d ''id'') of
             (VStr p, VStr n, VStr i) \<Rightarrow> Some ((p, n), i) | _ \<Rightarrow> None)
      | _ \<Rightarrow> None)"

definition connection_entry :: "(string \<times> string) \<times> string \<Rightarrow> pyval" where
  "connection_entry k =
     VDict [(VStr ''provider'', VStr (fst (fst k))), (VStr ''name'', VStr (snd (fst k))), (VStr ''id'', VStr (snd k))]"

definition backup_connections ::
  "'w service \<Rightarrow> string \<Rightarrow> string \<Rightarrow> string \<Rightarrow> string \<Rightarrow> ('w, string \<times> nat) io" where
  "backup_connections sv now base_url password path =
     bind_io (login sv password) (\<lambda>token.
     bind_io (request sv ''GET'' (base_url @ ''/api/providers'') token None) (\<lambda>listing.
     bind_io (lift (extract_providers listing)) (\<lambda>connections.
     let saved = map connection_entry (List.map_filter connection_key connections) in
     bind_io (write_json path (VDict [(VStr ''backed_up_at'', VStr now), (VStr ''connections'', VList saved)])) (\<lambda>_.
     ret (path, length saved)))))"

section \<open>Remapping connections\<close>

type_synonym connection_index = "(string \<times> string, string) dict"

record unresolved =
  u_provider :: string
  u_label :: string
  u_model :: string

definition live_id :: "connection_index \<Rightarrow> pydict \<Rightarrow> string option" where
  "live_id index m =
     (case (field_of m ''providerId'', field_of m ''label'') of
        (VStr p, VStr l) \<Rightarrow> dget index (p, l) | _ \<Rightarrow> None)"

definition remap_member ::
  "(pyval \<Rightarrow> string) \<Rightarrow> connection_index \<Rightarrow> pyval \<Rightarrow> pyval \<times> unresolved list" where
  "remap_member rep index v =
     (case v of
        VDict m \<Rightarrow>
          if \<not> truthy (field_of m ''connectionId'') then (v, [])
          else (case live_id index m of
            Some i \<Rightarrow> (VDict (vput ''connectionId'' (VStr i) m), [])
          | None \<Rightarrow> (VDict (vput ''connectionId'' VNone m),
              [\<lparr>u_provider = str_of rep (field_of m ''providerId''), u_label = str_of rep (field_of m ''label''),
                u_model = str_of rep (field_of m ''model'')\<rparr>]))
      | _ \<Rightarrow> (v, []))"

definition remap_combo_connection_ids ::
  "(pyval \<Rightarrow> string) \<Rightarrow> connection_index \<Rightarrow> pydict \<Rightarrow> (api_exn, pydict \<times> unresolved list) result" where
  "remap_combo_connection_ids rep index combo =
     (if \<not> has_key combo ''models'' then Inr (combo, [])
      else bindR (py (falsy_or_items (field_of combo ''models''))) (\<lambda>ms.
        Inr (vput ''models'' (VList (map (\<lambda>m. fst (remap_member rep index m)) ms)) combo,
             concat (map (\<lambda>m. snd (remap_member rep index m)) ms))))"

section \<open>Restoring\<close>

datatype action = Was_created | Was_updated | Was_skipped

record restored =
  restored_name :: pyval
  restored_action :: action
  restored_unresolved :: "unresolved list"

definition backup_file :: "json_file \<Rightarrow> (api_exn, pyval list) result" where
  "backup_file f =
     (case f of
        No_file \<Rightarrow> Inl Python_error
      | Not_decodable \<Rightarrow> Inl (Omni_error Bad_json_file)
      | Json_file (VDict d) \<Rightarrow>
          (case field_of d ''combos'' of VList cs \<Rightarrow> Inr cs | _ \<Rightarrow> Inl (Omni_error Bad_backup_file))
      | Json_file _ \<Rightarrow> Inl (Omni_error Bad_backup_file))"

text \<open>The mappings among the combos that have a name.\<close>

definition named_combos :: "pyval list \<Rightarrow> pydict list" where
  "named_combos cs = filter (\<lambda>d. has_key d ''name'') (List.map_filter dict_value cs)"

definition existing_by_name :: "pyval list \<Rightarrow> (api_exn, (pyval, pydict) dict) result" where
  "existing_by_name cs =
     bindR (mapR (\<lambda>d. bindR (py (hashable (field_of d ''name''))) (\<lambda>n. Inr (n, d))) (named_combos cs)) (\<lambda>ps.
     Inr (dict_of ps))"

definition connection_index_of :: "pyval list \<Rightarrow> connection_index" where
  "connection_index_of cs = dict_of (List.map_filter connection_key cs)"

definition the_id :: "pydict \<Rightarrow> (api_exn, pyval) result" where
  "the_id d = (case vget d ''id'' of None \<Rightarrow> Inl Python_error | Some i \<Rightarrow> Inr i)"

definition restore_one ::
  "'w service \<Rightarrow> (pyval \<Rightarrow> string) \<Rightarrow> string \<Rightarrow> string \<Rightarrow> bool \<Rightarrow> (pyval, pydict) dict \<Rightarrow> connection_index
   \<Rightarrow> pydict \<Rightarrow> ('w, restored) io" where
  "restore_one sv rep base_url token overwrite existing index combo =
     (let n = field_of combo ''name'' in
      bind_io (lift (remap_combo_connection_ids rep index combo)) (\<lambda>(remapped, lost).
      let payload = Some (VDict (combo_payload remapped));
          result = (\<lambda>a. \<lparr>restored_name = n, restored_action = a, restored_unresolved = lost\<rparr>) in
      bind_io (lift (py (hashable n))) (\<lambda>_.
      case dget existing n of
        None \<Rightarrow>
          bind_io (request sv ''POST'' (base_url @ ''/api/combos'') token payload) (\<lambda>_. ret (result Was_created))
      | Some current \<Rightarrow>
          if overwrite then
            bind_io (lift (the_id current)) (\<lambda>i.
            bind_io (request sv ''PUT'' (base_url @ ''/api/combos/'' @ str_of rep i) token payload) (\<lambda>_.
            ret (result Was_updated)))
          else ret (result Was_skipped))))"

definition restore_combos ::
  "'w service \<Rightarrow> (pyval \<Rightarrow> string) \<Rightarrow> string \<Rightarrow> string \<Rightarrow> string \<Rightarrow> bool \<Rightarrow> ('w, restored list) io" where
  "restore_combos sv rep base_url password path overwrite =
     bind_io (read_json path) (\<lambda>f.
     bind_io (lift (backup_file f)) (\<lambda>combos.
     bind_io (login sv password) (\<lambda>token.
     bind_io (request sv ''GET'' (base_url @ ''/api/combos'') token None) (\<lambda>payload.
     bind_io (lift (combo_list payload)) (\<lambda>listed.
     bind_io (lift (existing_by_name listed)) (\<lambda>existing.
     bind_io (request sv ''GET'' (base_url @ ''/api/providers'') token None) (\<lambda>listing.
     bind_io (lift (extract_providers listing)) (\<lambda>connections.
     for_each (restore_one sv rep base_url token overwrite existing (connection_index_of connections))
       (named_combos combos)))))))))"

section \<open>The local combo\<close>

definition LOCAL_COMBO_NAME :: string where "LOCAL_COMBO_NAME = ''my-coding-lite''"
definition MEMBER_KEYS :: "string list" where "MEMBER_KEYS = [''model'', ''providerId'', ''connectionId'', ''label'']"

definition dashes :: "string \<Rightarrow> string" where
  "dashes s = map (\<lambda>c. if c = CHR ''.'' then CHR ''-'' else c) s"

definition local_combo_payload :: "string \<Rightarrow> string \<Rightarrow> int \<Rightarrow> pydict" where
  "local_combo_payload alias connection_id context_length =
     [(VStr ''name'', VStr LOCAL_COMBO_NAME), (VStr ''strategy'', VStr ''priority''),
      (VStr ''models'', VList [VDict
        [(VStr ''id'', VStr (LOCAL_COMBO_NAME @ ''-model-1-llama-cpp-'' @ dashes alias @ ''-'' @ connection_id)),
         (VStr ''kind'', VStr ''model''), (VStr ''model'', VStr (''llama-cpp/'' @ alias)),
         (VStr ''providerId'', VStr ''llama-cpp''), (VStr ''connectionId'', VStr connection_id), (VStr ''weight'', VInt 0),
         (VStr ''label'', VStr ''llm-env-local'')]]),
      (VStr ''context_length'', VInt context_length)]"

definition member_keys :: "pydict \<Rightarrow> (api_exn, pyval list list) result" where
  "member_keys combo =
     bindR (py (falsy_or_items (field_of combo ''models''))) (\<lambda>ms.
     Inr (map (\<lambda>d. map (field_of d) MEMBER_KEYS) (List.map_filter dict_value ms)))"

definition combo_matches :: "pydict \<Rightarrow> pydict \<Rightarrow> (api_exn, bool) result" where
  "combo_matches existing desired =
     (if \<not> list_all (\<lambda>(k, v). py_eq (case dget existing k of None \<Rightarrow> VNone | Some w \<Rightarrow> w) v)
           (filter (\<lambda>p. fst p \<notin> {VStr ''name'', VStr ''models''}) desired)
      then Inr False
      else bindR (member_keys existing) (\<lambda>a. bindR (member_keys desired) (\<lambda>b.
        Inr (list_all2 (list_all2 py_eq) a b))))"

datatype local_action = Local_created | Local_updated | Local_unchanged | Local_skipped

definition find_local :: "pyval list \<Rightarrow> pydict option" where
  "find_local cs = find (\<lambda>d. field_of d ''name'' = VStr LOCAL_COMBO_NAME) (List.map_filter dict_value cs)"

definition local_connection :: "pyval list \<Rightarrow> (api_exn, string option) result" where
  "local_connection cs =
     bindR (find_connection CONNECTION_NAME cs) (\<lambda>c.
     Inr (case c of
            None \<Rightarrow> None
          | Some d \<Rightarrow> (case field_of d ''id'' of VStr i \<Rightarrow> if i = [] then None else Some i | _ \<Rightarrow> None)))"

definition ensure_local_combo ::
  "'w service \<Rightarrow> (pyval \<Rightarrow> string) \<Rightarrow> string \<Rightarrow> string \<Rightarrow> string \<Rightarrow> int \<Rightarrow> ('w, local_action) io" where
  "ensure_local_combo sv rep base_url password alias context_length =
     bind_io (login sv password) (\<lambda>token.
     bind_io (request sv ''GET'' (base_url @ ''/api/providers'') token None) (\<lambda>listing.
     bind_io (lift (bindR (extract_providers listing) local_connection)) (\<lambda>connection.
     case connection of
       None \<Rightarrow> ret Local_skipped
     | Some connection_id \<Rightarrow>
         let desired = local_combo_payload alias connection_id context_length in
         bind_io (request sv ''GET'' (base_url @ ''/api/combos'') token None) (\<lambda>payload.
         bind_io (lift (combo_list payload)) (\<lambda>combos.
         case find_local combos of
           None \<Rightarrow>
             bind_io (request sv ''POST'' (base_url @ ''/api/combos'') token (Some (VDict desired))) (\<lambda>_. ret Local_created)
         | Some existing \<Rightarrow>
             bind_io (lift (combo_matches existing desired)) (\<lambda>same.
             if same then ret Local_unchanged
             else
               bind_io (lift (the_id existing)) (\<lambda>i.
               bind_io (request sv ''PUT'' (base_url @ ''/api/combos/'' @ str_of rep i) token (Some (VDict desired))) (\<lambda>_.
               ret Local_updated))))))))"


section \<open>A restore never overwrites unasked\<close>

text \<open>What a restore may send: reads, new combos under names not listed, and updates when asked for.\<close>

fun restore_sends :: "bool \<Rightarrow> pyval list \<Rightarrow> sent \<Rightarrow> bool" where
  "restore_sends overwrite listed (Sent meth url payload ok) =
     (if meth = ''POST'' then
        (case payload of
           Some (VDict p) \<Rightarrow> field_of p ''name'' \<notin> set (map (\<lambda>d. field_of d ''name'') (named_combos listed))
         | _ \<Rightarrow> False)
      else if meth = ''PUT'' then overwrite
      else meth = ''GET'')"

lemma mapR_keys:
  "mapR (\<lambda>d. bindR (g d) (\<lambda>n. Inr (n, d))) xs = Inr ps \<Longrightarrow> (\<And>d n. g d = Inr n \<Longrightarrow> n = key d) \<Longrightarrow>
   keys ps = map key xs"
  by (induction xs arbitrary: ps) auto

lemma existing_by_name_keys:
  assumes "existing_by_name cs = Inr ex"
  shows "set (keys ex) = set (map (\<lambda>d. field_of d ''name'') (named_combos cs))"
proof -
  from assms obtain ps where
    ps: "mapR (\<lambda>d. bindR (py (hashable (field_of d ''name''))) (\<lambda>n. Inr (n, d))) (named_combos cs) = Inr ps"
    and ex: "ex = dict_of ps"
    by (auto simp: existing_by_name_def)
  have "py (hashable v) = Inr n \<longleftrightarrow> v = n \<and> \<not> is_list n \<and> \<not> is_dict n" for v n
    by (auto simp: py_def hashable_def)
  then have "keys ps = map (\<lambda>d. field_of d ''name'') (named_combos cs)"
    by (intro mapR_keys [OF ps]) simp
  then show ?thesis
    unfolding ex using set_keys_dict_of [of ps] by (metis set_map)
qed

lemma has_name_remapped:
  assumes "remap_combo_connection_ids rep index combo = Inr (c, lost)" "has_key combo ''name''"
  shows "field_of (combo_payload c) ''name'' = field_of combo ''name''"
proof -
  have same: "vget c ''name'' = vget combo ''name''"
    using assms(1) by (auto simp: remap_combo_connection_ids_def split: if_splits)
  then show ?thesis
    using assms(2) by (simp add: combo_payload_def RESTORABLE_COMBO_FIELDS_def field_of_def vget_or_def has_key_def vget_def)
qed

lemma keeps_restore_one:
  assumes "existing_by_name listed = Inr ex" "has_key combo ''name''"
  shows "keeps (sends (restore_sends overwrite listed)) (restore_one sv rep base_url token overwrite ex index combo)"
proof (cases "remap_combo_connection_ids rep index combo")
  case (Inl e)
  then show ?thesis
    by (auto simp: restore_one_def keeps_def bind_io_def lift_def sends_def Let_def)
next
  case (Inr r)
  obtain c lost where r: "r = (c, lost)"
    by (cases r)
  have named: "field_of (combo_payload c) ''name'' = field_of combo ''name''"
    using has_name_remapped assms(2) Inr r by blast
  have absent: "field_of combo ''name'' \<notin> set (map (\<lambda>d. field_of d ''name'') (named_combos listed))"
    if "dget ex (field_of combo ''name'') = None"
    using that existing_by_name_keys [OF assms(1)] unfolding in_keys_iff [symmetric] by (metis in_keys_iff)
  have post: "keeps (sends (restore_sends overwrite listed)) (request sv ''POST'' url token (Some (VDict (combo_payload c))))"
    if "dget ex (field_of combo ''name'') = None" for url
    by (rule keeps_request) (use absent [OF that] named in simp)
  have put: "keeps (sends (restore_sends overwrite listed)) (request sv ''PUT'' url token p)" if overwrite for url p
    by (rule keeps_request) (use that in simp)
  have lifted: "bind_io (lift (Inr x)) f = f x" for x :: "pydict \<times> unresolved list" and f :: "_ \<Rightarrow> ('b, restored) io"
    by (simp add: bind_io_def lift_def fun_eq_iff)
  show ?thesis
  proof (cases "dget ex (field_of combo ''name'')")
    case None
    show ?thesis
      unfolding restore_one_def Let_def Inr r lifted prod.case None option.case
      by (intro sends.keeps_bind sends.keeps_ret post [OF None])
  next
    case (Some d)
    show ?thesis
      unfolding restore_one_def Let_def Inr r lifted prod.case Some option.case
      by (intro sends.keeps_bind sends.keeps_ret keeps_if put)
  qed
qed

lemma keeps_for_each_in:
  "(\<And>x. x \<in> set xs \<Longrightarrow> keeps (sends P) (f x)) \<Longrightarrow> keeps (sends P) (for_each f xs)"
  by (induction xs) (auto intro!: sends.keeps_bind)

text \<open>
  C25: a restore first reads the combos of the service; then, whatever happens, it creates combos
  only under names that were not listed and sends an update only when overwriting was asked for.
\<close>

theorem restore_never_overwrites_unasked:
  assumes "restore_combos sv rep base_url password path overwrite h = (Inr results, h')"
  shows "\<exists>listed payload token w w'. answer sv ''GET'' (base_url @ ''/api/combos'') token None w = (Inr payload, w')
    \<and> combo_list payload = Inr listed \<and> sends (restore_sends overwrite listed) h h'"
proof -
  let ?P = "\<lambda>listed. sends (restore_sends overwrite listed)"
  from assms obtain token payload listed ex combos connections h1 h2 h3 h4 where
    login: "login sv password h = (Inr token, h1)"
    and first: "request sv ''GET'' (base_url @ ''/api/combos'') token None h1 = (Inr payload, h2)"
    and listed: "combo_list payload = Inr listed" and ex: "existing_by_name listed = Inr ex"
    and second: "request sv ''GET'' (base_url @ ''/api/providers'') token None h2 = (Inr connections, h3)"
    and loop: "for_each (restore_one sv rep base_url token overwrite ex h4) (named_combos combos) h3 = (Inr results, h')"
    by (auto simp: restore_combos_def bind_io_Inr read_json_def)
  have step: "?P listed a b" if "keeps (?P listed) m" "m a = (r, b)" for m :: "('a, 'c) io" and r a b
    using that unfolding keeps_def by (metis snd_conv)
  have get: "keeps (?P listed) (request sv ''GET'' url token None)" for url
    by (rule keeps_request) simp
  have each: "keeps (?P listed) (for_each (restore_one sv rep base_url token overwrite ex h4) (named_combos combos))"
    by (rule keeps_for_each_in) (auto simp: named_combos_def intro: keeps_restore_one [OF ex])
  have "?P listed h h'"
    using sends.trans step [OF keeps_login login] step [OF get first] step [OF get second] step [OF each loop] by metis
  moreover from first obtain w w' where "answer sv ''GET'' (base_url @ ''/api/combos'') token None w = (Inr payload, w')"
    by (auto simp: request_def split: prod.splits)
  ultimately show ?thesis
    using listed by blast
qed


definition demo_combo :: "string \<Rightarrow> pyval" where
  "demo_combo n = VDict [(VStr ''id'', VStr ''i1''), (VStr ''name'', VStr n), (VStr ''models'', VList [])]"

definition demo_combo_service :: "unit service" where
  "demo_combo_service =
     \<lparr>log_in = (\<lambda>_ w. (Inr ''token'', w)),
      answer = (\<lambda>meth url token payload w.
        (if meth = ''GET'' \<and> ends_with ''/api/combos'' url then Inr (VDict [(VStr ''combos'', VList [demo_combo ''mix''])])
         else if meth = ''GET'' then Inr (VList []) else Inr VNone, w))\<rparr>"

definition demo_backup_host :: "unit host" where
  "demo_backup_host = \<lparr>net = (), sent_log = [],
     json_files = (\<lambda>_. Json_file (VDict [(VStr ''combos'', VList [demo_combo ''mix'', demo_combo ''new''])])),
     disk_error = (\<lambda>_ _ _. None)\<rparr>"

definition demo_restored :: "string \<Rightarrow> action \<Rightarrow> restored" where
  "demo_restored n a = \<lparr>restored_name = VStr n, restored_action = a, restored_unresolved = []\<rparr>"

lemma demo_restore:
  "fst (restore_combos demo_combo_service (\<lambda>_. []) ''u'' ''p'' ''f'' False demo_backup_host)
   = Inr [demo_restored ''mix'' Was_skipped, demo_restored ''new'' Was_created]"
  by code_simp

theorem restore_never_overwrites_unasked_witness:
  "\<exists>listed payload token w w' h'. answer demo_combo_service ''GET'' (''u'' @ ''/api/combos'') token None w = (Inr payload, w')
    \<and> combo_list payload = Inr listed \<and> sends (restore_sends False listed) demo_backup_host h'"
proof -
  obtain h' where "restore_combos demo_combo_service (\<lambda>_. []) ''u'' ''p'' ''f'' False demo_backup_host
      = (Inr [demo_restored ''mix'' Was_skipped, demo_restored ''new'' Was_created], h')"
    using demo_restore by (metis prod.collapse)
  from restore_never_overwrites_unasked [OF this] show ?thesis
    by blast
qed

section \<open>The local combo settles\<close>

definition merged :: "pydict \<Rightarrow> pydict \<Rightarrow> pydict" where
  "merged d p = foldl (\<lambda>e kv. dput (fst kv) (snd kv) e) d p"

text \<open>
  What the service documents: it lists the providers and the combos it holds, a create appends the payload
  with further keys, an update merges the payload into the combo of that identifier.
\<close>

definition combo_store ::
  "'w service \<Rightarrow> (pyval \<Rightarrow> string) \<Rightarrow> string \<Rightarrow> ('w \<Rightarrow> pydict list) \<Rightarrow> ('w \<Rightarrow> pyval) \<Rightarrow> bool" where
  "combo_store sv rep base view provs \<longleftrightarrow>
     (\<forall>pw w. \<exists>t. log_in sv pw w = (Inr t, w))
     \<and> (\<forall>t w. answer sv ''GET'' (base @ ''/api/providers'') t None w = (Inr (provs w), w))
     \<and> (\<forall>t w. answer sv ''GET'' (base @ ''/api/combos'') t None w
          = (Inr (VDict [(VStr ''combos'', VList (map VDict (view w)))]), w))
     \<and> (\<forall>t w p. \<exists>v w' extra. answer sv ''POST'' (base @ ''/api/combos'') t (Some (VDict p)) w = (Inr v, w')
          \<and> view w' = view w @ [p @ extra] \<and> provs w' = provs w)
     \<and> (\<forall>t w p i. \<exists>v w'. answer sv ''PUT'' (base @ ''/api/combos/'' @ str_of rep i) t (Some (VDict p)) w = (Inr v, w')
          \<and> view w' = map (\<lambda>d. if str_of rep (field_of d ''id'') = str_of rep i then merged d p else d) (view w)
          \<and> provs w' = provs w)"

lemma dget_merged: "distinct (keys p) \<Longrightarrow> dget (merged d p) k = (case dget p k of Some v \<Rightarrow> Some v | None \<Rightarrow> dget d k)"
  unfolding merged_def
proof (induction p arbitrary: d)
  case (Cons a p)
  have "dget p (fst a) = None"
    using Cons.prems by (simp add: map_of_eq_None_iff)
  moreover have "distinct (keys p)"
    using Cons.prems by simp
  ultimately show ?case
    by (cases a) (auto simp: Cons.IH split: option.split)
qed simp

definition agrees :: "pydict \<Rightarrow> pydict \<Rightarrow> bool" where
  "agrees d p \<longleftrightarrow> (\<forall>k v. dget p k = Some v \<longrightarrow> dget d k = Some v)"

lemma agrees_merged: "distinct (keys p) \<Longrightarrow> agrees (merged d p) p"
  by (simp add: agrees_def dget_merged)

lemma agrees_append: "agrees (p @ extra) p"
  by (simp add: agrees_def map_add_def)

lemma distinct_local_combo: "distinct (keys (local_combo_payload alias cid n))"
  by (simp add: local_combo_payload_def)

lemma list_all2_refl_in: "(\<And>x. x \<in> set xs \<Longrightarrow> P x x) \<Longrightarrow> list_all2 P xs xs"
  by (induction xs) auto

lemma agrees_local:
  assumes "agrees d (local_combo_payload alias cid n)"
  shows "field_of d ''name'' = VStr LOCAL_COMBO_NAME" "combo_matches d (local_combo_payload alias cid n) = Inr True"
proof -
  let ?p = "local_combo_payload alias cid n"
  have look: "dget d (VStr k) = Some v" if "dget ?p (VStr k) = Some v" for k v
    using assms that by (simp add: agrees_def)
  show "field_of d ''name'' = VStr LOCAL_COMBO_NAME"
    using look [of "''name''"] by (simp add: local_combo_payload_def field_of_def vget_or_def vget_def)
  have "py (falsy_or_items (field_of d ''models'')) = py (falsy_or_items (field_of ?p ''models''))"
    using look [of "''models''"] by (simp add: local_combo_payload_def field_of_def vget_or_def vget_def)
  then have members: "member_keys d = member_keys ?p"
    by (simp add: member_keys_def)
  obtain a where a: "member_keys ?p = Inr a" "list_all (list_all proper) a"
    by (simp add: member_keys_def local_combo_payload_def MEMBER_KEYS_def field_of_def vget_or_def vget_def
        falsy_or_items_def py_def List.map_filter_simps)
  have "list_all2 (list_all2 py_eq) a a"
    using a(2) py_eq_refl by (auto simp: list_all_iff intro!: list_all2_refl_in)
  moreover have "list_all (\<lambda>(k, v). py_eq (case dget d k of None \<Rightarrow> VNone | Some w \<Rightarrow> w) v)
      (filter (\<lambda>p. fst p \<notin> {VStr ''name'', VStr ''models''}) ?p)"
    using look [of "''strategy''"] look [of "''context_length''"] by (simp add: local_combo_payload_def)
  ultimately show "combo_matches d ?p = Inr True"
    unfolding combo_matches_def members a(1) by simp
qed

lemma find_snoc: "find P xs = None \<Longrightarrow> P x \<Longrightarrow> find P (xs @ [x]) = Some x"
  by (induction xs) (auto split: if_splits)

lemma find_after_update:
  assumes "find P xs = Some d" "Q d" "\<And>x. Q x \<Longrightarrow> P (g x) \<and> R (g x)"
  shows "\<exists>e. find P (map (\<lambda>x. if Q x then g x else x) xs) = Some e \<and> R e"
  using assms by (induction xs) (auto split: if_splits)


lemma find_local_list: "find_local (map VDict ds) = find (\<lambda>d. field_of d ''name'' = VStr LOCAL_COMBO_NAME) ds"
proof -
  have "List.map_filter dict_value (map VDict ds) = ds"
    by (induction ds) (simp_all add: List.map_filter_simps)
  then show ?thesis
    by (simp add: find_local_def)
qed

lemma ensure_when_settled:
  assumes store: "combo_store sv rep base view provs"
    and conn: "bindR (extract_providers (provs (net h))) local_connection = Inr (Some cid)"
    and found: "find (\<lambda>d. field_of d ''name'' = VStr LOCAL_COMBO_NAME) (view (net h)) = Some d"
    and same: "combo_matches d (local_combo_payload alias cid n) = Inr True"
  shows "\<exists>h2. ensure_local_combo sv rep base pw alias n h = (Inr Local_unchanged, h2) \<and> sends is_get h h2"
proof -
  obtain t where t: "log_in sv pw (net h) = (Inr t, net h)"
    using store unfolding combo_store_def by blast
  have provs: "answer sv ''GET'' (base @ ''/api/providers'') t None (net h) = (Inr (provs (net h)), net h)"
    and combos: "answer sv ''GET'' (base @ ''/api/combos'') t None (net h)
      = (Inr (VDict [(VStr ''combos'', VList (map VDict (view (net h))))]), net h)"
    using store unfolding combo_store_def by blast+
  have listed: "combo_list (VDict [(VStr ''combos'', VList (map VDict (view (net h))))]) = Inr (map VDict (view (net h)))"
    by (simp add: combo_list_def field_of_def vget_or_def vget_def)
  show ?thesis
    by (simp add: ensure_local_combo_def bind_io_def login_def t request_def provs combos lift_def conn listed
        find_local_list found same ret_def Let_def sends_def succeeded_def)
qed

text \<open>
  C26: the tool settles: on a service that keeps its combos, once the local combo was created,
  updated or found unchanged, the next run finds it unchanged and only reads.
\<close>

theorem ensure_local_combo_settles:
  assumes store: "combo_store sv rep base view provs"
    and run: "ensure_local_combo sv rep base pw alias n h = (Inr a, h1)" and act: "a \<noteq> Local_skipped"
  shows "\<exists>h2. ensure_local_combo sv rep base pw alias n h1 = (Inr Local_unchanged, h2) \<and> sends is_get h1 h2"
proof -
  let ?P = "\<lambda>d. field_of d ''name'' = VStr LOCAL_COMBO_NAME"
  obtain t where t: "log_in sv pw (net h) = (Inr t, net h)"
    using store unfolding combo_store_def by blast
  have provs: "answer sv ''GET'' (base @ ''/api/providers'') t None (net h) = (Inr (provs (net h)), net h)"
    and combos: "answer sv ''GET'' (base @ ''/api/combos'') t None (net h)
      = (Inr (VDict [(VStr ''combos'', VList (map VDict (view (net h))))]), net h)"
    using store unfolding combo_store_def by blast+
  have listed: "combo_list (VDict [(VStr ''combos'', VList (map VDict (view (net h))))]) = Inr (map VDict (view (net h)))"
    by (simp add: combo_list_def field_of_def vget_or_def vget_def)
  note eval = ensure_local_combo_def bind_io_def login_def t request_def provs combos lift_def listed
        find_local_list ret_def Let_def raise_exn_def
  obtain cid where conn: "bindR (extract_providers (provs (net h))) local_connection = Inr (Some cid)"
    using run act by (auto simp: eval split: sum.splits option.splits)
  let ?p = "local_combo_payload alias cid n"
  have "\<exists>d. find ?P (view (net h1)) = Some d \<and> combo_matches d ?p = Inr True \<and> provs (net h1) = provs (net h)"
  proof (cases "find ?P (view (net h))")
    case None
    obtain v w' extra where post: "answer sv ''POST'' (base @ ''/api/combos'') t (Some (VDict ?p)) (net h) = (Inr v, w')"
        "view w' = view (net h) @ [?p @ extra]" "provs w' = provs (net h)"
      using store unfolding combo_store_def by metis
    have "net h1 = w'"
      using run conn None post(1) by (simp add: eval) auto
    moreover have "find ?P (view (net h) @ [?p @ extra]) = Some (?p @ extra)"
      using None agrees_local(1) [OF agrees_append] by (intro find_snoc) auto
    ultimately show ?thesis
      using post agrees_local(2) [OF agrees_append] by auto
  next
    case (Some d)
    show ?thesis
    proof (cases "combo_matches d ?p = Inr True")
      case True
      then show ?thesis
        using run conn Some by (auto simp: eval)
    next
      case False
      then obtain i where i: "combo_matches d ?p = Inr False" "the_id d = Inr i"
        using run conn Some act by (auto simp: eval split: sum.splits if_splits)
      obtain v w' where put: "answer sv ''PUT'' (base @ ''/api/combos/'' @ str_of rep i) t (Some (VDict ?p)) (net h) = (Inr v, w')"
          "view w' = map (\<lambda>d. if str_of rep (field_of d ''id'') = str_of rep i then merged d ?p else d) (view (net h))"
          "provs w' = provs (net h)"
        using store unfolding combo_store_def by metis
      have h1: "net h1 = w'"
        using run conn Some i put(1) by (auto simp: eval)
      have "field_of d ''id'' = i"
        using i(2) by (auto simp: the_id_def field_of_def vget_or_def split: option.splits)
      then obtain e where "find ?P (view w') = Some e" "agrees e ?p"
        unfolding put(2) using find_after_update [OF Some, of "\<lambda>d. str_of rep (field_of d ''id'') = str_of rep i"
            "\<lambda>d. merged d ?p" "\<lambda>e. agrees e ?p"] agrees_merged [OF distinct_local_combo] agrees_local(1) by blast
      then show ?thesis
        using h1 put(3) agrees_local(2) by auto
    qed
  qed
  then show ?thesis
    using ensure_when_settled [OF store] conn by metis
qed


text \<open>A store of combos: the state is the list itself.\<close>

definition demo_store :: "pydict list service" where
  "demo_store =
     \<lparr>log_in = (\<lambda>_ w. (Inr ''token'', w)),
      answer = (\<lambda>meth url token payload w.
        case payload of
          Some (VDict p) \<Rightarrow>
            if meth = ''POST'' then (Inr VNone, w @ [p @ [(VStr ''id'', VStr ''i'')]])
            else (Inr VNone, map (\<lambda>d. if ''u/api/combos/'' @ str_of (\<lambda>_. []) (field_of d ''id'') = url then merged d p else d) w)
        | _ \<Rightarrow>
            if ends_with ''/api/combos'' url then (Inr (VDict [(VStr ''combos'', VList (map VDict w))]), w)
            else (Inr (VList [VDict [(VStr ''name'', VStr CONNECTION_NAME), (VStr ''id'', VStr ''c'')]]), w))\<rparr>"

lemma demo_store_keeps:
  "combo_store demo_store (\<lambda>_. []) ''u'' (\<lambda>w. w)
     (\<lambda>w. VList [VDict [(VStr ''name'', VStr CONNECTION_NAME), (VStr ''id'', VStr ''c'')]])"
  by (simp add: combo_store_def demo_store_def ends_with_def starts_with_def)

definition demo_store_host :: "pydict list host" where
  "demo_store_host = \<lparr>net = [[(VStr ''name'', VStr LOCAL_COMBO_NAME), (VStr ''id'', VStr ''i'')]], sent_log = [],
     json_files = (\<lambda>_. No_file), disk_error = (\<lambda>_ _ _. None)\<rparr>"

lemma demo_ensure:
  "fst (ensure_local_combo demo_store (\<lambda>_. []) ''u'' ''p'' ''qwen3.5'' 4096 demo_store_host) = Inr Local_updated"
  by code_simp

theorem ensure_local_combo_settles_witness:
  "\<exists>h1 h2. ensure_local_combo demo_store (\<lambda>_. []) ''u'' ''p'' ''qwen3.5'' 4096 demo_store_host = (Inr Local_updated, h1)
     \<and> ensure_local_combo demo_store (\<lambda>_. []) ''u'' ''p'' ''qwen3.5'' 4096 h1 = (Inr Local_unchanged, h2) \<and> sends is_get h1 h2"
proof -
  obtain h1 where "ensure_local_combo demo_store (\<lambda>_. []) ''u'' ''p'' ''qwen3.5'' 4096 demo_store_host = (Inr Local_updated, h1)"
    using demo_ensure by (metis prod.collapse)
  with ensure_local_combo_settles [OF demo_store_keeps this] show ?thesis
    by auto
qed

end
