(* ===== verification/Zai_Reset.thy ===== *)
theory Zai_Reset
  imports Omni_Api
begin

text \<open>
  The weekly quota reset (\<open>pylib/zai_reset.py\<close>): one pass over the z.ai connections, which spends a
  reset card at most once per weekly window. The state file is a JSON file of the host; a pass reads it
  once and writes it after every successful redeem; a write that fails raises after the card is spent.
\<close>

section \<open>Reading usage and cards\<close>

definition ZAI_PROVIDERS :: "string list" where "ZAI_PROVIDERS = [''zai'', ''glm'', ''glm-cn'', ''glmt'']"
definition THRESHOLD_PERCENT :: int where "THRESHOLD_PERCENT = 99"
definition CARD_TYPE :: string where "CARD_TYPE = ''WEEK''"

text \<open>\<open>float(v)\<close> of a number, \<open>bool\<close> included.\<close>

fun float_value :: "pyval \<Rightarrow> pyfloat option" where
  "float_value (VInt n) = Some (Fin (fl (of_int n)))"
| "float_value (VBool b) = Some (Fin (if b then 1 else 0))"
| "float_value (VFloat f) = Some f"
| "float_value _ = None"

fun positive :: "pyfloat \<Rightarrow> bool" where
  "positive (Fin x) = (0 < x)"
| "positive PosInf = True"
| "positive _ = False"

definition weekly :: "pyval \<Rightarrow> (pyfloat \<times> pyfloat \<times> string) option" where
  "weekly usage =
     (case usage of
        VDict u \<Rightarrow>
          (case field_of u ''quotas'' of
             VDict q \<Rightarrow>
               (case field_of q ''weekly'' of
                  VDict w \<Rightarrow>
                    (case (float_value (field_of w ''used''), float_value (field_of w ''total'')) of
                       (Some used, Some tot) \<Rightarrow>
                         if positive tot
                         then Some (used, tot, case field_of w ''resetAt'' of VStr s \<Rightarrow> s | _ \<Rightarrow> []) else None
                     | _ \<Rightarrow> None)
                | _ \<Rightarrow> None)
           | _ \<Rightarrow> None)
      | _ \<Rightarrow> None)"

text \<open>\<open>100 * used / total\<close> for a positive total, and \<open>round(x, 1)\<close>.\<close>

fun percent_used :: "pyfloat \<Rightarrow> pyfloat \<Rightarrow> pyfloat" where
  "percent_used (Fin u) (Fin t) = Fin (fl (fl (100 * u) / t))"
| "percent_used (Fin u) PosInf = Fin 0"
| "percent_used PosInf (Fin t) = PosInf"
| "percent_used NegInf (Fin t) = NegInf"
| "percent_used _ _ = NaN"

fun round1 :: "pyfloat \<Rightarrow> pyfloat" where
  "round1 (Fin x) = Fin (fl (of_int (round_half_even (10 * x)) / 10))"
| "round1 f = f"

fun below :: "pyfloat \<Rightarrow> int \<Rightarrow> bool" where
  "below (Fin x) n = (x < of_int n)"
| "below NegInf n = True"
| "below _ n = False"

definition usable_card :: "pyval \<Rightarrow> pydict option" where
  "usable_card c =
     (case c of
        VDict d \<Rightarrow> if field_of d ''resetType'' = VStr CARD_TYPE \<and> truthy (field_of d ''selectionToken'') then Some d else None
      | _ \<Rightarrow> None)"

definition week_card :: "(pyval \<Rightarrow> string) \<Rightarrow> pyval \<Rightarrow> (api_exn, pydict option) result" where
  "week_card rep cards =
     bindR (case cards of VDict d \<Rightarrow> py (falsy_or_items (field_of d ''credits'')) | _ \<Rightarrow> Inr []) (\<lambda>credits.
     Inr (min_by (\<lambda>c. str_of rep (field_of c ''expiresAt'')) (List.map_filter usable_card credits)))"

text \<open>
  The percentage is rounded before it is compared: 3167 of 3200 units are less than 99 percent and
  still reach the threshold.
\<close>

lemma redeems_below_threshold:
  "(100::rat) * 3167 / 3200 < of_int THRESHOLD_PERCENT
   \<and> \<not> below (round1 (percent_used (Fin 3167) (Fin 3200))) THRESHOLD_PERCENT"
proof -
  have "\<lfloor>15835 / 16 :: rat\<rfloor> = 989"
    by (simp add: floor_eq_iff)
  then have r: "round_half_even (15835 / 16) = 990"
    by (simp add: round_half_even_def Let_def)
  have f: "fl (316700 :: rat) = 316700" "fl (99 :: rat) = 99" "fl (3167 / 32 :: rat) = 3167 / 32"
    using fl_int [of 316700] fl_int [of 99] fl_exact [of 3167 "-5"] by (simp_all add: power_int_minus)
  show ?thesis
    by (simp add: THRESHOLD_PERCENT_def f r)
qed

section \<open>One connection\<close>

datatype outcome =
    No_weekly_quota | Below_threshold pyfloat string | Already_redeemed pyfloat string | No_week_card pyfloat string
  | Would_redeem pyfloat string pyval | Redeem_failed api_problem | Redeemed pyfloat string

type_synonym reset_state = pydict

definition redeem_key :: "(pyval \<Rightarrow> string) \<Rightarrow> pyval \<Rightarrow> string \<Rightarrow> string" where
  "redeem_key rep cid window = ''llm-env-zai-reset:'' @ str_of rep cid @ '':'' @ window"

definition redeem_payload :: "(pyval \<Rightarrow> string) \<Rightarrow> pyval \<Rightarrow> string \<Rightarrow> pydict \<Rightarrow> pydict" where
  "redeem_payload rep cid window crd =
     [(VStr ''connectionId'', cid), (VStr ''idempotencyKey'', VStr (redeem_key rep cid window)),
      (VStr ''creditId'', field_of crd ''selectionToken'')]"

text \<open>\<open>state.get(cid, {}).get("window") == window\<close>.\<close>

definition recorded_window :: "reset_state \<Rightarrow> pyval \<Rightarrow> (api_exn, pyval) result" where
  "recorded_window st cid =
     bindR (py (hashable cid)) (\<lambda>_.
     case dget st cid of
       None \<Rightarrow> Inr VNone
     | Some v \<Rightarrow> bindR (py (as_dict v)) (\<lambda>d. Inr (field_of d ''window'')))"

text \<open>The keys \<open>json.dump\<close> writes: every key becomes a text.\<close>

fun json_key :: "(pyval \<Rightarrow> string) \<Rightarrow> pyval \<Rightarrow> pyval" where
  "json_key rep (VBool b) = VStr (if b then ''true'' else ''false'')"
| "json_key rep VNone = VStr ''null''"
| "json_key rep v = VStr (str_of rep v)"

definition written :: "(pyval \<Rightarrow> string) \<Rightarrow> reset_state \<Rightarrow> pyval" where
  "written rep st = VDict (dict_of (map (\<lambda>p. (json_key rep (fst p), snd p)) st))"

definition redeem ::
  "'w service \<Rightarrow> (pyval \<Rightarrow> string) \<Rightarrow> string \<Rightarrow> string \<Rightarrow> string \<Rightarrow> string \<Rightarrow> reset_state \<Rightarrow> pyval \<Rightarrow> pyfloat
   \<Rightarrow> string \<Rightarrow> pydict \<Rightarrow> ('w, outcome \<times> reset_state) io" where
  "redeem sv rep now base_url token path st cid percent window crd =
     bind_io (catch_omni
       (bind_io (request sv ''POST'' (base_url @ ''/api/usage/glm-reset-card'') token
                   (Some (VDict (redeem_payload rep cid window crd)))) (\<lambda>_. ret None))
       (\<lambda>p. ret (Some p))) (\<lambda>failed.
       case failed of
         Some p \<Rightarrow> ret (Redeem_failed p, st)
       | None \<Rightarrow>
           bind_io (lift (py (hashable cid))) (\<lambda>_.
           let st' = dput cid (VDict [(VStr ''window'', VStr window), (VStr ''redeemed_at'', VStr now)]) st in
           bind_io (replace_json path (written rep st')) (\<lambda>_. ret (Redeemed percent window, st'))))"

definition check_connection ::
  "'w service \<Rightarrow> (pyval \<Rightarrow> string) \<Rightarrow> string \<Rightarrow> string \<Rightarrow> string \<Rightarrow> string \<Rightarrow> bool \<Rightarrow> reset_state \<Rightarrow> pyval
   \<Rightarrow> ('w, outcome \<times> reset_state) io" where
  "check_connection sv rep now base_url token path dry_run st cid =
     bind_io (request sv ''GET'' (base_url @ ''/api/usage/'' @ str_of rep cid) token None) (\<lambda>usage.
     case weekly usage of
       None \<Rightarrow> ret (No_weekly_quota, st)
     | Some (used, tot, window) \<Rightarrow>
         let percent = round1 (percent_used used tot) in
         if below percent THRESHOLD_PERCENT then ret (Below_threshold percent window, st)
         else bind_io (if window = [] then ret False
                       else bind_io (lift (recorded_window st cid)) (\<lambda>w. ret (w = VStr window))) (\<lambda>done.
         if done then ret (Already_redeemed percent window, st)
         else bind_io (request sv ''GET'' (base_url @ ''/api/usage/glm-reset-card?connectionId='' @ str_of rep cid)
                         token None) (\<lambda>cards.
         bind_io (lift (week_card rep cards)) (\<lambda>found.
         case found of
           None \<Rightarrow> ret (No_week_card percent window, st)
         | Some c \<Rightarrow>
             if dry_run then ret (Would_redeem percent window (field_of c ''expiresAt''), st)
             else redeem sv rep now base_url token path st cid percent window c))))"


section \<open>One pass\<close>

definition is_active_zai :: "pydict \<Rightarrow> bool" where
  "is_active_zai d \<longleftrightarrow>
     field_of d ''provider'' \<in> set (map VStr ZAI_PROVIDERS) \<and> truthy (field_of d ''isActive'') \<and> truthy (field_of d ''id'')"

definition active_connections :: "pyval list \<Rightarrow> (api_exn, pydict list) result" where
  "active_connections cs = bindR (mapR (\<lambda>c. py (as_dict c)) cs) (\<lambda>ds. Inr (filter is_active_zai ds))"

definition read_state :: "json_file \<Rightarrow> reset_state" where
  "read_state f = (case f of Json_file (VDict d) \<Rightarrow> d | _ \<Rightarrow> [])"

definition connection_name :: "pydict \<Rightarrow> pyval" where
  "connection_name d = (let n = field_of d ''name'' in if truthy n then n else field_of d ''id'')"

definition check_one ::
  "'w service \<Rightarrow> (pyval \<Rightarrow> string) \<Rightarrow> string \<Rightarrow> string \<Rightarrow> string \<Rightarrow> string \<Rightarrow> bool
   \<Rightarrow> (pyval \<times> outcome) list \<times> reset_state \<Rightarrow> pydict \<Rightarrow> ('w, (pyval \<times> outcome) list \<times> reset_state) io" where
  "check_one sv rep now base_url token path dry_run acc d =
     bind_io (catch_omni (check_connection sv rep now base_url token path dry_run (snd acc) (field_of d ''id''))
        (\<lambda>p. ret (Redeem_failed p, snd acc))) (\<lambda>(out, st).
     ret (fst acc @ [(connection_name d, out)], st))"

definition check_pass ::
  "'w service \<Rightarrow> (pyval \<Rightarrow> string) \<Rightarrow> string \<Rightarrow> string \<Rightarrow> string \<Rightarrow> string \<Rightarrow> bool \<Rightarrow> ('w, (pyval \<times> outcome) list) io" where
  "check_pass sv rep now base_url password path dry_run =
     bind_io (login sv password) (\<lambda>token.
     bind_io (request sv ''GET'' (base_url @ ''/api/providers'') token None) (\<lambda>listing.
     bind_io (lift (extract_providers listing)) (\<lambda>cs.
     bind_io (lift (active_connections cs)) (\<lambda>connections.
     bind_io (read_json path) (\<lambda>f.
     bind_io (fold_io (check_one sv rep now base_url token path dry_run) ([], read_state f) connections) (\<lambda>acc.
     ret (fst acc)))))))"


section \<open>The ledger of spent cards\<close>

text \<open>The redeems the service confirmed, as connection and idempotency key.\<close>

definition redeem_of :: "sent \<Rightarrow> (string \<times> string) option" where
  "redeem_of s =
     (case s of
        Sent meth url (Some (VDict p)) True \<Rightarrow>
          (case (field_of p ''connectionId'', field_of p ''idempotencyKey'') of
             (VStr c, VStr k) \<Rightarrow> if meth = ''POST'' then Some (c, k) else None
           | _ \<Rightarrow> None)
      | _ \<Rightarrow> None)"

definition redeem_keys :: "string \<Rightarrow> sent list \<Rightarrow> string list" where
  "redeem_keys c lg = map snd (filter (\<lambda>p. fst p = c) (List.map_filter redeem_of lg))"

definition key_text :: "string \<Rightarrow> string \<Rightarrow> string" where
  "key_text c window = ''llm-env-zai-reset:'' @ c @ '':'' @ window"

definition text_keys :: "reset_state \<Rightarrow> bool" where
  "text_keys st \<longleftrightarrow> distinct (keys st) \<and> list_all is_str (keys st)"

definition records :: "reset_state \<Rightarrow> string \<Rightarrow> string \<Rightarrow> bool" where
  "records st c window \<longleftrightarrow> (\<exists>d. dget st (VStr c) = Some (VDict d) \<and> field_of d ''window'' = VStr window)"

text \<open>
  The state records the window of the last confirmed redeem of every connection, and no two
  consecutive redeems of a connection are for the same known window.
\<close>

definition ledger_ok :: "reset_state \<Rightarrow> sent list \<Rightarrow> bool" where
  "ledger_ok st lg \<longleftrightarrow>
     text_keys st
     \<and> (\<forall>c w. w \<noteq> [] \<and> redeem_keys c lg \<noteq> [] \<and> last (redeem_keys c lg) = key_text c w \<longrightarrow> records st c w)
     \<and> (\<forall>c. successively (\<lambda>a b. a \<noteq> b \<or> a = key_text c []) (redeem_keys c lg))"

lemma redeem_keys_append: "redeem_keys c (xs @ ys) = redeem_keys c xs @ redeem_keys c ys"
  by (simp add: redeem_keys_def List.map_filter_def)

lemma redeem_keys_single:
  "redeem_keys c [s] = (case redeem_of s of None \<Rightarrow> [] | Some (c', k) \<Rightarrow> if c = c' then [k] else [])"
  by (auto simp: redeem_keys_def List.map_filter_simps split: option.split)

lemma redeem_keys_other: "redeem_of s = None \<Longrightarrow> redeem_keys c (lg @ [s]) = redeem_keys c lg"
  by (simp add: redeem_keys_append redeem_keys_single)

lemma redeem_keys_redeem:
  "redeem_of s = Some (c', k) \<Longrightarrow> redeem_keys c (lg @ [s]) = redeem_keys c lg @ (if c = c' then [k] else [])"
  by (simp add: redeem_keys_append redeem_keys_single)

lemma ledger_ok_other: "redeem_of s = None \<Longrightarrow> ledger_ok st (lg @ [s]) = ledger_ok st lg"
  by (simp add: ledger_ok_def redeem_keys_other)

lemma redeem_of_get [simp]: "redeem_of (Sent ''GET'' url p ok) = None"
  by (auto simp: redeem_of_def split: option.splits pyval.splits bool.splits)

lemma redeem_of_failed [simp]: "redeem_of (Sent meth url p False) = None"
  by (simp add: redeem_of_def split: option.splits pyval.splits)

lemma redeem_of_post:
  "redeem_of (Sent ''POST'' url (Some (VDict (redeem_payload rep (VStr c) w crd))) True) = Some (c, key_text c w)"
  by (simp add: redeem_of_def redeem_payload_def redeem_key_def key_text_def field_of_def vget_or_def vget_def)

lemma key_text_inj: "key_text c w = key_text c w' \<longleftrightarrow> w = w'"
  by (simp add: key_text_def)

lemma dict_of_map_id: "distinct (keys st) \<Longrightarrow> dict_of st = st"
  by (rule dict_of_distinct)

lemma written_text:
  assumes "text_keys st"
  shows "written rep st = VDict st"
proof -
  have "map (\<lambda>p. (json_key rep (fst p), snd p)) st = st"
  proof (rule map_idI)
    fix p
    assume "p \<in> set st"
    then have "is_str (fst p)"
      using assms by (auto simp: text_keys_def list_all_iff)
    then show "(json_key rep (fst p), snd p) = p"
      by (cases p; cases "fst p") auto
  qed
  then show ?thesis
    using assms by (simp add: written_def text_keys_def dict_of_distinct)
qed

lemma text_keys_dput: "text_keys st \<Longrightarrow> text_keys (dput (VStr c) v st)"
  by (auto simp: text_keys_def keys_dput list_all_iff simp del: set_map)

lemma records_dput:
  "records (dput (VStr c) (VDict [(VStr ''window'', VStr w), (VStr ''redeemed_at'', x)]) st) c' w'
   \<longleftrightarrow> (if c' = c then w' = w else records st c' w')"
  by (auto simp: records_def field_of_def vget_or_def vget_def)

lemma ledger_ok_redeem:
  assumes ok: "ledger_ok st lg" and new: "w = [] \<or> \<not> records st c w"
    and s: "redeem_of s = Some (c, key_text c w)"
  shows "ledger_ok (dput (VStr c) (VDict [(VStr ''window'', VStr w), (VStr ''redeemed_at'', x)]) st) (lg @ [s])"
proof -
  let ?ks = "redeem_keys c lg"
  have "last ?ks \<noteq> key_text c w \<or> w = []" if "?ks \<noteq> []"
    using ok new that unfolding ledger_ok_def by blast
  moreover have "successively (\<lambda>a b. a \<noteq> b \<or> a = key_text c []) ?ks"
    using ok by (simp add: ledger_ok_def)
  ultimately have "successively (\<lambda>a b. a \<noteq> b \<or> a = key_text c []) (?ks @ [key_text c w])"
    by (auto simp: successively_append_iff)
  then show ?thesis
    using ok by (auto simp: ledger_ok_def redeem_keys_redeem [OF s] records_dput text_keys_dput key_text_inj)
qed


section \<open>Passes keep the ledger\<close>

text \<open>The state file can be written, whatever happens around it.\<close>

definition writable :: "string \<Rightarrow> 'w host \<Rightarrow> bool" where
  "writable path h \<longleftrightarrow> (\<forall>v w. disk_error h path v w = None)"

definition redeem_inv :: "string \<Rightarrow> 'w host \<Rightarrow> bool" where
  "redeem_inv path h \<longleftrightarrow> writable path h \<and> ledger_ok (read_state (json_files h path)) (sent_log h)"

text \<open>Within a pass the state in memory is the one in the file.\<close>

definition in_step :: "string \<Rightarrow> reset_state \<Rightarrow> 'w host \<Rightarrow> bool" where
  "in_step path st h \<longleftrightarrow>
     writable path h \<and> read_state (json_files h path) = st \<and> ledger_ok st (sent_log h)"

lemma in_step_inv: "in_step path st h \<Longrightarrow> redeem_inv path h"
  by (auto simp: in_step_def redeem_inv_def)

lemma in_step_request:
  "in_step path st h \<Longrightarrow> redeem_of s = None \<Longrightarrow> in_step path st (h\<lparr>net := w, sent_log := sent_log h @ [s]\<rparr>)"
  by (simp add: in_step_def writable_def ledger_ok_other)

lemma valid_get: "valid (in_step path st) (request sv ''GET'' url token p) (\<lambda>_. in_step path st) (in_step path st)"
  by (rule valid_request) (rule in_step_request, simp_all)

lemma redeem_valid:
  assumes "w = [] \<or> \<not> records st c w"
  shows "valid (in_step path st) (redeem sv rep now base_url token path st (VStr c) percent w crd)
    (\<lambda>r. in_step path (snd r)) (in_step path st)"
  unfolding valid_def
proof (intro allI impI)
  fix h :: "'a host"
  assume h: "in_step path st h"
  let ?payload = "redeem_payload rep (VStr c) w crd"
  let ?sent = "\<lambda>r. Sent ''POST'' (base_url @ ''/api/usage/glm-reset-card'') (Some (VDict ?payload)) (succeeded r)"
  obtain r w' where a: "answer sv ''POST'' (base_url @ ''/api/usage/glm-reset-card'') token (Some (VDict ?payload)) (net h)
      = (r, w')"
    by (cases "answer sv ''POST'' (base_url @ ''/api/usage/glm-reset-card'') token (Some (VDict ?payload)) (net h)")
  let ?st' = "dput (VStr c) (VDict [(VStr ''window'', VStr w), (VStr ''redeemed_at'', VStr now)]) st"
  note run = redeem_def bind_io_def catch_omni_def request_def a ret_def lift_def Let_def replace_json_def with_file_def
  show "case redeem sv rep now base_url token path st (VStr c) percent w crd h of
      (Inl e, h') \<Rightarrow> in_step path st h' | (Inr x, h') \<Rightarrow> in_step path (snd x) h'"
  proof (cases r)
    case (Inl e)
    have "in_step path st (h\<lparr>net := w', sent_log := sent_log h @ [?sent r]\<rparr>)"
      by (rule in_step_request [OF h]) (simp add: Inl succeeded_def)
    then show ?thesis
      by (cases e) (auto simp: run Inl)
  next
    case (Inr v)
    have ok: "ledger_ok st (sent_log h)" and st: "read_state (json_files h path) = st"
      and wr: "disk_error h path v' w'' = None" for v' w''
      using h by (simp_all add: in_step_def writable_def)
    have "ledger_ok ?st' (sent_log h @ [?sent r])"
      by (rule ledger_ok_redeem [OF ok assms]) (simp add: Inr succeeded_def redeem_of_post)
    moreover have "written rep ?st' = VDict ?st'"
      using ok by (intro written_text text_keys_dput) (simp add: ledger_ok_def)
    ultimately show ?thesis
      by (simp add: run Inr py_def hashable_def in_step_def writable_def wr read_state_def)
  qed
qed

lemma recorded_window_records:
  assumes "recorded_window st (VStr c) = Inr v"
  shows "v = VStr w \<and> w \<noteq> [] \<longleftrightarrow> records st c w \<and> w \<noteq> []"
  using assms
  by (cases "dget st (VStr c)"; cases "the (dget st (VStr c))")
    (auto simp: recorded_window_def records_def py_def hashable_def)

lemma check_connection_valid:
  "valid (in_step path st) (check_connection sv rep now base_url token path dry st (VStr c))
    (\<lambda>r. in_step path (snd r)) (in_step path st)"
  unfolding check_connection_def Let_def
proof (rule valid_bind [OF valid_get], goal_cases)
  case (1 usage)
  show ?case
  proof (cases "weekly usage")
    case None
    then show ?thesis
      by (simp add: valid_ret)
  next
    case (Some q)
    obtain used tot w where q: "q = (used, tot, w)"
      by (cases q)
    let ?percent = "round1 (percent_used used tot)"
    have done_rule: "valid (in_step path st) (if w = [] then ret False
        else bind_io (lift (recorded_window st (VStr c))) (\<lambda>v. ret (v = VStr w)))
      (\<lambda>b h. in_step path st h \<and> (b \<or> w = [] \<or> \<not> records st c w)) (in_step path st)"
      unfolding valid_def bind_io_def lift_def ret_def
      by (auto split: sum.splits dest: recorded_window_records [of st c _ w])
    have tail: "valid (in_step path st) (bind_io (request sv ''GET''
           (base_url @ ''/api/usage/glm-reset-card?connectionId='' @ str_of rep (VStr c)) token None) (\<lambda>cards.
         bind_io (lift (week_card rep cards)) (\<lambda>found.
         case found of
           None \<Rightarrow> ret (No_week_card ?percent w, st)
         | Some crd \<Rightarrow>
             if dry then ret (Would_redeem ?percent w (field_of crd ''expiresAt''), st)
             else redeem sv rep now base_url token path st (VStr c) ?percent w crd)))
      (\<lambda>r. in_step path (snd r)) (in_step path st)" if "w = [] \<or> \<not> records st c w"
    proof (rule valid_bind [OF valid_get], rule valid_bind [OF valid_lift, where R = "\<lambda>_. in_step path st"])
      show "valid (in_step path st) (case found of
           None \<Rightarrow> ret (No_week_card ?percent w, st)
         | Some crd \<Rightarrow>
             if dry then ret (Would_redeem ?percent w (field_of crd ''expiresAt''), st)
             else redeem sv rep now base_url token path st (VStr c) ?percent w crd)
        (\<lambda>r. in_step path (snd r)) (in_step path st)" for found
        using redeem_valid [OF that] by (auto intro: valid_ret split: option.split)
    qed simp_all
    show ?thesis
      unfolding Some q option.case prod.case
      by (intro valid_if valid_ret valid_bind [OF done_rule] valid_pure) ((rule tail, blast) | simp)+
  qed
qed


text \<open>The service lists connections with text identifiers, as its API documents.\<close>

definition text_ids :: "'w service \<Rightarrow> bool" where
  "text_ids sv \<longleftrightarrow>
     (\<forall>meth url token p w v w' cs ds. answer sv meth url token p w = (Inr v, w') \<longrightarrow> extract_providers v = Inr cs
        \<longrightarrow> active_connections cs = Inr ds \<longrightarrow> list_all (\<lambda>d. is_str (field_of d ''id'')) ds)"

lemma check_one_valid:
  assumes "is_str (field_of d ''id'')"
  shows "valid (in_step path (snd acc)) (check_one sv rep now base_url token path dry acc d)
    (\<lambda>acc'. in_step path (snd acc')) (redeem_inv path)"
proof -
  obtain c where c: "field_of d ''id'' = VStr c"
    using assms by (cases "field_of d ''id''") auto
  have "valid (in_step path (snd acc)) (catch_omni (check_connection sv rep now base_url token path dry (snd acc) (VStr c))
      (\<lambda>p. ret (Redeem_failed p, snd acc))) (\<lambda>r. in_step path (snd r)) (in_step path (snd acc))"
    by (rule valid_catch [OF check_connection_valid]) (simp add: valid_ret)
  from valid_exit [OF this in_step_inv] show ?thesis
    unfolding check_one_def c by (rule valid_bind) (auto intro: valid_ret)
qed

lemma check_pass_valid:
  assumes ids: "text_ids sv"
  shows "valid (redeem_inv path) (check_pass sv rep now base_url pw path dry) (\<lambda>_. redeem_inv path) (redeem_inv path)"
proof -
  have req: "redeem_inv path (h\<lparr>net := w, sent_log := sent_log h @ [Sent ''GET'' url p ok]\<rparr>)"
    if "redeem_inv path h" for h :: "'a host" and w url p ok
    using that by (simp add: redeem_inv_def writable_def ledger_ok_other)
  have get: "valid (redeem_inv path) (request sv ''GET'' url token None)
      (\<lambda>v h. redeem_inv path h \<and> (\<exists>w w'. answer sv ''GET'' url token None w = (Inr v, w'))) (redeem_inv path)" for url token
    unfolding valid_def request_def using req by (auto split: prod.splits sum.splits)
  have fold: "valid (in_step path st) (fold_io (check_one sv rep now base_url token path dry) ([], st) ds)
      (\<lambda>acc. in_step path (snd acc)) (redeem_inv path)" if "list_all (\<lambda>d. is_str (field_of d ''id'')) ds" for token st ds
  proof -
    have "valid (in_step path (snd ([] :: (pyval \<times> outcome) list, st)))
        (fold_io (check_one sv rep now base_url token path dry) ([], st) ds) (\<lambda>acc. in_step path (snd acc)) (redeem_inv path)"
      by (rule valid_fold, rule check_one_valid) (use that in \<open>auto simp: list_all_iff\<close>)
    then show ?thesis
      by simp
  qed
  let ?rest = "\<lambda>token ds. bind_io (read_json path) (\<lambda>f.
     bind_io (fold_io (check_one sv rep now base_url token path dry) ([], read_state f) ds) (\<lambda>acc. ret (fst acc)))"
  have rest: "valid (redeem_inv path) (?rest token ds) (\<lambda>_. redeem_inv path) (redeem_inv path)"
    if "list_all (\<lambda>d. is_str (field_of d ''id'')) ds" for token ds
  proof (rule valid_bind [where R = "\<lambda>f. in_step path (read_state f)"])
    show "valid (redeem_inv path) (read_json path) (\<lambda>f. in_step path (read_state f)) (redeem_inv path)"
      by (simp add: valid_def read_json_def redeem_inv_def in_step_def)
  next
    fix f
    show "valid (in_step path (read_state f)) (bind_io (fold_io (check_one sv rep now base_url token path dry)
        ([], read_state f) ds) (\<lambda>acc. ret (fst acc))) (\<lambda>_. redeem_inv path) (redeem_inv path)"
      by (rule valid_bind [OF fold [OF that]]) (auto intro: valid_ret in_step_inv)
  qed
  have after_listing: "valid (redeem_inv path) (bind_io (lift (extract_providers listing)) (\<lambda>cs.
        bind_io (lift (active_connections cs)) (?rest token))) (\<lambda>_. redeem_inv path) (redeem_inv path)"
    if "answer sv ''GET'' url token None w = (Inr listing, w')" for listing token url w w'
  proof (rule valid_bind [where R = "\<lambda>cs h. redeem_inv path h \<and> extract_providers listing = Inr cs"])
    show "valid (redeem_inv path) (lift (extract_providers listing))
        (\<lambda>cs h. redeem_inv path h \<and> extract_providers listing = Inr cs) (redeem_inv path)"
      by (rule valid_lift) simp_all
  next
    fix cs
    have texts: "list_all (\<lambda>d. is_str (field_of d ''id'')) ds"
      if "extract_providers listing = Inr cs" "active_connections cs = Inr ds" for ds
      using ids \<open>answer sv ''GET'' url token None w = (Inr listing, w')\<close> that unfolding text_ids_def by blast
    show "valid (\<lambda>h. redeem_inv path h \<and> extract_providers listing = Inr cs)
        (bind_io (lift (active_connections cs)) (?rest token)) (\<lambda>_. redeem_inv path) (redeem_inv path)"
    proof (rule valid_pure, rule valid_bind [where R = "\<lambda>ds h. redeem_inv path h \<and> active_connections cs = Inr ds"])
      show "valid (redeem_inv path) (lift (active_connections cs))
          (\<lambda>ds h. redeem_inv path h \<and> active_connections cs = Inr ds) (redeem_inv path)"
        by (rule valid_lift) simp_all
    qed (rule valid_pure, rule rest, rule texts)
  qed
  show ?thesis
    unfolding check_pass_def
  proof (rule valid_bind [OF valid_login], goal_cases)
    case (1 h w)
    then show ?case
      by (simp add: redeem_inv_def writable_def)
  next
    case (2 token)
    show ?case
      by (rule valid_bind [OF get], rule valid_pure) (elim exE, rule after_listing)
  qed
qed

section \<open>At most one card per window\<close>

text \<open>A run is a sequence of passes, each with its time stamp and its \<open>--dry-run\<close> flag.\<close>

definition next_pass ::
  "'w service \<Rightarrow> (pyval \<Rightarrow> string) \<Rightarrow> string \<Rightarrow> string \<Rightarrow> string \<Rightarrow> 'w host \<Rightarrow> string \<times> bool \<Rightarrow> 'w host" where
  "next_pass sv rep base_url pw path h e = snd (check_pass sv rep (fst e) base_url pw path (snd e) h)"

lemma valid_after: "valid P m (\<lambda>_. Q) Q \<Longrightarrow> P h \<Longrightarrow> Q (snd (m h))"
  by (cases "m h") (auto simp: valid_def split: sum.splits prod.splits)

interpretation passes: step_machine "next_pass sv rep base_url pw path" "\<lambda>h. text_ids sv \<longrightarrow> redeem_inv path h"
  for sv rep base_url pw path
proof unfold_locales
  fix h :: "'a host" and e
  assume "text_ids sv \<longrightarrow> redeem_inv path h"
  then show "text_ids sv \<longrightarrow> redeem_inv path (next_pass sv rep base_url pw path h e)"
    unfolding next_pass_def by (blast intro: valid_after [OF check_pass_valid])
qed

text \<open>
  C27: a card is spent at most once per weekly window: over any sequence of passes, whatever the
  service answers and whether requests of a pass fail half-way, two consecutive confirmed redeems of a
  connection never carry the same idempotency key, with one exception: a service that gives no reset time
  makes the key of an empty window, which every pass may send again. The hypotheses say that the service
  lists text identifiers, that the state file starts as a JSON object, and that it can be written: after a
  confirmed redeem whose record could not be written the next pass redeems again with the same key
  (\<open>failed_record_redeems_again\<close>).
\<close>

theorem card_spent_once_per_window:
  assumes "text_ids sv" and "sent_log h = []" and "text_keys (read_state (json_files h path))"
    and "writable path h"
  shows "successively (\<lambda>a b. a \<noteq> b \<or> a = key_text c [])
    (redeem_keys c (sent_log (foldl (next_pass sv rep base_url pw path) h es)))"
proof -
  have "redeem_inv path h"
    using assms(2-4) by (simp add: redeem_inv_def ledger_ok_def redeem_keys_def List.map_filter_simps)
  then have "redeem_inv path (foldl (next_pass sv rep base_url pw path) h es)"
    using passes.run_inv [of sv path h rep base_url pw es] assms(1) by blast
  then show ?thesis
    by (simp add: redeem_inv_def ledger_ok_def)
qed


text \<open>A service with one connection whose weekly quota is spent, and one card.\<close>

definition demo_zai :: "unit service" where
  "demo_zai =
     \<lparr>log_in = (\<lambda>_ w. (Inr ''token'', w)),
      answer = (\<lambda>meth url token payload w.
        (if url = ''u/api/providers''
         then Inr (VList [VDict [(VStr ''provider'', VStr ''zai''), (VStr ''isActive'', VBool True), (VStr ''id'', VStr ''c'')]])
         else if url = ''u/api/usage/c''
         then Inr (VDict [(VStr ''quotas'', VDict [(VStr ''weekly'',
                VDict [(VStr ''used'', VFloat PosInf), (VStr ''total'', VBool True), (VStr ''resetAt'', VStr ''w1'')])])])
         else Inr (VDict [(VStr ''credits'', VList
                [VDict [(VStr ''resetType'', VStr ''WEEK''), (VStr ''selectionToken'', VStr ''s'')]])]), w))\<rparr>"

definition demo_zai_host :: "unit host" where
  "demo_zai_host = \<lparr>net = (), sent_log = [], json_files = (\<lambda>_. No_file), disk_error = (\<lambda>_ _ _. None)\<rparr>"

lemma demo_text_ids: "text_ids demo_zai"
  by (auto simp: text_ids_def demo_zai_def extract_providers_def first_list_def field_of_def vget_or_def vget_def
      active_connections_def is_active_zai_def ZAI_PROVIDERS_def py_def split: if_splits)

theorem card_spent_once_per_window_witness:
  "successively (\<lambda>a b. a \<noteq> b \<or> a = key_text ''c'' [])
     (redeem_keys ''c'' (sent_log (foldl (next_pass demo_zai (\<lambda>_. []) ''u'' ''p'' ''f'') demo_zai_host
        [(''t1'', False), (''t2'', False)])))"
  by (rule card_spent_once_per_window [OF demo_text_ids]) (simp_all add: demo_zai_host_def read_state_def text_keys_def writable_def)

lemma demo_redeems_once:
  "redeem_keys ''c'' (sent_log (foldl (next_pass demo_zai (\<lambda>_. []) ''u'' ''p'' ''f'') demo_zai_host
        [(''t1'', False), (''t2'', False)])) = [key_text ''c'' ''w1'']"
  by code_simp

text \<open>On a full disk the confirmed redeem is not recorded, and the next pass sends the same key.\<close>

lemma failed_record_redeems_again:
  "redeem_keys ''c'' (sent_log (foldl (next_pass demo_zai (\<lambda>_. []) ''u'' ''p'' ''f'')
        (demo_zai_host\<lparr>disk_error := (\<lambda>_ _ _. Some No_file)\<rparr>) [(''t1'', False), (''t2'', False)]))
     = [key_text ''c'' ''w1'', key_text ''c'' ''w1'']"
  by code_simp

end
