(* ===== verification/Capacity.thy ===== *)
theory Capacity
  imports Omni_Models Projection Config
begin

text \<open>
  The capacity cards (\<open>pylib/capacity.py\<close>): one JSON file per model alias, written from measurements
  and read against the current configuration. The files are a map from paths to decoded JSON, \<open>sha\<close> is
  the hexadecimal SHA-256 of the sorted JSON text of a configuration, \<open>now\<close> the time stamp of a write,
  \<open>rep\<close> what \<open>str\<close> shows of a value that is not a text. JSON numbers are finite.
\<close>

datatype capacity_problem =
    Bad_alias | Unknown_alias | Not_valid_json | Not_an_object | Not_a_card
  | Not_bench_output | No_flags | Measured_with string | No_integer_depth
  | Not_score_output "string list" | Not_latency_output | Not_interference_report | Gate_first
  | Both_cards_needed | No_current_sections | No_current_sweep | No_such_candidate

text \<open>\<open>CapacityError\<close>, or an exception Python raises on a value of an unexpected shape.\<close>

datatype capacity_exn = Capacity_error capacity_problem | Raised

type_synonym 'a fallible = "(capacity_exn, 'a) result"

type_synonym json_files = "string \<Rightarrow> json_file"

definition shaped :: "'a attempt \<Rightarrow> 'a fallible" where
  "shaped r = (case r of Inl _ \<Rightarrow> Inl Raised | Inr x \<Rightarrow> Inr x)"

definition num :: "pyval \<Rightarrow> pynum fallible" where
  "num v = (case num_value v of None \<Rightarrow> Inl Raised | Some n \<Rightarrow> Inr n)"

text \<open>\<open>d[k]\<close>.\<close>

definition item :: "pydict \<Rightarrow> string \<Rightarrow> pyval fallible" where
  "item d k = (case vget d k of None \<Rightarrow> Inl Raised | Some v \<Rightarrow> Inr v)"

definition complain :: "bool \<Rightarrow> capacity_problem \<Rightarrow> unit fallible" where
  "complain b p = (if b then Inl (Capacity_error p) else Inr ())"

section \<open>The entry and the configuration of a model\<close>

definition MEASURED_SECTIONS :: "string list" where
  "MEASURED_SECTIONS = [''depth'', ''ladder'', ''interference'', ''ram'', ''quants'', ''profile'']"

definition FLAG_KEYS :: "string list" where
  "FLAG_KEYS = [''n_gpu_layers'', ''n_cpu_moe'', ''cache_type_k'', ''cache_type_v'', ''ubatch_size'', ''flash_attn'']"

definition BENCH_PROMPT_TOKENS :: int where "BENCH_PROMPT_TOKENS = 512"

definition alias_head :: "char \<Rightarrow> bool" where
  "alias_head c \<longleftrightarrow> is_digit c \<or> (let n = of_char c :: nat in 97 \<le> n \<and> n \<le> 122)"

definition ALIAS_PATTERN :: "string \<Rightarrow> bool" where
  "ALIAS_PATTERN s \<longleftrightarrow>
     (case s of [] \<Rightarrow> False
      | c # cs \<Rightarrow> alias_head c \<and> length cs \<le> 63
          \<and> list_all (\<lambda>x. alias_head x \<or> x \<in> {CHR ''.'', CHR ''_'', CHR ''-''}) cs)"

definition entry :: "pydict \<Rightarrow> string \<Rightarrow> pydict fallible" where
  "entry cfg alias =
     bindR (complain (\<not> ALIAS_PATTERN alias) Bad_alias) (\<lambda>_.
     bindR (shaped (falsy_or_items (field_of cfg ''models''))) (\<lambda>ms.
     case find (\<lambda>d. field_of d ''alias'' = VStr alias) (List.map_filter dict_value ms) of
       None \<Rightarrow> Inl (Capacity_error Unknown_alias)
     | Some d \<Rightarrow> Inr d))"

text \<open>\<open>config_dir\<close> is the directory of the configuration file.\<close>

definition card_path :: "string \<Rightarrow> pydict \<Rightarrow> string \<Rightarrow> string fallible" where
  "card_path config_dir cfg alias =
     bindR (entry cfg alias) (\<lambda>_. Inr (config_dir @ ''/capacity/'' @ alias @ ''.json''))"

definition or_none :: "pyval \<Rightarrow> pyval" where
  "or_none v = (if truthy v then v else VNone)"

definition model_config :: "pydict \<Rightarrow> string \<Rightarrow> pydict fallible" where
  "model_config cfg alias =
     bindR (entry cfg alias) (\<lambda>model.
     bindR (shaped (dict_or_empty (field_of cfg ''runtime''))) (\<lambda>runtime. Inr
       [(VStr ''file'', field_of model ''file''), (VStr ''quantization'', field_of model ''quantization''),
        (VStr ''ctx_size'', field_of model ''ctx_size''),
        (VStr ''client_max_output_tokens'', field_of model ''client_max_output_tokens''),
        (VStr ''n_gpu_layers'', field_of model ''n_gpu_layers''),
        (VStr ''n_cpu_moe'', or_none (field_of model ''n_cpu_moe'')),
        (VStr ''cache_type_k'', field_of runtime ''cache_type_k''),
        (VStr ''cache_type_v'', field_of runtime ''cache_type_v''),
        (VStr ''ubatch_size'', field_of runtime ''ubatch_size''), (VStr ''flash_attn'', field_of runtime ''flash_attn'')]))"

definition fingerprint :: "(pydict \<Rightarrow> string) \<Rightarrow> pydict \<Rightarrow> string" where
  "fingerprint sha config = take 16 (sha config)"

definition read_input :: "json_file \<Rightarrow> pydict fallible" where
  "read_input f =
     (case f of
        No_file \<Rightarrow> Inl Raised
      | Not_decodable \<Rightarrow> Inl (Capacity_error Not_valid_json)
      | Json_file (VDict d) \<Rightarrow> Inr d
      | Json_file _ \<Rightarrow> Inl (Capacity_error Not_an_object))"

section \<open>What a card lets a client use\<close>

definition current :: "pydict \<Rightarrow> string \<Rightarrow> string \<Rightarrow> pydict option" where
  "current crd name fp =
     (case field_of crd name of
        VDict s \<Rightarrow> if field_of s ''fingerprint'' = VStr fp then Some s else None
      | _ \<Rightarrow> None)"

text \<open>The depth of a point with a measured generation rate.\<close>

definition point_depth :: "pyval \<Rightarrow> pyval option fallible" where
  "point_depth p =
     bindR (shaped (as_dict p)) (\<lambda>d.
     if field_of d ''tg_tps'' = VNone then Inr None else bindR (item d ''depth'') (\<lambda>v. Inr (Some v)))"

definition measured_depths :: "pydict option \<Rightarrow> pyval list fallible" where
  "measured_depths section =
     (case section of
        None \<Rightarrow> Inr []
      | Some s \<Rightarrow>
          bindR (shaped (items_of (vget_or s ''points'' (VList [])))) (\<lambda>ps.
          bindR (mapR point_depth ps) (\<lambda>ds. Inr (List.map_filter (\<lambda>d. d) ds))))"

record usable_part =
  u_context :: "pynum option"
  u_output :: "pynum option"
  u_basis :: string

definition nothing :: "string \<Rightarrow> usable_part" where
  "nothing basis = \<lparr>u_context = None, u_output = None, u_basis = basis\<rparr>"

definition usable ::
  "(pyval \<Rightarrow> string) \<Rightarrow> pydict \<Rightarrow> string \<Rightarrow> pydict option \<Rightarrow> usable_part fallible" where
  "usable rep crd fp config_arg =
     bindR (measured_depths (current crd ''depth'' fp)) (\<lambda>measured.
     if measured = [] then Inr (nothing ''no current depth sweep'')
     else case current crd ''interference'' fp of
       None \<Rightarrow> Inr (nothing ''interference not measured'')
     | Some gate \<Rightarrow>
         if field_of gate ''passed'' = VBool False then Inr (nothing ''interference gate failed'')
         else
           bindR (case config_arg of Some (p # ps) \<Rightarrow> Inr (p # ps) | _ \<Rightarrow> bindR (item crd ''config'') (\<lambda>v. shaped (as_dict v)))
             (\<lambda>config.
           bindR (mapR num measured) (\<lambda>ds.
           let d = foldl nmax (hd ds) (tl ds) in
           bindR (bindR (item config ''ctx_size'') num) (\<lambda>ctx.
           let context = nmin ctx (nadd d (IntN BENCH_PROMPT_TOKENS)); out = field_of config ''client_max_output_tokens'' in
           bindR (if out = VNone then Inr context else bindR (num out) (\<lambda>n. Inr (nmin n context))) (\<lambda>output.
           Inr \<lparr>u_context = Some context, u_output = Some output,
                u_basis = ''verified to depth '' @ str_of rep (of_num d) @ '' (interference: passed)''\<rparr>)))))"

definition opt_num :: "pynum option \<Rightarrow> pyval" where
  "opt_num n = (case n of None \<Rightarrow> VNone | Some x \<Rightarrow> of_num x)"

definition usable_dict :: "usable_part \<Rightarrow> pydict" where
  "usable_dict u =
     [(VStr ''context_tokens'', opt_num (u_context u)), (VStr ''max_output_tokens'', opt_num (u_output u)),
      (VStr ''basis'', VStr (u_basis u))]"

definition load :: "json_file \<Rightarrow> pydict option fallible" where
  "load f =
     (case f of
        No_file \<Rightarrow> Inr None
      | Not_decodable \<Rightarrow> Inl (Capacity_error Not_valid_json)
      | Json_file (VDict d) \<Rightarrow> if is_dict (field_of d ''config'') then Inr (Some d) else Inl (Capacity_error Not_a_card)
      | Json_file _ \<Rightarrow> Inl (Capacity_error Not_a_card))"

section \<open>Measured sections\<close>

definition stamp :: "string \<Rightarrow> string \<Rightarrow> string \<Rightarrow> pydict" where
  "stamp fp now source =
     [(VStr ''fingerprint'', VStr fp), (VStr ''written_at'', VStr now), (VStr ''source'', VStr source)]"

definition picked :: "pydict \<Rightarrow> string list \<Rightarrow> pydict" where
  "picked d ks = map (\<lambda>k. (VStr k, field_of d k)) ks"

text \<open>The flag a benchmark ran with: no offload counts as absent.\<close>

definition measured_flag :: "pydict \<Rightarrow> string \<Rightarrow> pyval" where
  "measured_flag flags k = (if k = ''n_cpu_moe'' then or_none (field_of flags k) else field_of flags k)"

definition same_flag :: "pydict \<Rightarrow> pydict \<Rightarrow> string \<Rightarrow> bool" where
  "same_flag flags config k \<longleftrightarrow> py_eq (measured_flag flags k) (field_of config k)"

definition depth_of :: "pydict \<Rightarrow> int" where
  "depth_of d = (case int_value (field_of d ''depth'') of None \<Rightarrow> 0 | Some n \<Rightarrow> n)"

definition int_depth :: "pyval \<Rightarrow> bool" where
  "int_depth v = (case v of VDict d \<Rightarrow> is_int (field_of d ''depth'') | _ \<Rightarrow> False)"

definition depth_section :: "pydict \<Rightarrow> pydict \<Rightarrow> string \<Rightarrow> string \<Rightarrow> string \<Rightarrow> pydict fallible" where
  "depth_section data config fp now source =
     (case (field_of data ''tps'', field_of data ''gpu'') of
        (VList tps, VDict gpu) \<Rightarrow>
          (case field_of data ''flags'' of
             VDict flags \<Rightarrow>
               bindR (complain (\<not> py_eq (field_of data ''file'') (field_of config ''file'')) (Measured_with ''file'')) (\<lambda>_.
               bindR (complain (\<not> list_all int_depth tps) No_integer_depth) (\<lambda>_.
               bindR (mapR (\<lambda>k. complain (\<not> same_flag flags config k) (Measured_with k)) FLAG_KEYS) (\<lambda>_.
               Inr (stamp fp now source @
                 [(VStr ''points'', VList (map (\<lambda>d. VDict (picked d [''depth'', ''pp_tps'', ''tg_tps'']))
                     (sort_key depth_of (List.map_filter dict_value tps))))]
                 @ picked gpu [''model_vram_mib'', ''peak_temp_c'', ''avg_sclk_mhz''] @ picked data [''limits'']))))
           | _ \<Rightarrow> Inl (Capacity_error No_flags))
      | _ \<Rightarrow> Inl (Capacity_error Not_bench_output))"

definition SCORE_KEYS :: "string list" where
  "SCORE_KEYS = [''ladder'', ''ladder_at'', ''pass_rate'', ''overall'', ''tool_use'', ''invalid_runs'']"

definition ladder_section :: "pydict \<Rightarrow> string \<Rightarrow> string \<Rightarrow> string \<Rightarrow> pydict fallible" where
  "ladder_section score fp now source =
     (let missing = filter (\<lambda>k. \<not> has_key score k) SCORE_KEYS in
      bindR (complain (missing \<noteq> []) (Not_score_output missing)) (\<lambda>_.
      bindR (shaped (dict_or_empty (field_of score ''tool_use''))) (\<lambda>tool.
      Inr (stamp fp now source @
        [(VStr ''highest_layer'', field_of score ''ladder''), (VStr ''lowest_effort'', field_of score ''ladder_at''),
         (VStr ''pass_rate'', field_of score ''pass_rate''), (VStr ''overall_score'', field_of score ''overall''),
         (VStr ''tool_calls'', field_of tool ''calls''), (VStr ''tool_errors'', field_of tool ''errors''),
         (VStr ''tool_error_rate'', field_of tool ''error_rate''), (VStr ''invalid_runs'', field_of score ''invalid_runs'')]))))"

definition profile_section :: "pydict \<Rightarrow> pydict \<Rightarrow> string \<Rightarrow> string \<Rightarrow> string \<Rightarrow> pydict fallible" where
  "profile_section data config fp now source =
     bindR (complain (field_of data ''kind'' \<noteq> VStr ''latency-profile'' \<or> \<not> is_list (field_of data ''runs''))
              Not_latency_output) (\<lambda>_.
     bindR (mapR (\<lambda>k. complain (\<not> py_eq (field_of data k) (field_of config k)) (Measured_with k))
              [''file'', ''ctx_size'', ''client_max_output_tokens'']) (\<lambda>_.
     Inr (stamp fp now source
       @ picked data [''measured_at'', ''n_ctx'', ''output_tokens'', ''slack_tokens'', ''host_mem_total_mib'', ''idle'',
                      ''runs'', ''skipped''])))"

section \<open>Writing a card\<close>

record measurements =
  in_depth :: "pydict option"
  in_score :: "pydict option"
  in_interference :: "pydict option"
  in_quants :: "pydict option"
  in_profile :: "pydict option"
  in_sources :: "(string, string) dict"

definition source_or :: "measurements \<Rightarrow> string \<Rightarrow> string \<Rightarrow> string" where
  "source_or m k dflt =
     (case dget (in_sources m) k of Some s \<Rightarrow> if s \<noteq> [] then s else dflt | None \<Rightarrow> dflt)"

text \<open>\<open>if x is not None: card[...] = section(x)\<close>.\<close>

definition with_section ::
  "pydict option \<Rightarrow> (pydict \<Rightarrow> pydict fallible) \<Rightarrow> string \<Rightarrow> pydict \<Rightarrow> pydict fallible" where
  "with_section x mk name crd =
     (case x of None \<Rightarrow> Inr crd | Some d \<Rightarrow> bindR (mk d) (\<lambda>s. Inr (vput name (VDict s) crd)))"

definition gate_section :: "pydict \<Rightarrow> string \<Rightarrow> string \<Rightarrow> string \<Rightarrow> pydict fallible" where
  "gate_section report fp now source =
     bindR (complain (\<not> is_bool (field_of report ''passed'')) Not_interference_report) (\<lambda>_.
     Inr (stamp fp now source
       @ picked report [''passed'', ''failures'', ''notes'', ''regression_warning'', ''system_one'', ''omniroute'',
                        ''events_changed'', ''vram'']))"

definition ram_section :: "pydict \<Rightarrow> string \<Rightarrow> string \<Rightarrow> pydict fallible" where
  "ram_section report fp now =
     bindR (shaped (dict_or_empty (field_of report ''host''))) (\<lambda>host.
     bindR (shaped (dict_or_empty (field_of report ''llm_server''))) (\<lambda>llm.
     Inr [(VStr ''fingerprint'', VStr fp), (VStr ''written_at'', VStr now),
          (VStr ''llm_server_peak_mib'', field_of llm ''memory_peak_mib''),
          (VStr ''llm_server_cap_mib'', field_of llm ''memory_cap_mib''),
          (VStr ''host_available_min_mib'', field_of host ''mem_available_min_mib''),
          (VStr ''swap_delta_mib'', field_of host ''swap_delta_mib'')]))"

definition quants_section :: "pydict \<Rightarrow> pydict \<Rightarrow> string \<Rightarrow> string \<Rightarrow> pydict fallible" where
  "quants_section crd quants fp now =
     (case (current crd ''depth'' fp, current crd ''interference'' fp) of
        (Some _, Some gate) \<Rightarrow>
          if field_of gate ''passed'' = VBool True
          then Inr (foldl (\<lambda>d p. dput (fst p) (snd p) d) [(VStr ''fingerprint'', VStr fp), (VStr ''written_at'', VStr now)] quants)
          else Inl (Capacity_error Gate_first)
      | _ \<Rightarrow> Inl (Capacity_error Gate_first))"

definition bench_part :: "pydict \<Rightarrow> pyval fallible" where
  "bench_part model =
     bindR (shaped (dict_or_empty (field_of model ''benchmark''))) (\<lambda>b. Inr
       (case field_of b ''vulkan'' of
          VDict v \<Rightarrow> VDict (picked v [''pp_tps'', ''tg_tps'', ''measured_at''])
        | _ \<Rightarrow> VNone))"

definition fresh_card :: "string \<Rightarrow> string \<Rightarrow> string \<Rightarrow> pydict \<Rightarrow> pyval \<Rightarrow> pydict \<Rightarrow> pydict" where
  "fresh_card alias now fp config bench crd =
     foldl (\<lambda>c n. setdefault n VNone c)
       (vput ''benchmark'' bench (vput ''config'' (VDict config) (vput ''fingerprint'' (VStr fp)
         (vput ''written_at'' (VStr now) (vput ''alias'' (VStr alias) (vput ''schema'' (VInt 1) crd))))))
       MEASURED_SECTIONS"

text \<open>The card \<open>write_card\<close> saves, from the one in the file.\<close>

definition next_card ::
  "(pyval \<Rightarrow> string) \<Rightarrow> (pydict \<Rightarrow> string) \<Rightarrow> pydict \<Rightarrow> string \<Rightarrow> measurements \<Rightarrow> string \<Rightarrow> json_file \<Rightarrow> pydict fallible" where
  "next_card rep sha cfg alias m now f =
     bindR (model_config cfg alias) (\<lambda>config.
     let fp = fingerprint sha config in
     bindR (load f) (\<lambda>old.
     bindR (bindR (entry cfg alias) bench_part) (\<lambda>bench.
     bindR (with_section (in_depth m) (\<lambda>d. depth_section d config fp now (source_or m ''depth'' ''depth input'')) ''depth''
              (fresh_card alias now fp config bench (case old of None \<Rightarrow> [] | Some d \<Rightarrow> d))) (\<lambda>c1.
     bindR (with_section (in_score m) (\<lambda>d. ladder_section d fp now (source_or m ''score'' ''score input'')) ''ladder'' c1) (\<lambda>c2.
     bindR (with_section (in_interference m) (\<lambda>d. gate_section d fp now (source_or m ''interference'' [])) ''interference'' c2)
       (\<lambda>c3.
     bindR (with_section (in_interference m) (\<lambda>d. ram_section d fp now) ''ram'' c3) (\<lambda>c4.
     bindR (with_section (in_profile m) (\<lambda>d. profile_section d config fp now (source_or m ''profile'' ''profile input''))
              ''profile'' c4) (\<lambda>c5.
     bindR (with_section (in_quants m) (\<lambda>d. quants_section c5 d fp now) ''quants'' c5) (\<lambda>c6.
     bindR (usable rep c6 fp (Some config)) (\<lambda>u.
     Inr (vput ''usable'' (VDict (usable_dict u)) c6)))))))))))"

section \<open>Reading a card\<close>

definition stale_sections :: "pydict \<Rightarrow> string \<Rightarrow> string list" where
  "stale_sections crd fp =
     filter (\<lambda>n. case field_of crd n of VDict s \<Rightarrow> field_of s ''fingerprint'' \<noteq> VStr fp | _ \<Rightarrow> False) MEASURED_SECTIONS"

definition view :: "(pyval \<Rightarrow> string) \<Rightarrow> pydict \<Rightarrow> pydict \<Rightarrow> string \<Rightarrow> pydict fallible" where
  "view rep crd config fp =
     bindR (usable rep crd fp (Some config)) (\<lambda>u.
     Inr (vput ''usable'' (VDict (usable_dict u)) (vput ''stale_sections'' (VList (map VStr (stale_sections crd fp))) crd)))"

definition write_card ::
  "(pyval \<Rightarrow> string) \<Rightarrow> (pydict \<Rightarrow> string) \<Rightarrow> string \<Rightarrow> pydict \<Rightarrow> string \<Rightarrow> measurements \<Rightarrow> string \<Rightarrow> json_files
   \<Rightarrow> pydict fallible \<times> json_files" where
  "write_card rep sha dir cfg alias m now fs =
     (case bindR (card_path dir cfg alias) (\<lambda>path.
           bindR (next_card rep sha cfg alias m now (fs path)) (\<lambda>crd.
           bindR (model_config cfg alias) (\<lambda>config. Inr (path, crd, config)))) of
        Inl e \<Rightarrow> (Inl e, fs)
      | Inr (path, crd, config) \<Rightarrow>
          (view rep crd config (fingerprint sha config), fs(path := Json_file (VDict crd))))"

definition read_card ::
  "(pyval \<Rightarrow> string) \<Rightarrow> (pydict \<Rightarrow> string) \<Rightarrow> string \<Rightarrow> pydict \<Rightarrow> string \<Rightarrow> json_files \<Rightarrow> pydict option fallible" where
  "read_card rep sha dir cfg alias fs =
     bindR (card_path dir cfg alias) (\<lambda>path.
     bindR (load (fs path)) (\<lambda>c.
     case c of
       None \<Rightarrow> Inr None
     | Some crd \<Rightarrow>
         bindR (model_config cfg alias) (\<lambda>config.
         bindR (view rep crd config (fingerprint sha config)) (\<lambda>v. Inr (Some v)))))"

text \<open>The \<open>usable\<close> part of a card as a client reads it.\<close>

definition current_usable ::
  "(pyval \<Rightarrow> string) \<Rightarrow> (pydict \<Rightarrow> string) \<Rightarrow> string \<Rightarrow> pydict \<Rightarrow> string \<Rightarrow> json_files \<Rightarrow> pydict fallible" where
  "current_usable rep sha dir cfg alias fs =
     bindR (read_card rep sha dir cfg alias fs) (\<lambda>c.
     case c of
       Some v \<Rightarrow> if v = [] then Inr (usable_dict (nothing ''no capacity card''))
                 else bindR (item v ''usable'') (\<lambda>u. shaped (as_dict u))
     | None \<Rightarrow> Inr (usable_dict (nothing ''no capacity card'')))"

definition interference_passed :: "pydict \<Rightarrow> pyval" where
  "interference_passed crd =
     (case (field_of crd ''interference'', field_of crd ''stale_sections'') of
        (VDict s, VList stale) \<Rightarrow> if VStr ''interference'' \<in> set stale then VNone else field_of s ''passed''
      | _ \<Rightarrow> VNone)"

text \<open>The limits published to the clients: every failure of one card leaves that model out.\<close>

definition model_limits ::
  "(pyval \<Rightarrow> string) \<Rightarrow> (pydict \<Rightarrow> string) \<Rightarrow> string \<Rightarrow> pydict \<Rightarrow> json_files \<Rightarrow> pyval \<Rightarrow> (string \<times> pyval \<times> pyval) option" where
  "model_limits rep sha dir cfg fs model =
     (case model of
        VDict d \<Rightarrow>
          (case field_of d ''alias'' of
             VStr alias \<Rightarrow>
               (case current_usable rep sha dir cfg alias fs of
                  Inr u \<Rightarrow>
                    if field_of u ''context_tokens'' \<noteq> VNone \<and> field_of u ''max_output_tokens'' \<noteq> VNone
                    then Some (alias, field_of u ''context_tokens'', field_of u ''max_output_tokens'') else None
                | Inl _ \<Rightarrow> None)
           | _ \<Rightarrow> None)
      | _ \<Rightarrow> None)"

definition local_limits ::
  "(pyval \<Rightarrow> string) \<Rightarrow> (pydict \<Rightarrow> string) \<Rightarrow> string \<Rightarrow> pydict \<Rightarrow> json_files \<Rightarrow> (string, pyval \<times> pyval) dict fallible" where
  "local_limits rep sha dir cfg fs =
     bindR (shaped (dict_or_empty (field_of cfg ''llm_server''))) (\<lambda>llm.
     if \<not> truthy (field_of llm ''enabled'') then Inr []
     else Inr (dict_of (List.map_filter (model_limits rep sha dir cfg fs) (enabled_models cfg))))"

section \<open>Published limits are measured\<close>

lemma field_of_vput [simp]: "field_of (vput k v d) j = (if j = k then v else field_of d j)"
  by (simp add: field_of_def vget_or_def)

lemma shaped_Inr [simp]: "shaped r = Inr x \<longleftrightarrow> r = Inr x"
  by (cases r) (simp_all add: shaped_def)

lemma item_Inr [simp]: "item d k = Inr v \<longleftrightarrow> vget d k = Some v"
  by (auto simp: item_def split: option.splits)

lemma num_Inr [simp]: "num v = Inr n \<longleftrightarrow> num_value v = Some n"
  by (auto simp: num_def split: option.splits)

lemma complain_Inr [simp]: "complain b p = Inr u \<longleftrightarrow> \<not> b"
  by (simp add: complain_def)

lemma as_dict_Inr [simp]: "as_dict v = Inr d \<longleftrightarrow> v = VDict d"
  by (cases v) auto

text \<open>A point of a depth section with a generation rate at this depth.\<close>

definition measured_at :: "pydict \<Rightarrow> pynum \<Rightarrow> bool" where
  "measured_at s n \<longleftrightarrow>
     (\<exists>ps p v. items_of (vget_or s ''points'' (VList [])) = Inr ps \<and> VDict p \<in> set ps \<and> field_of p ''tg_tps'' \<noteq> VNone
        \<and> vget p ''depth'' = Some v \<and> num_value v = Some n)"

lemma point_depth_Some:
  "point_depth p = Inr (Some v) \<longleftrightarrow> (\<exists>d. p = VDict d \<and> field_of d ''tg_tps'' \<noteq> VNone \<and> vget d ''depth'' = Some v)"
  by (auto simp: point_depth_def)

lemma measured_depths_mem:
  assumes "measured_depths (Some s) = Inr vs"
  shows "measured_at s n \<longleftrightarrow> (\<exists>v \<in> set vs. num_value v = Some n)"
proof -
  obtain ps ds where ps: "items_of (vget_or s ''points'' (VList [])) = Inr ps" "mapR point_depth ps = Inr ds"
    and vs: "vs = List.map_filter (\<lambda>d. d) ds"
    using assms by (auto simp: measured_depths_def)
  have "v \<in> set vs \<longleftrightarrow> (\<exists>p \<in> set ps. point_depth p = Inr (Some v))" for v
    using ps(2) unfolding vs
  proof (induction ps arbitrary: ds)
    case Nil
    then show ?case
      by (simp add: List.map_filter_simps)
  next
    case (Cons p ps)
    then obtain x xs where x: "ds = x # xs" "point_depth p = Inr x" "mapR point_depth ps = Inr xs"
      by auto
    show ?case
      using Cons.IH [OF x(3)] x(2) unfolding x(1) by (cases x) (auto simp: List.map_filter_simps)
  qed
  then show ?thesis
    using ps(1) unfolding measured_at_def point_depth_Some by fastforce
qed

lemma foldl_nmax:
  "foldl nmax a ns \<in> set (a # ns) \<and> (\<forall>n \<in> set (a # ns). nval n \<le> nval (foldl nmax a ns))"
proof (induction ns arbitrary: a)
  case Nil
  then show ?case by simp
next
  case (Cons n ns)
  have "nmax a n \<in> {a, n}" "nval a \<le> nval (nmax a n)" "nval n \<le> nval (nmax a n)"
    by (simp_all add: nmax_def)
  with Cons [of "nmax a n"] show ?case
    by (auto intro: order_trans)
qed

definition largest_measured :: "pydict \<Rightarrow> pynum \<Rightarrow> bool" where
  "largest_measured s d \<longleftrightarrow> measured_at s d \<and> (\<forall>e. measured_at s e \<longrightarrow> nval e \<le> nval d)"

lemma largest_of_measured:
  assumes vs: "measured_depths (Some s) = Inr vs" "vs \<noteq> []" and ns: "mapR num vs = Inr ns"
  shows "largest_measured s (foldl nmax (hd ns) (tl ns))"
proof -
  have "ns \<noteq> []"
    using mapR_length [OF ns] vs(2) by auto
  then have "hd ns # tl ns = ns"
    by simp
  moreover have "n \<in> set ns \<longleftrightarrow> (\<exists>v \<in> set vs. num_value v = Some n)" for n
    using ns by (induction vs arbitrary: ns) auto
  ultimately show ?thesis
    using foldl_nmax [of "hd ns" "tl ns"] by (simp add: largest_measured_def measured_depths_mem [OF vs(1)])
qed

text \<open>What a card must hold for a limit to be published.\<close>

definition verified :: "pydict \<Rightarrow> pydict \<Rightarrow> string \<Rightarrow> pynum \<Rightarrow> pynum \<Rightarrow> bool" where
  "verified crd config fp context output \<longleftrightarrow>
     (\<exists>s gate d ctx. current crd ''depth'' fp = Some s \<and> current crd ''interference'' fp = Some gate
        \<and> field_of gate ''passed'' \<noteq> VBool False \<and> largest_measured s d
        \<and> num_value (field_of config ''ctx_size'') = Some ctx
        \<and> nval context = min (nval ctx) (nval (nadd d (IntN BENCH_PROMPT_TOKENS))) \<and> nval output \<le> nval context)"

lemma field_of_vget: "vget d k = Some v \<Longrightarrow> field_of d k = v"
  by (simp add: field_of_def vget_or_def)

lemma nmin_le: "nval (nmin a b) \<le> nval b"
  by simp

lemma usable_verified:
  assumes "usable rep crd fp (Some (p # config)) = Inr u" "u_context u = Some c"
  shows "\<exists>output. u_output u = Some output \<and> verified crd (p # config) fp c output"
proof -
  obtain vs where vs: "measured_depths (current crd ''depth'' fp) = Inr vs" "vs \<noteq> []"
    using assms by (auto simp: usable_def nothing_def split: if_splits)
  obtain s where s: "current crd ''depth'' fp = Some s"
    using vs by (cases "current crd ''depth'' fp") (auto simp: measured_depths_def)
  obtain gate where gate: "current crd ''interference'' fp = Some gate" "field_of gate ''passed'' \<noteq> VBool False"
    using assms vs by (auto simp: usable_def nothing_def split: if_splits option.splits)
  obtain ns ctx v where ns: "mapR num vs = Inr ns" and v: "vget (p # config) ''ctx_size'' = Some v" "num_value v = Some ctx"
    and u: "c = nmin ctx (nadd (foldl nmax (hd ns) (tl ns)) (IntN BENCH_PROMPT_TOKENS))"
      "\<exists>output. u_output u = Some output \<and> nval output \<le> nval c"
    using assms vs gate by (fastforce simp: usable_def Let_def nmin_le simp del: nval_nmin split: if_splits)
  have "largest_measured s (foldl nmax (hd ns) (tl ns))"
    using largest_of_measured vs ns unfolding s by blast
  then show ?thesis
    using s gate v u by (auto simp: verified_def field_of_vget)
qed

definition card_file :: "string \<Rightarrow> string \<Rightarrow> string" where
  "card_file dir alias = dir @ ''/capacity/'' @ alias @ ''.json''"

lemma card_path_Inr: "card_path dir cfg alias = Inr p \<Longrightarrow> p = card_file dir alias"
  by (auto simp: card_path_def card_file_def)

lemma load_Some [simp]: "load f = Inr (Some crd) \<longleftrightarrow> f = Json_file (VDict crd) \<and> is_dict (field_of crd ''config'')"
  by (auto simp: load_def split: json_file.splits pyval.splits if_splits)

lemma load_card: "is_dict (field_of crd ''config'') \<Longrightarrow> load (Json_file (VDict crd)) = Inr (Some crd)"
  by simp

lemma model_config_Cons: "model_config cfg alias = Inr config \<Longrightarrow> \<exists>p ps. config = p # ps"
  by (auto simp: model_config_def)

lemma field_of_usable_dict [simp]:
  "field_of (usable_dict u) ''context_tokens'' = opt_num (u_context u)"
  "field_of (usable_dict u) ''max_output_tokens'' = opt_num (u_output u)"
  by (simp_all add: usable_dict_def field_of_def vget_or_def vget_def)

lemma opt_num_None [simp]: "opt_num n = VNone \<longleftrightarrow> n = None"
  by (cases n; cases "the n") (auto simp: opt_num_def)

lemma nothing_simps [simp]: "u_context (nothing b) = None" "u_output (nothing b) = None"
  by (simp_all add: nothing_def)

lemma view_Inr:
  "view rep crd config fp = Inr v \<longleftrightarrow>
     (\<exists>u. usable rep crd fp (Some config) = Inr u \<and> v = vput ''usable'' (VDict (usable_dict u))
        (vput ''stale_sections'' (VList (map VStr (stale_sections crd fp))) crd))"
  by (auto simp: view_def)

lemma read_card_Some:
  assumes "read_card rep sha dir cfg alias fs = Inr (Some v)"
  shows "\<exists>crd config. fs (card_file dir alias) = Json_file (VDict crd) \<and> model_config cfg alias = Inr config
    \<and> view rep crd config (fingerprint sha config) = Inr v"
proof -
  obtain path c where path: "card_path dir cfg alias = Inr path" and c: "load (fs path) = Inr c"
    and rest: "(case c of None \<Rightarrow> Inr None | Some crd \<Rightarrow> bindR (model_config cfg alias) (\<lambda>config.
         bindR (view rep crd config (fingerprint sha config)) (\<lambda>v. Inr (Some v)))) = Inr (Some v)"
    using assms unfolding read_card_def by auto
  from rest obtain crd where "c = Some crd"
    by (cases c) auto
  with path c rest show ?thesis
    by (auto dest: card_path_Inr)
qed

lemma current_usable_Inr:
  assumes "current_usable rep sha dir cfg alias fs = Inr u" "field_of u ''context_tokens'' \<noteq> VNone"
  shows "\<exists>v. read_card rep sha dir cfg alias fs = Inr (Some v) \<and> vget v ''usable'' = Some (VDict u)"
proof -
  obtain c where c: "read_card rep sha dir cfg alias fs = Inr c"
    using assms(1) by (auto simp: current_usable_def)
  then show ?thesis
    using assms by (cases c) (auto simp: current_usable_def split: if_splits)
qed

lemma current_usable_verified:
  assumes "current_usable rep sha dir cfg alias fs = Inr u" "field_of u ''context_tokens'' \<noteq> VNone"
  shows "\<exists>config crd c output. model_config cfg alias = Inr config \<and> fs (card_file dir alias) = Json_file (VDict crd)
    \<and> field_of u ''context_tokens'' = of_num c \<and> field_of u ''max_output_tokens'' = of_num output
    \<and> verified crd config (fingerprint sha config) c output"
proof -
  obtain v where v: "read_card rep sha dir cfg alias fs = Inr (Some v)" "vget v ''usable'' = Some (VDict u)"
    using current_usable_Inr [OF assms] by blast
  obtain crd config where crd: "fs (card_file dir alias) = Json_file (VDict crd)"
    and config: "model_config cfg alias = Inr config" and shown: "view rep crd config (fingerprint sha config) = Inr v"
    using read_card_Some [OF v(1)] by blast
  obtain r where r: "usable rep crd (fingerprint sha config) (Some config) = Inr r"
    and view: "v = vput ''usable'' (VDict (usable_dict r)) (vput ''stale_sections''
      (VList (map VStr (stale_sections crd (fingerprint sha config)))) crd)"
    using shown unfolding view_Inr by blast
  have u: "u = usable_dict r"
    using v(2) view by simp
  then obtain c where c: "u_context r = Some c"
    using assms(2) by auto
  obtain p ps where "config = p # ps"
    using model_config_Cons [OF config] by blast
  with usable_verified r c obtain y where "u_output r = Some y" "verified crd config (fingerprint sha config) c y"
    by blast
  with crd config c u show ?thesis
    by (auto simp: opt_num_def)
qed

lemma local_limits_mem:
  assumes "local_limits rep sha dir cfg fs = Inr l" "dget l alias = Some (c, output)"
  shows "\<exists>u. current_usable rep sha dir cfg alias fs = Inr u \<and> field_of u ''context_tokens'' = c
    \<and> field_of u ''max_output_tokens'' = output \<and> c \<noteq> VNone \<and> output \<noteq> VNone"
proof -
  have "l = [] \<or> l = dict_of (List.map_filter (model_limits rep sha dir cfg fs) (enabled_models cfg))"
    using assms(1) by (auto simp: local_limits_def split: if_splits)
  with assms(2) have "map_of (rev (List.map_filter (model_limits rep sha dir cfg fs) (enabled_models cfg))) alias
      = Some (c, output)"
    by (auto simp: dget_dict_of)
  then obtain m where "model_limits rep sha dir cfg fs m = Some (alias, c, output)"
    by (auto simp: List.map_filter_def dest!: map_of_SomeD)
  then show ?thesis
    by (auto simp: model_limits_def split: pyval.splits sum.splits if_splits)
qed

text \<open>
  C28: every limit published to the clients is backed by the card of the model: its depth sweep and its
  interference report were taken with the current configuration, the report is not a failure, the
  context is the smaller of the configured one and the deepest measured point plus the prompt of the
  benchmark, and the output limit never exceeds the context.
\<close>

theorem published_limits_are_measured:
  assumes "local_limits rep sha dir cfg fs = Inr l" and "dget l alias = Some (c, output)"
  shows "\<exists>config crd x y. model_config cfg alias = Inr config \<and> fs (card_file dir alias) = Json_file (VDict crd)
    \<and> c = of_num x \<and> output = of_num y \<and> verified crd config (fingerprint sha config) x y"
proof -
  obtain u where u: "current_usable rep sha dir cfg alias fs = Inr u" "field_of u ''context_tokens'' = c"
    "field_of u ''max_output_tokens'' = output" "c \<noteq> VNone"
    using local_limits_mem [OF assms] by blast
  show ?thesis
    using current_usable_verified [OF u(1)] u(2-4) by auto
qed

section \<open>Sections carry the configuration they were measured with\<close>

text \<open>The fingerprints of the two sections a limit rests on.\<close>

definition stamped :: "string set \<Rightarrow> json_file \<Rightarrow> bool" where
  "stamped F f \<longleftrightarrow>
     (case f of
        Json_file (VDict crd) \<Rightarrow>
          \<forall>n \<in> {''depth'', ''interference''}.
            case field_of crd n of VDict s \<Rightarrow> \<exists>fp \<in> F. field_of s ''fingerprint'' = VStr fp | _ \<Rightarrow> True
      | _ \<Rightarrow> True)"

definition stamped_in :: "string set \<Rightarrow> pydict \<Rightarrow> bool" where
  "stamped_in F crd \<longleftrightarrow> stamped F (Json_file (VDict crd))"

lemma stamped_in_eq:
  "stamped_in F crd \<longleftrightarrow> (\<forall>n \<in> {''depth'', ''interference''}.
     case field_of crd n of VDict s \<Rightarrow> \<exists>fp \<in> F. field_of s ''fingerprint'' = VStr fp | _ \<Rightarrow> True)"
  by (simp add: stamped_in_def stamped_def)

lemma stamped_in_other:
  "stamped_in F crd \<Longrightarrow> k \<noteq> ''depth'' \<Longrightarrow> k \<noteq> ''interference'' \<Longrightarrow> stamped_in F (vput k v crd)"
  by (simp add: stamped_in_eq)

lemma field_of_setdefault: "field_of (setdefault k VNone d) j = field_of d j"
  by (auto simp: field_of_def vget_or_def split: option.splits)

lemma field_of_defaults: "field_of (foldl (\<lambda>c n. setdefault n VNone c) d ns) j = field_of d j"
  by (induction ns arbitrary: d) (simp_all add: field_of_setdefault)

lemma stamped_fresh: "stamped_in F crd \<Longrightarrow> stamped_in F (fresh_card alias now fp config bench crd)"
  by (simp add: stamped_in_eq fresh_card_def field_of_defaults)

lemma stamped_with:
  assumes "with_section x mk n crd = Inr crd'" "stamped_in F crd" "fp \<in> F"
    and "n \<in> {''depth'', ''interference''} \<Longrightarrow> (\<And>d s. mk d = Inr s \<Longrightarrow> field_of s ''fingerprint'' = VStr fp)"
  shows "stamped_in F crd'"
  using assms by (auto simp: with_section_def stamped_in_eq split: option.splits)

lemma stamp_fingerprint [simp]: "field_of (stamp fp now source @ d) ''fingerprint'' = VStr fp"
  by (simp add: stamp_def field_of_def vget_or_def vget_def)

lemma depth_section_fingerprint:
  "depth_section d config fp now source = Inr s \<Longrightarrow> field_of s ''fingerprint'' = VStr fp"
  by (auto simp: depth_section_def split: pyval.splits)

lemma gate_section_fingerprint: "gate_section d fp now source = Inr s \<Longrightarrow> field_of s ''fingerprint'' = VStr fp"
  by (auto simp: gate_section_def)

lemma next_card_stamped:
  assumes "next_card rep sha cfg alias m now f = Inr crd" "model_config cfg alias = Inr config"
    and "stamped F f" "fingerprint sha config \<in> F"
  shows "stamped_in F crd"
proof -
  let ?fp = "fingerprint sha config"
  obtain old bench c1 c2 c3 c4 c5 c6 u where old: "load f = Inr old"
    and c1: "with_section (in_depth m) (\<lambda>d. depth_section d config ?fp now (source_or m ''depth'' ''depth input'')) ''depth''
      (fresh_card alias now ?fp config bench (case old of None \<Rightarrow> [] | Some d \<Rightarrow> d)) = Inr c1"
    and c2: "with_section (in_score m) (\<lambda>d. ladder_section d ?fp now (source_or m ''score'' ''score input'')) ''ladder'' c1
      = Inr c2"
    and c3: "with_section (in_interference m) (\<lambda>d. gate_section d ?fp now (source_or m ''interference'' [])) ''interference'' c2
      = Inr c3"
    and c4: "with_section (in_interference m) (\<lambda>d. ram_section d ?fp now) ''ram'' c3 = Inr c4"
    and c5: "with_section (in_profile m) (\<lambda>d. profile_section d config ?fp now (source_or m ''profile'' ''profile input''))
      ''profile'' c4 = Inr c5"
    and c6: "with_section (in_quants m) (\<lambda>d. quants_section c5 d ?fp now) ''quants'' c5 = Inr c6"
    and crd: "crd = vput ''usable'' (VDict (usable_dict u)) c6"
    using assms(1,2) by (auto simp: next_card_def Let_def)
  have "stamped_in F (case old of None \<Rightarrow> [] | Some d \<Rightarrow> d)"
    using old assms(3) by (cases old) (auto simp: stamped_in_def stamped_def field_of_def vget_or_def vget_def)
  then have "stamped_in F (fresh_card alias now ?fp config bench (case old of None \<Rightarrow> [] | Some d \<Rightarrow> d))"
    by (rule stamped_fresh)
  then have "stamped_in F c1"
    by (rule stamped_with [OF c1 _ assms(4)]) (rule depth_section_fingerprint)
  then have "stamped_in F c2"
    by (rule stamped_with [OF c2 _ assms(4)]) simp
  then have "stamped_in F c3"
    by (rule stamped_with [OF c3 _ assms(4)]) (rule gate_section_fingerprint)
  then have "stamped_in F c4"
    by (rule stamped_with [OF c4 _ assms(4)]) simp
  then have "stamped_in F c5"
    by (rule stamped_with [OF c5 _ assms(4)]) simp
  then have "stamped_in F c6"
    by (rule stamped_with [OF c6 _ assms(4)]) simp
  then show ?thesis
    unfolding crd by (rule stamped_in_other) simp_all
qed

text \<open>A sequence of writes: the configuration in use, the model, the measurements, the time stamp.\<close>

type_synonym card_write = "pydict \<times> string \<times> measurements \<times> string"

definition write_step ::
  "(pyval \<Rightarrow> string) \<Rightarrow> (pydict \<Rightarrow> string) \<Rightarrow> string \<Rightarrow> json_files \<Rightarrow> card_write \<Rightarrow> json_files" where
  "write_step rep sha dir fs e = (case e of (cfg, alias, m, now) \<Rightarrow> snd (write_card rep sha dir cfg alias m now fs))"

definition prints :: "(pydict \<Rightarrow> string) \<Rightarrow> card_write list \<Rightarrow> string set" where
  "prints sha es = {fingerprint sha config | config cfg alias m now.
     (cfg, alias, m, now) \<in> set es \<and> model_config cfg alias = Inr config}"

lemma write_card_cases:
  obtains (failed) e where "write_card rep sha dir cfg alias m now fs = (Inl e, fs)"
  | (wrote) crd config where "model_config cfg alias = Inr config"
      "next_card rep sha cfg alias m now (fs (card_file dir alias)) = Inr crd"
      "card_path dir cfg alias = Inr (card_file dir alias)"
      "write_card rep sha dir cfg alias m now fs
        = (view rep crd config (fingerprint sha config), fs(card_file dir alias := Json_file (VDict crd)))"
proof (cases "bindR (card_path dir cfg alias) (\<lambda>path. bindR (next_card rep sha cfg alias m now (fs path)) (\<lambda>crd.
    bindR (model_config cfg alias) (\<lambda>config. Inr (path, crd, config))))")
  case (Inl e)
  then show ?thesis
    by (intro failed) (simp add: write_card_def)
next
  case (Inr r)
  then obtain path crd config where r: "r = (path, crd, config)" "card_path dir cfg alias = Inr path"
    "next_card rep sha cfg alias m now (fs path) = Inr crd" "model_config cfg alias = Inr config"
    by auto
  show ?thesis
    using r card_path_Inr [OF r(2)] Inr by (intro wrote) (simp_all add: write_card_def)
qed

lemma write_step_stamped:
  assumes "\<forall>p. stamped F (fs p)" "prints sha [e] \<subseteq> F"
  shows "stamped F (write_step rep sha dir fs e p)"
proof -
  obtain cfg al m now where e: "e = (cfg, al, m, now)"
    by (cases e)
  show ?thesis
  proof (cases rule: write_card_cases [of rep sha dir cfg al m now fs])
    case (failed x)
    then show ?thesis
      using assms(1) by (simp add: e write_step_def)
  next
    case (wrote crd config)
    have "fingerprint sha config \<in> F"
      using assms(2) wrote(1) by (auto simp: e prints_def)
    with wrote assms(1) have "stamped_in F crd"
      by (blast intro: next_card_stamped)
    then show ?thesis
      using wrote(4) assms(1) by (simp add: e write_step_def stamped_in_def)
  qed
qed

lemma prints_mono: "set es \<subseteq> set es' \<Longrightarrow> prints sha es \<subseteq> prints sha es'"
  unfolding prints_def by blast

lemma writes_stamped:
  "\<forall>p. stamped F (fs p) \<Longrightarrow> prints sha es \<subseteq> F \<Longrightarrow> stamped F (foldl (write_step rep sha dir) fs es p)"
proof (induction es arbitrary: fs)
  case Nil
  then show ?case by simp
next
  case (Cons e es)
  have "prints sha [e] \<subseteq> F"
    by (rule subset_trans [OF prints_mono Cons.prems(2)]) simp
  moreover have "prints sha es \<subseteq> F"
    by (rule subset_trans [OF prints_mono Cons.prems(2)]) (simp add: subset_insertI)
  ultimately show ?case
    using Cons by (simp add: write_step_stamped)
qed

lemma verified_stamp: "verified crd config fp x y \<Longrightarrow> stamped F (Json_file (VDict crd)) \<Longrightarrow> fp \<in> F"
  by (auto simp: verified_def current_def stamped_def split: pyval.splits if_splits)

text \<open>
  A changed configuration publishes nothing until it is measured: whatever was measured and stored
  before, with whatever results and failures, a model whose configuration has a fingerprint none of the
  writes had gets no limits.
\<close>

theorem changed_config_publishes_nothing:
  assumes "\<forall>p. fs p = No_file" and "model_config cfg alias = Inr config"
    and "fingerprint sha config \<notin> prints sha es"
    and "local_limits rep sha dir cfg (foldl (write_step rep sha dir) fs es) = Inr l"
  shows "dget l alias = None"
proof (rule ccontr)
  assume "dget l alias \<noteq> None"
  then obtain c y where "dget l alias = Some (c, y)"
    by auto
  then obtain u where u: "current_usable rep sha dir cfg alias (foldl (write_step rep sha dir) fs es) = Inr u"
      "field_of u ''context_tokens'' \<noteq> VNone"
    using local_limits_mem [OF assms(4)] by blast
  obtain crd x y where crd: "foldl (write_step rep sha dir) fs es (card_file dir alias) = Json_file (VDict crd)"
      "verified crd config (fingerprint sha config) x y"
    using current_usable_verified [OF u] assms(2) by auto
  have "stamped (prints sha es) (foldl (write_step rep sha dir) fs es (card_file dir alias))"
    by (rule writes_stamped) (simp_all add: assms(1) stamped_def)
  then show False
    using verified_stamp crd assms(3) by metis
qed

section \<open>A written card reads back\<close>

lemma field_of_fresh_config: "field_of (fresh_card alias now fp config bench crd) ''config'' = VDict config"
  by (simp add: fresh_card_def field_of_defaults)

lemma with_section_other:
  "with_section x mk n crd = Inr crd' \<Longrightarrow> n \<noteq> k \<Longrightarrow> field_of crd' k = field_of crd k"
  by (auto simp: with_section_def split: option.splits)

lemma next_card_config:
  assumes "next_card rep sha cfg alias m now f = Inr crd" "model_config cfg alias = Inr config"
  shows "field_of crd ''config'' = VDict config"
  using assms by (auto simp: next_card_def Let_def field_of_fresh_config dest!: with_section_other [where k = "''config''"])

lemma usable_with_usable:
  "usable rep (vput ''usable'' v crd) fp (Some (p # config)) = usable rep crd fp (Some (p # config))"
proof -
  have "current (vput ''usable'' v crd) n fp = current crd n fp" if "n \<noteq> ''usable''" for n
    using that by (simp add: current_def)
  then have c: "current (vput ''usable'' v crd) ''depth'' fp = current crd ''depth'' fp"
    "current (vput ''usable'' v crd) ''interference'' fp = current crd ''interference'' fp"
    by simp_all
  show ?thesis
    unfolding usable_def option.case list.case c by (rule refl)
qed

lemma next_card_viewed:
  assumes "next_card rep sha cfg alias m now f = Inr crd" "model_config cfg alias = Inr config"
  shows "\<exists>v. view rep crd config (fingerprint sha config) = Inr v"
proof -
  obtain c6 u where "usable rep c6 (fingerprint sha config) (Some config) = Inr u"
      "crd = vput ''usable'' (VDict (usable_dict u)) c6"
    using assms by (auto simp: next_card_def Let_def)
  with model_config_Cons [OF assms(2)] show ?thesis
    by (auto simp: view_def usable_with_usable)
qed

text \<open>
  What a successful \<open>write_card\<close> returns is what \<open>read_card\<close> then reads from the file it wrote, and
  it wrote no other file.
\<close>

theorem written_card_reads_back:
  assumes "write_card rep sha dir cfg alias m now fs = (Inr v, fs')"
  shows "read_card rep sha dir cfg alias fs' = Inr (Some v)
    \<and> fs' = fs(card_file dir alias := fs' (card_file dir alias))"
proof (cases rule: write_card_cases [of rep sha dir cfg "alias" m now fs])
  case (failed e)
  with assms show ?thesis
    by simp
next
  case (wrote crd config)
  have "view rep crd config (fingerprint sha config) = Inr v" "fs' = fs(card_file dir alias := Json_file (VDict crd))"
    using wrote(4) assms by simp_all
  then show ?thesis
    using wrote next_card_config [OF wrote(2,1)] by (simp add: read_card_def load_card)
qed

section \<open>A measured model\<close>

definition demo_cfg :: "int \<Rightarrow> pydict" where
  "demo_cfg ctx =
     [(VStr ''models'', VList [VDict [(VStr ''alias'', VStr ''m''), (VStr ''enabled'', VBool True), (VStr ''file'', VStr ''f''),
        (VStr ''ctx_size'', VInt ctx)]]),
      (VStr ''llm_server'', VDict [(VStr ''enabled'', VBool True)])]"

definition demo_sha :: "pydict \<Rightarrow> string" where
  "demo_sha config = (if field_of config ''ctx_size'' = VInt 8192 then ''a'' else ''b'')"

definition demo_point :: "int \<Rightarrow> pyval" where
  "demo_point d = VDict [(VStr ''depth'', VInt d), (VStr ''tg_tps'', VInt 5)]"

definition demo_card :: pydict where
  "demo_card =
     [(VStr ''config'', VDict []),
      (VStr ''depth'', VDict [(VStr ''fingerprint'', VStr ''a''), (VStr ''points'', VList [demo_point 0, demo_point 4096])]),
      (VStr ''interference'', VDict [(VStr ''fingerprint'', VStr ''a''), (VStr ''passed'', VBool True)])]"

definition demo_cards :: json_files where
  "demo_cards = (\<lambda>p. if p = card_file ''d'' ''m'' then Json_file (VDict demo_card) else No_file)"

lemma demo_entry: "entry (demo_cfg ctx) ''m'' = Inr [(VStr ''alias'', VStr ''m''), (VStr ''enabled'', VBool True),
    (VStr ''file'', VStr ''f''), (VStr ''ctx_size'', VInt ctx)]"
  by (simp add: entry_def demo_cfg_def complain_def ALIAS_PATTERN_def alias_head_def Let_def falsy_or_items_def
      field_of_def vget_or_def vget_def shaped_def List.map_filter_simps)

lemma demo_cfg_fields: "field_of (demo_cfg ctx) ''runtime'' = VNone"
    "field_of (demo_cfg ctx) ''llm_server'' = VDict [(VStr ''enabled'', VBool True)]"
    "enabled_models (demo_cfg ctx) = [VDict [(VStr ''alias'', VStr ''m''), (VStr ''enabled'', VBool True),
       (VStr ''file'', VStr ''f''), (VStr ''ctx_size'', VInt ctx)]]"
  by (simp_all add: demo_cfg_def field_of_def vget_or_def vget_def enabled_models_def)

lemma demo_config: "\<exists>p c. model_config (demo_cfg ctx) ''m'' = Inr (p # c) \<and> field_of (p # c) ''ctx_size'' = VInt ctx
    \<and> vget (p # c) ''ctx_size'' = Some (VInt ctx) \<and> field_of (p # c) ''client_max_output_tokens'' = VNone"
proof -
  obtain p c where c: "model_config (demo_cfg ctx) ''m'' = Inr (p # c)"
    by (simp add: model_config_def demo_entry demo_cfg_fields dict_or_empty_def shaped_def)
  then show ?thesis
    by (auto simp: model_config_def demo_entry demo_cfg_fields dict_or_empty_def shaped_def)
      (simp_all add: field_of_def vget_or_def vget_def)
qed

lemma demo_fingerprint: "field_of c ''ctx_size'' = VInt n \<Longrightarrow> fingerprint demo_sha c = (if n = 8192 then ''a'' else ''b'')"
  by (simp add: fingerprint_def demo_sha_def)

lemma demo_usable:
  assumes "field_of (p # c) ''ctx_size'' = VInt 8192" "vget (p # c) ''ctx_size'' = Some (VInt 8192)"
    "field_of (p # c) ''client_max_output_tokens'' = VNone"
  shows "\<exists>u. usable rep demo_card ''a'' (Some (p # c)) = Inr u \<and> u_context u = Some (IntN 4608) \<and> u_output u = Some (IntN 4608)"
proof -
  have "measured_depths (current demo_card ''depth'' ''a'') = Inr [VInt 0, VInt 4096]"
    by (simp add: demo_card_def demo_point_def current_def field_of_def vget_or_def vget_def measured_depths_def shaped_def
        point_depth_def item_def List.map_filter_simps)
  moreover have "current demo_card ''interference'' ''a''
      = Some [(VStr ''fingerprint'', VStr ''a''), (VStr ''passed'', VBool True)]"
    by (simp add: demo_card_def current_def field_of_def vget_or_def vget_def)
  moreover have "field_of [(VStr ''fingerprint'', VStr ''a''), (VStr ''passed'', VBool True)] ''passed'' = VBool True"
    by (simp add: field_of_def vget_or_def vget_def)
  ultimately show ?thesis
    using assms by (simp add: usable_def item_def num_def nmax_def nmin_def BENCH_PROMPT_TOKENS_def Let_def)
qed

lemma current_usable_of_card:
  assumes "card_path dir cfg alias = Inr path" "fs path = Json_file (VDict crd)" "is_dict (field_of crd ''config'')"
    and "model_config cfg alias = Inr config" "usable rep crd (fingerprint sha config) (Some config) = Inr u"
  shows "current_usable rep sha dir cfg alias fs = Inr (usable_dict u)"
proof -
  let ?v = "vput ''usable'' (VDict (usable_dict u)) (vput ''stale_sections''
    (VList (map VStr (stale_sections crd (fingerprint sha config)))) crd)"
  have "read_card rep sha dir cfg alias fs = Inr (Some ?v)"
    using assms by (simp add: read_card_def load_card view_def)
  moreover have "vget ?v ''usable'' = Some (VDict (usable_dict u))"
    by simp
  moreover have "?v \<noteq> []"
    using calculation(2) by (auto simp: vget_def)
  ultimately show ?thesis
    by (simp add: current_usable_def item_def shaped_def)
qed

lemma demo_limits: "local_limits rep demo_sha ''d'' (demo_cfg 8192) demo_cards = Inr [(''m'', VInt 4608, VInt 4608)]"
proof -
  obtain p c where config: "model_config (demo_cfg 8192) ''m'' = Inr (p # c)" and c: "field_of (p # c) ''ctx_size'' = VInt 8192"
      "vget (p # c) ''ctx_size'' = Some (VInt 8192)" "field_of (p # c) ''client_max_output_tokens'' = VNone"
    using demo_config [of 8192] by blast
  obtain u where u: "usable rep demo_card ''a'' (Some (p # c)) = Inr u"
      "u_context u = Some (IntN 4608)" "u_output u = Some (IntN 4608)"
    using demo_usable [OF c] by blast
  have "current_usable rep demo_sha ''d'' (demo_cfg 8192) ''m'' demo_cards = Inr (usable_dict u)"
  proof (rule current_usable_of_card)
    show "card_path ''d'' (demo_cfg 8192) ''m'' = Inr (card_file ''d'' ''m'')"
      by (simp add: card_path_def demo_entry card_file_def)
    show "is_dict (field_of demo_card ''config'')"
      by (simp add: demo_card_def field_of_def vget_or_def vget_def)
    show "usable rep demo_card (fingerprint demo_sha (p # c)) (Some (p # c)) = Inr u"
      using u(1) by (simp add: demo_fingerprint [OF c(1)])
  qed (simp_all add: demo_cards_def config)
  moreover have "field_of [(VStr ''alias'', VStr ''m''), (VStr ''enabled'', VBool True), (VStr ''file'', VStr ''f''),
      (VStr ''ctx_size'', VInt 8192)] ''alias'' = VStr ''m''" "field_of [(VStr ''enabled'', VBool True)] ''enabled'' = VBool True"
    by (simp_all add: field_of_def vget_or_def vget_def)
  ultimately show ?thesis
    using u by (simp add: local_limits_def demo_cfg_fields dict_or_empty_def shaped_def model_limits_def List.map_filter_simps
        opt_num_def dict_of_def)
qed

lemma demo_limits_total: "\<exists>l. local_limits rep sha dir (demo_cfg ctx) fs = Inr l"
  by (auto simp: local_limits_def demo_cfg_fields dict_or_empty_def shaped_def)

theorem published_limits_are_measured_witness:
  "\<exists>config crd x y. model_config (demo_cfg 8192) ''m'' = Inr config \<and> demo_cards (card_file ''d'' ''m'') = Json_file (VDict crd)
    \<and> VInt 4608 = of_num x \<and> VInt 4608 = of_num y \<and> verified crd config (fingerprint demo_sha config) x y"
  by (rule published_limits_are_measured [OF demo_limits [of "\<lambda>_. []"]]) simp

definition demo_write :: "int \<Rightarrow> card_write" where
  "demo_write ctx = (demo_cfg ctx, ''m'',
     \<lparr>in_depth = Some [(VStr ''tps'', VList [demo_point 4096]), (VStr ''gpu'', VDict []), (VStr ''flags'', VDict []),
        (VStr ''file'', VStr ''f'')],
      in_score = None, in_interference = Some [(VStr ''passed'', VBool True)], in_quants = None, in_profile = None,
      in_sources = []\<rparr>, ''t'')"

theorem changed_config_publishes_nothing_witness:
  "\<exists>l. local_limits (\<lambda>_. []) demo_sha ''d'' (demo_cfg 16384)
      (foldl (write_step (\<lambda>_. []) demo_sha ''d'') (\<lambda>_. No_file) [demo_write 8192]) = Inr l \<and> dget l ''m'' = None"
proof -
  let ?fs = "foldl (write_step (\<lambda>_. []) demo_sha ''d'') (\<lambda>_. No_file) [demo_write 8192]"
  obtain l where l: "local_limits (\<lambda>_. []) demo_sha ''d'' (demo_cfg 16384) ?fs = Inr l"
    using demo_limits_total by blast
  obtain c where c: "model_config (demo_cfg 16384) ''m'' = Inr c" "field_of c ''ctx_size'' = VInt 16384"
    using demo_config [of 16384] by blast
  have "prints demo_sha [demo_write 8192] \<subseteq> {''a''}"
    using demo_config [of 8192] demo_fingerprint [where n = 8192] by (auto simp: prints_def demo_write_def)
  then have "fingerprint demo_sha c \<notin> prints demo_sha [demo_write 8192]"
    using demo_fingerprint [OF c(2)] by auto
  with changed_config_publishes_nothing [OF _ c(1) _ l] l show ?thesis
    by simp
qed

end
