(* ===== verification/Headroom.thy ===== *)
theory Headroom
  imports Capacity
begin

text \<open>
  Quantization headroom (\<open>pylib/capacity.py\<close>): which other quantizations of a model would fit, judged
  from the measured card, and the comparison of a candidate's own card with the original's.
\<close>

section \<open>Sizes\<close>

definition MIB :: int where "MIB = 1048576"

definition nceil :: "pynum \<Rightarrow> int" where
  "nceil n = (case n of IntN k \<Rightarrow> k | FloatN x \<Rightarrow> \<lceil>x\<rceil>)"

definition weights_mib :: "pydict \<Rightarrow> pynum fallible" where
  "weights_mib e = bindR (bindR (item e ''size_bytes'') num) (\<lambda>n. Inr (IntN (nceil (ndiv n (IntN MIB)))))"

definition bpw :: "pydict \<Rightarrow> pynum option fallible" where
  "bpw e =
     (let params = field_of e ''params_total'' in
      if truthy params then
        bindR (bindR (item e ''size_bytes'') num) (\<lambda>n.
        bindR (num params) (\<lambda>p. Inr (Some (nround2 (ndiv (nmul n (IntN 8)) p)))))
      else Inr None)"

datatype ram_answer = Ram_unknown | Ram_over_cap | Ram_host_low | Ram_fits

definition ram_verdict :: "pydict option \<Rightarrow> pynum \<Rightarrow> ram_answer fallible" where
  "ram_verdict ram delta =
     (case ram of
        None \<Rightarrow> Inr Ram_unknown
      | Some r \<Rightarrow>
          if list_ex (\<lambda>k. field_of r k = VNone) [''llm_server_peak_mib'', ''llm_server_cap_mib'', ''host_available_min_mib'']
          then Inr Ram_unknown
          else
            bindR (num (field_of r ''llm_server_peak_mib'')) (\<lambda>peak.
            bindR (num (field_of r ''llm_server_cap_mib'')) (\<lambda>cap.
            if nval cap < nval (nadd peak delta) then Inr Ram_over_cap
            else bindR (num (field_of r ''host_available_min_mib'')) (\<lambda>available.
              if nval (nsub available delta) < of_int HOST_MEMORY_FLOOR_MIB then Inr Ram_host_low else Inr Ram_fits))))"

definition ram_ok :: "ram_answer \<Rightarrow> bool option" where
  "ram_ok r = (case r of Ram_unknown \<Rightarrow> None | Ram_fits \<Rightarrow> Some True | _ \<Rightarrow> Some False)"

definition ram_reason :: "ram_answer \<Rightarrow> string" where
  "ram_reason r =
     (case r of
        Ram_unknown \<Rightarrow> ''ram not measured; run make model-interference''
      | Ram_over_cap \<Rightarrow> ''RAM: llm-server peak + delta over its cap''
      | Ram_host_low \<Rightarrow> ''RAM: host would drop below '' @ show_int HOST_MEMORY_FLOOR_MIB @ '' MiB available''
      | Ram_fits \<Rightarrow> [])"

section \<open>One candidate\<close>

record candidate_row =
  c_quant :: pyval
  c_file :: pyval
  c_size :: pyval
  c_sha :: pyval
  c_weights :: "pynum option"
  c_bpw :: "pynum option"
  c_delta :: "pynum option"
  c_predicted :: "pynum option"
  c_free :: "pynum option"
  c_ram_ok :: "bool option"
  c_fits :: "bool option"
  c_reason :: pyval
  c_required :: pyval
  c_available :: pyval

definition blank_row :: "pydict \<Rightarrow> pyval \<Rightarrow> candidate_row" where
  "blank_row cand quant =
     \<lparr>c_quant = quant, c_file = field_of cand ''file'', c_size = field_of cand ''size_bytes'', c_sha = field_of cand ''sha256'',
      c_weights = None, c_bpw = None, c_delta = None, c_predicted = None, c_free = None, c_ram_ok = None, c_fits = None,
      c_reason = field_of cand ''reason'', c_required = VNone, c_available = VNone\<rparr>"

definition neg :: "pynum \<Rightarrow> pynum" where
  "neg n = (case n of IntN k \<Rightarrow> IntN (- k) | FloatN x \<Rightarrow> FloatN (- x))"

text \<open>The verdict of the formula: does it fit, and why.\<close>

definition judged :: "(pyval \<Rightarrow> string) \<Rightarrow> ram_answer \<Rightarrow> pynum \<Rightarrow> bool option \<times> string" where
  "judged rep ram free =
     (if ram = Ram_unknown then (None, ram_reason ram)
      else if nval free < 0 then (Some False, ''VRAM over budget by '' @ str_of rep (of_num (neg free)) @ '' MiB'')
      else if ram_ok ram = Some False then (Some False, ram_reason ram)
      else (Some True, ''fits: '' @ str_of rep (of_num free) @ '' MiB VRAM free''))"

text \<open>The budget command's own verdict on a scratch configuration takes precedence.\<close>

definition with_budget :: "(pyval \<Rightarrow> string) \<Rightarrow> pyval \<Rightarrow> pynum \<Rightarrow> candidate_row \<Rightarrow> candidate_row fallible" where
  "with_budget rep budget predicted row =
     (if \<not> truthy budget then Inr row
      else
        bindR (shaped (as_dict budget)) (\<lambda>b.
        bindR (item b ''required_mib'') (\<lambda>required.
        bindR (item b ''available_mib'') (\<lambda>available.
        bindR (item b ''vram_feasible'') (\<lambda>vram.
        bindR (if truthy vram then item b ''ram_feasible'' else Inr vram) (\<lambda>both.
        Inr (row\<lparr>c_required := required, c_available := available, c_fits := Some (truthy both),
             c_reason := VStr ((if truthy both then ''fits'' else ''over'') @ '' the budget gate: required ''
               @ str_of rep required @ '' MiB, available '' @ str_of rep available @ '' MiB (formula predicted ''
               @ str_of rep (of_num predicted) @ '' MiB)'')\<rparr>)))))))"

definition candidate_row_of ::
  "(pyval \<Rightarrow> string) \<Rightarrow> pynum \<Rightarrow> pynum \<Rightarrow> pynum \<Rightarrow> pydict option \<Rightarrow> pyval \<Rightarrow> pydict \<Rightarrow> candidate_row fallible" where
  "candidate_row_of rep base model_vram available ram n_cpu_moe cand =
     bindR (item cand ''quant'') (\<lambda>quant.
     if \<not> has_key cand ''size_bytes'' then Inr (blank_row cand quant)
     else
       bindR (weights_mib cand) (\<lambda>w.
       bindR (bpw cand) (\<lambda>b.
       let row = (blank_row cand quant)\<lparr>c_weights := Some w, c_bpw := b\<rparr> in
       if truthy n_cpu_moe then Inr (row\<lparr>c_reason := VStr ''not computed for n_cpu_moe offload''\<rparr>)
       else
         let delta = nsub w base; predicted = nadd model_vram delta; free = nsub available predicted in
         bindR (ram_verdict ram delta) (\<lambda>r.
         with_budget rep (field_of cand ''budget'') predicted
           (row\<lparr>c_delta := Some delta, c_predicted := Some predicted, c_free := Some free, c_ram_ok := ram_ok r,
                c_fits := fst (judged rep r free), c_reason := VStr (snd (judged rep r free))\<rparr>)))))"

section \<open>All candidates\<close>

record headroom =
  h_ctx :: pynum
  h_ref_depth :: pynum
  h_available :: pynum
  h_current :: pydict
  h_free :: pynum
  h_rows :: "candidate_row list"
  h_verdict :: "string option"

fun join_with :: "string \<Rightarrow> string list \<Rightarrow> string" where
  "join_with sep [] = []"
| "join_with sep [s] = s"
| "join_with sep (s # ss) = s @ sep @ join_with sep ss"

definition no_headroom :: "candidate_row list \<Rightarrow> bool" where
  "no_headroom rows \<longleftrightarrow> rows \<noteq> [] \<and> list_all (\<lambda>r. c_fits r = Some False) rows"

definition quant_headroom ::
  "(pyval \<Rightarrow> string) \<Rightarrow> pynum \<Rightarrow> pynum \<Rightarrow> pydict \<Rightarrow> pynum \<Rightarrow> pydict option \<Rightarrow> pyval \<Rightarrow> pydict list \<Rightarrow> headroom fallible" where
  "quant_headroom rep ctx model_vram cur available ram n_cpu_moe candidates =
     bindR (weights_mib cur) (\<lambda>base.
     bindR (mapR (candidate_row_of rep base model_vram available ram n_cpu_moe) candidates) (\<lambda>rows.
     bindR (item cur ''quant'') (\<lambda>quant. bindR (item cur ''file'') (\<lambda>f.
     bindR (bpw cur) (\<lambda>b. bindR (item cur ''sha256'') (\<lambda>sha256.
     let free = nsub available model_vram in
     Inr \<lparr>h_ctx = ctx, h_ref_depth = nmin (IntN 131072) (nsub ctx (IntN BENCH_PROMPT_TOKENS)), h_available = available,
          h_current = [(VStr ''quant'', quant), (VStr ''file'', f), (VStr ''weights_mib'', of_num base),
            (VStr ''bpw'', opt_num b), (VStr ''sha256'', sha256)],
          h_free = free, h_rows = rows,
          h_verdict = (if no_headroom rows
             then Some (''no headroom for '' @ join_with ''/'' (map (\<lambda>r. str_of rep (c_quant r)) rows) @ '' at ctx ''
               @ str_of rep (of_num ctx) @ '', free MiB '' @ str_of rep (of_num free)) else None)\<rparr>))))))"

definition opt_bool :: "bool option \<Rightarrow> pyval" where
  "opt_bool b = (case b of None \<Rightarrow> VNone | Some x \<Rightarrow> VBool x)"

definition row_dict :: "candidate_row \<Rightarrow> pydict" where
  "row_dict r =
     [(VStr ''quant'', c_quant r), (VStr ''file'', c_file r), (VStr ''size_bytes'', c_size r), (VStr ''sha256'', c_sha r),
      (VStr ''weights_mib'', opt_num (c_weights r)), (VStr ''bpw'', opt_num (c_bpw r)), (VStr ''delta_mib'', opt_num (c_delta r)),
      (VStr ''predicted_vram_mib'', opt_num (c_predicted r)), (VStr ''vram_free_mib'', opt_num (c_free r)),
      (VStr ''ram_ok'', opt_bool (c_ram_ok r)), (VStr ''fits'', opt_bool (c_fits r)), (VStr ''reason'', c_reason r),
      (VStr ''budget_required_mib'', c_required r), (VStr ''budget_available_mib'', c_available r), (VStr ''measured'', VNone)]"

definition headroom_dict :: "headroom \<Rightarrow> pydict" where
  "headroom_dict h =
     [(VStr ''ctx'', of_num (h_ctx h)), (VStr ''ref_depth'', of_num (h_ref_depth h)),
      (VStr ''vram_available_mib'', of_num (h_available h)), (VStr ''current'', VDict (h_current h)),
      (VStr ''current_free_mib'', of_num (h_free h)), (VStr ''candidates'', VList (map (\<lambda>r. VDict (row_dict r)) (h_rows h))),
      (VStr ''verdict'', case h_verdict h of None \<Rightarrow> VNone | Some v \<Rightarrow> VStr v)]"

section \<open>On the card\<close>

definition only_quants :: "pydict \<Rightarrow> measurements" where
  "only_quants q = \<lparr>in_depth = None, in_score = None, in_interference = None, in_quants = Some q, in_profile = None, in_sources = []\<rparr>"

definition is_stale :: "pydict \<Rightarrow> string \<Rightarrow> bool" where
  "is_stale v n \<longleftrightarrow> (case field_of v ''stale_sections'' of VList ns \<Rightarrow> VStr n \<in> set ns | _ \<Rightarrow> False)"

text \<open>The evidence a headroom check needs: the measured VRAM and the RAM section of the current card.\<close>

definition headroom_inputs :: "pydict option \<Rightarrow> (pyval \<times> pydict option) fallible" where
  "headroom_inputs c =
     (case c of
        None \<Rightarrow> Inl (Capacity_error Gate_first)
      | Some v \<Rightarrow>
          (case field_of v ''depth'' of
             VDict depth \<Rightarrow>
               if is_stale v ''depth'' \<or> interference_passed v \<noteq> VBool True \<or> field_of depth ''model_vram_mib'' = VNone
               then Inl (Capacity_error Gate_first)
               else Inr (field_of depth ''model_vram_mib'', if is_stale v ''ram'' then None else dict_value (field_of v ''ram''))
           | _ \<Rightarrow> Inl (Capacity_error Gate_first)))"

definition headroom_card ::
  "(pyval \<Rightarrow> string) \<Rightarrow> (pydict \<Rightarrow> string) \<Rightarrow> string \<Rightarrow> pydict \<Rightarrow> string \<Rightarrow> pynum \<Rightarrow> pydict \<Rightarrow> pydict list \<Rightarrow> string
   \<Rightarrow> json_files \<Rightarrow> pydict fallible \<times> json_files" where
  "headroom_card rep sha dir cfg alias available cur candidates now fs =
     (case bindR (read_card rep sha dir cfg alias fs) (\<lambda>c.
           bindR (headroom_inputs c) (\<lambda>(vram, ram).
           bindR (model_config cfg alias) (\<lambda>config.
           bindR (bindR (item config ''ctx_size'') num) (\<lambda>ctx.
           bindR (num vram) (\<lambda>model_vram.
           quant_headroom rep ctx model_vram cur available ram (field_of config ''n_cpu_moe'') candidates))))) of
        Inl e \<Rightarrow> (Inl e, fs)
      | Inr h \<Rightarrow> write_card rep sha dir cfg alias (only_quants (headroom_dict h)) now fs)"

section \<open>Comparing with the candidate's own card\<close>

text \<open>\<open>next((p.get(key) for p in (section or {}).get("points") or [] if p.get("depth") == depth), None)\<close>.\<close>

fun first_point :: "pyval \<Rightarrow> string \<Rightarrow> pyval list \<Rightarrow> pyval fallible" where
  "first_point depth k [] = Inr VNone"
| "first_point depth k (p # ps) =
     bindR (shaped (as_dict p)) (\<lambda>d. if py_eq (field_of d ''depth'') depth then Inr (field_of d k) else first_point depth k ps)"

definition value_at :: "pydict \<Rightarrow> pyval \<Rightarrow> string \<Rightarrow> pyval fallible" where
  "value_at section depth k = bindR (shaped (falsy_or_items (field_of section ''points''))) (first_point depth k)"

definition diff :: "pyval \<Rightarrow> pyval \<Rightarrow> pyval fallible" where
  "diff new old =
     (if new = VNone \<or> old = VNone then Inr VNone
      else bindR (num new) (\<lambda>a. bindR (num old) (\<lambda>b. Inr (of_num (nround2 (nsub a b))))))"

definition diff_at :: "pydict \<Rightarrow> pydict \<Rightarrow> pyval \<Rightarrow> string \<Rightarrow> pyval fallible" where
  "diff_at b_depth a_depth ref k =
     bindR (value_at b_depth ref k) (\<lambda>new. bindR (value_at a_depth ref k) (\<lambda>old. diff new old))"

text \<open>The index of the first candidate with this file.\<close>

fun candidate_index :: "pyval \<Rightarrow> pyval list \<Rightarrow> nat option fallible" where
  "candidate_index f [] = Inr None"
| "candidate_index f (c # cs) =
     bindR (shaped (as_dict c)) (\<lambda>d.
     if py_eq (field_of d ''file'') f then Inr (Some 0)
     else bindR (candidate_index f cs) (\<lambda>i. Inr (map_option Suc i)))"

definition ladder_of :: "pydict \<Rightarrow> pydict fallible" where
  "ladder_of v = (if is_stale v ''ladder'' then Inr [] else shaped (dict_or_empty (field_of v ''ladder'')))"

text \<open>The quants section of the first card and the depth section of the second, when current.\<close>

definition quants_of_a :: "pydict \<Rightarrow> pydict fallible" where
  "quants_of_a a =
     (case field_of a ''quants'' of
        VDict quants \<Rightarrow>
          if is_stale a ''quants'' \<or> is_stale a ''depth'' then Inl (Capacity_error No_current_sections)
          else Inr quants
      | _ \<Rightarrow> Inl (Capacity_error No_current_sections))"

definition depth_of_b :: "pydict \<Rightarrow> pydict fallible" where
  "depth_of_b b =
     (case field_of b ''depth'' of
        VDict d \<Rightarrow> if is_stale b ''depth'' then Inl (Capacity_error No_current_sweep) else Inr d
      | _ \<Rightarrow> Inl (Capacity_error No_current_sweep))"

definition measured_block ::
  "string \<Rightarrow> pydict \<Rightarrow> pyval \<Rightarrow> pyval \<Rightarrow> pydict \<Rightarrow> pydict \<Rightarrow> pydict \<Rightarrow> pydict \<Rightarrow> pydict \<Rightarrow> pydict fallible" where
  "measured_block candidate_alias e ctx ref a_depth b b_depth ladder_a ladder_b =
     bindR (item e ''quant'') (\<lambda>quant.
     bindR (item b_depth ''points'') (\<lambda>points.
     bindR (diff_at b_depth a_depth ref ''pp_tps'') (\<lambda>pp.
     bindR (diff_at b_depth a_depth ref ''tg_tps'') (\<lambda>tg.
     bindR (diff (field_of b_depth ''model_vram_mib'') (field_of a_depth ''model_vram_mib'')) (\<lambda>vram.
     bindR (diff (field_of ladder_b ''highest_layer'') (field_of ladder_a ''highest_layer'')) (\<lambda>layer.
     bindR (diff (field_of ladder_b ''overall_score'') (field_of ladder_a ''overall_score'')) (\<lambda>score.
     Inr [(VStr ''alias'', VStr candidate_alias), (VStr ''quant'', quant), (VStr ''bpw'', field_of e ''bpw''), (VStr ''ctx'', ctx),
          (VStr ''ref_depth'', ref), (VStr ''points'', points), (VStr ''model_vram_mib'', field_of b_depth ''model_vram_mib''),
          (VStr ''interference_passed'', interference_passed b), (VStr ''highest_layer'', field_of ladder_b ''highest_layer''),
          (VStr ''overall_score'', field_of ladder_b ''overall_score''), (VStr ''pass_rate'', field_of ladder_b ''pass_rate''),
          (VStr ''delta'', VDict [(VStr ''pp_at_ref'', pp), (VStr ''tg_at_ref'', tg), (VStr ''model_vram_mib'', vram),
             (VStr ''highest_layer'', layer), (VStr ''overall_score'', score)])])))))))"

text \<open>\<open>card["quants"]["candidates"][i]["measured"] = block\<close>.\<close>

definition put_measured :: "pydict \<Rightarrow> pydict \<Rightarrow> pyval list \<Rightarrow> nat \<Rightarrow> pydict \<Rightarrow> pydict \<Rightarrow> pydict" where
  "put_measured crd quants cs i e block =
     vput ''quants'' (VDict (vput ''candidates'' (VList (cs[i := VDict (vput ''measured'' (VDict block) e)])) quants)) crd"

definition block_for :: "string \<Rightarrow> pydict \<Rightarrow> pydict \<Rightarrow> pydict \<Rightarrow> pydict \<Rightarrow> pydict \<Rightarrow> pydict \<Rightarrow> pydict fallible" where
  "block_for candidate_alias config_b quants a b b_depth e =
     bindR (item quants ''ref_depth'') (\<lambda>ref.
     bindR (ladder_of a) (\<lambda>ladder_a. bindR (ladder_of b) (\<lambda>ladder_b.
     bindR (shaped (as_dict (field_of a ''depth''))) (\<lambda>a_depth.
     measured_block candidate_alias e (field_of config_b ''ctx_size'') ref a_depth b b_depth ladder_a ladder_b))))"

definition updated_card :: "pydict \<Rightarrow> string \<Rightarrow> pydict \<Rightarrow> pydict \<Rightarrow> pydict \<Rightarrow> pydict fallible" where
  "updated_card cfg candidate_alias crd a b =
     bindR (quants_of_a a) (\<lambda>quants.
     bindR (depth_of_b b) (\<lambda>b_depth.
     bindR (model_config cfg candidate_alias) (\<lambda>config_b.
     bindR (bindR (item quants ''candidates'') (\<lambda>v. shaped (items_of v))) (\<lambda>cs.
     bindR (candidate_index (field_of config_b ''file'') cs) (\<lambda>found.
     case found of
       None \<Rightarrow> Inl (Capacity_error No_such_candidate)
     | Some i \<Rightarrow>
         bindR (shaped (as_dict (cs ! i))) (\<lambda>e.
         bindR (block_for candidate_alias config_b quants a b b_depth e) (\<lambda>block.
         Inr (put_measured crd quants cs i e block))))))))"

text \<open>The card \<open>compare_quant\<close> saves, and its path.\<close>

definition compared_card ::
  "(pyval \<Rightarrow> string) \<Rightarrow> (pydict \<Rightarrow> string) \<Rightarrow> string \<Rightarrow> pydict \<Rightarrow> string \<Rightarrow> string \<Rightarrow> json_files \<Rightarrow> (string \<times> pydict) fallible" where
  "compared_card rep sha dir cfg alias candidate_alias fs =
     bindR (card_path dir cfg alias) (\<lambda>path.
     bindR (load (fs path)) (\<lambda>loaded.
     bindR (read_card rep sha dir cfg alias fs) (\<lambda>va.
     bindR (read_card rep sha dir cfg candidate_alias fs) (\<lambda>vb.
     case (loaded, va, vb) of
       (Some crd, Some a, Some b) \<Rightarrow> bindR (updated_card cfg candidate_alias crd a b) (\<lambda>c. Inr (path, c))
     | _ \<Rightarrow> Inl (Capacity_error Both_cards_needed)))))"

definition compare_quant ::
  "(pyval \<Rightarrow> string) \<Rightarrow> (pydict \<Rightarrow> string) \<Rightarrow> string \<Rightarrow> pydict \<Rightarrow> string \<Rightarrow> string \<Rightarrow> json_files
   \<Rightarrow> pydict fallible \<times> json_files" where
  "compare_quant rep sha dir cfg alias candidate_alias fs =
     (case compared_card rep sha dir cfg alias candidate_alias fs of
        Inl e \<Rightarrow> (Inl e, fs)
      | Inr (path, crd) \<Rightarrow>
          let fs' = fs(path := Json_file (VDict crd)) in
          (bindR (read_card rep sha dir cfg alias fs') (\<lambda>c. Inr (case c of None \<Rightarrow> [] | Some v \<Rightarrow> v)), fs'))"

section \<open>What a verdict means\<close>

text \<open>The RAM conditions of a fitting candidate.\<close>

definition ram_holds :: "pydict option \<Rightarrow> pynum \<Rightarrow> bool" where
  "ram_holds ram delta \<longleftrightarrow>
     (\<exists>r peak cap available. ram = Some r \<and> num_value (field_of r ''llm_server_peak_mib'') = Some peak
        \<and> num_value (field_of r ''llm_server_cap_mib'') = Some cap
        \<and> num_value (field_of r ''host_available_min_mib'') = Some available
        \<and> nval (nadd peak delta) \<le> nval cap \<and> of_int HOST_MEMORY_FLOOR_MIB \<le> nval (nsub available delta))"

lemma ram_verdict_fits: "ram_verdict ram delta = Inr Ram_fits \<Longrightarrow> ram_holds ram delta"
  by (auto simp: ram_verdict_def ram_holds_def not_less split: option.splits if_splits)

lemma judged_fits:
  "fst (judged rep r free) = Some True \<longleftrightarrow> 0 \<le> nval free \<and> r = Ram_fits"
  by (cases r) (auto simp: judged_def ram_ok_def)

text \<open>
  What a row says of its candidate. \<open>fits\<close> comes from the budget command when the candidate carries its
  verdict, otherwise from the measured VRAM and RAM; it is unknown without a size, with an expert
  offload, or without RAM measurements.
\<close>

definition row_sound :: "pynum \<Rightarrow> pynum \<Rightarrow> pynum \<Rightarrow> pydict option \<Rightarrow> pyval \<Rightarrow> pydict \<Rightarrow> candidate_row \<Rightarrow> bool" where
  "row_sound base model_vram available ram moe cand r \<longleftrightarrow>
     (if \<not> has_key cand ''size_bytes'' \<or> truthy moe then c_fits r = None
      else \<exists>w delta. weights_mib cand = Inr w \<and> delta = nsub w base
        \<and> c_predicted r = Some (nadd model_vram delta)
        \<and> (if truthy (field_of cand ''budget'')
           then \<exists>b. field_of cand ''budget'' = VDict b
             \<and> (c_fits r = Some True \<longleftrightarrow> truthy (field_of b ''vram_feasible'') \<and> truthy (field_of b ''ram_feasible''))
             \<and> c_fits r \<noteq> None
           else c_fits r = Some True
             \<longrightarrow> 0 \<le> nval (nsub available (nadd model_vram delta)) \<and> ram_holds ram delta))"

lemma with_budget_fits:
  assumes "with_budget rep budget predicted row = Inr r"
  shows "c_predicted r = c_predicted row
    \<and> (if truthy budget
       then \<exists>b. budget = VDict b \<and> (c_fits r = Some True \<longleftrightarrow> truthy (field_of b ''vram_feasible'') \<and> truthy (field_of b ''ram_feasible''))
         \<and> c_fits r \<noteq> None
       else r = row)"
proof (cases "truthy budget")
  case False
  then show ?thesis
    using assms by (simp add: with_budget_def)
next
  case True
  then obtain b vram both where b: "budget = VDict b" "vget b ''vram_feasible'' = Some vram"
      and both: "(if truthy vram then item b ''ram_feasible'' else Inr vram) = Inr both"
      and r: "c_fits r = Some (truthy both)" "c_predicted r = c_predicted row"
    using assms by (auto simp: with_budget_def simp del: bindR_eq_Inl)
  have "truthy both \<longleftrightarrow> truthy (field_of b ''vram_feasible'') \<and> truthy (field_of b ''ram_feasible'')"
    using both b(2) by (auto simp: field_of_vget split: if_splits)
  then show ?thesis
    using True b(1) r by auto
qed

lemma candidate_row_sound:
  assumes "candidate_row_of rep base model_vram available ram moe cand = Inr r"
  shows "row_sound base model_vram available ram moe cand r"
proof (cases "\<not> has_key cand ''size_bytes'' \<or> truthy moe")
  case True
  then show ?thesis
    using assms by (auto simp: candidate_row_of_def row_sound_def blank_row_def Let_def split: if_splits)
next
  case False
  then obtain w row ra where w: "weights_mib cand = Inr w"
      and ra: "ram_verdict ram (nsub w base) = Inr ra"
      and b: "with_budget rep (field_of cand ''budget'') (nadd model_vram (nsub w base)) row = Inr r"
      and row: "c_predicted row = Some (nadd model_vram (nsub w base))"
        "c_fits row = fst (judged rep ra (nsub available (nadd model_vram (nsub w base))))"
    using assms by (auto simp: candidate_row_of_def Let_def)
  show ?thesis
    using False w with_budget_fits [OF b] row ra by (auto simp: row_sound_def judged_fits ram_verdict_fits)
qed

text \<open>
  Every candidate is judged: one row per candidate, in order, whose \<open>fits\<close> says what it means: yes
  only if the predicted VRAM is within the available one and the RAM peak and the host's floor hold, or
  exactly the budget command's verdict when there is one; and the verdict \<open>no headroom\<close> is given
  exactly when every candidate is known not to fit.
\<close>

theorem quant_headroom_sound:
  assumes "quant_headroom rep ctx model_vram cur available ram moe candidates = Inr h"
  shows "(\<exists>base. weights_mib cur = Inr base
      \<and> list_all2 (row_sound base model_vram available ram moe) candidates (h_rows h))
    \<and> (h_verdict h \<noteq> None \<longleftrightarrow> candidates \<noteq> [] \<and> list_all (\<lambda>r. c_fits r = Some False) (h_rows h))"
proof -
  obtain base rows where base: "weights_mib cur = Inr base"
      and rows: "mapR (candidate_row_of rep base model_vram available ram moe) candidates = Inr rows"
      and h: "h_rows h = rows" "h_verdict h \<noteq> None \<longleftrightarrow> no_headroom rows"
    using assms by (auto simp: quant_headroom_def Let_def)
  have "list_all2 (row_sound base model_vram available ram moe) candidates rows"
    using rows unfolding mapR_Inr_iff by (rule list_all2_mono) (rule candidate_row_sound)
  with base h mapR_length [OF rows] show ?thesis
    by (auto simp: no_headroom_def)
qed

section \<open>Quants rest on current evidence\<close>

lemma current_other: "n \<noteq> k \<Longrightarrow> current (vput k v crd) n fp = current crd n fp"
  by (simp add: current_def)

lemma current_fresh:
  assumes "n \<in> {''depth'', ''interference''}"
  shows "current (fresh_card alias now fp' config bench crd) n fp = current crd n fp"
  using assms by (auto simp: current_def fresh_card_def field_of_defaults)

lemma quants_section_Inr:
  assumes "quants_section crd quants fp now = Inr s"
  shows "\<exists>d gate. current crd ''depth'' fp = Some d \<and> current crd ''interference'' fp = Some gate
    \<and> field_of gate ''passed'' = VBool True
    \<and> s = foldl (\<lambda>d p. dput (fst p) (snd p) d) [(VStr ''fingerprint'', VStr fp), (VStr ''written_at'', VStr now)] quants"
  using assms by (auto simp: quants_section_def split: option.splits if_splits)

lemma only_quants_card:
  assumes "next_card rep sha cfg alias (only_quants q) now f = Inr crd" "model_config cfg alias = Inr config"
    "load f = Inr (Some old)"
  shows "\<exists>d gate s. current old ''depth'' (fingerprint sha config) = Some d
    \<and> current old ''interference'' (fingerprint sha config) = Some gate \<and> field_of gate ''passed'' = VBool True
    \<and> field_of crd ''quants'' = VDict s"
proof -
  let ?fp = "fingerprint sha config"
  obtain bench s u where s: "quants_section (fresh_card alias now ?fp config bench old) q ?fp now = Inr s"
      and crd: "crd = vput ''usable'' (VDict (usable_dict u)) (vput ''quants'' (VDict s) (fresh_card alias now ?fp config bench old))"
    using assms by (auto simp: next_card_def Let_def with_section_def only_quants_def)
  show ?thesis
    using quants_section_Inr [OF s] crd by (auto simp: current_fresh)
qed

text \<open>
  Headroom is only stored on current evidence: when \<open>headroom_card\<close> succeeds, the card it read had
  a depth sweep and a passed interference report of the current configuration.
\<close>

theorem headroom_needs_current_gate:
  assumes "headroom_card rep sha dir cfg alias available cur candidates now fs = (Inr v, fs')"
  shows "\<exists>config crd d gate. model_config cfg alias = Inr config \<and> fs (card_file dir alias) = Json_file (VDict crd)
    \<and> current crd ''depth'' (fingerprint sha config) = Some d
    \<and> current crd ''interference'' (fingerprint sha config) = Some gate \<and> field_of gate ''passed'' = VBool True"
proof -
  obtain c h where "read_card rep sha dir cfg alias fs = Inr c" "\<exists>x. headroom_inputs c = Inr x"
    and run: "write_card rep sha dir cfg alias (only_quants (headroom_dict h)) now fs = (Inr v, fs')"
    using assms by (auto simp: headroom_card_def split: sum.splits)
  then obtain w where "read_card rep sha dir cfg alias fs = Inr (Some w)"
    by (cases c) (auto simp: headroom_inputs_def)
  then obtain old where old: "fs (card_file dir alias) = Json_file (VDict old)"
    using read_card_Some by blast
  show ?thesis
  proof (cases rule: write_card_cases [of rep sha dir cfg "alias" "only_quants (headroom_dict h)" now fs])
    case (failed e)
    with run show ?thesis
      by simp
  next
    case (wrote crd config)
    have "load (fs (card_file dir alias)) = Inr (Some old)"
      using wrote(2) old by (auto simp: next_card_def load_def Let_def split: if_splits)
    with only_quants_card [OF wrote(2,1)] wrote(1) old show ?thesis
      by blast
  qed
qed

lemma usable_current:
  assumes "current crd ''depth'' fp = current crd' ''depth'' fp"
    "current crd ''interference'' fp = current crd' ''interference'' fp"
  shows "usable rep crd fp (Some (p # config)) = usable rep crd' fp (Some (p # config))"
  unfolding usable_def option.case list.case assms by (rule refl)

text \<open>Conversely, current evidence is enough for the write.\<close>

lemma write_quants_ok:
  assumes path: "card_path dir cfg alias = Inr p" and config: "model_config cfg alias = Inr config"
    and old: "load (fs p) = Inr (Some old)" and bench: "bindR (entry cfg alias) bench_part = Inr b"
    and evidence: "current old ''depth'' (fingerprint sha config) = Some d"
      "current old ''interference'' (fingerprint sha config) = Some gate" "field_of gate ''passed'' = VBool True"
    and use: "usable rep old (fingerprint sha config) (Some config) = Inr u"
  shows "\<exists>v fs'. write_card rep sha dir cfg alias (only_quants q) now fs = (Inr v, fs')"
proof -
  let ?fp = "fingerprint sha config"
  let ?fresh = "fresh_card alias now ?fp config b old"
  obtain x xs where c: "config = x # xs"
    using model_config_Cons [OF config] by blast
  obtain s where s: "quants_section ?fresh q ?fp now = Inr s"
    using evidence by (simp add: quants_section_def current_fresh)
  have "usable rep (vput ''quants'' (VDict s) ?fresh) ?fp (Some config) = Inr u"
    using use unfolding c by (subst usable_current [of _ _ old]) (simp_all add: current_other current_fresh)
  then have "next_card rep sha cfg alias (only_quants q) now (fs p) = Inr (vput ''usable'' (VDict (usable_dict u))
      (vput ''quants'' (VDict s) ?fresh))"
    using config old bench s by (auto simp: next_card_def only_quants_def with_section_def Let_def load_card)
  with next_card_viewed [OF this config] show ?thesis
    using path config by (auto simp: write_card_def)
qed

section \<open>A comparison changes one entry\<close>

lemma compare_quant_run:
  assumes "compare_quant rep sha dir cfg alias cand fs = (Inr v, fs')"
  shows "\<exists>path crd. compared_card rep sha dir cfg alias cand fs = Inr (path, crd) \<and> fs' = fs(path := Json_file (VDict crd))"
  using assms by (auto simp: compare_quant_def Let_def split: sum.splits)

lemma candidate_index_found:
  "candidate_index f cs = Inr (Some i) \<Longrightarrow> i < length cs \<and> (\<exists>d. cs ! i = VDict d \<and> py_eq (field_of d ''file'') f)"
  by (induction cs arbitrary: i) (auto split: if_splits)

lemma is_stale_view:
  assumes "view rep crd config fp = Inr v"
  shows "is_stale v n \<longleftrightarrow> n \<in> set (stale_sections crd fp)"
  using assms by (auto simp: view_Inr is_stale_def)

lemma view_field:
  assumes "view rep crd config fp = Inr v" "n \<in> set MEASURED_SECTIONS"
  shows "field_of v n = field_of crd n"
  using assms by (auto simp: view_Inr MEASURED_SECTIONS_def)

lemma view_current:
  assumes "view rep crd config fp = Inr v" "n \<in> set MEASURED_SECTIONS" "field_of v n = VDict s" "\<not> is_stale v n"
  shows "current crd n fp = Some s"
  using assms view_field [OF assms(1,2)]
  by (auto simp: is_stale_view stale_sections_def current_def split: pyval.splits)

lemma updated_card_Inr:
  assumes "updated_card cfg cand crd a b = Inr crd'"
  shows "\<exists>quants b_depth config_b v cs i e block.
    quants_of_a a = Inr quants \<and> depth_of_b b = Inr b_depth \<and> model_config cfg cand = Inr config_b
    \<and> vget quants ''candidates'' = Some v \<and> items_of v = Inr cs
    \<and> candidate_index (field_of config_b ''file'') cs = Inr (Some i) \<and> cs ! i = VDict e
    \<and> crd' = put_measured crd quants cs i e block"
proof -
  obtain quants b_depth config_b cs found where q: "quants_of_a a = Inr quants" "depth_of_b b = Inr b_depth"
      "model_config cfg cand = Inr config_b" "\<exists>v. vget quants ''candidates'' = Some v \<and> items_of v = Inr cs"
      "candidate_index (field_of config_b ''file'') cs = Inr found"
    and rest: "(case found of
       None \<Rightarrow> Inl (Capacity_error No_such_candidate)
     | Some i \<Rightarrow>
         bindR (shaped (as_dict (cs ! i))) (\<lambda>e.
         bindR (block_for cand config_b quants a b b_depth e) (\<lambda>block.
         Inr (put_measured crd quants cs i e block)))) = Inr crd'"
    using assms unfolding updated_card_def by auto
  from rest obtain i e block where "found = Some i" "cs ! i = VDict e" "crd' = put_measured crd quants cs i e block"
    by (cases found) auto
  with q show ?thesis
    by blast
qed

lemma compared_card_Inr:
  assumes "compared_card rep sha dir cfg alias cand fs = Inr (path, crd')"
  shows "path = card_file dir alias \<and> (\<exists>crd a b. fs path = Json_file (VDict crd)
    \<and> read_card rep sha dir cfg alias fs = Inr (Some a) \<and> read_card rep sha dir cfg cand fs = Inr (Some b)
    \<and> updated_card cfg cand crd a b = Inr crd')"
proof -
  obtain p loaded va vb where path: "card_path dir cfg alias = Inr p" and l: "load (fs p) = Inr loaded"
      and va: "read_card rep sha dir cfg alias fs = Inr va" and vb: "read_card rep sha dir cfg cand fs = Inr vb"
      and rest: "(case (loaded, va, vb) of
       (Some crd, Some a, Some b) \<Rightarrow> bindR (updated_card cfg cand crd a b) (\<lambda>c. Inr (p, c))
     | _ \<Rightarrow> Inl (Capacity_error Both_cards_needed)) = Inr (path, crd')"
    using assms unfolding compared_card_def by auto
  from rest obtain crd a b where "loaded = Some crd" "va = Some a" "vb = Some b" "p = path"
      "updated_card cfg cand crd a b = Inr crd'"
    by (cases loaded; cases va; cases vb) auto
  with l va vb card_path_Inr [OF path] show ?thesis
    by auto
qed

text \<open>
  A comparison changes one entry of one card: it needs current quants in the first card and a current
  depth sweep in the candidate's own card, and it rewrites only the measured block of the candidate
  whose file is the candidate model's; every other section, candidate and file is as before.
\<close>

theorem comparison_changes_one_candidate:
  assumes "compare_quant rep sha dir cfg alias cand fs = (Inr v, fs')"
  shows "\<exists>crd crd' quants cs i e block config config_b crd_b.
    fs (card_file dir alias) = Json_file (VDict crd) \<and> fs (card_file dir cand) = Json_file (VDict crd_b)
    \<and> model_config cfg alias = Inr config \<and> model_config cfg cand = Inr config_b
    \<and> current crd ''quants'' (fingerprint sha config) = Some quants
    \<and> current crd_b ''depth'' (fingerprint sha config_b) \<noteq> None
    \<and> items_of (field_of quants ''candidates'') = Inr cs \<and> i < length cs \<and> cs ! i = VDict e
    \<and> py_eq (field_of e ''file'') (field_of config_b ''file'')
    \<and> fs' = fs(card_file dir alias := Json_file (VDict crd'))
    \<and> (\<forall>k. k \<noteq> ''quants'' \<longrightarrow> field_of crd' k = field_of crd k)
    \<and> field_of crd' ''quants'' = VDict (vput ''candidates'' (VList (cs[i := VDict (vput ''measured'' (VDict block) e)])) quants)"
proof -
  obtain path crd' where cc: "compared_card rep sha dir cfg alias cand fs = Inr (path, crd')"
      and fs': "fs' = fs(path := Json_file (VDict crd'))"
    using compare_quant_run [OF assms] by blast
  obtain crd a b where path: "path = card_file dir alias" "fs path = Json_file (VDict crd)"
      and ab: "read_card rep sha dir cfg alias fs = Inr (Some a)" "read_card rep sha dir cfg cand fs = Inr (Some b)"
      and up: "updated_card cfg cand crd a b = Inr crd'"
    using compared_card_Inr [OF cc] by blast
  obtain quants b_depth config_b w cs i e block where q: "quants_of_a a = Inr quants" "depth_of_b b = Inr b_depth"
      and config_b: "model_config cfg cand = Inr config_b"
      and cs: "vget quants ''candidates'' = Some w" "items_of w = Inr cs"
      and i: "candidate_index (field_of config_b ''file'') cs = Inr (Some i)" "cs ! i = VDict e"
      and crd': "crd' = put_measured crd quants cs i e block"
    using updated_card_Inr [OF up] by blast
  obtain crd0 config where config: "fs (card_file dir alias) = Json_file (VDict crd0)" "model_config cfg alias = Inr config"
      "view rep crd0 config (fingerprint sha config) = Inr a"
    using read_card_Some [OF ab(1)] by blast
  obtain crd_b config_b' where b: "fs (card_file dir cand) = Json_file (VDict crd_b)" "model_config cfg cand = Inr config_b'"
      "view rep crd_b config_b' (fingerprint sha config_b') = Inr b"
    using read_card_Some [OF ab(2)] by blast
  have [simp]: "crd0 = crd" "config_b' = config_b"
    using config(1) path b(2) config_b by simp_all
  have "field_of a ''quants'' = VDict quants" "\<not> is_stale a ''quants''"
    using q(1) by (auto simp: quants_of_a_def split: pyval.splits if_splits)
  then have quants: "current crd ''quants'' (fingerprint sha config) = Some quants"
    using view_current [OF config(3)] by (simp add: MEASURED_SECTIONS_def)
  have "field_of b ''depth'' = VDict b_depth" "\<not> is_stale b ''depth''"
    using q(2) by (auto simp: depth_of_b_def split: pyval.splits if_splits)
  then have depth: "current crd_b ''depth'' (fingerprint sha config_b) \<noteq> None"
    using view_current [OF b(3)] by (simp add: MEASURED_SECTIONS_def)
  have items: "items_of (field_of quants ''candidates'') = Inr cs"
    using cs by (simp add: field_of_vget)
  have found: "i < length cs" "py_eq (field_of e ''file'') (field_of config_b ''file'')"
    using candidate_index_found [OF i(1)] i(2) by auto
  have card: "fs (card_file dir alias) = Json_file (VDict crd)" "fs' = fs(card_file dir alias := Json_file (VDict crd'))"
    using path fs' by simp_all
  have fields: "\<forall>k. k \<noteq> ''quants'' \<longrightarrow> field_of crd' k = field_of crd k"
    "field_of crd' ''quants'' = VDict (vput ''candidates'' (VList (cs[i := VDict (vput ''measured'' (VDict block) e)])) quants)"
    by (simp_all add: crd' put_measured_def)
  show ?thesis
    by (rule exI [of _ crd], rule exI [of _ crd'], rule exI [of _ quants], rule exI [of _ cs], rule exI [of _ i],
        rule exI [of _ e], rule exI [of _ block], rule exI [of _ config], rule exI [of _ config_b], rule exI [of _ crd_b])
      (intro conjI card b(1) config(2) config_b quants depth items found i(2) fields)
qed

section \<open>Examples\<close>

lemma weights_of: "0 \<le> n \<Longrightarrow> n \<le> 2 ^ 53 \<Longrightarrow> vget e ''size_bytes'' = Some (VInt (n * MIB)) \<Longrightarrow> weights_mib e = Inr (IntN n)"
  by (simp add: weights_mib_def item_def num_def nceil_def MIB_def)

definition demo_current :: pydict where
  "demo_current = [(VStr ''quant'', VStr ''Q4''), (VStr ''file'', VStr ''f''), (VStr ''size_bytes'', VInt (10 * MIB)),
     (VStr ''sha256'', VNone)]"

definition demo_candidate :: pydict where
  "demo_candidate = [(VStr ''quant'', VStr ''Q5''), (VStr ''file'', VStr ''g''), (VStr ''size_bytes'', VInt (12 * MIB))]"

definition demo_ram :: pydict where
  "demo_ram = [(VStr ''llm_server_peak_mib'', VInt 100), (VStr ''llm_server_cap_mib'', VInt 200),
     (VStr ''host_available_min_mib'', VInt 9000)]"

lemma demo_weights: "weights_mib demo_current = Inr (IntN 10)" "weights_mib demo_candidate = Inr (IntN 12)"
  by (rule weights_of; simp add: demo_current_def demo_candidate_def vget_def)+

lemma demo_headroom:
  "\<exists>h. quant_headroom rep (IntN 8192) (IntN 50) demo_current (IntN 60) (Some demo_ram) VNone [demo_candidate] = Inr h
     \<and> map c_fits (h_rows h) = [Some True] \<and> h_verdict h = None"
proof -
  have k: "has_key demo_candidate ''size_bytes''" "vget demo_candidate ''quant'' = Some (VStr ''Q5'')"
    "field_of demo_candidate ''budget'' = VNone" "field_of demo_candidate ''params_total'' = VNone"
    by (simp_all add: demo_candidate_def has_key_def field_of_def vget_or_def vget_def)
  have c: "vget demo_current ''quant'' = Some (VStr ''Q4'')" "vget demo_current ''file'' = Some (VStr ''f'')"
    "vget demo_current ''sha256'' = Some VNone" "field_of demo_current ''params_total'' = VNone"
    by (simp_all add: demo_current_def field_of_def vget_or_def vget_def)
  have r: "ram_verdict (Some demo_ram) (IntN 2) = Inr Ram_fits"
    by (simp add: ram_verdict_def demo_ram_def num_def field_of_def vget_or_def vget_def HOST_MEMORY_FLOOR_MIB_def)
  obtain row where "candidate_row_of rep (IntN 10) (IntN 50) (IntN 60) (Some demo_ram) VNone demo_candidate = Inr row"
      "c_fits row = Some True"
    by (simp add: candidate_row_of_def demo_weights(2) bpw_def item_def k r with_budget_def judged_def ram_ok_def)
  then show ?thesis
    by (simp add: quant_headroom_def demo_weights(1) bpw_def item_def c no_headroom_def)
qed

theorem quant_headroom_sound_witness:
  "\<exists>h. quant_headroom (\<lambda>_. []) (IntN 8192) (IntN 50) demo_current (IntN 60) (Some demo_ram) VNone [demo_candidate] = Inr h
     \<and> (\<exists>base. weights_mib demo_current = Inr base
          \<and> list_all2 (row_sound base (IntN 50) (IntN 60) (Some demo_ram) VNone) [demo_candidate] (h_rows h))"
proof -
  obtain h where h: "quant_headroom (\<lambda>_. []) (IntN 8192) (IntN 50) demo_current (IntN 60) (Some demo_ram) VNone [demo_candidate]
      = Inr h"
    using demo_headroom by blast
  from quant_headroom_sound [OF h] h show ?thesis
    by blast
qed

text \<open>A measured card whose weights fill the budget exactly.\<close>

definition demo_measured :: pydict where
  "demo_measured =
     [(VStr ''config'', VDict []),
      (VStr ''depth'', VDict [(VStr ''fingerprint'', VStr ''a''), (VStr ''points'', VList []), (VStr ''model_vram_mib'', VInt 50)]),
      (VStr ''interference'', VDict [(VStr ''fingerprint'', VStr ''a''), (VStr ''passed'', VBool True)])]"

definition demo_files :: json_files where
  "demo_files = (\<lambda>p. if p = card_file ''d'' ''m'' then Json_file (VDict demo_measured) else No_file)"

lemma demo_measured_facts:
  "is_dict (field_of demo_measured ''config'')"
  "current demo_measured ''depth'' ''a'' = Some [(VStr ''fingerprint'', VStr ''a''), (VStr ''points'', VList []),
     (VStr ''model_vram_mib'', VInt 50)]"
  "current demo_measured ''interference'' ''a'' = Some [(VStr ''fingerprint'', VStr ''a''), (VStr ''passed'', VBool True)]"
  "field_of demo_measured ''ram'' = VNone" "field_of demo_measured ''ladder'' = VNone"
  "field_of demo_measured ''quants'' = VNone" "field_of demo_measured ''profile'' = VNone"
  by (simp_all add: demo_measured_def current_def field_of_def vget_or_def vget_def)

lemma no_points: "current crd ''depth'' fp = Some s \<Longrightarrow> vget s ''points'' = Some (VList [])
  \<Longrightarrow> usable rep crd fp c = Inr (nothing ''no current depth sweep'')"
  by (simp add: usable_def measured_depths_def vget_or_def shaped_def List.map_filter_simps)

lemma demo_card_read: "\<exists>v. read_card rep demo_sha ''d'' (demo_cfg 8192) ''m'' demo_files = Inr (Some v)
    \<and> headroom_inputs (Some v) = Inr (VInt 50, None)"
proof -
  obtain p c where config: "model_config (demo_cfg 8192) ''m'' = Inr (p # c)" "field_of (p # c) ''ctx_size'' = VInt 8192"
    using demo_config [of 8192] by blast
  obtain v where v: "view rep demo_measured (p # c) ''a'' = Inr v"
    using no_points [OF demo_measured_facts(2), of rep "Some (p # c)"] by (simp add: view_def vget_def)
  have "read_card rep demo_sha ''d'' (demo_cfg 8192) ''m'' demo_files = Inr (Some v)"
    using config v by (simp add: read_card_def card_path_def demo_entry card_file_def demo_files_def load_card
        demo_measured_facts demo_fingerprint)
  moreover have "stale_sections demo_measured ''a'' = []"
    by (simp add: stale_sections_def MEASURED_SECTIONS_def demo_measured_def field_of_def vget_or_def vget_def)
  with v is_stale_view [OF v] have "\<not> is_stale v n" "field_of v ''stale_sections'' = VList []" for n
    by (auto simp: view_Inr)
  moreover have "field_of v ''depth'' = field_of demo_measured ''depth''" "field_of v ''ram'' = field_of demo_measured ''ram''"
    "field_of v ''interference'' = field_of demo_measured ''interference''"
    by (rule view_field [OF v]; simp add: MEASURED_SECTIONS_def)+
  moreover have "field_of demo_measured ''interference'' = VDict [(VStr ''fingerprint'', VStr ''a''), (VStr ''passed'', VBool True)]"
    "field_of demo_measured ''depth'' = VDict [(VStr ''fingerprint'', VStr ''a''), (VStr ''points'', VList []),
       (VStr ''model_vram_mib'', VInt 50)]"
    by (simp_all add: demo_measured_def field_of_def vget_or_def vget_def)
  moreover have "field_of [(VStr ''fingerprint'', VStr ''a''), (VStr ''passed'', VBool True)] ''passed'' = VBool True"
    "field_of [(VStr ''fingerprint'', VStr ''a''), (VStr ''points'', VList []), (VStr ''model_vram_mib'', VInt 50)]
       ''model_vram_mib'' = VInt 50"
    by (simp_all add: field_of_def vget_or_def vget_def)
  ultimately show ?thesis
    by (simp add: headroom_inputs_def interference_passed_def demo_measured_facts(4))
qed

lemma demo_quants_write:
  "\<exists>v fs'. write_card rep demo_sha ''d'' (demo_cfg 8192) ''m'' (only_quants q) ''t'' demo_files = (Inr v, fs')"
proof -
  obtain p c where config: "model_config (demo_cfg 8192) ''m'' = Inr (p # c)" "field_of (p # c) ''ctx_size'' = VInt 8192"
    using demo_config [of 8192] by blast
  have bench: "bindR (entry (demo_cfg 8192) ''m'') bench_part = Inr VNone"
    by (simp add: demo_entry bench_part_def dict_or_empty_def shaped_def field_of_def vget_or_def vget_def)
  show ?thesis
  proof (rule write_quants_ok [where p = "card_file ''d'' ''m''"])
    show "card_path ''d'' (demo_cfg 8192) ''m'' = Inr (card_file ''d'' ''m'')"
      by (simp add: card_path_def demo_entry card_file_def)
    show "load (demo_files (card_file ''d'' ''m'')) = Inr (Some demo_measured)"
      by (simp add: demo_files_def demo_measured_facts)
    show "usable rep demo_measured (fingerprint demo_sha (p # c)) (Some (p # c)) = Inr (nothing ''no current depth sweep'')"
      using config(2) by (simp add: demo_fingerprint no_points [OF demo_measured_facts(2)] vget_def)
    show "field_of [(VStr ''fingerprint'', VStr ''a''), (VStr ''passed'', VBool True)] ''passed'' = VBool True"
      by (simp add: field_of_def vget_or_def vget_def)
  qed (use config(2) in \<open>simp_all add: config(1) bench demo_fingerprint demo_measured_facts\<close>)
qed

theorem written_card_reads_back_witness:
  "\<exists>v fs'. write_card (\<lambda>_. []) demo_sha ''d'' (demo_cfg 8192) ''m'' (only_quants []) ''t'' demo_files = (Inr v, fs')
     \<and> read_card (\<lambda>_. []) demo_sha ''d'' (demo_cfg 8192) ''m'' fs' = Inr (Some v)"
proof -
  obtain v fs' where w: "write_card (\<lambda>_. []) demo_sha ''d'' (demo_cfg 8192) ''m'' (only_quants []) ''t'' demo_files = (Inr v, fs')"
    using demo_quants_write by blast
  from written_card_reads_back [OF w] w show ?thesis
    by blast
qed

lemma demo_headroom_card:
  "\<exists>v fs'. headroom_card rep demo_sha ''d'' (demo_cfg 8192) ''m'' (IntN 60) demo_current [] ''t'' demo_files = (Inr v, fs')"
proof -
  obtain w where read: "read_card rep demo_sha ''d'' (demo_cfg 8192) ''m'' demo_files = Inr (Some w)"
      and inputs: "headroom_inputs (Some w) = Inr (VInt 50, None)"
    using demo_card_read by blast
  obtain p c where config: "model_config (demo_cfg 8192) ''m'' = Inr (p # c)" "field_of (p # c) ''ctx_size'' = VInt 8192"
      "vget (p # c) ''ctx_size'' = Some (VInt 8192)"
    using demo_config [of 8192] by blast
  have cur: "vget demo_current ''quant'' = Some (VStr ''Q4'')" "vget demo_current ''file'' = Some (VStr ''f'')"
    "vget demo_current ''sha256'' = Some VNone" "field_of demo_current ''params_total'' = VNone"
    by (simp_all add: demo_current_def field_of_def vget_or_def vget_def)
  obtain h where h: "quant_headroom rep (IntN 8192) (IntN 50) demo_current (IntN 60) None (field_of (p # c) ''n_cpu_moe'') [] = Inr h"
    by (simp add: quant_headroom_def demo_weights bpw_def item_def cur Let_def)
  obtain v fs' where "write_card rep demo_sha ''d'' (demo_cfg 8192) ''m'' (only_quants (headroom_dict h)) ''t'' demo_files
      = (Inr v, fs')"
    using demo_quants_write by blast
  then show ?thesis
    by (simp add: headroom_card_def read inputs config item_def num_def h)
qed

theorem headroom_needs_current_gate_witness:
  "\<exists>config crd d gate. model_config (demo_cfg 8192) ''m'' = Inr config \<and> demo_files (card_file ''d'' ''m'') = Json_file (VDict crd)
    \<and> current crd ''depth'' (fingerprint demo_sha config) = Some d
    \<and> current crd ''interference'' (fingerprint demo_sha config) = Some gate \<and> field_of gate ''passed'' = VBool True"
proof -
  obtain v fs' where "headroom_card (\<lambda>_. []) demo_sha ''d'' (demo_cfg 8192) ''m'' (IntN 60) demo_current [] ''t'' demo_files
      = (Inr v, fs')"
    using demo_headroom_card by blast
  then show ?thesis
    by (rule headroom_needs_current_gate)
qed

section \<open>A comparison\<close>

definition pair_cfg :: pydict where
  "pair_cfg = [(VStr ''models'', VList
     [VDict [(VStr ''alias'', VStr ''m''), (VStr ''file'', VStr ''f'')], VDict [(VStr ''alias'', VStr ''n''), (VStr ''file'', VStr ''g'')]])]"

definition pair_sha :: "pydict \<Rightarrow> string" where
  "pair_sha config = (if field_of config ''file'' = VStr ''f'' then ''a'' else ''b'')"

definition pair_entry :: pydict where
  "pair_entry = [(VStr ''quant'', VStr ''Q5''), (VStr ''file'', VStr ''g'')]"

definition pair_quants :: pydict where
  "pair_quants = [(VStr ''fingerprint'', VStr ''a''), (VStr ''ref_depth'', VInt 0), (VStr ''candidates'', VList [VDict pair_entry])]"

definition pair_card :: "string \<Rightarrow> pyval \<Rightarrow> pydict" where
  "pair_card fp quants =
     [(VStr ''config'', VDict []), (VStr ''depth'', VDict [(VStr ''fingerprint'', VStr fp), (VStr ''points'', VList [])]),
      (VStr ''quants'', quants)]"

definition pair_files :: json_files where
  "pair_files = (\<lambda>p. if p = card_file ''d'' ''m'' then Json_file (VDict (pair_card ''a'' (VDict pair_quants)))
     else if p = card_file ''d'' ''n'' then Json_file (VDict (pair_card ''b'' VNone)) else No_file)"

lemma pair_config:
  assumes "(al, f) \<in> {(''m'', ''f''), (''n'', ''g'')}"
  shows "\<exists>p c. model_config pair_cfg al = Inr (p # c) \<and> field_of (p # c) ''file'' = VStr f
    \<and> fingerprint pair_sha (p # c) = (if f = ''f'' then ''a'' else ''b'') \<and> card_path ''d'' pair_cfg al = Inr (card_file ''d'' al)"
proof -
  have "entry pair_cfg al = Inr [(VStr ''alias'', VStr al), (VStr ''file'', VStr f)]"
    using assms by (auto simp: entry_def pair_cfg_def complain_def ALIAS_PATTERN_def alias_head_def Let_def falsy_or_items_def
        field_of_def vget_or_def vget_def shaped_def List.map_filter_simps)
  moreover have "field_of pair_cfg ''runtime'' = VNone" "take 16 ''a'' = ''a''" "take 16 ''b'' = ''b''"
    by (simp_all add: pair_cfg_def field_of_def vget_or_def vget_def)
  ultimately show ?thesis
    using assms by (auto simp: model_config_def dict_or_empty_def shaped_def card_path_def card_file_def fingerprint_def pair_sha_def
        field_of_def [of "_ # _"] vget_or_def vget_def)
qed

lemma pair_view:
  assumes "fs (card_file ''d'' al) = Json_file (VDict crd)" "(al, f) \<in> {(''m'', ''f''), (''n'', ''g'')}"
    and "is_dict (field_of crd ''config'')" "current crd ''depth'' (if f = ''f'' then ''a'' else ''b'') = Some s"
      "vget s ''points'' = Some (VList [])"
  shows "\<exists>v config. read_card rep pair_sha ''d'' pair_cfg al fs = Inr (Some v)
    \<and> view rep crd config (if f = ''f'' then ''a'' else ''b'') = Inr v"
proof -
  obtain p c where c: "model_config pair_cfg al = Inr (p # c)" "fingerprint pair_sha (p # c) = (if f = ''f'' then ''a'' else ''b'')"
      "card_path ''d'' pair_cfg al = Inr (card_file ''d'' al)"
    using pair_config [OF assms(2)] by blast
  obtain v where v: "view rep crd (p # c) (if f = ''f'' then ''a'' else ''b'') = Inr v"
    using no_points [OF assms(4,5), of rep "Some (p # c)"] by (simp add: view_def)
  have "read_card rep pair_sha ''d'' pair_cfg al fs = Inr (Some v)"
    using c v assms(1,3) by (simp add: read_card_def load_card)
  with v show ?thesis
    by blast
qed

lemma pair_card_facts:
  "is_dict (field_of (pair_card fp q) ''config'')"
  "current (pair_card fp q) ''depth'' fp = Some [(VStr ''fingerprint'', VStr fp), (VStr ''points'', VList [])]"
  "field_of (pair_card fp q) ''depth'' = VDict [(VStr ''fingerprint'', VStr fp), (VStr ''points'', VList [])]"
  "field_of (pair_card fp q) ''quants'' = q" "field_of (pair_card fp q) ''ladder'' = VNone"
  by (simp_all add: pair_card_def current_def field_of_def vget_or_def vget_def)

lemma pair_fresh: "stale_sections (pair_card ''a'' (VDict pair_quants)) ''a'' = []" "stale_sections (pair_card ''b'' VNone) ''b'' = []"
  by (simp_all add: stale_sections_def MEASURED_SECTIONS_def pair_card_def pair_quants_def field_of_def vget_or_def vget_def)

lemma pair_updated:
  assumes a: "view rep (pair_card ''a'' (VDict pair_quants)) ca ''a'' = Inr va"
    and b: "view rep (pair_card ''b'' VNone) cb ''b'' = Inr vb"
  shows "\<exists>block. updated_card pair_cfg ''n'' (pair_card ''a'' (VDict pair_quants)) va vb
    = Inr (put_measured (pair_card ''a'' (VDict pair_quants)) pair_quants [VDict pair_entry] 0 pair_entry block)"
proof -
  have stale: "\<not> is_stale va n" "\<not> is_stale vb n" for n
    by (simp_all add: is_stale_view [OF a] is_stale_view [OF b] pair_fresh)
  have fa: "field_of va ''quants'' = VDict pair_quants" "field_of va ''ladder'' = VNone"
      "field_of va ''depth'' = VDict [(VStr ''fingerprint'', VStr ''a''), (VStr ''points'', VList [])]"
    by (simp_all add: view_field [OF a] MEASURED_SECTIONS_def pair_card_facts)
  have fb: "field_of vb ''ladder'' = VNone"
      "field_of vb ''depth'' = VDict [(VStr ''fingerprint'', VStr ''b''), (VStr ''points'', VList [])]"
    by (simp_all add: view_field [OF b] MEASURED_SECTIONS_def pair_card_facts)
  obtain p c where c: "model_config pair_cfg ''n'' = Inr (p # c)" "field_of (p # c) ''file'' = VStr ''g''"
    using pair_config [of "''n''" "''g''"] by auto
  have q: "vget pair_quants ''candidates'' = Some (VList [VDict pair_entry])" "vget pair_quants ''ref_depth'' = Some (VInt 0)"
      "field_of pair_entry ''file'' = VStr ''g''" "vget pair_entry ''quant'' = Some (VStr ''Q5'')"
    by (simp_all add: pair_quants_def pair_entry_def field_of_def vget_or_def vget_def)
  have index: "candidate_index (VStr ''g'') [VDict pair_entry] = Inr (Some 0)"
    by (simp add: shaped_def q)
  have "value_at [(VStr ''fingerprint'', VStr fp), (VStr ''points'', VList [])] d k = Inr VNone" for fp d k
    by (simp add: value_at_def field_of_def vget_or_def vget_def falsy_or_items_def shaped_def)
  moreover have "vget [(VStr ''fingerprint'', VStr fp), (VStr ''points'', VList [])] ''points'' = Some (VList [])"
    "field_of [(VStr ''fingerprint'', VStr fp), (VStr ''points'', VList [])] ''model_vram_mib'' = VNone" for fp
    by (simp_all add: field_of_def vget_or_def vget_def)
  moreover have "field_of [] k = VNone" for k
    by (simp add: field_of_def vget_or_def vget_def)
  ultimately obtain block where block: "block_for ''n'' (p # c) pair_quants va vb
      [(VStr ''fingerprint'', VStr ''b''), (VStr ''points'', VList [])] pair_entry = Inr block"
    by (simp add: block_for_def measured_block_def ladder_of_def stale fa fb dict_or_empty_def shaped_def item_def q diff_at_def
        diff_def)
  show ?thesis
    by (rule exI [of _ block])
      (simp add: updated_card_def quants_of_a_def depth_of_b_def stale fa fb c index item_def q shaped_def block)
qed

theorem comparison_changes_one_candidate_witness:
  "\<exists>v fs' crd crd'. compare_quant (\<lambda>_. []) pair_sha ''d'' pair_cfg ''m'' ''n'' pair_files = (Inr v, fs')
     \<and> pair_files (card_file ''d'' ''m'') = Json_file (VDict crd) \<and> fs' = pair_files(card_file ''d'' ''m'' := Json_file (VDict crd'))
     \<and> field_of crd' ''depth'' = field_of crd ''depth''"
proof -
  let ?a = "pair_card ''a'' (VDict pair_quants)" and ?b = "pair_card ''b'' VNone"
  have files: "pair_files (card_file ''d'' ''m'') = Json_file (VDict ?a)" "pair_files (card_file ''d'' ''n'') = Json_file (VDict ?b)"
    by (simp_all add: pair_files_def card_file_def)
  obtain va ca where va: "read_card (\<lambda>_. []) pair_sha ''d'' pair_cfg ''m'' pair_files = Inr (Some va)"
      "view (\<lambda>_. []) ?a ca ''a'' = Inr va"
    using pair_view [of pair_files "''m''" ?a "''f''" _ "\<lambda>_. []"] files pair_card_facts by (auto simp: vget_def)
  obtain vb cb where vb: "read_card (\<lambda>_. []) pair_sha ''d'' pair_cfg ''n'' pair_files = Inr (Some vb)"
      "view (\<lambda>_. []) ?b cb ''b'' = Inr vb"
    using pair_view [of pair_files "''n''" ?b "''g''" _ "\<lambda>_. []"] files pair_card_facts by (auto simp: vget_def)
  obtain block where up: "updated_card pair_cfg ''n'' ?a va vb
      = Inr (put_measured ?a pair_quants [VDict pair_entry] 0 pair_entry block)"
    using pair_updated [OF va(2) vb(2)] by blast
  let ?c = "put_measured ?a pair_quants [VDict pair_entry] 0 pair_entry block"
  have "card_path ''d'' pair_cfg ''m'' = Inr (card_file ''d'' ''m'')"
    using pair_config [of "''m''" "''f''"] by auto
  then have cc: "compared_card (\<lambda>_. []) pair_sha ''d'' pair_cfg ''m'' ''n'' pair_files = Inr (card_file ''d'' ''m'', ?c)"
    using va(1) vb(1) up files(1) pair_card_facts(1) by (simp add: compared_card_def load_card)
  let ?fs = "pair_files(card_file ''d'' ''m'' := Json_file (VDict ?c))"
  have "is_dict (field_of ?c ''config'')" "current ?c ''depth'' ''a'' = current ?a ''depth'' ''a''"
    by (simp_all add: put_measured_def pair_card_facts current_other)
  then obtain w where "read_card (\<lambda>_. []) pair_sha ''d'' pair_cfg ''m'' ?fs = Inr (Some w)"
    using pair_view [of ?fs "''m''" ?c "''f''" _ "\<lambda>_. []"] pair_card_facts(2) by (auto simp: vget_def)
  then have run: "compare_quant (\<lambda>_. []) pair_sha ''d'' pair_cfg ''m'' ''n'' pair_files = (Inr w, ?fs)"
    by (simp add: compare_quant_def cc Let_def)
  obtain crd crd' where "pair_files (card_file ''d'' ''m'') = Json_file (VDict crd)"
      "?fs = pair_files(card_file ''d'' ''m'' := Json_file (VDict crd'))"
      "\<forall>k. k \<noteq> ''quants'' \<longrightarrow> field_of crd' k = field_of crd k"
    using comparison_changes_one_candidate [OF run] by blast
  then show ?thesis
    by (intro exI [of _ w] exI [of _ ?fs] exI [of _ crd] exI [of _ crd'] conjI run) simp_all
qed

end
