(* ===== verification/Drift.thy ===== *)
theory Drift
  imports Projection
begin

text \<open>
  Configuration drift (\<open>pylib/omniroute_update.py\<close>): which fields of the running container differ from
  the desired compose service, named and never shown. Memory sizes and durations are parsed from text;
  floating-point steps are binary64, and \<open>sum\<close> adds from left to right.
\<close>

section \<open>Numbers in compose texts\<close>

definition decimal :: "string \<Rightarrow> string \<Rightarrow> rat" where
  "decimal ds fs = of_int (digits_value ds) + of_int (digits_value fs) / 10 ^ length fs"

text \<open>A match of \<open>\d+(?:\.\d+)?\<close> at the start of a text, with the rest.\<close>

definition take_decimal :: "string \<Rightarrow> (rat \<times> string) option" where
  "take_decimal s =
     (let ds = takeWhile is_digit s; r = dropWhile is_digit s; fs = takeWhile is_digit (tl r) in
      if ds = [] then None
      else if r \<noteq> [] \<and> hd r = CHR ''.'' \<and> fs \<noteq> [] then Some (decimal ds fs, dropWhile is_digit (tl r))
      else Some (decimal ds [], r))"

fun unit_power :: "char \<Rightarrow> nat option" where
  "unit_power c =
     (if c = CHR ''k'' then Some 1 else if c = CHR ''m'' then Some 2 else if c = CHR ''g'' then Some 3
      else if c = CHR ''t'' then Some 4 else None)"

definition drop_unit :: "string \<Rightarrow> nat \<times> string" where
  "drop_unit s =
     (case s of [] \<Rightarrow> (0, [])
      | c # cs \<Rightarrow> (case unit_power c of Some k \<Rightarrow> (k, cs) | None \<Rightarrow> (0, s)))"

text \<open>\<open>_bytes\<close>: an optional fraction, an optional unit and an optional \<open>b\<close>.\<close>

definition bytes_of :: "(pyval \<Rightarrow> string) \<Rightarrow> pyval \<Rightarrow> int attempt" where
  "bytes_of rep v =
     (case take_decimal (map lower (strip (str_of rep v))) of
        None \<Rightarrow> Inl (Deferred R_input)
      | Some (x, r) \<Rightarrow>
          let (k, r') = drop_unit r in
          if r' \<in> {[], ''b''} then Inr \<lfloor>fl (fl x * 1024 ^ k)\<rfloor> else Inl (Deferred R_input))"

definition NS :: "(string, rat) dict" where
  "NS = [(''ns'', 1), (''us'', 1000), (''ms'', 1000000), (''s'', 1000000000), (''m'', 60000000000), (''h'', 3600000000000)]"

definition take_unit :: "string \<Rightarrow> (rat \<times> string) option" where
  "take_unit s =
     (case find (\<lambda>u. starts_with (fst u) s) NS of
        None \<Rightarrow> None
      | Some u \<Rightarrow> Some (snd u, drop (length (fst u)) s))"

text \<open>The amounts \<open>re.findall\<close> finds, each as \<open>float(n) * unit\<close>: a text without a match is skipped.\<close>

function durations :: "string \<Rightarrow> rat list" where
  "durations [] = []"
| "durations (c # cs) =
     (case take_decimal (c # cs) of
        None \<Rightarrow> durations cs
      | Some (x, r) \<Rightarrow>
          (case take_unit r of
             None \<Rightarrow> durations cs
           | Some (u, rest) \<Rightarrow> if length rest < length (c # cs) then fl (fl x * u) # durations rest else []))"
  by pat_completeness auto
termination
  by (relation "measure length") auto

definition ns_of :: "(pyval \<Rightarrow> string) \<Rightarrow> pyval \<Rightarrow> int" where
  "ns_of rep v = round_half_even (foldl (\<lambda>a x. fl (a + x)) 0 (durations (str_of rep v)))"

text \<open>\<open>int(v)\<close> and \<open>float(v)\<close>; a text is parsed.\<close>

definition int_of_value :: "pyval \<Rightarrow> int attempt" where
  "int_of_value v =
     (case v of
        VStr s \<Rightarrow> (case parse_int s of Some n \<Rightarrow> Inr n | None \<Rightarrow> Inl Uncaught)
      | _ \<Rightarrow> (case num_value v of Some n \<Rightarrow> Inr (ntrunc n) | None \<Rightarrow> Inl Uncaught))"

definition digit_part :: "string \<Rightarrow> bool" where
  "digit_part s \<longleftrightarrow> s = [] \<or> int_digits s"

definition unsigned_decimal :: "string \<Rightarrow> rat option" where
  "unsigned_decimal s =
     (let (mant, has_e, ex) = partition_at (CHR ''e'') (map lower s);
          (ip, _, fp) = partition_at (CHR ''.'') mant in
      if digit_part ip \<and> digit_part fp \<and> ip @ fp \<noteq> [] \<and> (has_e \<longrightarrow> strip ex = ex) then
        (case if has_e then parse_int ex else Some 0 of
           Some e \<Rightarrow> Some (decimal (filter is_digit ip) (filter is_digit fp) * 10 powi e)
         | None \<Rightarrow> None)
      else None)"

definition parse_float :: "string \<Rightarrow> rat option" where
  "parse_float s =
     (case strip s of
        c # cs \<Rightarrow>
          if c = CHR ''-'' then map_option (\<lambda>x. fl (- x)) (unsigned_decimal cs)
          else if c = CHR ''+'' then map_option fl (unsigned_decimal cs)
          else map_option fl (unsigned_decimal (c # cs))
      | [] \<Rightarrow> None)"

definition float_of_value :: "pyval \<Rightarrow> rat attempt" where
  "float_of_value v =
     (case v of
        VStr s \<Rightarrow> (case parse_float s of Some x \<Rightarrow> Inr x | None \<Rightarrow> Inl Uncaught)
      | _ \<Rightarrow> (case num_value v of Some n \<Rightarrow> Inr (to_float n) | None \<Rightarrow> Inl Uncaught))"

section \<open>Ports\<close>

definition ip_of :: "(pyval \<Rightarrow> string) \<Rightarrow> pyval \<Rightarrow> string" where
  "ip_of rep v = (if \<not> truthy v \<or> str_of rep v = ''0.0.0.0'' then [] else str_of rep v)"

type_synonym binding = "string \<times> string \<times> string"

definition port_binding :: "(pyval \<Rightarrow> string) \<Rightarrow> pyval \<Rightarrow> binding" where
  "port_binding rep e =
     (case e of
        VDict d \<Rightarrow>
          let proto = field_of d ''protocol'' in
          (ip_of rep (vget_or d ''host_ip'' (VStr [])), str_of rep (vget_or d ''published'' (VStr [])),
           str_of rep (vget_or d ''target'' (VStr [])) @ ''/'' @ (if truthy proto then str_of rep proto else ''tcp''))
      | _ \<Rightarrow>
          let (spec, _, proto) = partition_at (CHR ''/'') (str_of rep e);
              parts = [[], []] @ split_on (CHR '':'') spec;
              n = length parts in
          (ip_of rep (VStr (parts ! (n - 3))), parts ! (n - 2),
           parts ! (n - 1) @ ''/'' @ (if proto = [] then ''tcp'' else proto)))"

definition port_bindings :: "(pyval \<Rightarrow> string) \<Rightarrow> pydict \<Rightarrow> binding list attempt" where
  "port_bindings rep svc =
     bindR (falsy_or_items (field_of svc ''ports'')) (\<lambda>es. Inr (map (port_binding rep) es))"

definition running_bindings :: "(pyval \<Rightarrow> string) \<Rightarrow> pydict \<Rightarrow> binding list attempt" where
  "running_bindings rep doc =
     bindR (section_of ''HostConfig'' doc) (\<lambda>host.
     bindR (section_of ''PortBindings'' host) (\<lambda>ports.
     bindR (mapR (\<lambda>(key, binds).
         bindR (falsy_or_items binds) (mapR (\<lambda>b. bindR (as_dict b) (\<lambda>d.
           Inr (ip_of rep (field_of d ''HostIp''), str_of rep (vget_or d ''HostPort'' (VStr [])), str_of rep key))))) ports)
       (\<lambda>bss. Inr (concat bss))))"

definition published_port :: "(pyval \<Rightarrow> string) \<Rightarrow> pyval \<Rightarrow> string" where
  "published_port rep e =
     (case e of
        VDict d \<Rightarrow> str_of rep (vget_or d ''published'' (VStr []))
      | _ \<Rightarrow>
          let parts = split_on (CHR '':'') (takeWhile (\<lambda>c. c \<noteq> CHR ''/'') (str_of rep e)) in
          if 2 \<le> length parts then parts ! (length parts - 2) else [])"

definition published_ports :: "(pyval \<Rightarrow> string) \<Rightarrow> pydict \<Rightarrow> string list attempt" where
  "published_ports rep svc =
     bindR (falsy_or_items (field_of svc ''ports'')) (\<lambda>es. Inr (map (published_port rep) es))"

section \<open>The fields that differ\<close>

datatype drift = Env_drift "string list" | Image_drift | Ports_drift | Resource_drift string | Healthcheck_drift | Restart_drift

definition env_drift ::
  "(string \<Rightarrow> string) \<Rightarrow> (pyval, string) dict \<Rightarrow> (pyval, string) dict \<Rightarrow> drift list attempt" where
  "env_drift sha desired running =
     bindR (mapR (\<lambda>p. as_text (fst p)) (filter (\<lambda>p. \<not> same_value sha (snd p) (dget running (fst p))) desired)) (\<lambda>ks.
     Inr (if ks = [] then [] else [Env_drift (sort ks)]))"

text \<open>Each resource with its key in the inspect document and the wanted amount.\<close>

definition wanted_resources :: "(pyval \<Rightarrow> string) \<Rightarrow> pydict \<Rightarrow> (string \<times> string \<times> int) list attempt" where
  "wanted_resources rep svc =
     bindR (bytes_of rep (vget_or svc ''mem_limit'' (VInt 0))) (\<lambda>mem.
     bindR (bytes_of rep (vget_or svc ''mem_reservation'' (VInt 0))) (\<lambda>res.
     bindR (float_of_value (vget_or svc ''cpus'' (VInt 0))) (\<lambda>cpus.
     bindR (int_of_value (vget_or svc ''cpu_shares'' (VInt 0))) (\<lambda>shares.
     Inr [(''memory'', ''Memory'', mem), (''memory reservation'', ''MemoryReservation'', res),
          (''cpus'', ''NanoCpus'', round_half_even (fl (cpus * 1000000000))), (''cpu shares'', ''CpuShares'', shares)]))))"

definition resource_drift :: "pydict \<Rightarrow> string \<times> string \<times> int \<Rightarrow> drift list attempt" where
  "resource_drift host w =
     (case w of (name, key, want) \<Rightarrow>
        bindR (int_of_value (let v = field_of host key in if truthy v then v else VInt 0)) (\<lambda>got.
        Inr (if got \<noteq> want then [Resource_drift name] else [])))"

definition HEALTH :: "(string \<times> string) list" where
  "HEALTH = [(''test'', ''Test''), (''interval'', ''Interval''), (''timeout'', ''Timeout''), (''retries'', ''Retries''),
     (''start_period'', ''StartPeriod'')]"

definition wanted_health :: "(pyval \<Rightarrow> string) \<Rightarrow> string \<Rightarrow> pyval \<Rightarrow> pyval attempt" where
  "wanted_health rep key want =
     (if key = ''test''
      then (case want of VStr _ \<Rightarrow> Inr (VList [VStr ''CMD-SHELL'', want]) | _ \<Rightarrow> bindR (items_of want) (\<lambda>vs. Inr (VList vs)))
      else if key = ''retries'' then bindR (int_of_value want) (\<lambda>n. Inr (VInt n))
      else Inr (VInt (ns_of rep want)))"

text \<open>The loop stops at the first difference.\<close>

fun health_differs :: "(pyval \<Rightarrow> string) \<Rightarrow> pydict \<Rightarrow> pydict \<Rightarrow> (string \<times> string) list \<Rightarrow> bool attempt" where
  "health_differs rep health got [] = Inr False"
| "health_differs rep health got ((key, inspect_key) # ks) =
     (case vget health key of
        None \<Rightarrow> health_differs rep health got ks
      | Some v \<Rightarrow>
          bindR (wanted_health rep key v) (\<lambda>want.
          if py_eq (field_of got inspect_key) want then health_differs rep health got ks else Inr True))"

definition running_restart :: "(pyval \<Rightarrow> string) \<Rightarrow> pydict \<Rightarrow> string attempt" where
  "running_restart rep policy =
     bindR (let n = field_of policy ''Name'' in if truthy n then as_text n else Inr ''no'') (\<lambda>name.
     let count = field_of policy ''MaximumRetryCount'' in
     Inr (name @ (if truthy count then '':'' @ str_of rep count else [])))"

definition wanted_restart :: "(pyval \<Rightarrow> string) \<Rightarrow> pydict \<Rightarrow> string" where
  "wanted_restart rep svc = (let v = field_of svc ''restart'' in str_of rep (if truthy v then v else VStr ''no''))"

definition config_drift :: "(pyval \<Rightarrow> string) \<Rightarrow> (string \<Rightarrow> string) \<Rightarrow> pydict \<Rightarrow> pydict \<Rightarrow> drift list attempt" where
  "config_drift rep sha svc doc =
     bindR (running_env rep doc) (\<lambda>running.
     bindR (env_dict rep (field_of svc ''environment'')) (\<lambda>desired.
     bindR (env_drift sha desired running) (\<lambda>env.
     bindR (port_bindings rep svc) (\<lambda>want_ports.
     bindR (running_bindings rep doc) (\<lambda>got_ports.
     bindR (section_of ''HostConfig'' doc) (\<lambda>host.
     bindR (bindR (wanted_resources rep svc) (mapR (resource_drift host))) (\<lambda>resources.
     bindR (section_of ''healthcheck'' svc) (\<lambda>health.
     bindR (bindR (section_of ''Config'' doc) (section_of ''Healthcheck'')) (\<lambda>got_health.
     bindR (health_differs rep health got_health HEALTH) (\<lambda>sick.
     bindR (bindR (section_of ''RestartPolicy'' host) (running_restart rep)) (\<lambda>restart.
     Inr (env
       @ (if same_image (str_of rep (vget_or svc ''image'' (VStr []))) (str_of rep (vget_or doc ''ImageName'' (VStr [])))
          then [] else [Image_drift])
       @ (if set want_ports \<noteq> set got_ports then [Ports_drift] else [])
       @ concat resources
       @ (if sick then [Healthcheck_drift] else [])
       @ (if wanted_restart rep svc \<noteq> restart then [Restart_drift] else [])))))))))))))"

text \<open>The value of a variable in an inspect document: its first occurrence.\<close>

fun first_env :: "string \<Rightarrow> pyval list \<Rightarrow> string option attempt" where
  "first_env name [] = Inr None"
| "first_env name (i # is) =
     bindR (as_text i) (\<lambda>s.
     let (key, _, value) = partition_at (CHR ''='') s in if key = name then Inr (Some value) else first_env name is)"

definition env_value_of :: "pydict \<Rightarrow> string \<Rightarrow> string option attempt" where
  "env_value_of doc name =
     bindR (section_of ''Config'' doc) (\<lambda>c. bindR (falsy_or_items (field_of c ''Env'')) (first_env name))"

end
