(* ===== verification/Compose.thy ===== *)
theory Compose
  imports Resources Drift
begin

text \<open>
  The compose document (\<open>pylib/compose.py\<close>). \<open>render_compose\<close> builds a dictionary and prints it as YAML; the
  model is the dictionary. Every function takes the escaping of a text as an argument: the code
  passes \<open>_dollar_escape\<close>, and the identity gives the document a reader expects after interpolation.
  \<open>rep\<close> shows a value that is not a text, \<open>dumps\<close> is \<open>json.dumps\<close>, \<open>env\<close> the environment.
\<close>

datatype compose_exn = Rocr_unresolved | Raised_in_compose

type_synonym 'a rendering = "(compose_exn, 'a) result"

definition dollar_escape :: "string \<Rightarrow> string" where
  "dollar_escape s = double_char dollar s"

text \<open>\<open>d[k]\<close>, a mapping, and the escaping of a text: other shapes raise.\<close>

definition needed :: "pydict \<Rightarrow> string \<Rightarrow> pyval rendering" where
  "needed d k = (case vget d k of None \<Rightarrow> Inl Raised_in_compose | Some v \<Rightarrow> Inr v)"

definition mapping :: "pyval \<Rightarrow> pydict rendering" where
  "mapping v = (case v of VDict d \<Rightarrow> Inr d | _ \<Rightarrow> Inl Raised_in_compose)"

definition escaped :: "(string \<Rightarrow> string) \<Rightarrow> pyval \<Rightarrow> pyval rendering" where
  "escaped esc v = (case v of VStr s \<Rightarrow> Inr (VStr (esc s)) | _ \<Rightarrow> Inl Raised_in_compose)"

definition needed_text :: "(string \<Rightarrow> string) \<Rightarrow> pydict \<Rightarrow> string \<Rightarrow> pyval rendering" where
  "needed_text esc d k = bindR (needed d k) (escaped esc)"

definition texts :: "string list \<Rightarrow> pyval" where
  "texts ss = VList (map VStr ss)"

abbreviation field :: "string \<Rightarrow> string \<Rightarrow> pyval \<times> pyval" where
  "field k s \<equiv> (VStr k, VStr s)"

section \<open>Resource limits\<close>

definition put_if :: "string \<Rightarrow> pyval \<Rightarrow> pyval \<Rightarrow> pydict \<Rightarrow> pydict" where
  "put_if k guard v d = (if truthy guard then vput k v d else d)"

definition shares_of :: "pyval \<Rightarrow> pyval rendering" where
  "shares_of v =
     (case num_value v of
        Some n \<Rightarrow> Inr (VInt (max 2 (nround (nmul n (IntN 1024)))))
      | None \<Rightarrow> Inl Raised_in_compose)"

definition mib_text :: "(pyval \<Rightarrow> string) \<Rightarrow> pyval \<Rightarrow> pyval" where
  "mib_text rep v = VStr (str_of rep v @ ''m'')"

definition apply_resource_limits :: "(pyval \<Rightarrow> string) \<Rightarrow> pydict \<Rightarrow> pydict \<Rightarrow> pydict rendering" where
  "apply_resource_limits rep resources service =
     (let cmax = field_of resources ''cpus_max''; cmin = field_of resources ''cpus_min'';
          mmax = field_of resources ''memory_max_mib''; mmin = field_of resources ''memory_min_mib'' in
      bindR (if truthy cmin then shares_of cmin else Inr VNone) (\<lambda>shares.
      Inr (put_if ''mem_reservation'' mmin (mib_text rep mmin)
        (put_if ''mem_limit'' mmax (mib_text rep mmax)
        (put_if ''cpu_shares'' cmin shares (put_if ''cpus'' cmax cmax service))))))"

section \<open>The model server\<close>

definition llm_server_service ::
  "(string \<Rightarrow> string) \<Rightarrow> (pyval \<Rightarrow> string) \<Rightarrow> string \<Rightarrow> string \<Rightarrow> pydict \<Rightarrow> pydict \<Rightarrow> pydict \<Rightarrow> llm_limits \<Rightarrow> pydict rendering" where
  "llm_server_service esc rep models_dir presets_path server gpu runtime lims =
     bindR (needed_text esc gpu ''image'') (\<lambda>image.
     bindR (needed server ''port'') (\<lambda>port_v. let port = str_of rep port_v in
     bindR (needed runtime ''models_max'') (\<lambda>models_max.
     bindR (needed_text esc server ''host'') (\<lambda>host.
     bindR (needed_text esc server ''api_key'') (\<lambda>api_key.
     bindR (needed server ''sleep_idle_seconds'') (\<lambda>idle.
     let service =
       [(VStr ''image'', image), field ''container_name'' ''llm-server'',
        (VStr ''devices'', texts [''/dev/dri:/dev/dri'']),
        (VStr ''volumes'', texts [esc models_dir @ '':/models:ro,z'', esc presets_path @ '':/etc/llama/presets.ini:ro,z'']),
        (VStr ''ports'', texts [port @ '':'' @ port]),
        (VStr ''environment'', VDict
           [field ''LLAMA_ARG_MODELS_PRESET'' ''/etc/llama/presets.ini'',
            field ''LLAMA_ARG_MODELS_MAX'' (str_of rep models_max), (VStr ''LLAMA_ARG_HOST'', host),
            field ''LLAMA_ARG_PORT'' port, (VStr ''LLAMA_API_KEY'', api_key)]),
        (VStr ''command'', texts [''--sleep-idle-seconds'', str_of rep idle]),
        (VStr ''healthcheck'', VDict
           [(VStr ''test'', texts [''CMD-SHELL'', ''curl -fsS http://127.0.0.1:'' @ port @ ''/health || exit 1'']),
            field ''interval'' ''10s'', (VStr ''retries'', VInt 30), field ''start_period'' ''20s'']),
        field ''restart'' ''on-failure''] in
     Inr (put_if ''mem_limit'' (VInt (l_memory_mib lims)) (VStr (show_int (l_memory_mib lims) @ ''m''))
       (put_if ''cpus'' (of_num (l_cpus lims)) (of_num (l_cpus lims)) service))))))))"

section \<open>OmniRoute\<close>

definition DEFAULT_OMNIROUTE_IMAGE :: string where
  "DEFAULT_OMNIROUTE_IMAGE = ''docker.io/diegosouzapw/omniroute:latest''"

definition omniroute_port :: "(pyval \<Rightarrow> string) \<Rightarrow> pydict \<Rightarrow> string" where
  "omniroute_port rep omni = str_of rep (vget_or omni ''port'' (VInt 20128))"

definition omniroute_service ::
  "(string \<Rightarrow> string) \<Rightarrow> (pyval \<Rightarrow> string) \<Rightarrow> pydict \<Rightarrow> bool \<Rightarrow> pydict \<Rightarrow> pydict rendering" where
  "omniroute_service esc rep omni llm_enabled policy =
     bindR (escaped esc (vget_or omni ''image'' (VStr DEFAULT_OMNIROUTE_IMAGE))) (\<lambda>image.
     bindR (escaped esc (vget_or omni ''initial_password'' (VStr []))) (\<lambda>password.
     let port = omniroute_port rep omni in
     apply_resource_limits rep policy
       ([(VStr ''image'', image), field ''container_name'' ''omniroute'',
         (VStr ''ports'', texts [''0.0.0.0:'' @ port @ '':'' @ port]),
         (VStr ''volumes'', texts [''omniroute-data:/app/data'']),
         (VStr ''environment'', VDict
            [field ''PORT'' port, field ''OMNIROUTE_ALLOW_PRIVATE_PROVIDER_URLS'' ''true'', field ''REQUIRE_API_KEY'' ''true'',
             (VStr ''INITIAL_PASSWORD'', password), field ''OMNIROUTE_CHAT_ADMISSION_QUEUE_MS'' ''8000'',
             field ''CALL_LOG_RETENTION_DAYS'' ''180'', field ''CALL_LOG_PIPELINE_MAX_SIZE_KB'' ''512'',
             field ''CALL_LOG_MAX_ENTRIES'' ''20000'', field ''CALL_LOGS_TABLE_MAX_ROWS'' ''100000'']),
         (VStr ''healthcheck'', VDict
            [(VStr ''test'', texts [''CMD'', ''node'', ''healthcheck.mjs'']), field ''interval'' ''5s'', field ''timeout'' ''3s'',
             (VStr ''retries'', VInt 5), field ''start_period'' ''10s'']),
         field ''stop_grace_period'' ''40s'']
        @ (if llm_enabled
           then [(VStr ''depends_on'', VDict [(VStr ''llm-server'', VDict [field ''condition'' ''service_healthy''])])] else [])
        @ [field ''restart'' ''unless-stopped''])))"

section \<open>Remote setup\<close>

text \<open>The models offered to remote machines: none when the model server is off.\<close>

definition offered_model :: "pyval \<Rightarrow> pyval list rendering" where
  "offered_model m =
     bindR (mapping m) (\<lambda>d.
     if \<not> truthy (field_of d ''enabled'') then Inr []
     else
       bindR (needed d ''alias'') (\<lambda>a. bindR (needed d ''ctx_size'') (\<lambda>c. bindR (needed d ''client_max_output_tokens'') (\<lambda>out.
       Inr [VDict [(VStr ''alias'', a), (VStr ''ctx_size'', c), (VStr ''client_max_output_tokens'', out)]]))))"

definition offered_models :: "pydict \<Rightarrow> bool \<Rightarrow> pyval list rendering" where
  "offered_models cfg llm_enabled =
     (if \<not> llm_enabled then Inr []
      else
        bindR (case items_of (vget_or cfg ''models'' (VList [])) of Inl _ \<Rightarrow> Inl Raised_in_compose | Inr ms \<Rightarrow> Inr ms) (\<lambda>ms.
        bindR (mapR offered_model ms) (\<lambda>oss. Inr (concat oss))))"

definition remote_setup_service ::
  "(string \<Rightarrow> string) \<Rightarrow> (pyval \<Rightarrow> string) \<Rightarrow> (pyval \<Rightarrow> string) \<Rightarrow> string \<Rightarrow> string \<Rightarrow> pydict \<Rightarrow> pydict \<Rightarrow> pyval list
   \<Rightarrow> pydict \<Rightarrow> pydict rendering" where
  "remote_setup_service esc rep dumps repo_root master_key remote omni offered policy =
     bindR (escaped esc (vget_or remote ''image'' (VStr ''docker.io/library/python:3.13-alpine''))) (\<lambda>image.
     bindR (escaped esc (vget_or omni ''initial_password'' (VStr []))) (\<lambda>password.
     let port = str_of rep (vget_or remote ''port'' (VInt 20130)) in
     apply_resource_limits rep policy
       [(VStr ''image'', image), field ''container_name'' ''remote-setup'', field ''working_dir'' ''/app'',
        (VStr ''volumes'', texts
           [esc repo_root @ ''/pylib:/app/pylib:ro,z'',
            esc repo_root @ ''/setup/update-opencode-config.mjs:/app/setup/update-opencode-config.mjs:ro,z'',
            esc repo_root @ ''/setup/lib:/app/setup/lib:ro,z'', ''remote-setup-data:/app/data'']),
        (VStr ''ports'', texts [''0.0.0.0:'' @ port @ '':'' @ port]),
        (VStr ''command'', texts [''python3'', ''-m'', ''pylib.remote_setup'']),
        (VStr ''environment'', VDict
           [field ''OMNI_ROUTER_MASTER_KEY'' (esc master_key), field ''REMOTE_SETUP_PORT'' port,
            field ''OMNIROUTE_INTERNAL_URL'' (''http://omniroute:'' @ omniroute_port rep omni),
            field ''OMNIROUTE_PORT'' (omniroute_port rep omni), (VStr ''OMNIROUTE_DASHBOARD_PASSWORD'', password),
            field ''MODELS_JSON'' (esc (dumps (VList offered)))]),
        field ''restart'' ''unless-stopped'',
        (VStr ''healthcheck'', VDict
           [(VStr ''test'', texts [''CMD'', ''python3'', ''-c'',
               ''import urllib.request,sys; urllib.request.urlopen('' @ [CHR 0x27] @ ''http://127.0.0.1:'' @ port
               @ ''/setup.sh'' @ [CHR 0x27] @ '', timeout=3)'']),
            field ''interval'' ''5s'', field ''timeout'' ''3s'', (VStr ''retries'', VInt 5), field ''start_period'' ''5s''])]))"

section \<open>The system-one service\<close>

definition nonblank_parts :: "string \<Rightarrow> nat" where
  "nonblank_parts s = length (filter (\<lambda>p. strip p \<noteq> []) (split_on (CHR '','') s))"

definition system_one_service ::
  "(string \<Rightarrow> string) \<Rightarrow> (pyval \<Rightarrow> string) \<Rightarrow> (string, string) dict \<Rightarrow> string \<Rightarrow> pydict \<Rightarrow> pydict \<Rightarrow> pydict rendering" where
  "system_one_service esc rep env rocr_index s1 policy =
     (if rocr_index = [] then Inl Rocr_unresolved
      else
        bindR (if nonempty_var env ''LLM_ENV_SYSTEM_ONE_OBSERVER_IMAGE''
               then Inr (VStr (esc (the (dget env ''LLM_ENV_SYSTEM_ONE_OBSERVER_IMAGE'')))) else needed_text esc s1 ''image'') (\<lambda>image.
        bindR (needed s1 ''port'') (\<lambda>port.
        bindR (needed s1 ''models'') (\<lambda>models_v.
        case models_v of
          VStr models \<Rightarrow>
            apply_resource_limits rep policy
              [(VStr ''image'', image), field ''container_name'' ''system-one'',
               (VStr ''devices'', texts [''/dev/kfd'', ''/dev/dri:/dev/dri'']), (VStr ''group_add'', texts [''keep-groups'']),
               (VStr ''security_opt'', texts [''label=disable'']),
               (VStr ''volumes'', texts [''system-one-cache:/home/laya/.cache/huggingface'']),
               (VStr ''ports'', texts [''127.0.0.1:'' @ str_of rep port @ '':8000'']),
               (VStr ''networks'', texts [''default'', ''phoenix-trace'']),
               (VStr ''environment'', VDict
                  [field ''LAYA_MODELS'' (esc models), field ''LAYA_MAX_LOADED'' (show_nat (nonblank_parts models)),
                   field ''LAYA_REVISION'' ''reviewed'', field ''LAYA_MAX_CONCURRENT'' ''64'',
                   field ''LAYA_IDLE_UNLOAD_SECONDS'' (str_of rep (vget_or s1 ''idle_unload_seconds'' (VInt 600))),
                   field ''HF_HUB_OFFLINE'' ''1'', field ''ROCR_VISIBLE_DEVICES'' rocr_index,
                   field ''LAYA_PHOENIX_URL'' ''http://phoenix:6006/v1/projects/laya/spans'']),
               (VStr ''healthcheck'', VDict
                  [(VStr ''test'', texts [''CMD'', ''python3'', ''-c'',
                      ''import urllib.request; urllib.request.urlopen('' @ [CHR 0x27] @ ''http://127.0.0.1:8000/health'' @ [CHR 0x27]
                      @ '', timeout=3)'']),
                   field ''interval'' ''10s'', field ''timeout'' ''5s'', (VStr ''retries'', VInt 5), field ''start_period'' ''120s'']),
               field ''restart'' ''unless-stopped'']
        | _ \<Rightarrow> Inl Raised_in_compose))))"

section \<open>The document\<close>

definition part :: "pydict \<Rightarrow> string \<Rightarrow> pydict rendering" where
  "part cfg k = mapping (vget_or cfg k (VDict []))"

definition llm_server_on :: "pydict \<Rightarrow> bool rendering" where
  "llm_server_on cfg = bindR (part cfg ''llm_server'') (\<lambda>d. Inr (truthy (vget_or d ''enabled'' (VBool True))))"

definition system_one_part ::
  "(string \<Rightarrow> string) \<Rightarrow> (pyval \<Rightarrow> string) \<Rightarrow> (string, string) dict \<Rightarrow> string \<Rightarrow> limits \<Rightarrow> pydict \<Rightarrow> pydict option rendering" where
  "system_one_part esc rep env rocr_index lims cfg =
     bindR (part cfg ''system_one'') (\<lambda>s1.
     if truthy (vget_or s1 ''enabled'' (VBool False))
     then bindR (system_one_service esc rep env rocr_index s1 (l_system_one lims)) (\<lambda>svc. Inr (Some svc))
     else Inr None)"

definition document_of :: "pydict option \<Rightarrow> pydict \<Rightarrow> pydict \<Rightarrow> pydict option \<Rightarrow> pydict" where
  "document_of llm omni remote s1 =
     [(VStr ''services'', VDict
         ((case llm of None \<Rightarrow> [] | Some s \<Rightarrow> [(VStr ''llm-server'', VDict s)])
          @ [(VStr ''omniroute'', VDict omni), (VStr ''remote-setup'', VDict remote)]
          @ (case s1 of None \<Rightarrow> [] | Some s \<Rightarrow> [(VStr ''system-one'', VDict s)]))),
      (VStr ''volumes'', VDict
         ([(VStr ''omniroute-data'', VDict []), (VStr ''remote-setup-data'', VDict [])]
          @ (if s1 = None then [] else [(VStr ''system-one-cache'', VDict [field ''name'' ''llm-env-system-one-cache''])])))]
     @ (if s1 = None then []
        else [(VStr ''networks'', VDict
                 [(VStr ''default'', VDict []),
                  (VStr ''phoenix-trace'', VDict [field ''name'' ''llm-env-phoenix_internal'', (VStr ''external'', VBool True)])])])"

definition compose_document ::
  "(string \<Rightarrow> string) \<Rightarrow> (pyval \<Rightarrow> string) \<Rightarrow> (pyval \<Rightarrow> string) \<Rightarrow> (string, string) dict \<Rightarrow> string \<Rightarrow> string \<Rightarrow> string
   \<Rightarrow> limits \<Rightarrow> string \<Rightarrow> string \<Rightarrow> pydict \<Rightarrow> pydict rendering" where
  "compose_document esc rep dumps env models_dir presets_path repo_root lims master_key rocr_index cfg =
     bindR (bindR (needed cfg ''server'') mapping) (\<lambda>server.
     bindR (bindR (needed cfg ''gpu'') mapping) (\<lambda>gpu.
     bindR (bindR (needed cfg ''runtime'') mapping) (\<lambda>runtime.
     bindR (llm_server_on cfg) (\<lambda>llm_on.
     bindR (part cfg ''omniroute'') (\<lambda>omni.
     bindR (llm_server_service esc rep models_dir presets_path server gpu runtime (l_llm_server lims)) (\<lambda>llm.
     bindR (omniroute_service esc rep omni llm_on (l_omniroute lims)) (\<lambda>omni_svc.
     bindR (part cfg ''remote_setup'') (\<lambda>remote.
     bindR (offered_models cfg llm_on) (\<lambda>offered.
     bindR (remote_setup_service esc rep dumps repo_root master_key remote omni offered (l_remote_setup lims)) (\<lambda>remote_svc.
     bindR (system_one_part esc rep env rocr_index lims cfg) (\<lambda>s1.
     Inr (document_of (if llm_on then Some llm else None) omni_svc remote_svc s1))))))))))))"

text \<open>\<open>render_compose\<close>: the document that is printed as YAML.\<close>

definition render_compose where
  "render_compose = compose_document dollar_escape"

section \<open>Escaping\<close>

text \<open>
  What is shown without escaping: ports, counts, durations and policy values. They are numbers in a
  valid configuration, whose text has no dollar.
\<close>

definition shown_plain :: "(pyval \<Rightarrow> string) \<Rightarrow> pyval \<Rightarrow> bool" where
  "shown_plain rep v \<longleftrightarrow> escape v = v \<and> dollar \<notin> set (str_of rep v)"

definition number_at :: "(pyval \<Rightarrow> string) \<Rightarrow> pydict \<Rightarrow> string \<Rightarrow> bool" where
  "number_at rep d k \<longleftrightarrow> (case vget d k of None \<Rightarrow> True | Some v \<Rightarrow> shown_plain rep v)"

definition dict_at :: "pydict \<Rightarrow> string \<Rightarrow> pydict" where
  "dict_at cfg k = (case vget cfg k of Some (VDict d) \<Rightarrow> d | _ \<Rightarrow> [])"

definition plain_policy :: "(pyval \<Rightarrow> string) \<Rightarrow> pydict \<Rightarrow> bool" where
  "plain_policy rep d \<longleftrightarrow> list_all (number_at rep d) POLICY_KEYS"

definition plain_numbers :: "(pyval \<Rightarrow> string) \<Rightarrow> limits \<Rightarrow> string \<Rightarrow> pydict \<Rightarrow> bool" where
  "plain_numbers rep lims rocr_index cfg \<longleftrightarrow>
     list_all (\<lambda>(s, k). number_at rep (dict_at cfg s) k)
       [(''server'', ''port''), (''server'', ''sleep_idle_seconds''), (''runtime'', ''models_max''), (''omniroute'', ''port''),
        (''remote_setup'', ''port''), (''system_one'', ''port''), (''system_one'', ''idle_unload_seconds'')]
     \<and> list_all (plain_policy rep) [l_omniroute lims, l_remote_setup lims, l_system_one lims]
     \<and> dollar \<notin> set rocr_index"

abbreviation escaped_dict :: "pydict \<Rightarrow> pydict" where
  "escaped_dict d \<equiv> map (\<lambda>p. (fst p, escape (snd p))) d"

lemma double_char_append [simp]: "double_char d (s @ t) = double_char d s @ double_char d t"
  by (simp add: double_char_def)

lemma escape_simps [simp]:
  "escape (VStr s) = VStr (double_char dollar s)"
  "escape (VInt n) = VInt n" "escape (VBool b) = VBool b" "escape VNone = VNone"
  "escape (VDict d) = VDict (escaped_dict d)" "escape (VList vs) = VList (map escape vs)" "escape (of_num x) = of_num x"
  by (simp_all add: escape_def) (cases x; simp add: escape_def)

lemma escape_texts: "escape (texts ss) = texts (map (double_char dollar) ss)"
  by (simp add: texts_def)

lemma show_nat_plain [simp]: "dollar \<notin> set (show_nat n)"
proof -
  have "list_all is_digit (show_nat n)"
    using show_nat_digits [of n] by (simp add: all_digits_def list_all_iff)
  then show ?thesis
    by (auto simp: list_all_iff is_digit_def)
qed

lemma show_int_plain [simp]: "dollar \<notin> set (show_int n)"
  by (simp add: show_int_def)

lemma shown_plain_int [simp]: "shown_plain rep (VInt n)"
  by (simp add: shown_plain_def)

lemma needed_number: "number_at rep d k \<Longrightarrow> needed d k = Inr v \<Longrightarrow> shown_plain rep v"
  by (auto simp: number_at_def needed_def split: option.splits)

lemma vget_or_number: "number_at rep d k \<Longrightarrow> shown_plain rep v \<Longrightarrow> shown_plain rep (vget_or d k v)"
  by (auto simp: number_at_def vget_or_def split: option.splits)

lemma shown_plain_double [simp]: "shown_plain rep v \<Longrightarrow> double_char dollar (str_of rep v) = str_of rep v"
  by (simp add: shown_plain_def double_char_id)

lemma escaped_escape: "escaped (double_char dollar) v = map_sum id escape (escaped (\<lambda>s. s) v)"
  by (cases v) (simp_all add: escaped_def)

lemma map_sum_bindR [result_simps]: "map_sum id f (bindR m g) = bindR m (\<lambda>x. map_sum id f (g x))"
  by (cases m) simp_all

lemma bindR_map_sum [result_simps]: "bindR (map_sum id f m) g = bindR m (\<lambda>x. g (f x))"
  by (cases m) simp_all

lemma needed_text_escape: "needed_text (double_char dollar) d k = map_sum id escape (needed_text (\<lambda>s. s) d k)"
  by (cases "needed d k") (simp_all add: needed_text_def escaped_escape)

lemma bindR_cong': "m = m' \<Longrightarrow> (\<And>x. m' = Inr x \<Longrightarrow> f x = g x) \<Longrightarrow> bindR m f = bindR m' g"
  by (cases m') simp_all

lemma bindR_cong: "(\<And>x. m = Inr x \<Longrightarrow> f x = g x) \<Longrightarrow> bindR m f = bindR m g"
  by (cases m) simp_all

lemma put_if_escape: "escape v = v \<Longrightarrow> put_if k g v (escaped_dict d) = escaped_dict (put_if k g v d)"
  by (induction d) (auto simp: put_if_def vput_def)

lemma plain_policyD: "plain_policy rep d \<Longrightarrow> k \<in> set POLICY_KEYS \<Longrightarrow> shown_plain rep (field_of d k)"
  unfolding plain_policy_def list_all_iff field_of_def by (rule vget_or_number) (auto simp: shown_plain_def)

lemma limits_escape:
  assumes "plain_policy rep pol"
  shows "apply_resource_limits rep pol (escaped_dict d) = map_sum id escaped_dict (apply_resource_limits rep pol d)"
proof -
  have plain: "shown_plain rep (field_of pol k)" if "k \<in> set POLICY_KEYS" for k
    using plain_policyD assms that by blast
  have esc: "escape (field_of pol ''cpus_max'') = field_of pol ''cpus_max''"
    using plain [of "''cpus_max''"] by (simp add: POLICY_KEYS_def shown_plain_def)
  have mib: "escape (mib_text rep (field_of pol k)) = mib_text rep (field_of pol k)" if "k \<in> set POLICY_KEYS" for k
    using plain [OF that] by (simp add: mib_text_def)
  have shares: "escape v = v" if "(if truthy m then shares_of m else Inr VNone) = Inr v" for v m
    using that by (auto simp: shares_of_def split: option.splits if_splits)
  show ?thesis
    unfolding apply_resource_limits_def Let_def map_sum_bindR
    by (rule bindR_cong) (simp add: put_if_escape esc mib shares POLICY_KEYS_def)
qed

lemmas plain_simps = texts_def escape_texts needed_text_escape result_simps double_char_id

lemma llm_server_escape:
  assumes "number_at rep server ''port''" "number_at rep server ''sleep_idle_seconds''" "number_at rep runtime ''models_max''"
  shows "llm_server_service (double_char dollar) rep md pp server gpu runtime lims =
         map_sum id escaped_dict (llm_server_service (\<lambda>s. s) rep md pp server gpu runtime lims)"
  unfolding llm_server_service_def Let_def needed_text_escape map_sum_bindR bindR_map_sum
  by (intro bindR_cong, drule needed_number [OF assms(1)], drule needed_number [OF assms(2)], drule needed_number [OF assms(3)])
     (simp add: plain_simps flip: put_if_escape)

lemma omniroute_escape:
  assumes "number_at rep omni ''port''" "plain_policy rep pol"
  shows "omniroute_service (double_char dollar) rep omni on pol = map_sum id escaped_dict (omniroute_service (\<lambda>s. s) rep omni on pol)"
proof -
  have "shown_plain rep (vget_or omni ''port'' (VInt 20128))"
    by (rule vget_or_number) (simp_all add: assms)
  then show ?thesis
    unfolding omniroute_service_def Let_def escaped_escape map_sum_bindR bindR_map_sum limits_escape [OF assms(2), symmetric]
    by (intro bindR_cong) (simp add: plain_simps omniroute_port_def)
qed

lemma remote_setup_escape:
  assumes "number_at rep omni ''port''" "number_at rep remote ''port''" "plain_policy rep pol"
  shows "remote_setup_service (double_char dollar) rep dumps root_dir key remote omni offered pol =
         map_sum id escaped_dict (remote_setup_service (\<lambda>s. s) rep dumps root_dir key remote omni offered pol)"
proof -
  have "shown_plain rep (vget_or omni ''port'' (VInt 20128))" "shown_plain rep (vget_or remote ''port'' (VInt 20130))"
    by (rule vget_or_number; simp add: assms)+
  then show ?thesis
    unfolding remote_setup_service_def Let_def escaped_escape map_sum_bindR bindR_map_sum limits_escape [OF assms(3), symmetric]
    by (intro bindR_cong) (simp add: plain_simps omniroute_port_def)
qed

lemma system_one_escape:
  assumes "number_at rep s1 ''port''" "number_at rep s1 ''idle_unload_seconds''" "plain_policy rep pol" "dollar \<notin> set rocr"
  shows "system_one_service (double_char dollar) rep env rocr s1 pol =
         map_sum id escaped_dict (system_one_service (\<lambda>s. s) rep env rocr s1 pol)"
proof (cases "rocr = []")
  case False
  have idle: "shown_plain rep (vget_or s1 ''idle_unload_seconds'' (VInt 600))"
    by (rule vget_or_number) (simp_all add: assms)
  let ?img = "\<lambda>esc. if nonempty_var env ''LLM_ENV_SYSTEM_ONE_OBSERVER_IMAGE''
               then Inr (VStr (esc (the (dget env ''LLM_ENV_SYSTEM_ONE_OBSERVER_IMAGE'')))) else needed_text esc s1 ''image''"
  have img: "?img (double_char dollar) = map_sum id escape (?img (\<lambda>s. s))"
    by (simp add: needed_text_escape)
  have rocr: "(rocr = []) = False"
    using False by simp
  show ?thesis
    unfolding system_one_service_def rocr if_False img map_sum_bindR bindR_map_sum
    by (intro bindR_cong, drule needed_number [OF assms(1)])
       (auto simp: plain_simps idle assms(4) limits_escape [OF assms(3), symmetric] simp del: map_sum.simps(2) split: pyval.split)
qed (simp add: system_one_service_def)

lemma part_dict_at: "part cfg k = Inr d \<Longrightarrow> dict_at cfg k = d"
  by (auto simp: part_def mapping_def vget_or_def dict_at_def split: option.splits pyval.splits)

lemma needed_dict_at: "bindR (needed cfg k) mapping = Inr d \<Longrightarrow> dict_at cfg k = d"
  by (auto simp: needed_def mapping_def dict_at_def split: option.splits pyval.splits)

lemma document_escape:
  "document_of (map_option escaped_dict llm) (escaped_dict omni) (escaped_dict remote) (map_option escaped_dict s1) =
   escaped_dict (document_of llm omni remote s1)"
  by (simp add: document_of_def double_char_id split: option.split)

lemma system_one_part_escape:
  assumes "plain_numbers rep lims rocr cfg"
  shows "system_one_part (double_char dollar) rep env rocr lims cfg =
         map_sum id (map_option escaped_dict) (system_one_part (\<lambda>s. s) rep env rocr lims cfg)"
  unfolding system_one_part_def map_sum_bindR
proof (rule bindR_cong)
  fix s1
  assume "part cfg ''system_one'' = Inr s1"
  then have "dict_at cfg ''system_one'' = s1"
    by (rule part_dict_at)
  then show "(if truthy (vget_or s1 ''enabled'' (VBool False))
      then bindR (system_one_service (double_char dollar) rep env rocr s1 (l_system_one lims)) (\<lambda>svc. Inr (Some svc)) else Inr None) =
    map_sum id (map_option escaped_dict) (if truthy (vget_or s1 ''enabled'' (VBool False))
      then bindR (system_one_service (\<lambda>s. s) rep env rocr s1 (l_system_one lims)) (\<lambda>svc. Inr (Some svc)) else Inr None)"
    using assms by (simp add: plain_numbers_def system_one_escape result_simps)
qed

text \<open>
  C29: every dollar of the configuration reaches the containers. The printed compose document is the document
  with the configured texts in which each dollar is doubled, and no other difference, errors included: what
  podman-compose reads after its interpolation is the configuration, whatever the passwords and keys contain.
\<close>
theorem compose_escapes_every_text:
  assumes "plain_numbers rep lims rocr cfg"
  shows "render_compose rep dumps env md pp root_dir lims key rocr cfg =
         map_sum id escaped_dict (compose_document (\<lambda>s. s) rep dumps env md pp root_dir lims key rocr cfg)"
proof -
  have dd: "dollar_escape = double_char dollar"
    by (simp add: dollar_escape_def fun_eq_iff)
  note facts = assms [unfolded plain_numbers_def, simplified]
  have server: "number_at rep d ''port'' \<and> number_at rep d ''sleep_idle_seconds''" if "bindR (needed cfg ''server'') mapping = Inr d" for d
    using needed_dict_at [OF that] facts by simp
  have runtime: "number_at rep d ''models_max''" if "bindR (needed cfg ''runtime'') mapping = Inr d" for d
    using needed_dict_at [OF that] facts by simp
  have omni: "number_at rep d ''port''" if "part cfg ''omniroute'' = Inr d" for d
    using part_dict_at [OF that] facts by simp
  have remote: "number_at rep d ''port''" if "part cfg ''remote_setup'' = Inr d" for d
    using part_dict_at [OF that] facts by simp
  have if_option: "(if b then Some (escaped_dict d) else None) = map_option escaped_dict (if b then Some d else None)" for b d
    by simp
  show ?thesis
    unfolding render_compose_def dd compose_document_def map_sum_bindR
    by (simp del: bindR_eq_Inr add: server runtime omni remote llm_server_escape omniroute_escape remote_setup_escape facts
        system_one_part_escape [OF assms] bindR_map_sum if_option document_escape cong: bindR_cong')
qed

section \<open>The limits read back\<close>

lemma lower_digit: "is_digit c \<Longrightarrow> lower c = c"
  by (auto simp: is_digit_def lower_def Let_def)

lemma map_lower_digits: "list_all is_digit ds \<Longrightarrow> map lower ds = ds"
  by (induction ds) (simp_all add: lower_digit)

lemma bytes_of_mib:
  assumes "0 \<le> n" "n \<le> 2 ^ 33"
  shows "bytes_of rep (VStr (show_int n @ ''m'')) = Inr (n * 1048576)"
proof -
  define ds where "ds = show_int n"
  have ds: "all_digits ds" "digits_value ds = n"
    using assms show_nat_digits [of "nat n"] by (simp_all add: ds_def show_int_def)
  then have dig: "list_all is_digit ds" "ds \<noteq> []"
    by (simp_all add: all_digits_def)
  have "\<not> is_space (CHR ''m'')"
    by (simp add: is_space_def)
  then have "strip (ds @ ''m'') = ds @ ''m''"
    using dig by (intro strip_no_space) (auto simp: list_all_iff dest: is_digit_not_space)
  then have norm: "map lower (strip (str_of rep (VStr (ds @ ''m'')))) = ds @ ''m''"
    using map_lower_digits [OF dig(1)] by (simp add: lower_def)
  have "takeWhile is_digit (ds @ ''m'') = ds" "dropWhile is_digit (ds @ ''m'') = ''m''"
    using dig by (simp_all add: takeWhile_append dropWhile_append list_all_iff is_digit_def)
  then have "take_decimal (ds @ ''m'') = Some (of_int n, ''m'')"
    using dig ds by (simp add: take_decimal_def decimal_def digits_value_def)
  moreover have "fl (fl (of_int n) * 1024 ^ 2) = of_int (n * 1048576)"
    using assms fl_int [of n] fl_exact [of n 20] by simp
  ultimately show ?thesis
    unfolding bytes_of_def ds_def [symmetric] norm by (simp add: drop_unit_def del: of_int_mult)
qed

lemma num_sat_value: "num_sat P v \<Longrightarrow> \<exists>x. num_value v = Some x \<and> finite_num v = Some x \<and> P (nval x)"
  by (cases v rule: finite_num.cases) (auto simp: num_sat_def)

lemma num_value_truthy: "finite_num v = Some x \<Longrightarrow> 0 < nval x \<Longrightarrow> truthy v"
  by (cases v rule: finite_num.cases) auto

lemma policy_ok_cpus:
  assumes "policy_ok pol" "k \<in> {''cpus_min'', ''cpus_max''}"
  shows "truthy (field_of pol k)" "num_value (field_of pol k) = Some (numv pol k)"
  using assms num_sat_value [of "\<lambda>x. 0 < x" "field_of pol k"] num_value_truthy [of "field_of pol k"]
  unfolding policy_ok_def policy_typed_def numv_def field_of_def by auto

lemma policy_ok_memory:
  assumes "policy_ok pol" "k \<in> {''memory_min_mib'', ''memory_max_mib''}"
  shows "field_of pol k = VInt (intv pol k)" "0 < intv pol k"
  using assms is_positive_intD [of "field_of pol k"]
  unfolding policy_ok_def policy_typed_def intv_def field_of_def by auto

definition rendered_shares :: "pydict \<Rightarrow> int" where
  "rendered_shares pol = max 2 (nround (nmul (numv pol ''cpus_min'') (IntN 1024)))"

definition nano_cpus :: "pydict \<Rightarrow> int" where
  "nano_cpus pol = round_half_even (fl (to_float (numv pol ''cpus_max'') * 1000000000))"

lemma rendered_limits:
  assumes "policy_ok pol"
  shows "apply_resource_limits rep pol svc = Inr
    (vput ''mem_reservation'' (mib_text rep (VInt (intv pol ''memory_min_mib'')))
    (vput ''mem_limit'' (mib_text rep (VInt (intv pol ''memory_max_mib'')))
    (vput ''cpu_shares'' (VInt (rendered_shares pol)) (vput ''cpus'' (field_of pol ''cpus_max'') svc))))"
  using policy_ok_cpus [OF assms] policy_ok_memory(1) [OF assms]
    policy_ok_memory(2) [OF assms, of "''memory_min_mib''"] policy_ok_memory(2) [OF assms, of "''memory_max_mib''"]
  by (simp add: apply_resource_limits_def Let_def put_if_def shares_of_def rendered_shares_def)

lemma int_of_value_int [simp]: "int_of_value (if truthy (VInt n) then VInt n else VInt 0) = Inr n"
  by (simp add: int_of_value_def)

text \<open>
  C31: a rendered limit is the limit the drift check reads back. For a service of the policy, rendered with its
  effective limits, the check compares the container's own numbers with exactly the configured MiB in bytes,
  the CPU cap in nano-CPUs and the rendered shares, and names precisely the limits that differ.
\<close>
theorem rendered_limits_drift:
  assumes "validate_overrides v = []" "s \<in> set OVERRIDABLE_SERVICES"
    and "intv (effective_policy s v) ''memory_max_mib'' \<le> 2 ^ 33"
    and "field_of host ''Memory'' = VInt m" "field_of host ''MemoryReservation'' = VInt r"
    and "field_of host ''NanoCpus'' = VInt c" "field_of host ''CpuShares'' = VInt h"
  shows "\<exists>svc'. apply_resource_limits rep (effective_policy s v) svc = Inr svc'
    \<and> bindR (wanted_resources rep svc') (mapR (resource_drift host)) = Inr
        [if m = intv (effective_policy s v) ''memory_max_mib'' * 1048576 then [] else [Resource_drift ''memory''],
         if r = intv (effective_policy s v) ''memory_min_mib'' * 1048576 then [] else [Resource_drift ''memory reservation''],
         if c = nano_cpus (effective_policy s v) then [] else [Resource_drift ''cpus''],
         if h = rendered_shares (effective_policy s v) then [] else [Resource_drift ''cpu shares'']]"
proof -
  define pol where "pol = effective_policy s v"
  have ok: "policy_ok pol"
    unfolding pol_def by (rule validated_ok) (fact assms)+
  have mem: "0 < intv pol ''memory_min_mib''" "intv pol ''memory_min_mib'' \<le> intv pol ''memory_max_mib''"
    using ok policy_ok_memory(2) [OF ok] by (simp_all add: policy_ok_def)
  have bytes: "bytes_of rep (mib_text rep (VInt n)) = Inr (n * 1048576)" if "0 < n" "n \<le> 2 ^ 33" for n
    using bytes_of_mib [of n rep] that by (simp add: mib_text_def)
  have cpus: "float_of_value (field_of pol ''cpus_max'') = Inr (to_float (numv pol ''cpus_max''))"
    using policy_ok_cpus(2) [OF ok, of "''cpus_max''"]
    by (cases "field_of pol ''cpus_max''") (simp_all add: float_of_value_def)
  have "intv pol ''memory_max_mib'' \<le> 2 ^ 33"
    using assms(3) by (simp add: pol_def)
  then show ?thesis
    unfolding pol_def [symmetric] rendered_limits [OF ok] wanted_resources_def
    using mem assms(4-7) by (simp add: vget_or_def [of "vput _ _ _"] bytes cpus int_of_value_def resource_drift_def nano_cpus_def Let_def)
qed

lemma sample_overrides_intv:
  "intv (effective_policy ''omniroute'' sample_overrides) ''memory_max_mib'' = 1024"
  by (simp add: sample_overrides_def effective_policy_def override_of_def policy_entries_def default_policy_def
      DEFAULT_POLICY_def POLICY_KEYS_def policy_dict_def intv_def vget_or_def vget_def)

theorem rendered_limits_drift_witness:
  "\<exists>svc' d. apply_resource_limits (\<lambda>_. []) (effective_policy ''omniroute'' sample_overrides) [] = Inr svc'
    \<and> bindR (wanted_resources (\<lambda>_. []) svc') (mapR (resource_drift
          [(VStr ''Memory'', VInt 1073741824), (VStr ''MemoryReservation'', VInt 0), (VStr ''NanoCpus'', VInt 0), (VStr ''CpuShares'', VInt 0)]))
      = Inr ([] # d)"
  using rendered_limits_drift [OF sample_overrides_valid services(1), where m = 1073741824 and r = 0 and c = 0 and h = 0 and rep = "\<lambda>_. []"
      and svc = "[]" and host = "[(VStr ''Memory'', VInt 1073741824), (VStr ''MemoryReservation'', VInt 0), (VStr ''NanoCpus'', VInt 0), (VStr ''CpuShares'', VInt 0)]"]
  by (auto simp: sample_overrides_intv field_of_def vget_or_def vget_def)

section \<open>What every rendered document keeps\<close>

abbreviation service_in :: "pydict \<Rightarrow> string \<Rightarrow> pydict" where
  "service_in doc s \<equiv> dict_at (dict_at doc ''services'') s"

lemma vget_put_if: "vget (put_if k g v d) j = (if j = k \<and> truthy g then Some v else vget d j)"
  by (simp add: put_if_def)

lemma limits_keep:
  assumes "apply_resource_limits rep pol svc = Inr svc'"
  shows "vget svc' ''environment'' = vget svc ''environment'' \<and> vget svc' ''depends_on'' = vget svc ''depends_on''
    \<and> vget svc' ''ports'' = vget svc ''ports''"
  using assms by (auto simp: apply_resource_limits_def Let_def vget_put_if)

lemma omniroute_kept:
  assumes "omniroute_service esc rep omni on pol = Inr svc"
  shows "vget (dict_at svc ''environment'') ''REQUIRE_API_KEY'' = Some (VStr ''true'') \<and> (has_key svc ''depends_on'' \<longleftrightarrow> on)"
  using assms unfolding omniroute_service_def Let_def bindR_eq_Inr
  by - (elim exE conjE, drule limits_keep, simp add: dict_at_def has_key_def vget_def)

lemma remote_setup_kept:
  assumes "remote_setup_service esc rep dumps root_dir key remote omni offered pol = Inr svc"
  shows "vget (dict_at svc ''environment'') ''MODELS_JSON'' = Some (VStr (esc (dumps (VList offered))))"
  using assms unfolding remote_setup_service_def Let_def bindR_eq_Inr
  by - (elim exE conjE, drule limits_keep, simp add: dict_at_def vget_def)

lemma system_one_kept:
  assumes "system_one_service esc rep env rocr s1 pol = Inr svc"
  shows "\<exists>port. vget svc ''ports'' = Some (texts [''127.0.0.1:'' @ port @ '':8000''])"
proof -
  have split: "(case v of VStr s \<Rightarrow> f s | _ \<Rightarrow> Inl e) = Inr x \<Longrightarrow> \<exists>s. f s = Inr x" for v and f :: "string \<Rightarrow> ('e, 'a) result" and e x
    by (cases v) auto
  show ?thesis
    using assms unfolding system_one_service_def
    by (cases "rocr = []", simp) (simp only: if_False bindR_eq_Inr, elim exE conjE, drule split, elim exE,
      drule limits_keep, simp add: vget_def texts_def)
qed

lemma document_services:
  "dict_at (document_of llm omni remote s1) ''services'' =
     (case llm of None \<Rightarrow> [] | Some s \<Rightarrow> [(VStr ''llm-server'', VDict s)])
     @ [(VStr ''omniroute'', VDict omni), (VStr ''remote-setup'', VDict remote)]
     @ (case s1 of None \<Rightarrow> [] | Some s \<Rightarrow> [(VStr ''system-one'', VDict s)])"
  by (simp add: dict_at_def document_of_def vget_def)

text \<open>
  C30: the exposed services stay guarded in every rendered document: OmniRoute, which listens on all interfaces,
  requires an API key; the model server and the dependency on it are there exactly when it is enabled, and
  without it no model is offered to remote machines; the system-one service listens on loopback only.
\<close>
theorem compose_posture:
  assumes "render_compose rep dumps env md pp root_dir lims key rocr cfg = Inr doc" "llm_server_on cfg = Inr on"
  shows "vget (dict_at (service_in doc ''omniroute'') ''environment'') ''REQUIRE_API_KEY'' = Some (VStr ''true'')
    \<and> (has_key (dict_at doc ''services'') ''llm-server'' \<longleftrightarrow> on)
    \<and> (has_key (service_in doc ''omniroute'') ''depends_on'' \<longleftrightarrow> on)
    \<and> (\<not> on \<longrightarrow> vget (dict_at (service_in doc ''remote-setup'') ''environment'') ''MODELS_JSON''
                    = Some (VStr (dollar_escape (dumps (VList [])))))
    \<and> (has_key (dict_at doc ''services'') ''system-one'' \<longrightarrow>
        (\<exists>port. vget (service_in doc ''system-one'') ''ports'' = Some (texts [''127.0.0.1:'' @ port @ '':8000''])))"
proof -
  obtain omni_cfg omni_svc remote offered remote_svc s1 llm where
    doc: "doc = document_of (if on then Some llm else None) omni_svc remote_svc s1"
    and omni: "omniroute_service dollar_escape rep omni_cfg on (l_omniroute lims) = Inr omni_svc"
    and off: "offered_models cfg on = Inr offered"
    and rem: "remote_setup_service dollar_escape rep dumps root_dir key remote omni_cfg offered (l_remote_setup lims) = Inr remote_svc"
    and s1: "system_one_part dollar_escape rep env rocr lims cfg = Inr s1"
    using assms by (auto simp: render_compose_def compose_document_def)
  have svc: "service_in doc ''omniroute'' = omni_svc" "service_in doc ''remote-setup'' = remote_svc"
    "service_in doc ''system-one'' = (case s1 of None \<Rightarrow> [] | Some s \<Rightarrow> s)"
    "has_key (dict_at doc ''services'') ''llm-server'' \<longleftrightarrow> on" "has_key (dict_at doc ''services'') ''system-one'' \<longleftrightarrow> s1 \<noteq> None"
    unfolding doc document_services by (cases s1; simp add: dict_at_def vget_def has_key_def)+
  have "\<exists>port. vget s ''ports'' = Some (texts [''127.0.0.1:'' @ port @ '':8000''])" if "s1 = Some s" for s
    using s1 that system_one_kept by (auto simp: system_one_part_def split: if_splits)
  moreover have "offered = []" if "\<not> on"
    using off that by (simp add: offered_models_def)
  ultimately show ?thesis
    using omniroute_kept [OF omni] remote_setup_kept [OF rem] unfolding svc by auto
qed

text \<open>A small configuration without the model server, with a password that has a dollar.\<close>

definition sample_cfg :: pydict where
  "sample_cfg =
     [(VStr ''server'', VDict [(VStr ''port'', VInt 9090), field ''host'' ''0.0.0.0'', field ''api_key'' ''a$b'', (VStr ''sleep_idle_seconds'', VInt 5)]),
      (VStr ''gpu'', VDict [field ''image'' ''img'']), (VStr ''runtime'', VDict [(VStr ''models_max'', VInt 1)]),
      (VStr ''llm_server'', VDict [(VStr ''enabled'', VBool False)]),
      (VStr ''omniroute'', VDict [field ''initial_password'' ''p$w''])]"

definition sample_limits :: limits where
  "sample_limits = \<lparr>l_omniroute = zero_policy, l_remote_setup = zero_policy, l_llm_server = \<lparr>l_cpus = IntN 0, l_memory_mib = 0\<rparr>,
     l_system_one = zero_policy, l_phoenix = zero_policy, l_applied = [], l_hard_total = 0, l_soft_total = 0\<rparr>"

lemma plain_zero_policy: "plain_policy rep zero_policy"
  by (simp add: plain_policy_def number_at_def zero_policy_def POLICY_KEYS_def vget_def)

lemma sample_plain: "plain_numbers rep sample_limits [] sample_cfg"
  by (simp add: plain_numbers_def sample_limits_def plain_zero_policy sample_cfg_def number_at_def dict_at_def vget_def)

definition omitted :: "pyval \<Rightarrow> string" where
  "omitted v = []"

definition password_in :: "pydict \<Rightarrow> pyval option" where
  "password_in doc = vget (dict_at (service_in doc ''omniroute'') ''environment'') ''INITIAL_PASSWORD''"

lemma sample_document:
  "case compose_document esc omitted omitted [] [] [] [] sample_limits [] [] sample_cfg of
     Inl _ \<Rightarrow> False | Inr doc \<Rightarrow> password_in doc = Some (VStr (esc ''p$w''))"
  unfolding compose_document_def sample_cfg_def
  by (simp add: needed_def vget_def mapping_def llm_server_on_def part_def vget_or_def llm_server_service_def needed_text_def
      escaped_def sample_limits_def Let_def omniroute_service_def apply_resource_limits_def field_of_def zero_policy_def POLICY_KEYS_def
      put_if_def offered_models_def remote_setup_service_def system_one_part_def password_in_def document_of_def dict_at_def)

theorem compose_escapes_every_text_witness:
  "render_compose omitted omitted [] [] [] [] sample_limits [] [] sample_cfg =
     map_sum id escaped_dict (compose_document (\<lambda>s. s) omitted omitted [] [] [] [] sample_limits [] [] sample_cfg)
   \<and> (case render_compose omitted omitted [] [] [] [] sample_limits [] [] sample_cfg of
        Inl _ \<Rightarrow> False | Inr doc \<Rightarrow> password_in doc = Some (VStr ''p$$w''))"
  using compose_escapes_every_text [OF sample_plain] sample_document [of dollar_escape]
  by (simp add: render_compose_def dollar_escape_def split: sum.splits)

lemma sample_on: "llm_server_on sample_cfg = Inr False"
  by (simp add: llm_server_on_def sample_cfg_def part_def mapping_def vget_or_def vget_def)

theorem compose_posture_witness:
  "\<exists>doc. render_compose omitted omitted [] [] [] [] sample_limits [] [] sample_cfg = Inr doc
    \<and> vget (dict_at (service_in doc ''omniroute'') ''environment'') ''REQUIRE_API_KEY'' = Some (VStr ''true'')
    \<and> \<not> has_key (dict_at doc ''services'') ''llm-server''"
proof -
  obtain doc where "render_compose omitted omitted [] [] [] [] sample_limits [] [] sample_cfg = Inr doc"
    using sample_document [of dollar_escape] by (auto simp: render_compose_def split: sum.splits)
  then show ?thesis
    using compose_posture [OF _ sample_on] by blast
qed

end
