(* ===== verification/Preflight.thy ===== *)
theory Preflight
  imports Drift
begin

text \<open>
  The preflight of an update (\<open>pylib/omniroute_update.py\<close>): which container is the target, whether it
  may be replaced, whether the compose service agrees with the configuration, and the record the later
  steps rely on. Labels, volume names and identifiers are texts, as the container engine writes them;
  \<open>found\<close> is the provider on the path and \<open>api_ok\<close> the authenticated health call, both parameters.
\<close>

definition DEFAULT_IMAGE :: string where "DEFAULT_IMAGE = ''docker.io/diegosouzapw/omniroute:latest''"
definition DOWN_STATUSES :: "string list" where "DOWN_STATUSES = [''created'', ''configured'', ''exited'', ''stopped'']"
definition LABEL_WORKDIR :: string where "LABEL_WORKDIR = ''com.docker.compose.project.working_dir''"

abbreviation not_owned :: "'a attempt" where "not_owned \<equiv> Inl (Deferred R_ownership)"
abbreviation owned_if :: "bool \<Rightarrow> unit attempt" where "owned_if b \<equiv> ensure b (Deferred R_ownership)"

section \<open>The project of an absent target\<close>

definition dir_name :: "string \<Rightarrow> string" where
  "dir_name p =
     (let head = rev (dropWhile (\<lambda>c. c \<noteq> CHR ''/'') (rev p)) in
      if list_all (\<lambda>c. c = CHR ''/'') head then head else rev (dropWhile (\<lambda>c. c = CHR ''/'') (rev head)))"

definition project_char :: "char \<Rightarrow> bool" where
  "project_char c \<longleftrightarrow> is_digit c \<or> (let n = of_char c :: nat in 97 \<le> n \<and> n \<le> 122)"

fun valid_project :: "string \<Rightarrow> bool" where
  "valid_project [] = False"
| "valid_project (c # cs) = (project_char c \<and> list_all (\<lambda>x. project_char x \<or> x \<in> set ''_.-'') cs)"

definition top_name :: "pyval \<Rightarrow> pyval" where
  "top_name v = (case v of VDict d \<Rightarrow> field_of d ''name'' | _ \<Rightarrow> VNone)"

definition foreign_project :: "string \<Rightarrow> string \<Rightarrow> string \<times> pydict \<Rightarrow> bool attempt" where
  "foreign_project directory project p =
     bindR (label_of LABEL_WORKDIR (snd p)) (\<lambda>dir.
     bindR (label_of LABEL_PROJECT (snd p)) (\<lambda>proj.
     Inr (dir = VStr directory \<and> proj \<noteq> VStr project)))"

definition absent_project :: "world \<Rightarrow> snapshot \<Rightarrow> string \<Rightarrow> string attempt" where
  "absent_project w snap compose_path =
     (let directory = real_path w (dir_name compose_path) in
      case file_bytes w compose_path of
        None \<Rightarrow> Inl (Deferred R_input)
      | Some b \<Rightarrow>
          (case yaml_load w b of
             None \<Rightarrow> Inl (Deferred R_input)
           | Some doc \<Rightarrow>
               let name = top_name doc;
                   project = (if truthy name then str_of (py_repr w) name else map lower (after_last (CHR ''/'') directory)) in
               bindR (ensure (valid_project project) (Deferred R_input)) (\<lambda>_.
               bindR (anyR (foreign_project directory project) (docs snap)) (\<lambda>foreign.
               if foreign then not_owned else Inr project))))"

section \<open>The target\<close>

datatype target_mode = Target_running | Target_stopped | Target_absent

definition has_service :: "string \<Rightarrow> string \<times> pydict \<Rightarrow> bool attempt" where
  "has_service service p = bindR (label_of LABEL_SERVICE (snd p)) (\<lambda>l. Inr (l = VStr service))"

definition shows_name :: "(pyval \<Rightarrow> string) \<Rightarrow> string \<Rightarrow> pydict \<Rightarrow> bool" where
  "shows_name rep name d \<longleftrightarrow> dropWhile (\<lambda>c. c = CHR ''/'') (str_of rep (vget_or d ''Name'' (VStr []))) = name"

definition mode_of :: "pydict \<Rightarrow> target_mode attempt" where
  "mode_of doc =
     bindR (section_of ''State'' doc) (\<lambda>st. Inr (if field_of st ''Running'' = VBool True then Target_running else Target_stopped))"

definition project_of :: "pydict \<Rightarrow> string attempt" where
  "project_of doc = bindR (label_of LABEL_PROJECT doc) (\<lambda>l. bindR (owned_if (truthy l)) (\<lambda>_. as_text l))"

definition find_target ::
  "world \<Rightarrow> string \<Rightarrow> string \<Rightarrow> snapshot \<Rightarrow> (string \<times> pydict \<times> target_mode \<times> string) attempt" where
  "find_target w service compose_path snap =
     bindR (filterR (has_service service) (docs snap)) (\<lambda>matches.
     case matches of
       [] \<Rightarrow>
         if service \<noteq> ''omniroute'' \<or> list_ex (\<lambda>p. shows_name (py_repr w) ''omniroute'' (snd p)) (docs snap) then not_owned
         else bindR (absent_project w snap compose_path) (\<lambda>project. Inr ([], [], Target_absent, project))
     | [(cid, doc)] \<Rightarrow>
         bindR (project_of doc) (\<lambda>project. bindR (mode_of doc) (\<lambda>m. Inr (cid, doc, m, project)))
     | _ \<Rightarrow> not_owned)"

definition health_of :: "pydict \<Rightarrow> pyval attempt" where
  "health_of doc = bindR (section_of ''State'' doc) (\<lambda>st. bindR (section_of ''Health'' st) (\<lambda>h. Inr (field_of h ''Status'')))"

definition live_port_of :: "(pyval \<Rightarrow> string) \<Rightarrow> pydict \<Rightarrow> int attempt" where
  "live_port_of rep doc =
     bindR (running_bindings rep doc) (\<lambda>bs.
     case remdups (map (fst \<circ> snd) bs) of
       [p] \<Rightarrow> if all_digits p then Inr (digits_value p) else not_owned
     | _ \<Rightarrow> not_owned)"

definition api_answers :: "(int \<Rightarrow> string \<Rightarrow> bool) option \<Rightarrow> pydict \<Rightarrow> int \<Rightarrow> bool attempt" where
  "api_answers api_ok doc port =
     (case api_ok of
        None \<Rightarrow> Inr False
      | Some ok \<Rightarrow> bindR (env_value_of doc ''INITIAL_PASSWORD'') (\<lambda>pw. Inr (ok port (case pw of None \<Rightarrow> [] | Some s \<Rightarrow> s))))"

definition cleanly_down :: "(pyval \<Rightarrow> string) \<Rightarrow> pydict \<Rightarrow> bool" where
  "cleanly_down rep st \<longleftrightarrow>
     \<not> truthy (field_of st ''Paused'') \<and> map lower (str_of rep (vget_or st ''Status'' (VStr []))) \<in> set DOWN_STATUSES"

text \<open>The checks on the running or stopped target; the result is its own published port.\<close>

definition observe_omniroute ::
  "(pyval \<Rightarrow> string) \<Rightarrow> (int \<Rightarrow> string \<Rightarrow> bool) option \<Rightarrow> target_mode \<Rightarrow> pydict \<Rightarrow> int attempt" where
  "observe_omniroute rep api_ok m doc =
     bindR (live_port_of rep doc) (\<lambda>live.
     bindR (env_value_of doc ''REQUIRE_API_KEY'') (\<lambda>key.
     bindR (owned_if (key = Some ''true'')) (\<lambda>_.
     bindR (health_of doc) (\<lambda>health.
     bindR (if m = Target_running \<and> health \<noteq> VStr ''healthy'' then api_answers api_ok doc live else Inr True) (\<lambda>ok.
     bindR (ensure ok (Deferred R_health)) (\<lambda>_. Inr live))))))"

definition observe_target ::
  "(pyval \<Rightarrow> string) \<Rightarrow> (int \<Rightarrow> string \<Rightarrow> bool) option \<Rightarrow> string \<Rightarrow> target_mode \<Rightarrow> pydict \<Rightarrow> int attempt" where
  "observe_target rep api_ok service m doc =
     bindR (section_of ''State'' doc) (\<lambda>st.
     bindR (health_of doc) (\<lambda>health.
     if service \<noteq> ''omniroute''
     then bindR (owned_if (m = Target_running \<and> health = VStr ''healthy'')) (\<lambda>_. Inr 0)
     else if m = Target_stopped \<and> \<not> cleanly_down rep st then not_owned
     else if m = Target_absent then Inr 0
     else observe_omniroute rep api_ok m doc))"

section \<open>The compose service\<close>

definition desired_service :: "string \<Rightarrow> pydict \<Rightarrow> pydict attempt" where
  "desired_service service eff =
     bindR (section_of ''services'' eff) (\<lambda>svcs.
     case field_of svcs service of
       VDict svc \<Rightarrow>
         if service = ''omniroute'' \<and> field_of svc ''container_name'' \<noteq> VStr ''omniroute'' then not_owned else Inr svc
     | _ \<Rightarrow> not_owned)"

definition agrees :: "(pyval \<Rightarrow> string) \<Rightarrow> pyval \<Rightarrow> int \<Rightarrow> string \<Rightarrow> pydict \<Rightarrow> unit attempt" where
  "agrees rep image_v port password svc =
     bindR (as_text image_v) (\<lambda>image.
     bindR (owned_if (parse_reference (str_of rep (vget_or svc ''image'' (VStr []))) = parse_reference image)) (\<lambda>_.
     bindR (published_ports rep svc) (\<lambda>ports.
     bindR (owned_if (set ports = {show_int port})) (\<lambda>_.
     bindR (env_dict rep (field_of svc ''environment'')) (\<lambda>env.
     bindR (owned_if ((case dget env (VStr ''INITIAL_PASSWORD'') of None \<Rightarrow> [] | Some s \<Rightarrow> s)
                        \<in> {password, double_char dollar password})) (\<lambda>_.
     owned_if (dget env (VStr ''REQUIRE_API_KEY'') = Some ''true'')))))))"

definition stop_grace :: "(pyval \<Rightarrow> string) \<Rightarrow> string \<Rightarrow> pydict \<Rightarrow> int attempt" where
  "stop_grace rep service svc =
     (let s = str_of rep (vget_or svc ''stop_grace_period'' (VStr (if service = ''omniroute'' then [] else ''10s''))) in
      if s \<noteq> [] \<and> last s = CHR ''s'' \<and> all_digits (butlast s) then Inr (digits_value (butlast s)) else Inl (Deferred R_input))"

section \<open>The deployment record\<close>

record deployed = deployment +
  container_name :: string
  image_id :: string
  image_ref :: pyval
  started_at :: pyval
  port :: int
  stop_seconds :: int
  pinned :: bool
  image_platform :: "pyval \<times> pyval \<times> pyval"
  volume_names :: "string list"
  sibling_ids :: "string list"
  state_mode :: target_mode
  live_port :: int
  drifted :: "drift list"

definition image_of :: "pydict \<Rightarrow> string attempt" where
  "image_of doc = (case vget doc ''Image'' of None \<Rightarrow> Inl Uncaught | Some v \<Rightarrow> as_text v)"

definition target_platform :: "world \<Rightarrow> string \<Rightarrow> pydict \<Rightarrow> (pyval \<times> pyval \<times> pyval) attempt" where
  "target_platform w cid doc =
     (if cid \<noteq> []
      then
        bindR (image_of doc) (\<lambda>img.
        bindR (inventory (run_command w) (json_loads w) [''podman'', ''image'', ''inspect'', ''--format'', ''json'', img]) (\<lambda>got.
        case got of
          VList (i # _) \<Rightarrow>
            bindR (as_dict i) (\<lambda>d.
            Inr (vget_or d ''Os'' (VStr []), vget_or d ''Architecture'' (VStr []), vget_or d ''Variant'' (VStr [])))
        | _ \<Rightarrow> Inl Uncaught))
      else
        bindR (inventory (run_command w) (json_loads w) [''podman'', ''info'', ''--format'', ''json'']) (\<lambda>info.
        bindR (as_dict info) (\<lambda>d.
        bindR (section_of ''host'' d) (\<lambda>h.
        Inr (vget_or h ''os'' (VStr []), vget_or h ''arch'' (VStr []), vget_or h ''variant'' (VStr []))))))"

definition is_sibling :: "string \<Rightarrow> string \<Rightarrow> string \<times> pydict \<Rightarrow> bool attempt" where
  "is_sibling cid project p =
     (if fst p = cid then Inr False else bindR (label_of LABEL_PROJECT (snd p)) (\<lambda>l. Inr (l = VStr project)))"

definition volume_name :: "pyval \<Rightarrow> string list attempt" where
  "volume_name m =
     bindR (as_dict m) (\<lambda>d.
     if field_of d ''Type'' \<noteq> VStr ''volume'' then Inr []
     else (case vget d ''Name'' of None \<Rightarrow> Inl Uncaught | Some n \<Rightarrow> bindR (as_text n) (\<lambda>s. Inr [s])))"

definition volumes_of :: "pydict \<Rightarrow> string list attempt" where
  "volumes_of doc =
     bindR (falsy_or_items (field_of doc ''Mounts'')) (\<lambda>ms. bindR (mapR volume_name ms) (\<lambda>nss. Inr (sort (concat nss))))"

text \<open>\<open>sorted\<close> of a set of identifiers: texts, or a single value.\<close>

definition sorted_ids :: "pyval list \<Rightarrow> pyval list attempt" where
  "sorted_ids vs =
     (if list_all is_str vs then Inr (map VStr (sort (remdups (map the_text vs))))
      else if length (remdups vs) = 1 then Inr (remdups vs) else Inl Uncaught)"

definition pinned_ref :: "pyval \<Rightarrow> bool attempt" where
  "pinned_ref v = in_value ''@sha256:'' v"

section \<open>The preflight\<close>

definition deployment_of ::
  "world \<Rightarrow> string \<Rightarrow> string \<Rightarrow> pydict \<Rightarrow> target_mode \<Rightarrow> string \<Rightarrow> string \<Rightarrow> pyval \<Rightarrow> int \<Rightarrow> int \<Rightarrow> pydict \<Rightarrow> snapshot
   \<Rightarrow> deployed attempt" where
  "deployment_of w service cid doc m project prov ref conf_port live svc snap =
     bindR (stop_grace (py_repr w) service svc) (\<lambda>grace.
     bindR (target_platform w cid doc) (\<lambda>plat.
     bindR (filterR (is_sibling cid project) (docs snap)) (\<lambda>sibs.
     bindR (if cid \<noteq> [] then bindR (image_of doc) (\<lambda>i. canon_image_id (VStr i)) else Inr []) (\<lambda>img.
     bindR (section_of ''State'' doc) (\<lambda>st.
     bindR (pinned_ref ref) (\<lambda>pin.
     bindR (bindR (networks doc) sorted_ids) (\<lambda>nets.
     bindR (volumes_of doc) (\<lambda>vols.
     bindR (if service = ''omniroute'' \<and> cid \<noteq> [] then config_drift (py_repr w) (sha256_hex w) svc doc else Inr []) (\<lambda>drifts.
     Inr \<lparr>target_id = cid, project_name = project, network_ids = nets, provider_path = prov, container_name = service,
          image_id = img, image_ref = ref, started_at = vget_or st ''StartedAt'' (VStr []), port = conf_port,
          stop_seconds = grace, pinned = pin, image_platform = plat, volume_names = vols, sibling_ids = sort (keys sibs),
          state_mode = m, live_port = (if live = 0 then conf_port else live), drifted = drifts\<rparr>)))))))))"

definition provider_of :: "string option \<Rightarrow> string option \<Rightarrow> string attempt" where
  "provider_of given found =
     (let p = (case given of Some s \<Rightarrow> s | None \<Rightarrow> []); q = (case found of Some s \<Rightarrow> s | None \<Rightarrow> []);
          prov = (if p \<noteq> [] then p else q) in
      if prov = [] then Inl (Deferred R_input) else Inr prov)"

text \<open>The rest of the preflight, once the target is known.\<close>

definition preflight_found ::
  "world \<Rightarrow> string option \<Rightarrow> (int \<Rightarrow> string \<Rightarrow> bool) option \<Rightarrow> string \<Rightarrow> string \<Rightarrow> string \<Rightarrow> string option \<Rightarrow> pydict
   \<Rightarrow> int \<Rightarrow> snapshot \<Rightarrow> string \<Rightarrow> pydict \<Rightarrow> target_mode \<Rightarrow> string \<Rightarrow> (deployed \<times> snapshot \<times> string \<times> pydict) attempt" where
  "preflight_found w found api_ok service config_path compose_path given omni cfg_port whole cid doc m project =
     (let is_omni = (service = ''omniroute'');
          cfg_ref = vget_or omni ''image'' (VStr DEFAULT_IMAGE);
          password = str_of (py_repr w) (vget_or omni ''initial_password'' (VStr []));
          conf_port = (if is_omni then cfg_port else 0);
          ref = (if is_omni then cfg_ref else vget_or doc ''ImageName'' (VStr [])) in
     bindR (observe_target (py_repr w) api_ok service m doc) (\<lambda>live.
     bindR (networks doc) (\<lambda>nets.
     bindR (relevant_ids whole cid project nets) (\<lambda>ids.
     let snap = restrict whole ids in
     bindR (owned_if (cid = [] \<or> incoming snap cid = [])) (\<lambda>_.
     bindR (provider_of given found) (\<lambda>prov.
     bindR (effective_config (run_command w) (yaml_load w) prov project compose_path) (\<lambda>eff.
     bindR (desired_service service eff) (\<lambda>svc.
     bindR (fingerprint_of w config_path compose_path prov eff snap) (\<lambda>fp.
     bindR (if is_omni then agrees (py_repr w) ref conf_port password svc else Inr ()) (\<lambda>_.
     bindR (deployment_of w service cid doc m project prov ref conf_port live svc snap) (\<lambda>dep.
     Inr (dep, snap, fp, eff))))))))))))"

definition preflight ::
  "world \<Rightarrow> string option \<Rightarrow> (int \<Rightarrow> string \<Rightarrow> bool) option \<Rightarrow> string \<Rightarrow> string \<Rightarrow> string \<Rightarrow> string option \<Rightarrow> pydict
   \<Rightarrow> (deployed \<times> snapshot \<times> string \<times> pydict) attempt" where
  "preflight w found api_ok service config_path compose_path given cfg =
     bindR (snapshot_of w) (\<lambda>whole.
     bindR (section_of ''omniroute'' cfg) (\<lambda>omni.
     bindR (int_of_value (vget_or omni ''port'' (VInt 20128))) (\<lambda>cfg_port.
     bindR (find_target w service compose_path whole) (\<lambda>(cid, doc, m, project).
     preflight_found w found api_ok service config_path compose_path given omni cfg_port whole cid doc m project))))"

section \<open>What a preflight establishes\<close>

lemma add_container_deps:
  assumes "\<forall>p \<in> set (deps s). hex64 (snd p)" "add_container run json rep canon s v = Inr s'"
  shows "\<forall>p \<in> set (deps s'). hex64 (snd p)"
proof -
  have ds: "list_all hex64 ts" if "dependencies_of d = Inr ts" for d ts
    using that by (auto simp: dependencies_of_def list_all_iff dest!: is_container_idD split: pyval.splits if_splits)
  show ?thesis
    using assms by (fastforce simp: add_container_def Let_def list_all_iff dest!: ds)
qed

lemma snapshot_deps:
  assumes "snapshot_of w = Inr s" "p \<in> set (deps s)"
  shows "hex64 (snd p)"
proof -
  from assms(1) obtain g r ids where
    run: "foldR (add_container (run_command w) (json_loads w) (py_repr w) (canon_hash w))
          \<lparr>snap_backend = \<lparr>graph_root = g, run_root = r\<rparr>, containers = [], deps = [], docs = [], names = [],
           started = [], others = []\<rparr> ids = Inr s"
    by (auto simp: snapshot_of_def take_snapshot_def split: if_splits)
  have "\<forall>p \<in> set (deps s). hex64 (snd p)"
    by (rule foldR_inv [of "\<lambda>s. \<forall>p \<in> set (deps s). hex64 (snd p)", OF add_container_deps _ run]) auto
  then show ?thesis
    using assms(2) by blast
qed

lemma hex64_nonempty: "hex64 s \<Longrightarrow> s \<noteq> []"
  by (auto simp: hex64_def)

lemma incoming_none: "snapshot_of w = Inr s \<Longrightarrow> incoming (restrict s ids) [] = []"
  using snapshot_deps hex64_nonempty by (fastforce simp: incoming_Nil restrict_def)

lemma sorted_ids_set: "sorted_ids vs = Inr ws \<Longrightarrow> set ws = set vs"
proof -
  have strs: "map VStr (map the_text vs) = vs" if "list_all is_str vs"
    using that by (induction vs) (auto elim: is_str.elims(2))
  assume "sorted_ids vs = Inr ws"
  moreover have "VStr ` the_text ` set vs = set vs" if "list_all is_str vs"
    using arg_cong [OF strs [OF that], of set] by (simp add: image_image)
  ultimately show ?thesis
    by (cases "list_all is_str vs") (auto simp: sorted_ids_def split: if_splits)
qed

lemma hashable_Inr: "hashable v = Inr u \<longleftrightarrow> u = v \<and> \<not> is_list v \<and> \<not> is_dict v"
  by (auto simp: hashable_def)

lemma networks_hashable:
  assumes "networks d = Inr nets" "v \<in> set nets"
  shows "hashable v = Inr v"
proof -
  obtain ns where "attached d = Inr ns" "mapR (\<lambda>v. bindR (network_id v) hashable) (map snd ns) = Inr nets"
    using assms(1) unfolding networks_def bindR_eq_Inr by (elim exE conjE)
  from mapR_member [OF this(2) assms(2)] show ?thesis
    by (auto simp: hashable_Inr)
qed

lemma mapR_hashable: "\<forall>v \<in> set vs. hashable v = Inr v \<Longrightarrow> mapR hashable vs = Inr vs"
  using mapR_map [of vs hashable id] by simp

lemma relevant_ids_cong:
  assumes "set nets = set nets'" "\<forall>v \<in> set nets. hashable v = Inr v"
  shows "relevant_ids s t p nets' = relevant_ids s t p nets"
proof -
  have "is_relevant s t p nets' = is_relevant s t p nets"
    by (rule ext) (simp only: is_relevant_def assms(1))
  then show ?thesis
    using assms by (simp add: relevant_ids_def mapR_hashable)
qed

lemma find_target_Inr:
  assumes "find_target w service cp s = Inr (cid, doc, m, project)"
  shows "m = Target_absent \<and> cid = [] \<and> doc = [] \<and> service = ''omniroute'' \<and> absent_project w s cp = Inr project
           \<and> (\<forall>p \<in> set (docs s). has_service service p \<noteq> Inr True \<and> \<not> shows_name (py_repr w) ''omniroute'' (snd p))
    \<or> m \<noteq> Target_absent \<and> mode_of doc = Inr m \<and> label_of LABEL_PROJECT doc = Inr (VStr project)
           \<and> filter (\<lambda>p. has_service service p = Inr True) (docs s) = [(cid, doc)]"
proof -
  obtain ms where ms: "filterR (has_service service) (docs s) = Inr ms"
    and rest: "(case ms of
       [] \<Rightarrow>
         if service \<noteq> ''omniroute'' \<or> list_ex (\<lambda>p. shows_name (py_repr w) ''omniroute'' (snd p)) (docs s) then not_owned
         else bindR (absent_project w s cp) (\<lambda>project. Inr ([], [], Target_absent, project))
     | [(cid, doc)] \<Rightarrow> bindR (project_of doc) (\<lambda>project. bindR (mode_of doc) (\<lambda>m. Inr (cid, doc, m, project)))
     | _ \<Rightarrow> not_owned) = Inr (cid, doc, m, project)"
    using assms unfolding find_target_def bindR_eq_Inr by - (elim exE conjE, rule that, assumption+)
  have f: "filter (\<lambda>p. has_service service p = Inr True) (docs s) = ms"
    using filterR_Inr [OF ms] by simp
  have mode: "mode_of d \<noteq> Inr Target_absent" for d
    by (auto simp: mode_of_def split: if_splits)
  have proj: "label_of LABEL_PROJECT d = Inr (VStr p)" if "project_of d = Inr p" for d p
    using that by (auto simp: project_of_def elim: as_text.elims)
  show ?thesis
  proof (cases ms)
    case Nil
    then show ?thesis
      using rest f by (auto simp: list_ex_iff filter_empty_conv split: if_splits)
  next
    case (Cons p ps)
    then show ?thesis
      using rest f by (cases ps) (auto simp: mode dest: proj split: prod.splits)
  qed
qed

lemma preflight_Inr:
  assumes "preflight w found api_ok service config_path cp given cfg = Inr r"
  shows "\<exists>whole omni cfg_port cid doc m project. snapshot_of w = Inr whole \<and> section_of ''omniroute'' cfg = Inr omni
    \<and> int_of_value (vget_or omni ''port'' (VInt 20128)) = Inr cfg_port
    \<and> find_target w service cp whole = Inr (cid, doc, m, project)
    \<and> preflight_found w found api_ok service config_path cp given omni cfg_port whole cid doc m project = Inr r"
  using assms unfolding preflight_def bindR_eq_Inr by (auto split: prod.splits)

lemma preflight_found_Inr:
  assumes "preflight_found w found api_ok service config_path cp given omni cfg_port whole cid doc m project = Inr (dep, snap, fp, eff)"
  shows "\<exists>live nets ids prov svc ref. observe_target (py_repr w) api_ok service m doc = Inr live
    \<and> networks doc = Inr nets \<and> relevant_ids whole cid project nets = Inr ids \<and> restrict whole ids = snap
    \<and> (cid = [] \<or> incoming snap cid = [])
    \<and> effective_config (run_command w) (yaml_load w) prov project cp = Inr eff \<and> desired_service service eff = Inr svc
    \<and> fingerprint_of w config_path cp prov eff snap = Inr fp
    \<and> (service = ''omniroute'' \<longrightarrow> agrees (py_repr w) (vget_or omni ''image'' (VStr DEFAULT_IMAGE)) cfg_port
         (str_of (py_repr w) (vget_or omni ''initial_password'' (VStr []))) svc = Inr ())
    \<and> deployment_of w service cid doc m project prov ref (if service = ''omniroute'' then cfg_port else 0) live svc snap
        = Inr dep"
  using assms unfolding preflight_found_def Let_def bindR_eq_Inr
  by (elim exE conjE) (intro exI conjI; simp split: if_splits)

lemma deployment_of_Inr:
  assumes "deployment_of w service cid doc m project prov ref conf_port live svc snap = Inr dep" "networks doc = Inr nets"
  shows "target_id dep = cid \<and> project_name dep = project \<and> provider_path dep = prov \<and> set (network_ids dep) = set nets
    \<and> state_mode dep = m \<and> port dep = conf_port \<and> live_port dep = (if live = 0 then conf_port else live)"
  using assms by (auto simp: deployment_of_def dest: sorted_ids_set)

lemma truncate_simps [simp]:
  "target_id (deployment.truncate d) = target_id d" "project_name (deployment.truncate d) = project_name d"
  "network_ids (deployment.truncate d) = network_ids d" "provider_path (deployment.truncate d) = provider_path d"
  by (simp_all add: deployment.truncate_def)

lemma target_restricted:
  assumes "snapshot_wf s" "relevant_ids s cid p nets = Inr ids" "cid \<in> set (keys (docs s))"
  shows "cid \<in> set (keys (containers (restrict s ids)))"
proof -
  obtain d where "(cid, d) \<in> set (docs s)"
    using assms(3) by auto
  moreover have "is_relevant s cid p nets (cid, d) = Inr True"
    by (simp add: is_relevant_def)
  ultimately have "cid \<in> set ids"
    unfolding relevant_ids_Inr [OF assms(2)] by force
  then show ?thesis
    using assms(1,3) by (auto simp: restrict_def keep_keys_def snapshot_wf_def)
qed

section \<open>The stored snapshot\<close>

text \<open>
  \<open>to_json\<close> and \<open>from_json\<close> on decoded documents: the keys are sorted, dependencies and unrelated
  identifiers become sorted lists, and the inspect documents are not stored.
\<close>

definition stored_dict :: "(string, string) dict \<Rightarrow> pyval" where
  "stored_dict d = VDict (map (\<lambda>p. (VStr (fst p), VStr (snd p))) (sort_key fst d))"

definition to_json :: "snapshot \<Rightarrow> pydict" where
  "to_json s =
     [(VStr ''backend'', VDict (backend_doc (snap_backend s))), (VStr ''containers'', stored_dict (containers s)),
      (VStr ''deps'', VList (map (\<lambda>d. VList (map VStr d)) (sort (remdups (map (\<lambda>(a, b). [a, b]) (deps s)))))),
      (VStr ''names'', stored_dict (names s)), (VStr ''others'', VList (map VStr (sort (remdups (others s))))),
      (VStr ''started'', stored_dict (started s))]"

definition read_entry :: "pyval \<times> pyval \<Rightarrow> (string \<times> string) attempt" where
  "read_entry p = bindR (as_text (fst p)) (\<lambda>k. bindR (as_text (snd p)) (\<lambda>v. Inr (k, v)))"

definition read_dict :: "pyval \<Rightarrow> (string, string) dict attempt" where
  "read_dict v = bindR (as_dict v) (mapR read_entry)"

definition read_pair :: "pyval \<Rightarrow> (string \<times> string) attempt" where
  "read_pair v = (case v of VList [VStr a, VStr b] \<Rightarrow> Inr (a, b) | _ \<Rightarrow> Inl Uncaught)"

definition read_backend :: "pyval \<Rightarrow> backend attempt" where
  "read_backend v =
     bindR (as_dict v) (\<lambda>d. bindR (as_text (field_of d ''graphRoot'')) (\<lambda>g. bindR (as_text (field_of d ''runRoot'')) (\<lambda>r.
     Inr \<lparr>graph_root = g, run_root = r\<rparr>)))"

definition from_json :: "pydict \<Rightarrow> snapshot attempt" where
  "from_json raw =
     bindR (read_backend (field_of raw ''backend'')) (\<lambda>b.
     bindR (read_dict (field_of raw ''containers'')) (\<lambda>cs.
     bindR (bindR (items_of (field_of raw ''deps'')) (mapR read_pair)) (\<lambda>ds.
     bindR (read_dict (vget_or raw ''names'' (VDict []))) (\<lambda>ns.
     bindR (read_dict (vget_or raw ''started'' (VDict []))) (\<lambda>st.
     bindR (bindR (items_of (vget_or raw ''others'' (VList []))) (mapR as_text)) (\<lambda>os.
     Inr \<lparr>snap_backend = b, containers = cs, deps = ds, docs = [], names = ns, started = st, others = os\<rparr>))))))"

lemma mapR_inverse: "(\<And>x. f (g x) = Inr (h x)) \<Longrightarrow> mapR f (map g xs) = Inr (map h xs)"
  by (induction xs) simp_all

lemma read_stored_dict: "read_dict (stored_dict d) = Inr (sort_key fst d)"
  using mapR_inverse [of read_entry "\<lambda>p. (VStr (fst p), VStr (snd p))" id "sort_key fst d"]
  by (simp add: read_dict_def stored_dict_def read_entry_def)

lemma read_stored_deps:
  "\<exists>ds'. mapR read_pair (map (\<lambda>d. VList (map VStr d)) (sort (remdups (map (\<lambda>(a, b). [a, b]) ds)))) = Inr ds' \<and> set ds' = set ds"
proof -
  have "mapR read_pair (map (\<lambda>d. VList (map VStr d)) xs) = Inr (map (\<lambda>d. (d ! 0, d ! 1)) xs)" if "\<forall>d \<in> set xs. length d = 2" for xs
    using that by (induction xs) (auto simp: read_pair_def length_Suc_conv numeral_2_eq_2)
  from this [of "sort (remdups (map (\<lambda>(a, b). [a, b]) ds))"] show ?thesis
    by (auto simp: image_image case_prod_beta)
qed

lemma from_to_json:
  "\<exists>ds. from_json (to_json s) = Inr \<lparr>snap_backend = snap_backend s, containers = sort_key fst (containers s), deps = ds, docs = [],
      names = sort_key fst (names s), started = sort_key fst (started s), others = sort (remdups (others s))\<rparr> \<and> set ds = set (deps s)"
proof -
  obtain ds where ds: "mapR read_pair (map (\<lambda>d. VList (map VStr d)) (sort (remdups (map (\<lambda>(a, b). [a, b]) (deps s))))) = Inr ds"
      "set ds = set (deps s)"
    using read_stored_deps by blast
  have "mapR as_text (map VStr xs) = Inr xs" for xs
    by (induction xs) simp_all
  then show ?thesis
    using ds by (simp add: from_json_def to_json_def read_stored_dict read_backend_def backend_doc_def field_of_def vget_or_def vget_def)
qed

lemma dget_sorted: "distinct (keys d) \<Longrightarrow> dget (sort_key fst d) = dget d"
  by (subst map_of_inject_set) (simp_all add: distinct_map)

text \<open>
  C33: in an unchanged world the recheck accepts what the preflight stored. If the preflight returns a
  deployment, a snapshot and a fingerprint, the snapshot read back from its JSON file and a recheck of them against
  the same commands, files and environment passes and reports no unrelated container as added or removed.
\<close>
theorem preflight_then_recheck:
  assumes "preflight w found api_ok service config_path cp given cfg = Inr (dep, snap, fp, eff)"
    and "check_private_dir st euid = Inr ()"
  shows "\<exists>before. from_json (to_json snap) = Inr before
    \<and> recheck w st euid config_path cp before fp (deployment.truncate dep) = Inr (0, 0)"
proof -
  obtain whole omni cfg_port cid doc m project where
    whole: "snapshot_of w = Inr whole" and target: "find_target w service cp whole = Inr (cid, doc, m, project)"
    and rest: "preflight_found w found api_ok service config_path cp given omni cfg_port whole cid doc m project = Inr (dep, snap, fp, eff)"
    using preflight_Inr [OF assms(1)] by blast
  obtain live nets ids prov svc ref where
    nets: "networks doc = Inr nets" and ids: "relevant_ids whole cid project nets = Inr ids" and snap: "restrict whole ids = snap"
    and alone: "cid = [] \<or> incoming snap cid = []"
    and eff: "effective_config (run_command w) (yaml_load w) prov project cp = Inr eff"
    and fp: "fingerprint_of w config_path cp prov eff snap = Inr fp"
    and dep: "deployment_of w service cid doc m project prov ref (if service = ''omniroute'' then cfg_port else 0) live svc snap = Inr dep"
    using preflight_found_Inr [OF rest] by blast
  note d = deployment_of_Inr [OF dep nets]
  have same: "relevant_ids whole cid project (network_ids dep) = Inr ids"
    using relevant_ids_cong [of nets "network_ids dep" whole cid project] d networks_hashable [OF nets] ids by simp
  have "incoming snap cid = []"
    using alone incoming_none [OF whole, of ids] snap by auto
  moreover have "cid = [] \<or> cid \<in> set (keys (docs whole))"
    using find_target_Inr [OF target] by (auto simp: filter_eq_Cons_iff)
  then have "cid = [] \<or> cid \<in> set (keys (containers snap))"
    using target_restricted [OF snapshot_of_wf [OF whole] ids] snap by blast
  moreover obtain before where before: "from_json (to_json snap) = Inr before" and kept: "snap_backend before = snap_backend snap"
      "containers before = sort_key fst (containers snap)" "set (deps before) = set (deps snap)" "set (others before) = set (others snap)"
    using from_to_json [of snap] by auto
  moreover have "distinct (keys (containers snap))"
    using snapshot_of_wf [OF whole] unfolding snap [symmetric] by (simp add: snapshot_wf_def restrict_def keep_keys_def distinct_map_filter)
  then have "assert_unchanged before snap = Inr ()"
    using kept by (simp add: assert_unchanged_iff dget_sorted)
  ultimately have "recheck_inventory w config_path cp before fp (deployment.truncate dep) = Inr snap"
    unfolding recheck_inventory_def whole using d same snap eff fp by (simp add: Let_def ensure_def)
  then have "recheck w st euid config_path cp before fp (deployment.truncate dep) = Inr (0, 0)"
    using assms(2) kept by (simp add: recheck_def difference_size_def)
  then show ?thesis
    using before by blast
qed

definition reachable :: "(int \<Rightarrow> string \<Rightarrow> bool) option \<Rightarrow> pydict \<Rightarrow> int \<Rightarrow> bool" where
  "reachable api_ok doc live \<longleftrightarrow> health_of doc = Inr (VStr ''healthy'') \<or> api_answers api_ok doc live = Inr True"

lemma observe_omniroute_Inr:
  assumes "observe_omniroute rep api_ok m doc = Inr live"
  shows "live_port_of rep doc = Inr live \<and> env_value_of doc ''REQUIRE_API_KEY'' = Inr (Some ''true'')
    \<and> (m = Target_running \<longrightarrow> reachable api_ok doc live)"
proof (cases "m = Target_running \<and> health_of doc \<noteq> Inr (VStr ''healthy'')")
  case True
  then show ?thesis
    using assms by (auto simp: observe_omniroute_def reachable_def split: if_splits)
next
  case False
  then show ?thesis
    using assms by (auto simp: observe_omniroute_def reachable_def)
qed

text \<open>
  What the configuration says of OmniRoute and what the compose service says of it: the same image once both are
  parsed, the configured port and no other published, the configured dashboard password (as it is, or with the dollars
  doubled as the compose file writes them), and an API key required.
\<close>

definition service_matches :: "(pyval \<Rightarrow> string) \<Rightarrow> pydict \<Rightarrow> pydict \<Rightarrow> int \<Rightarrow> bool" where
  "service_matches rep omni svc n \<longleftrightarrow>
     int_of_value (vget_or omni ''port'' (VInt 20128)) = Inr n
     \<and> (\<exists>image. as_text (vget_or omni ''image'' (VStr DEFAULT_IMAGE)) = Inr image
          \<and> parse_reference (str_of rep (vget_or svc ''image'' (VStr []))) = parse_reference image)
     \<and> (\<exists>ports. published_ports rep svc = Inr ports \<and> set ports = {show_int n})
     \<and> (\<exists>env password. env_dict rep (field_of svc ''environment'') = Inr env
          \<and> password = str_of rep (vget_or omni ''initial_password'' (VStr []))
          \<and> (case dget env (VStr ''INITIAL_PASSWORD'') of
                 None \<Rightarrow> password = []
               | Some s \<Rightarrow> s = password \<or> s = double_char dollar password)
          \<and> dget env (VStr ''REQUIRE_API_KEY'') = Some ''true'')"

lemma double_char_Nil: "double_char c s = [] \<longleftrightarrow> s = []"
  by (cases s) (auto simp: double_char_def)

lemma password_same:
  assumes "(case given of None \<Rightarrow> [] | Some s \<Rightarrow> s) \<in> {p, double_char c p}"
  shows "case given of None \<Rightarrow> p = [] | Some s \<Rightarrow> s = p \<or> s = double_char c p"
proof (cases given)
  case None
  with assms have "p = [] \<or> double_char c p = []"
    by auto
  with None show ?thesis
    by (simp add: double_char_Nil)
qed (use assms in simp)

lemma agrees_Inr:
  assumes "agrees rep (vget_or omni ''image'' (VStr DEFAULT_IMAGE)) n (str_of rep (vget_or omni ''initial_password'' (VStr []))) svc
      = Inr ()" "int_of_value (vget_or omni ''port'' (VInt 20128)) = Inr n"
  shows "service_matches rep omni svc n"
proof -
  let ?image = "vget_or omni ''image'' (VStr DEFAULT_IMAGE)" and ?svc_image = "str_of rep (vget_or svc ''image'' (VStr []))"
    and ?password = "str_of rep (vget_or omni ''initial_password'' (VStr []))"
  obtain image ports env where "as_text ?image = Inr image" "parse_reference ?svc_image = parse_reference image"
    "published_ports rep svc = Inr ports" "set ports = {show_int n}" "env_dict rep (field_of svc ''environment'') = Inr env"
    and p: "(case dget env (VStr ''INITIAL_PASSWORD'') of None \<Rightarrow> [] | Some s \<Rightarrow> s) \<in> {?password, double_char dollar ?password}"
    and "dget env (VStr ''REQUIRE_API_KEY'') = Some ''true''"
    using assms(1) by (auto simp: agrees_def)
  with assms(2) password_same [OF p] show ?thesis
    unfolding service_matches_def by blast
qed

definition sole_target :: "(pyval \<Rightarrow> string) \<Rightarrow> (int \<Rightarrow> string \<Rightarrow> bool) option \<Rightarrow> snapshot \<Rightarrow> string \<Rightarrow> target_mode \<Rightarrow> bool" where
  "sole_target rep api_ok whole cid m \<longleftrightarrow>
     (\<exists>doc live. filter (\<lambda>p. has_service ''omniroute'' p = Inr True) (docs whole) = [(cid, doc)]
        \<and> live_port_of rep doc = Inr live \<and> env_value_of doc ''REQUIRE_API_KEY'' = Inr (Some ''true'')
        \<and> (m = Target_running \<longrightarrow> reachable api_ok doc live))"

definition no_target :: "world \<Rightarrow> snapshot \<Rightarrow> bool" where
  "no_target w whole \<longleftrightarrow>
     (\<forall>p \<in> set (docs whole). has_service ''omniroute'' p \<noteq> Inr True \<and> \<not> shows_name (py_repr w) ''omniroute'' (snd p))"

text \<open>
  C32: a preflight that returns has identified what may be replaced. The target of OmniRoute is the only container
  with the service label, it publishes one host port, requires an API key and, when running, is healthy or answers
  its authenticated API; or no container has the label or the name. In the whole inventory nothing depends on the
  target. And the compose service agrees with the configuration: it names the configured image, publishes exactly the
  configured port, which is the recorded one, holds the configured dashboard password and requires an API key.
\<close>
theorem preflight_sound:
  assumes "preflight w found api_ok ''omniroute'' config_path cp given cfg = Inr (dep, snap, fp, eff)"
  shows "\<exists>whole svc omni. snapshot_of w = Inr whole \<and> desired_service ''omniroute'' eff = Inr svc
    \<and> (if state_mode dep = Target_absent then target_id dep = [] \<and> no_target w whole
       else sole_target (py_repr w) api_ok whole (target_id dep) (state_mode dep)
         \<and> (\<forall>c. (c, target_id dep) \<notin> set (deps whole)))
    \<and> section_of ''omniroute'' cfg = Inr omni \<and> service_matches (py_repr w) omni svc (port dep)"
proof -
  obtain whole omni cfg_port cid doc m project where
    whole: "snapshot_of w = Inr whole" and omni: "section_of ''omniroute'' cfg = Inr omni"
    and conf: "int_of_value (vget_or omni ''port'' (VInt 20128)) = Inr cfg_port" and target: "find_target w ''omniroute'' cp whole = Inr (cid, doc, m, project)"
    and rest: "preflight_found w found api_ok ''omniroute'' config_path cp given omni cfg_port whole cid doc m project = Inr (dep, snap, fp, eff)"
    using preflight_Inr [OF assms] by blast
  obtain live nets ids prov svc ref where
    obs: "observe_target (py_repr w) api_ok ''omniroute'' m doc = Inr live"
    and nets: "networks doc = Inr nets" and ids: "relevant_ids whole cid project nets = Inr ids" and snap: "restrict whole ids = snap"
    and alone: "cid = [] \<or> incoming snap cid = []" and svc: "desired_service ''omniroute'' eff = Inr svc"
    and agree: "agrees (py_repr w) (vget_or omni ''image'' (VStr DEFAULT_IMAGE)) cfg_port
         (str_of (py_repr w) (vget_or omni ''initial_password'' (VStr []))) svc = Inr ()"
    and dep: "deployment_of w ''omniroute'' cid doc m project prov ref cfg_port live svc snap = Inr dep"
    using preflight_found_Inr [OF rest] by auto
  note d = deployment_of_Inr [OF dep nets]
  have "sole_target (py_repr w) api_ok whole cid m \<and> (\<forall>c. (c, cid) \<notin> set (deps whole))" if m: "m \<noteq> Target_absent"
  proof -
    have here: "filter (\<lambda>p. has_service ''omniroute'' p = Inr True) (docs whole) = [(cid, doc)]"
      using find_target_Inr [OF target] m by blast
    then have "cid \<in> set (keys (docs whole))"
      by (auto simp: filter_eq_Cons_iff)
    then have "hex64 cid"
      using snapshot_of_wf [OF whole] unfolding snapshot_wf_def list_all_iff by metis
    then have "cid \<noteq> []"
      by (rule hex64_nonempty)
    then have "incoming whole cid = []"
      using alone incoming_restrict [OF snapshot_of_wf [OF whole] ids] snap by simp
    moreover have "observe_omniroute (py_repr w) api_ok m doc = Inr live"
      using obs m by (auto simp: observe_target_def split: if_splits)
    ultimately show ?thesis
      using here observe_omniroute_Inr unfolding sole_target_def incoming_Nil by blast
  qed
  moreover have "cid = [] \<and> no_target w whole" if "m = Target_absent"
    using find_target_Inr [OF target] that by (simp add: no_target_def)
  ultimately show ?thesis
    using whole svc omni agrees_Inr [OF agree conf] d by auto
qed

section \<open>A host with a running target\<close>

definition live_doc :: pydict where
  "live_doc = [(VStr ''Id'', VStr (demo_id (CHR ''a''))), (VStr ''Name'', VStr ''omniroute''), (VStr ''Dependencies'', VList []),
     (VStr ''Image'', VStr (demo_id (CHR ''c''))), (VStr ''ImageName'', VStr ''x/y''),
     (VStr ''State'', VDict [(VStr ''Running'', VBool True), (VStr ''Health'', VDict [(VStr ''Status'', VStr ''healthy'')])]),
     (VStr ''HostConfig'', VDict [(VStr ''PortBindings'', VDict [(VStr ''7/tcp'', VList [VDict [(VStr ''HostPort'', VStr ''7'')]])])]),
     (VStr ''Config'', VDict [(VStr ''Env'', VList [VStr ''REQUIRE_API_KEY=true'']),
        (VStr ''Labels'', VDict [(VStr LABEL_PROJECT, VStr ''llm''), (VStr LABEL_SERVICE, VStr ''omniroute'')])])]"

definition live_effective :: pyval where
  "live_effective = VDict [(VStr ''services'', VDict [(VStr ''omniroute'', VDict
     [(VStr ''image'', VStr ''x/y''), (VStr ''container_name'', VStr ''omniroute''), (VStr ''ports'', VList [VStr ''7:7'']),
      (VStr ''environment'', VDict [(VStr ''REQUIRE_API_KEY'', VStr ''true'')]), (VStr ''stop_grace_period'', VStr ''40s'')])])]"

definition live_world :: world where
  "live_world = demo_world
     \<lparr>json_loads := (\<lambda>out. Json (if out = ''info'' then demo_info else if out = ''ps'' then demo_ps
        else if out = demo_id (CHR ''a'') then VList [VDict live_doc]
        else if out = ''image'' then VList [VDict [(VStr ''Os'', VStr ''linux'')]] else VList [demo_doc (CHR ''b'') ''other''])),
      yaml_load := (\<lambda>_. Some live_effective)\<rparr>"

definition live_cfg :: pydict where
  "live_cfg = [(VStr ''omniroute'', VDict [(VStr ''image'', VStr ''x/y''), (VStr ''port'', VInt 7)])]"

lemma live_preflight:
  "case preflight live_world (Some ''podman-compose'') None ''omniroute'' ''c'' ''k'' None live_cfg of
     Inl _ \<Rightarrow> False | Inr (dep, _) \<Rightarrow> target_id dep = demo_id (CHR ''a'') \<and> state_mode dep = Target_running"
  by code_simp

lemma live_preflight_Inr:
  obtains dep snap fp eff where
    "preflight live_world (Some ''podman-compose'') None ''omniroute'' ''c'' ''k'' None live_cfg = Inr (dep, snap, fp, eff)"
    "target_id dep = demo_id (CHR ''a'')" "state_mode dep = Target_running"
  using live_preflight by (auto split: sum.splits)

lemma live_dir: "check_private_dir demo_stat 1000 = Inr ()"
  by (simp add: check_private_dir_def demo_stat_def)

theorem preflight_then_recheck_witness:
  "\<exists>dep snap fp eff. preflight live_world (Some ''podman-compose'') None ''omniroute'' ''c'' ''k'' None live_cfg = Inr (dep, snap, fp, eff)
     \<and> (\<exists>before. from_json (to_json snap) = Inr before
          \<and> recheck live_world demo_stat 1000 ''c'' ''k'' before fp (deployment.truncate dep) = Inr (0, 0))"
  using live_preflight_Inr preflight_then_recheck [OF _ live_dir] by metis

theorem preflight_sound_witness:
  "\<exists>dep snap fp eff whole. preflight live_world (Some ''podman-compose'') None ''omniroute'' ''c'' ''k'' None live_cfg = Inr (dep, snap, fp, eff)
     \<and> snapshot_of live_world = Inr whole \<and> sole_target (py_repr live_world) None whole (demo_id (CHR ''a'')) Target_running
     \<and> (\<forall>c. (c, demo_id (CHR ''a'')) \<notin> set (deps whole))"
proof -
  obtain dep snap fp eff where
    p: "preflight live_world (Some ''podman-compose'') None ''omniroute'' ''c'' ''k'' None live_cfg = Inr (dep, snap, fp, eff)"
    and d: "target_id dep = demo_id (CHR ''a'')" "state_mode dep = Target_running"
    by (rule live_preflight_Inr)
  show ?thesis
    using preflight_sound [OF p] p unfolding d by auto
qed

end
