(* ===== verification/Commit.thy ===== *)
theory Commit
  imports Preflight
begin

text \<open>
  The verification of a committed replacement (\<open>verify_commit\<close> of \<open>pylib/omniroute_update.py\<close>): a loop that
  samples the inventory until exactly one healthy replacement of the old container is there, or the deadline
  passes. What a round observes is a value: the clock at its start and after its checks, every command with the
  clock around it, and the answer of the API. A target or network without its identifier, or with one that is
  not a text, raises.
\<close>

datatype problem_now = Not_replaced | Not_healthy

datatype commit_problem =
    Not_in_time problem_now string
  | Inventory_unavailable reason
  | Siblings_changed "string list"
  | Unexpected_image string
  | Attachments_differ string
  | Still_dependent string
  | Healthy_too_late string
  | Several_replacements
  | No_config_id

datatype commit_exn = Commit_error commit_problem | Other_exn update_exn

type_synonym 'a commit = "(commit_exn, 'a) result"

definition lifted :: "'a attempt \<Rightarrow> 'a commit" where
  "lifted r = map_sum Other_exn id r"

text \<open>\<open>d[k]\<close>.\<close>

definition required :: "pydict \<Rightarrow> string \<Rightarrow> pyval attempt" where
  "required d k = (case vget d k of None \<Rightarrow> Inl Uncaught | Some v \<Rightarrow> Inr v)"

definition network_ids_of :: "pydict \<Rightarrow> string list attempt" where
  "network_ids_of doc =
     bindR (bindR (required doc ''NetworkSettings'') as_dict) (\<lambda>s.
     bindR (bindR (required s ''Networks'') as_dict) (\<lambda>ns.
     bindR (mapR (\<lambda>v. bindR (as_dict v) (\<lambda>d. bindR (required d ''NetworkID'') as_text)) (map snd ns)) (\<lambda>ids.
     Inr (sort ids))))"

section \<open>What the replacement must be\<close>

record wanted =
  of_project :: pyval
  of_image :: string
  of_attachments :: "(string list \<times> string list) option"

definition wanted_attachments :: "pydict \<Rightarrow> (string list \<times> string list) attempt" where
  "wanted_attachments doc = bindR (network_ids_of doc) (\<lambda>ns. bindR (volumes_of doc) (\<lambda>vs. Inr (ns, vs)))"

definition wanted_image :: "pydict option \<Rightarrow> string \<Rightarrow> string commit" where
  "wanted_image target cfg_id =
     (if cfg_id \<noteq> [] then Inr cfg_id
      else
        (case target of
           Some doc \<Rightarrow> lifted (bindR (required doc ''Image'') canon_image_id)
         | None \<Rightarrow> Inl (Commit_error No_config_id)))"

text \<open>The target that was inspected before the update, or the project of the deployment when there was none.\<close>

definition wanted_of :: "pydict option \<Rightarrow> pyval \<Rightarrow> string \<Rightarrow> wanted commit" where
  "wanted_of target stored_project cfg_id =
     bindR (case target of
         Some doc \<Rightarrow>
           lifted (bindR (label_of LABEL_PROJECT doc) (\<lambda>l. bindR (wanted_attachments doc) (\<lambda>att. Inr (l, Some att))))
       | None \<Rightarrow> Inr (stored_project, None)) (\<lambda>(proj, att).
     bindR (wanted_image target cfg_id) (\<lambda>img.
     Inr \<lparr>of_project = proj, of_image = img, of_attachments = att\<rparr>))"

section \<open>One round\<close>

record round =
  at_start :: rat
  timed_command :: "string list \<Rightarrow> rat \<times> rat \<times> (rat \<Rightarrow> string attempt)"
  api_answer :: "bool option"
  at_check :: rat

record job =
  for_service :: string
  old_container :: string
  no_deps :: bool
  commit_deadline :: rat
  baseline :: snapshot
  want :: wanted

definition bounded_run :: "rat \<Rightarrow> round \<Rightarrow> string list \<Rightarrow> string attempt" where
  "bounded_run dl r argv = (case timed_command r argv of (t0, t1, cmd) \<Rightarrow> with_deadline dl t0 t1 cmd None)"

definition sample_inventory :: "world \<Rightarrow> job \<Rightarrow> round \<Rightarrow> snapshot commit" where
  "sample_inventory w j r =
     (case take_snapshot (bounded_run (commit_deadline j) r) (json_loads w) (real_path w) (py_repr w) (canon_hash w)
             (environment w) of
        Inl (Deferred rs) \<Rightarrow> Inl (Commit_error (Inventory_unavailable rs))
      | Inl e \<Rightarrow> Inl (Other_exn e)
      | Inr s \<Rightarrow> Inr s)"

definition is_candidate :: "job \<Rightarrow> string \<times> pydict \<Rightarrow> bool attempt" where
  "is_candidate j p =
     bindR (label_of LABEL_SERVICE (snd p)) (\<lambda>s.
     bindR (label_of LABEL_PROJECT (snd p)) (\<lambda>proj.
     Inr (s = VStr (for_service j) \<and> proj = of_project (want j) \<and> fst p \<noteq> old_container j)))"

definition changed_siblings :: "job \<Rightarrow> snapshot \<Rightarrow> string list" where
  "changed_siblings j s =
     sort (map (\<lambda>p. take 12 (fst p))
       (filter (\<lambda>p. fst p \<noteq> old_container j \<and> dget (containers s) (fst p) \<noteq> Some (snd p)) (containers (baseline j))))"

datatype round_result = Ready string | Unready "string option"

definition is_ready :: "round \<Rightarrow> pydict \<Rightarrow> bool attempt" where
  "is_ready r doc =
     bindR (section_of ''State'' doc) (\<lambda>st.
     bindR (section_of ''Health'' st) (\<lambda>h.
     Inr (field_of h ''Status'' = VStr ''healthy'' \<or> field_of st ''Running'' = VBool True \<and> api_answer r = Some True)))"

definition check_replacement :: "job \<Rightarrow> round \<Rightarrow> string \<Rightarrow> pydict \<Rightarrow> round_result commit" where
  "check_replacement j r new_id doc =
     bindR (lifted (wanted_attachments doc)) (\<lambda>att.
     bindR (lifted (bindR (required doc ''Image'') canon_image_id)) (\<lambda>img.
     if img \<noteq> of_image (want j) then Inl (Commit_error (Unexpected_image new_id))
     else if of_attachments (want j) \<notin> {None, Some att} then Inl (Commit_error (Attachments_differ new_id))
     else
       bindR (if no_deps j then lifted (bindR (required doc ''Dependencies'') (\<lambda>v. Inr (truthy v))) else Inr False) (\<lambda>dependent.
       if dependent then Inl (Commit_error (Still_dependent new_id))
       else bindR (lifted (is_ready r doc)) (\<lambda>ready. Inr (if ready then Ready new_id else Unready (Some new_id))))))"

definition judge_round :: "job \<Rightarrow> round \<Rightarrow> snapshot \<Rightarrow> round_result commit" where
  "judge_round j r s =
     bindR (lifted (filterR (is_candidate j) (docs s))) (\<lambda>cands.
     if changed_siblings j s \<noteq> [] then Inl (Commit_error (Siblings_changed (changed_siblings j s)))
     else
       (case cands of
          [] \<Rightarrow> Inr (Unready None)
        | [(new_id, doc)] \<Rightarrow> check_replacement j r new_id doc
        | _ \<Rightarrow> Inl (Commit_error Several_replacements)))"

section \<open>The loop\<close>

text \<open>\<open>rs i\<close> is round \<open>i\<close>; \<open>None\<close> is fuel that ran out.\<close>

fun verify_loop ::
  "world \<Rightarrow> job \<Rightarrow> (nat \<Rightarrow> round) \<Rightarrow> nat \<Rightarrow> nat \<Rightarrow> problem_now \<Rightarrow> string \<Rightarrow> string commit option" where
  "verify_loop w j rs 0 i pr new_id = None"
| "verify_loop w j rs (Suc n) i pr new_id =
     (if commit_deadline j \<le> at_start (rs i) then Some (Inl (Commit_error (Not_in_time pr new_id)))
      else
        (case bindR (sample_inventory w j (rs i)) (judge_round j (rs i)) of
           Inl e \<Rightarrow> Some (Inl e)
         | Inr (Ready c) \<Rightarrow>
             Some (if commit_deadline j \<le> at_check (rs i) then Inl (Commit_error (Healthy_too_late c)) else Inr c)
         | Inr (Unready found) \<Rightarrow>
             let pr' = (if found = None then pr else Not_healthy); id' = (case found of None \<Rightarrow> new_id | Some c \<Rightarrow> c) in
             if commit_deadline j \<le> at_check (rs i) then Some (Inl (Commit_error (Not_in_time pr' id')))
             else verify_loop w j rs n (Suc i) pr' id'))"

definition verify_commit ::
  "world \<Rightarrow> (nat \<Rightarrow> round) \<Rightarrow> nat \<Rightarrow> rat \<Rightarrow> rat \<Rightarrow> string \<Rightarrow> string \<Rightarrow> string \<Rightarrow> bool \<Rightarrow> pydict \<Rightarrow> pydict option \<Rightarrow> pyval
   \<Rightarrow> string commit option" where
  "verify_commit w rs fuel now timeout service old_id cfg_id expect_no_deps stored target stored_project =
     (case bindR (lifted (from_json stored)) (\<lambda>base. bindR (wanted_of target stored_project cfg_id) (\<lambda>aim. Inr (base, aim))) of
        Inl e \<Rightarrow> Some (Inl e)
      | Inr (base, aim) \<Rightarrow>
          verify_loop w
            \<lparr>for_service = service, old_container = old_id, no_deps = expect_no_deps, commit_deadline = fl (now + timeout),
             baseline = base, want = aim\<rparr> rs fuel 0 Not_replaced [])"

section \<open>What a returned identifier means\<close>

lemma lifted_Inr [simp]: "lifted r = Inr x \<longleftrightarrow> r = Inr x"
  by (cases r) (simp_all add: lifted_def)

definition replaces :: "job \<Rightarrow> round \<Rightarrow> snapshot \<Rightarrow> string \<Rightarrow> bool" where
  "replaces j r s c \<longleftrightarrow>
     (\<exists>doc att. filter (\<lambda>p. is_candidate j p = Inr True) (docs s) = [(c, doc)] \<and> c \<noteq> old_container j
        \<and> wanted_attachments doc = Inr att \<and> bindR (required doc ''Image'') canon_image_id = Inr (of_image (want j))
        \<and> of_attachments (want j) \<in> {None, Some att}
        \<and> (no_deps j \<longrightarrow> (\<exists>v. required doc ''Dependencies'' = Inr v \<and> \<not> truthy v))
        \<and> is_ready r doc = Inr True)"

definition siblings_kept :: "job \<Rightarrow> snapshot \<Rightarrow> bool" where
  "siblings_kept j s \<longleftrightarrow>
     (\<forall>(c, h) \<in> set (containers (baseline j)). c \<noteq> old_container j \<longrightarrow> dget (containers s) c = Some h)"

lemma candidate_new: "is_candidate j (c, doc) = Inr True \<Longrightarrow> c \<noteq> old_container j"
  by (auto simp: is_candidate_def)

lemma check_replacement_Ready:
  assumes "check_replacement j r c doc = Inr (Ready d)"
  shows "d = c \<and> (\<exists>att. wanted_attachments doc = Inr att \<and> bindR (required doc ''Image'') canon_image_id = Inr (of_image (want j))
        \<and> of_attachments (want j) \<in> {None, Some att}
        \<and> (no_deps j \<longrightarrow> (\<exists>v. required doc ''Dependencies'' = Inr v \<and> \<not> truthy v)) \<and> is_ready r doc = Inr True)"
  using assms unfolding check_replacement_def by (auto split: if_splits simp del: split_paired_All split_paired_Ex)

lemma judge_round_Ready:
  assumes "judge_round j r s = Inr (Ready c)"
  shows "replaces j r s c \<and> siblings_kept j s"
proof -
  obtain cands where cands: "filterR (is_candidate j) (docs s) = Inr cands" and same: "changed_siblings j s = []"
    and rest: "(case cands of [] \<Rightarrow> Inr (Unready None) | [(new_id, doc)] \<Rightarrow> check_replacement j r new_id doc
        | _ \<Rightarrow> Inl (Commit_error Several_replacements)) = Inr (Ready c)"
    using assms unfolding judge_round_def by (auto split: if_splits)
  obtain a doc where a: "cands = [(a, doc)]" "check_replacement j r a doc = Inr (Ready c)"
    using rest by (auto split: list.splits)
  have one: "cands = [(c, doc)]" and checked: "check_replacement j r c doc = Inr (Ready c)"
    using a check_replacement_Ready [OF a(2)] by simp_all
  have f: "filter (\<lambda>p. is_candidate j p = Inr True) (docs s) = [(c, doc)]"
    using filterR_Inr [OF cands] one by simp
  then have "c \<noteq> old_container j"
    using candidate_new by (auto simp: filter_eq_Cons_iff)
  moreover have "siblings_kept j s"
    using same by (auto simp: changed_siblings_def siblings_kept_def filter_empty_conv simp flip: set_empty)
  ultimately show ?thesis
    using f check_replacement_Ready [OF checked] unfolding replaces_def by blast
qed

lemma verify_loop_sound:
  assumes "verify_loop w j rs n i pr new_id = Some (Inr c)"
  shows "\<exists>k s. sample_inventory w j (rs k) = Inr s \<and> replaces j (rs k) s c \<and> siblings_kept j s
    \<and> at_start (rs k) < commit_deadline j \<and> at_check (rs k) < commit_deadline j"
  using assms
proof (induction n arbitrary: i pr new_id)
  case (Suc n)
  then show ?case
    by (auto simp: Let_def not_le split: if_splits sum.splits round_result.splits dest!: judge_round_Ready)
qed simp

text \<open>
  C34: a container identifier that the verification returns is the replacement. In some round whose inventory was
  sampled, it was the only container of the service and project besides the old one, with the wanted image and the
  networks and volumes of the old target, without dependencies when none are expected, and healthy or running with
  its API answering; every other container of the baseline was unchanged; and the deadline had not passed.
\<close>
theorem verified_commit_is_replacement:
  assumes "verify_commit w rs fuel now timeout service old_id cfg_id expect_no_deps stored target proj = Some (Inr c)"
  shows "\<exists>j k s. for_service j = service \<and> old_container j = old_id \<and> no_deps j = expect_no_deps
    \<and> from_json stored = Inr (baseline j) \<and> wanted_of target proj cfg_id = Inr (want j)
    \<and> commit_deadline j = fl (now + timeout) \<and> sample_inventory w j (rs k) = Inr s
    \<and> replaces j (rs k) s c \<and> siblings_kept j s
    \<and> at_start (rs k) < commit_deadline j \<and> at_check (rs k) < commit_deadline j"
proof -
  obtain base aim where base: "from_json stored = Inr base" "wanted_of target proj cfg_id = Inr aim"
    and loop: "verify_loop w \<lparr>for_service = service, old_container = old_id, no_deps = expect_no_deps,
       commit_deadline = fl (now + timeout), baseline = base, want = aim\<rparr> rs fuel 0 Not_replaced [] = Some (Inr c)"
    using assms by (auto simp: verify_commit_def split: sum.splits)
  show ?thesis
    using verify_loop_sound [OF loop] base by (intro exI [of _ "\<lparr>for_service = service, old_container = old_id,
       no_deps = expect_no_deps, commit_deadline = fl (now + timeout), baseline = base, want = aim\<rparr>"]) auto
qed

section \<open>Termination\<close>

lemma verify_loop_returns:
  assumes "commit_deadline j \<le> at_start (rs (i + n))"
  shows "\<exists>r. verify_loop w j rs (Suc n) i pr new_id = Some r"
  using assms
proof (induction n arbitrary: i pr new_id)
  case (Suc n)
  then show ?case
    by (subst verify_loop.simps) (auto simp: Let_def simp del: verify_loop.simps split: sum.split round_result.split intro: Suc.IH)
qed simp

lemma clock_advances:
  assumes "\<forall>k. at_start (rs k) + 1 / 2 \<le> at_start (rs (Suc k))"
  shows "at_start (rs 0) + of_nat n / 2 \<le> at_start (rs n)"
proof (induction n)
  case (Suc n)
  then show ?case
    using assms [rule_format, of n] by (simp add: field_simps)
qed simp

text \<open>
  C35: the verification returns. If every round starts at least half a second after the one before (each sleeps for
  a second on a monotonic clock), twice the remaining budget in rounds is enough to return an identifier or an error,
  whatever the commands answer.
\<close>
theorem verify_commit_returns:
  assumes "\<forall>k. at_start (rs k) + 1 / 2 \<le> at_start (rs (Suc k))"
    and "2 * (fl (now + timeout) - at_start (rs 0)) \<le> of_nat rounds"
  shows "\<exists>r. verify_commit w rs (Suc rounds) now timeout service old_id cfg_id expect_no_deps stored target proj = Some r"
proof -
  have "fl (now + timeout) \<le> at_start (rs (0 + rounds))"
    using clock_advances [OF assms(1), of rounds] assms(2) by simp
  then show ?thesis
    unfolding verify_commit_def by (auto simp del: verify_loop.simps split: sum.split intro!: verify_loop_returns)
qed

section \<open>A replacement that is found at once\<close>

definition commit_doc :: pydict where
  "commit_doc = live_doc @ [(VStr ''NetworkSettings'', VDict [(VStr ''Networks'', VDict [(VStr ''net'', VDict [(VStr ''NetworkID'', VStr ''n1'')])])])]"

definition commit_world :: world where
  "commit_world = live_world
     \<lparr>json_loads := (\<lambda>out. Json (if out = ''info'' then demo_info else if out = ''ps'' then demo_ps
        else if out = demo_id (CHR ''a'') then VList [VDict commit_doc] else VList [demo_doc (CHR ''b'') ''other'']))\<rparr>"

definition commit_round :: "rat \<Rightarrow> round" where
  "commit_round t = \<lparr>at_start = t, timed_command = (\<lambda>argv. (0, 0, \<lambda>_. run_command commit_world argv)), api_answer = None, at_check = t\<rparr>"

definition commit_job :: "rat \<Rightarrow> job" where
  "commit_job dl = \<lparr>for_service = ''omniroute'', old_container = demo_id (CHR ''d''), no_deps = True, commit_deadline = dl,
     baseline = \<lparr>snap_backend = \<lparr>graph_root = ''/g'', run_root = ''/r''\<rparr>, containers = [(demo_id (CHR ''b''), ''hash'')], deps = [],
       docs = [], names = [], started = [], others = []\<rparr>,
     want = \<lparr>of_project = VStr ''llm'', of_image = sha_prefix @ demo_id (CHR ''c''), of_attachments = Some ([''n1''], [])\<rparr>\<rparr>"

lemma commit_judged:
  "case snapshot_of commit_world of Inl _ \<Rightarrow> False
   | Inr s \<Rightarrow> judge_round (commit_job dl) (commit_round t) s = Inr (Ready (demo_id (CHR ''a'')))"
  by code_simp

lemma commit_wanted:
  "bindR (lifted (from_json (to_json (baseline (commit_job dl))))) (\<lambda>base.
     bindR (wanted_of (Some commit_doc) VNone []) (\<lambda>aim. Inr (base, aim))) = Inr (baseline (commit_job dl), want (commit_job dl))"
  by code_simp

lemma fl_ten: "fl 10 = 10"
  using fl_int [of 10] by simp

lemma commit_sampled: "bounded_run 10 (commit_round 0) = run_command commit_world"
  by (rule ext) (simp add: bounded_run_def commit_round_def with_deadline_def fl_ten bindR_def split: sum.split)

lemma commit_found:
  "verify_commit commit_world commit_round' (Suc n) 0 10 ''omniroute'' (demo_id (CHR ''d'')) [] True
     (to_json (baseline (commit_job 10))) (Some commit_doc) VNone = Some (Inr (demo_id (CHR ''a'')))"
  if "commit_round' 0 = commit_round 0"
proof -
  obtain s where s: "snapshot_of commit_world = Inr s" "judge_round (commit_job 10) (commit_round 0) s = Inr (Ready (demo_id (CHR ''a'')))"
    using commit_judged [of 10 0] by (auto split: sum.splits)
  have "sample_inventory commit_world (commit_job 10) (commit_round 0) = Inr s"
    using s(1) commit_sampled by (simp add: sample_inventory_def snapshot_of_def commit_job_def)
  moreover have "at_start (commit_round 0) = 0" "at_check (commit_round 0) = 0"
    by (simp_all add: commit_round_def)
  moreover have "\<lparr>for_service = ''omniroute'', old_container = demo_id (CHR ''d''), no_deps = True, commit_deadline = 10,
      baseline = baseline (commit_job 10), want = want (commit_job 10)\<rparr> = commit_job 10"
    by (simp add: commit_job_def)
  moreover have "commit_deadline (commit_job 10) = 10"
    by (simp add: commit_job_def)
  ultimately show ?thesis
    using s(2) that by (simp add: verify_commit_def commit_wanted fl_ten)
qed

theorem verified_commit_is_replacement_witness:
  "\<exists>j s. old_container j = demo_id (CHR ''d'') \<and> sample_inventory commit_world j (commit_round 0) = Inr s
     \<and> replaces j (commit_round 0) s (demo_id (CHR ''a'')) \<and> siblings_kept j s"
  using verified_commit_is_replacement [OF commit_found [of "\<lambda>_. commit_round 0" 0, OF refl]] by blast

theorem verify_commit_returns_witness:
  "\<exists>r. verify_commit commit_world (\<lambda>k. commit_round (of_nat k)) (Suc 20) 0 10 ''omniroute'' (demo_id (CHR ''d'')) [] True
     (to_json (baseline (commit_job 10))) None (VStr ''llm'') = Some r"
  by (rule verify_commit_returns) (simp_all add: commit_round_def fl_ten)

end
