(* ===== verification/Interference.thy ===== *)
theory Interference
  imports Drift
begin

text \<open>
  The interference gate (\<open>pylib/interference.py\<close>): the evaluation of what was recorded around a load of the
  local model. Files of the run directory are texts, \<open>json\<close> decodes them; numbers are finite (a latency field
  \<open>inf\<close> or \<open>nan\<close> is not a sample here). The dictionary of the result is a record.
\<close>

definition EVENT_COUNTERS :: "string list" where
  "EVENT_COUNTERS = [''high'', ''max'', ''oom'', ''oom_kill'']"

section \<open>Latency samples\<close>

text \<open>\<open>ordered[min(int(len(ordered) * q), len(ordered) - 1)]\<close>, nothing for no values.\<close>

definition percentile :: "rat list \<Rightarrow> rat \<Rightarrow> rat option" where
  "percentile vs q =
     (if vs = [] then None
      else Some (sort vs ! nat (min \<lfloor>fl (of_nat (length vs) * q)\<rfloor> (int (length vs) - 1))))"

definition rows_of :: "string \<Rightarrow> string list list" where
  "rows_of content = map split_ws (filter (\<lambda>l. strip l \<noteq> []) (splitlines content))"

record latency =
  samples_n :: nat
  p50_ms :: "rat option"
  p95_ms :: "rat option"
  non200 :: nat

definition sample_ms :: "string list \<Rightarrow> rat list" where
  "sample_ms r =
     (case r of
        _ # v # _ \<Rightarrow> (case parse_float v of Some x \<Rightarrow> [fl (x * 1000)] | None \<Rightarrow> [])
      | _ \<Rightarrow> [])"

definition latency_of :: "string list list \<Rightarrow> latency" where
  "latency_of rows =
     (let ms = concat (map sample_ms rows) in
      \<lparr>samples_n = length ms, p50_ms = percentile ms (1 / 2), p95_ms = percentile ms (fl (95 / 100)),
       non200 = length (filter (\<lambda>r. hd r \<noteq> ''200'') rows)\<rparr>)"

record latency_pair =
  lat_before :: latency
  lat_during :: latency
  regression_pct :: "rat option"

definition regression :: "rat option \<Rightarrow> rat option \<Rightarrow> rat option" where
  "regression b d =
     (case (b, d) of
        (Some x, Some y) \<Rightarrow> if x = 0 then None else Some (fl (fl (fl (y - x) / x) * 100))
      | _ \<Rightarrow> None)"

definition latency_pair_of :: "(string \<Rightarrow> string option) \<Rightarrow> string \<Rightarrow> latency_pair option" where
  "latency_pair_of files name =
     (case (files (name @ ''-before.txt''), files (name @ ''-during.txt'')) of
        (Some b, Some d) \<Rightarrow>
          (let lb = latency_of (rows_of b); ld = latency_of (rows_of d) in
           Some \<lparr>lat_before = lb, lat_during = ld, regression_pct = regression (p95_ms lb) (p95_ms ld)\<rparr>)
      | _ \<Rightarrow> None)"

section \<open>Host memory\<close>

text \<open>The loop over \<open>/proc/meminfo\<close>: the first value that is no integer ends it, keeping what was read.\<close>

fun meminfo_kb :: "string list \<Rightarrow> (string, int) dict \<Rightarrow> (string, int) dict" where
  "meminfo_kb [] kb = kb"
| "meminfo_kb (line # ls) kb =
     (let parts = split_ws line in
      if 3 \<le> length parts \<and> parts ! 2 = ''kB'' \<and> parts ! 0 \<in> {''MemAvailable:'', ''SwapTotal:'', ''SwapFree:''}
      then (case parse_int (parts ! 1) of
              None \<Rightarrow> kb
            | Some n \<Rightarrow> meminfo_kb ls (dput (butlast (parts ! 0)) n kb))
      else meminfo_kb ls kb)"

definition host_memory :: "string option \<Rightarrow> int option \<times> int option" where
  "host_memory meminfo =
     (let kb = (case meminfo of None \<Rightarrow> [] | Some t \<Rightarrow> meminfo_kb (splitlines t) []) in
      (map_option (\<lambda>n. n div 1024) (dget kb ''MemAvailable''),
       case (dget kb ''SwapTotal'', dget kb ''SwapFree'') of
         (Some a, Some b) \<Rightarrow> Some ((a - b) div 1024)
       | _ \<Rightarrow> None))"

section \<open>Snapshots of the services\<close>

definition services_of :: "pydict \<Rightarrow> pydict attempt" where
  "services_of snap = as_dict (vget_or snap ''services'' (VDict []))"

definition service_row :: "pydict \<Rightarrow> string \<Rightarrow> pydict attempt" where
  "service_row snap s = bindR (services_of snap) (\<lambda>sv. dict_or_empty (field_of sv s))"

definition is_running :: "pydict \<Rightarrow> string \<Rightarrow> bool attempt" where
  "is_running snap s = bindR (service_row snap s) (\<lambda>d. Inr (field_of d ''state'' = VStr ''running''))"

definition as_num :: "pyval \<Rightarrow> pynum attempt" where
  "as_num v = (case num_value v of Some n \<Rightarrow> Inr n | None \<Rightarrow> Inl Uncaught)"

definition num_or_0 :: "pyval \<Rightarrow> pynum attempt" where
  "num_or_0 v = (if truthy v then as_num v else Inr (IntN 0))"

datatype gate_failure =
    Laya_unmeasured | No_laya_sample | Laya_non200 nat | Laya_p95_over rat | Laya_p50_over rat
  | Service_stopped string | Service_restarted string | Events_grew string string | No_load_completed

text \<open>An uptime that went back, and a counter that grew, between the rows of a running service.\<close>

definition restarted :: "pydict \<Rightarrow> pydict \<Rightarrow> bool attempt" where
  "restarted row_b row_a =
     (let b = field_of row_b ''uptime_s''; a = field_of row_a ''uptime_s'' in
      if b = VNone \<or> a = VNone then Inr False
      else bindR (as_num b) (\<lambda>x. bindR (as_num a) (\<lambda>y. Inr (nval y < nval x))))"

definition counter_of :: "pydict \<Rightarrow> string \<Rightarrow> pynum attempt" where
  "counter_of row k = bindR (dict_or_empty (field_of row ''events'')) (\<lambda>e. num_or_0 (field_of e k))"

definition grew :: "pydict \<Rightarrow> pydict \<Rightarrow> string \<Rightarrow> bool attempt" where
  "grew row_b row_a k = bindR (counter_of row_b k) (\<lambda>b. bindR (counter_of row_a k) (\<lambda>a. Inr (nval b < nval a)))"

definition service_failures :: "pydict \<Rightarrow> pydict \<Rightarrow> string \<Rightarrow> gate_failure list attempt" where
  "service_failures before after s =
     bindR (service_row before s) (\<lambda>row_b.
     bindR (bindR (bindR (services_of after) (\<lambda>sv. Inr (field_of sv s))) as_dict) (\<lambda>row_a.
     bindR (restarted row_b row_a) (\<lambda>r.
     if r then Inr [Service_restarted s]
     else bindR (filterR (grew row_b row_a) EVENT_COUNTERS) (\<lambda>ks. Inr (map (Events_grew s) ks)))))"

definition compared_failures :: "pydict \<Rightarrow> pydict \<Rightarrow> string \<Rightarrow> gate_failure list attempt" where
  "compared_failures before after s =
     bindR (is_running before s) (\<lambda>b.
     if \<not> b then Inr []
     else bindR (is_running after s) (\<lambda>a. if a then service_failures before after s else Inr []))"

definition stopped_service :: "pydict \<Rightarrow> pydict \<Rightarrow> string \<Rightarrow> bool attempt" where
  "stopped_service before after s =
     bindR (is_running before s) (\<lambda>b. if b then bindR (is_running after s) (\<lambda>a. Inr (\<not> a)) else Inr False)"

section \<open>The latency of System One\<close>

record thresholds =
  max_p95_ms :: rat
  max_p50_ms :: rat
  warn_regression_pct :: rat
  warn_regression_ms :: rat

definition DEFAULT_THRESHOLDS :: thresholds where
  "DEFAULT_THRESHOLDS = \<lparr>max_p95_ms = 500, max_p50_ms = 150, warn_regression_pct = 50, warn_regression_ms = 10\<rparr>"

definition over :: "rat option \<Rightarrow> rat \<Rightarrow> (rat \<Rightarrow> gate_failure) \<Rightarrow> gate_failure list" where
  "over v bound f = (case v of None \<Rightarrow> [] | Some x \<Rightarrow> if bound < x then [f x] else [])"

definition laya_failures :: "thresholds \<Rightarrow> latency_pair \<Rightarrow> gate_failure list" where
  "laya_failures th p =
     (let d = lat_during p in
      (if samples_n d = 0 then [No_laya_sample] else [])
      @ (if non200 d \<noteq> 0 then [Laya_non200 (non200 d)] else [])
      @ over (p95_ms d) (max_p95_ms th) Laya_p95_over @ over (p50_ms d) (max_p50_ms th) Laya_p50_over)"

definition warns :: "thresholds \<Rightarrow> latency_pair option \<Rightarrow> bool" where
  "warns th pair =
     (case pair of
        None \<Rightarrow> False
      | Some p \<Rightarrow>
          (case (p95_ms (lat_before p), p95_ms (lat_during p)) of
             (Some b, Some d) \<Rightarrow>
               fl (b * fl (1 + fl (warn_regression_pct th / 100))) < d \<and> warn_regression_ms th < fl (d - b)
           | _ \<Rightarrow> False))"

definition system_one_failures :: "thresholds \<Rightarrow> pydict \<Rightarrow> latency_pair option \<Rightarrow> gate_failure list attempt" where
  "system_one_failures th before pair =
     (case pair of
        None \<Rightarrow> bindR (is_running before ''system_one'') (\<lambda>r. Inr (if r then [Laya_unmeasured] else []))
      | Some p \<Rightarrow> Inr (laya_failures th p))"

section \<open>The gate\<close>

definition read_json :: "(string \<Rightarrow> string option) \<Rightarrow> (string \<Rightarrow> decoded) \<Rightarrow> string \<Rightarrow> pydict attempt" where
  "read_json files json name =
     (case files name of
        None \<Rightarrow> Inl Uncaught
      | Some t \<Rightarrow> (case json t of Json v \<Rightarrow> as_dict v | _ \<Rightarrow> Inl Uncaught))"

definition json_lines :: "(string \<Rightarrow> string option) \<Rightarrow> (string \<Rightarrow> decoded) \<Rightarrow> string \<Rightarrow> pydict list attempt" where
  "json_lines files json name =
     (case files name of
        None \<Rightarrow> Inr []
      | Some t \<Rightarrow>
          mapR (\<lambda>l. case json l of Json v \<Rightarrow> as_dict v | _ \<Rightarrow> Inl Uncaught) (filter (\<lambda>l. strip l \<noteq> []) (splitlines t)))"

text \<open>The values a series has, and Python's \<open>max\<close> and \<open>min\<close> of numbers.\<close>

definition reading :: "string \<Rightarrow> string \<Rightarrow> pydict \<Rightarrow> pynum list attempt" where
  "reading grp key s =
     bindR (dict_or_empty (field_of s grp)) (\<lambda>d.
     if field_of d key = VNone then Inr [] else bindR (as_num (field_of d key)) (\<lambda>n. Inr [n]))"

definition series :: "pydict list \<Rightarrow> string \<Rightarrow> string \<Rightarrow> pynum list attempt" where
  "series samples grp key = bindR (mapR (reading grp key) samples) (\<lambda>nss. Inr (concat nss))"

fun max_num :: "pynum list \<Rightarrow> pynum option" where
  "max_num [] = None"
| "max_num (n # ns) = Some (foldl nmax n ns)"

fun min_num :: "pynum list \<Rightarrow> pynum option" where
  "min_num [] = None"
| "min_num (n # ns) = Some (foldl nmin n ns)"

definition difference :: "pynum option \<Rightarrow> pynum option \<Rightarrow> pynum option" where
  "difference a b = (case (a, b) of (Some x, Some y) \<Rightarrow> Some (nsub x y) | _ \<Rightarrow> None)"

record vram_report =
  vram_total :: "pynum option"
  vram_peak :: "pynum option"
  vram_headroom :: "pynum option"

definition vram_of :: "pydict list \<Rightarrow> vram_report attempt" where
  "vram_of samples =
     bindR (series samples ''gpu'' ''vram_total_mib'') (\<lambda>ts.
     bindR (series samples ''gpu'' ''vram_used_mib'') (\<lambda>us.
     Inr \<lparr>vram_total = max_num ts, vram_peak = max_num us, vram_headroom = difference (max_num ts) (max_num us)\<rparr>))"

record host_report =
  avail_before :: pyval
  avail_min :: "pynum option"
  swap_before :: pyval
  swap_max :: "pynum option"
  swap_delta :: "pynum option"

definition host_of :: "pydict \<Rightarrow> pydict list \<Rightarrow> host_report attempt" where
  "host_of before samples =
     bindR (dict_or_empty (field_of before ''host'')) (\<lambda>h.
     bindR (series samples ''host'' ''mem_available_mib'') (\<lambda>avs.
     bindR (series samples ''host'' ''swap_used_mib'') (\<lambda>sws.
     let sb = field_of h ''swap_used_mib'' in
     bindR (if sb = VNone \<or> sws = [] then Inr None
            else bindR (as_num sb) (\<lambda>b. Inr (difference (max_num sws) (Some b)))) (\<lambda>delta.
     Inr \<lparr>avail_before = field_of h ''mem_available_mib'', avail_min = min_num avs, swap_before = sb, swap_max = max_num sws,
          swap_delta = delta\<rparr>))))"

record load_report =
  load_requests :: nat
  load_ok :: nat
  load_prompt_max :: pynum
  load_completion_total :: pynum

definition request_ok :: "(pyval \<Rightarrow> string) \<Rightarrow> pydict \<Rightarrow> bool" where
  "request_ok rep r \<longleftrightarrow> str_of rep (field_of r ''status'') = ''200''"

definition load_of :: "(pyval \<Rightarrow> string) \<Rightarrow> pydict list \<Rightarrow> load_report attempt" where
  "load_of rep load =
     bindR (mapR (\<lambda>r. num_or_0 (field_of r ''prompt_tokens'')) load) (\<lambda>ps.
     bindR (mapR (\<lambda>r. num_or_0 (field_of r ''completion_tokens'')) load) (\<lambda>cs.
     Inr \<lparr>load_requests = length load, load_ok = length (filter (request_ok rep) load),
          load_prompt_max = (case max_num ps of None \<Rightarrow> IntN 0 | Some n \<Rightarrow> n),
          load_completion_total = foldl nadd (IntN 0) cs\<rparr>))"

record gate_report =
  gate_failures :: "gate_failure list"
  gate_warning :: bool
  gate_system_one :: "latency_pair option"
  gate_omniroute :: "latency_pair option"
  gate_stopped :: "string list"
  gate_vram :: vram_report
  gate_host :: host_report
  gate_load :: load_report

definition gate_passed :: "gate_report \<Rightarrow> bool" where
  "gate_passed r \<longleftrightarrow> gate_failures r = []"

definition evaluate ::
  "(string \<Rightarrow> string option) \<Rightarrow> (string \<Rightarrow> decoded) \<Rightarrow> (pyval \<Rightarrow> string) \<Rightarrow> thresholds \<Rightarrow> gate_report attempt" where
  "evaluate files json rep th =
     bindR (read_json files json ''live-before.json'') (\<lambda>before.
     bindR (read_json files json ''live-after.json'') (\<lambda>after.
     let laya = latency_pair_of files ''laya''; omni = latency_pair_of files ''omniroute'' in
     bindR (system_one_failures th before laya) (\<lambda>laya_fs.
     bindR (services_of before) (\<lambda>sv.
     bindR (mapR as_text (keys sv)) (\<lambda>names.
     bindR (filterR (stopped_service before after) names) (\<lambda>stopped.
     bindR (mapR (compared_failures before after) names) (\<lambda>fss.
     bindR (json_lines files json ''samples.jsonl'') (\<lambda>samples.
     bindR (vram_of samples) (\<lambda>vram.
     bindR (host_of before samples) (\<lambda>host.
     bindR (json_lines files json ''load.jsonl'') (\<lambda>load.
     bindR (load_of rep load) (\<lambda>lr.
     Inr \<lparr>gate_failures = laya_fs @ map Service_stopped stopped @ concat fss
            @ (if list_ex (request_ok rep) load then [] else [No_load_completed]),
          gate_warning = warns th laya, gate_system_one = laya, gate_omniroute = omni, gate_stopped = stopped,
          gate_vram = vram, gate_host = host, gate_load = lr\<rparr>))))))))))))"

section \<open>What the gate decides\<close>

definition at_most :: "rat option \<Rightarrow> rat \<Rightarrow> bool" where
  "at_most v bound \<longleftrightarrow> (case v of None \<Rightarrow> True | Some x \<Rightarrow> x \<le> bound)"

definition laya_rule :: "thresholds \<Rightarrow> pydict \<Rightarrow> latency_pair option \<Rightarrow> bool" where
  "laya_rule th before pair \<longleftrightarrow>
     (case pair of
        None \<Rightarrow> is_running before ''system_one'' = Inr False
      | Some p \<Rightarrow> samples_n (lat_during p) \<noteq> 0 \<and> non200 (lat_during p) = 0
          \<and> at_most (p95_ms (lat_during p)) (max_p95_ms th) \<and> at_most (p50_ms (lat_during p)) (max_p50_ms th))"

definition kept_row :: "pydict \<Rightarrow> pydict \<Rightarrow> bool" where
  "kept_row b a \<longleftrightarrow> restarted b a = Inr False \<and> (\<forall>k \<in> set EVENT_COUNTERS. grew b a k = Inr False)"

definition service_rule :: "pydict \<Rightarrow> pydict \<Rightarrow> string \<Rightarrow> bool" where
  "service_rule before after s \<longleftrightarrow>
     (is_running before s = Inr True \<longrightarrow>
        is_running after s = Inr True
        \<and> (\<exists>b a. service_row before s = Inr b \<and> service_row after s = Inr a \<and> kept_row b a))"

lemma over_Nil: "over v bound f = [] \<longleftrightarrow> at_most v bound"
  by (auto simp: over_def at_most_def split: option.split)

lemma system_one_rule:
  assumes "system_one_failures th before pair = Inr fs"
  shows "fs = [] \<longleftrightarrow> laya_rule th before pair"
  using assms by (auto simp: system_one_failures_def laya_rule_def laya_failures_def Let_def over_Nil split: option.splits if_splits)

lemma filterR_total: "filterR P xs = Inr ys \<Longrightarrow> x \<in> set xs \<Longrightarrow> \<exists>b. P x = Inr b"
  by (induction xs arbitrary: ys) auto

lemma filterR_Nil:
  assumes "filterR P xs = Inr ys"
  shows "ys = [] \<longleftrightarrow> (\<forall>x \<in> set xs. P x = Inr False)"
  using filterR_Inr [OF assms] filterR_total [OF assms] by (fastforce simp: filter_empty_conv)

lemma running_row: "is_running snap s = Inr True \<Longrightarrow> bindR (bindR (services_of snap) (\<lambda>sv. Inr (field_of sv s))) as_dict = service_row snap s"
  by (cases "services_of snap") (auto simp: is_running_def service_row_def dict_or_empty_def field_of_def vget_or_def vget_def split: if_splits)

lemma service_failures_Nil:
  assumes "service_failures before after s = Inr fs" "is_running after s = Inr True"
  shows "fs = [] \<longleftrightarrow> (\<exists>b a. service_row before s = Inr b \<and> service_row after s = Inr a \<and> kept_row b a)"
proof -
  obtain b a r where rows: "service_row before s = Inr b" "service_row after s = Inr a" "restarted b a = Inr r"
    and rest: "(if r then Inr [Service_restarted s]
       else bindR (filterR (grew b a) EVENT_COUNTERS) (\<lambda>ks. Inr (map (Events_grew s) ks))) = Inr fs"
    using assms(1) unfolding service_failures_def running_row [OF assms(2)] by auto
  show ?thesis
  proof (cases r)
    case False
    then obtain ks where "filterR (grew b a) EVENT_COUNTERS = Inr ks" "fs = map (Events_grew s) ks"
      using rest by auto
    then show ?thesis
      using rows False filterR_Nil by (simp add: kept_row_def)
  qed (use rows rest in \<open>auto simp: kept_row_def\<close>)
qed

lemma service_rule_iff:
  assumes "stopped_service before after s = Inr st" "compared_failures before after s = Inr fs"
  shows "\<not> st \<and> fs = [] \<longleftrightarrow> service_rule before after s"
proof (cases "is_running before s = Inr True \<and> is_running after s = Inr True")
  case True
  then have "service_failures before after s = Inr fs"
    using assms(2) by (simp add: compared_failures_def)
  from service_failures_Nil [OF this] True assms(1) show ?thesis
    by (auto simp: stopped_service_def service_rule_def)
next
  case False
  then show ?thesis
    using assms by (auto simp: stopped_service_def compared_failures_def service_rule_def split: if_splits)
qed

lemma mapR_all: "mapR f xs = Inr ys \<Longrightarrow> concat ys = [] \<longleftrightarrow> (\<forall>x \<in> set xs. f x = Inr [])"
  by (induction xs arbitrary: ys) auto

lemma filterR_mapR_rule:
  assumes "filterR (stopped_service before after) svcs = Inr stopped" "mapR (compared_failures before after) svcs = Inr fss"
  shows "stopped = [] \<and> concat fss = [] \<longleftrightarrow> (\<forall>s \<in> set svcs. service_rule before after s)"
proof -
  have "stopped_service before after s = Inr False \<and> compared_failures before after s = Inr [] \<longleftrightarrow> service_rule before after s"
    if s: "s \<in> set svcs" for s
  proof -
    obtain st fs where "stopped_service before after s = Inr st" "compared_failures before after s = Inr fs"
      using filterR_total [OF assms(1) s] assms(2) s by (auto simp: mapR_Inr_iff list_all2_conv_all_nth in_set_conv_nth)
    then show ?thesis
      using service_rule_iff by auto
  qed
  then show ?thesis
    using filterR_Nil [OF assms(1)] mapR_all [OF assms(2)] by blast
qed

text \<open>
  C36: the gate passes exactly when its rules hold. An evaluation that returns has passed if and only if System One
  was measured under load without a failed answer and within its limits (or was not running), every service that ran
  before still runs with an uptime that did not go back and no memory event counter that grew, and at least one load
  request completed.
\<close>
theorem gate_passes_iff:
  assumes "evaluate files json rep th = Inr report"
  shows "\<exists>before after load sv svcs. read_json files json ''live-before.json'' = Inr before
    \<and> read_json files json ''live-after.json'' = Inr after \<and> json_lines files json ''load.jsonl'' = Inr load
    \<and> services_of before = Inr sv \<and> mapR as_text (keys sv) = Inr svcs
    \<and> (gate_passed report \<longleftrightarrow>
         laya_rule th before (latency_pair_of files ''laya'') \<and> (\<forall>s \<in> set svcs. service_rule before after s)
         \<and> (\<exists>r \<in> set load. request_ok rep r))"
proof -
  obtain before after fs sv svcs stopped fss samples load where
    r: "read_json files json ''live-before.json'' = Inr before" "read_json files json ''live-after.json'' = Inr after"
    and laya: "system_one_failures th before (latency_pair_of files ''laya'') = Inr fs"
    and sv: "services_of before = Inr sv" "mapR as_text (keys sv) = Inr svcs"
    and st: "filterR (stopped_service before after) svcs = Inr stopped" "mapR (compared_failures before after) svcs = Inr fss"
    and load: "json_lines files json ''load.jsonl'' = Inr load"
    and report: "gate_failures report = fs @ map Service_stopped stopped @ concat fss
            @ (if list_ex (request_ok rep) load then [] else [No_load_completed])"
    using assms unfolding evaluate_def by (auto simp: Let_def)
  have "gate_passed report \<longleftrightarrow> fs = [] \<and> (stopped = [] \<and> concat fss = []) \<and> list_ex (request_ok rep) load"
    unfolding gate_passed_def report by auto
  also have "\<dots> \<longleftrightarrow> laya_rule th before (latency_pair_of files ''laya'') \<and> (\<forall>s \<in> set svcs. service_rule before after s)
         \<and> (\<exists>r \<in> set load. request_ok rep r)"
    unfolding filterR_mapR_rule [OF st] system_one_rule [OF laya] list_ex_iff ..
  finally show ?thesis
    using r sv load by blast
qed

section \<open>A run in which a counter was reset\<close>

text \<open>OmniRoute ran for ten seconds, restarted after the first snapshot and ran for ten minutes.\<close>

definition demo_snapshot :: "int \<Rightarrow> int \<Rightarrow> pyval" where
  "demo_snapshot uptime oom = VDict [(VStr ''services'', VDict [(VStr ''omniroute'', VDict
     [(VStr ''state'', VStr ''running''), (VStr ''uptime_s'', VInt uptime), (VStr ''events'', VDict [(VStr ''oom_kill'', VInt oom)])])])]"

definition reset_files :: "string \<Rightarrow> string option" where
  "reset_files name =
     (if name \<in> {''live-before.json'', ''live-after.json'', ''load.jsonl''} then Some name else None)"

definition reset_json :: "string \<Rightarrow> decoded" where
  "reset_json s = Json
     (if s = ''live-before.json'' then demo_snapshot 10 5 else if s = ''live-after.json'' then demo_snapshot 600 0
      else VDict [(VStr ''status'', VStr ''200'')])"

lemma reset_evaluates:
  obtains report where "evaluate reset_files reset_json rep th = Inr report" "gate_passed report"
proof -
  have "case evaluate reset_files reset_json rep th of Inl _ \<Rightarrow> False | Inr r \<Rightarrow> gate_passed r"
    by code_simp
  then show thesis
    using that by (auto split: sum.splits)
qed

lemma restarted_ints:
  "field_of b ''uptime_s'' = VInt x \<Longrightarrow> field_of a ''uptime_s'' = VInt y \<Longrightarrow> restarted b a = Inr (y < x)"
  by (simp add: restarted_def as_num_def)

lemma grew_ints: "counter_of b k = Inr (IntN x) \<Longrightarrow> counter_of a k = Inr (IntN y) \<Longrightarrow> grew b a k = Inr (x < y)"
  by (simp add: grew_def)

lemma filterR_pure: "\<forall>x \<in> set xs. P x = Inr (Q x) \<Longrightarrow> filterR P xs = Inr (filter Q xs)"
  by (induction xs) auto

text \<open>
  C37: the gate sees a reset of the counters only in the uptime. Let a service run at both snapshots, with whole
  uptimes and counters. It fails as restarted exactly when its second uptime is smaller than its first, and otherwise
  for exactly the counters that are larger than before; a counter that fell, however far, is no failure. So a restart
  that set the counters back passes whenever the service has since run at least as long as it had at the first snapshot.
\<close>
theorem counter_reset_passes:
  assumes "is_running before s = Inr True" "is_running after s = Inr True"
    and "service_row before s = Inr b" "service_row after s = Inr a"
    and "field_of b ''uptime_s'' = VInt up_b" "field_of a ''uptime_s'' = VInt up_a"
    and "\<forall>k \<in> set EVENT_COUNTERS. counter_of b k = Inr (IntN (n_b k)) \<and> counter_of a k = Inr (IntN (n_a k))"
  shows "compared_failures before after s =
      Inr (if up_a < up_b then [Service_restarted s]
           else map (Events_grew s) (filter (\<lambda>k. n_b k < n_a k) EVENT_COUNTERS))
    \<and> (up_b \<le> up_a \<and> (\<forall>k \<in> set EVENT_COUNTERS. n_a k \<le> n_b k) \<longrightarrow> compared_failures before after s = Inr [])"
proof -
  have "filterR (grew b a) EVENT_COUNTERS = Inr (filter (\<lambda>k. n_b k < n_a k) EVENT_COUNTERS)"
    using assms(7) by (intro filterR_pure) (auto intro: grew_ints)
  then have c: "compared_failures before after s =
      Inr (if up_a < up_b then [Service_restarted s]
           else map (Events_grew s) (filter (\<lambda>k. n_b k < n_a k) EVENT_COUNTERS))"
    using assms restarted_ints [OF assms(5,6)]
    by (simp add: compared_failures_def service_failures_def running_row [OF assms(2)])
  then show ?thesis
    by (auto simp: filter_empty_conv)
qed

text \<open>The service of the run above: its five kills are gone with the restart, and the whole evaluation passes.\<close>

definition demo_dict :: "int \<Rightarrow> int \<Rightarrow> pydict" where
  "demo_dict uptime oom = (case demo_snapshot uptime oom of VDict d \<Rightarrow> d | _ \<Rightarrow> [])"

lemma demo_row: "service_row (demo_dict up n) ''omniroute'' = Inr
    [(VStr ''state'', VStr ''running''), (VStr ''uptime_s'', VInt up), (VStr ''events'', VDict [(VStr ''oom_kill'', VInt n)])]"
  by (simp add: service_row_def demo_dict_def demo_snapshot_def services_of_def field_of_def vget_or_def vget_def
      dict_or_empty_def)

lemma counter_reset_passes_witness:
  "compared_failures (demo_dict 10 5) (demo_dict 600 0) ''omniroute'' = Inr []
   \<and> (\<exists>report. evaluate reset_files reset_json (\<lambda>_. []) DEFAULT_THRESHOLDS = Inr report \<and> gate_passed report)"
proof -
  let ?n = "\<lambda>m k. if k = ''oom_kill'' then m else (0 :: int)"
  have run: "is_running (demo_dict up m) ''omniroute'' = Inr True" for up m
    by (simp add: is_running_def demo_row field_of_def vget_or_def vget_def)
  have "compared_failures (demo_dict 10 5) (demo_dict 600 0) ''omniroute'' = Inr []"
    using counter_reset_passes [OF run run demo_row demo_row, where up_b = 10 and up_a = 600 and n_b = "?n 5" and n_a = "?n 0"]
    by (simp add: field_of_def vget_or_def vget_def EVENT_COUNTERS_def counter_of_def dict_or_empty_def num_or_0_def
        as_num_def)
  moreover obtain report where "evaluate reset_files reset_json (\<lambda>_. []) DEFAULT_THRESHOLDS = Inr report" "gate_passed report"
    by (rule reset_evaluates)
  ultimately show ?thesis
    by blast
qed

theorem gate_passes_iff_witness:
  "\<exists>report before after sv svcs. evaluate reset_files reset_json (\<lambda>_. []) DEFAULT_THRESHOLDS = Inr report
     \<and> services_of before = Inr sv \<and> mapR as_text (keys sv) = Inr svcs
     \<and> read_json reset_files reset_json ''live-before.json'' = Inr before
     \<and> read_json reset_files reset_json ''live-after.json'' = Inr after
     \<and> gate_passed report \<and> (\<forall>s \<in> set svcs. service_rule before after s)"
proof -
  obtain report where r: "evaluate reset_files reset_json (\<lambda>_. []) DEFAULT_THRESHOLDS = Inr report" "gate_passed report"
    by (rule reset_evaluates)
  show ?thesis
    using gate_passes_iff [OF r(1)] r by blast
qed

end
