(* ===== verification/Sizing.thy ===== *)
theory Sizing
  imports Float_Sums Py_Text
begin

text \<open>
  Sizing a container from samples of its control group (\<open>pylib/resource_benchmark.py\<close>): the request counts of a
  phase and \<open>summarize\<close>, with the statistics of the standard library it uses. Floats are binary64; a sample is a
  record, its byte counters are integers; \<open>page\<close> is the page size of the host.
\<close>

definition MIB :: int where "MIB = 1048576"
definition HEADROOM :: rat where "HEADROOM = fl (20 / 100)"
definition MEM_STEP_MIB :: int where "MEM_STEP_MIB = 32"
definition CPU_STEP :: rat where "CPU_STEP = 1 / 4"
definition CPU_WINDOW :: nat where "CPU_WINDOW = 5"
definition SATURATED_BELOW :: rat where "SATURATED_BELOW = fl (9 / 10)"

record sample =
  s_label :: string
  s_phase :: string
  s_time :: rat
  s_current :: int
  s_swap :: int
  s_peak :: int
  s_pswpin :: "int option"
  s_cpu_usec :: int
  s_vram :: "int option"
  s_device_vram :: "int option"

section \<open>Statistics\<close>

text \<open>\<open>round(x, 9)\<close>, and the number of steps \<open>_ceil_to\<close> rounds up to.\<close>

definition round9 :: "rat \<Rightarrow> rat" where
  "round9 x = fl (of_int (round_half_even (x * 1000000000)) / 1000000000)"

definition steps_up :: "rat \<Rightarrow> rat \<Rightarrow> int" where
  "steps_up v step = \<lceil>round9 (fl (v / step))\<rceil>"

definition mem_up :: "rat \<Rightarrow> int" where
  "mem_up v = steps_up v (of_int MEM_STEP_MIB) * MEM_STEP_MIB"

definition cpu_up :: "rat \<Rightarrow> rat" where
  "cpu_up v = fl (of_int (steps_up v CPU_STEP) * CPU_STEP)"

text \<open>\<open>statistics.mode\<close>: the first of the most common values.\<close>

definition mode :: "'a list \<Rightarrow> 'a" where
  "mode xs = foldl (\<lambda>best x. if length (filter ((=) best) xs) < length (filter ((=) x) xs) then x else best) (hd xs) xs"

definition median :: "rat list \<Rightarrow> rat" where
  "median xs =
     (let ys = sort xs; n = length xs in
      if odd n then ys ! (n div 2) else fl (fl (ys ! (n div 2 - 1) + ys ! (n div 2)) / 2))"

definition fmean :: "rat list \<Rightarrow> rat" where
  "fmean xs = fl (fl (sum_list xs) / of_nat (length xs))"

definition max_of :: "'a::linorder list \<Rightarrow> 'a" where
  "max_of xs = foldl max (hd xs) (tl xs)"

section \<open>Requests of a phase\<close>

record phase_load =
  load_oks :: int
  load_errors :: int
  saturated :: bool

definition load_of_phase :: "(string, int) dict \<Rightarrow> phase_load" where
  "load_of_phase counts =
     (let total = sum_list (map snd counts); oks = (case dget counts ''200'' of None \<Rightarrow> 0 | Some n \<Rightarrow> n) in
      \<lparr>load_oks = oks, load_errors = total - oks, saturated = (0 < total \<and> fl (of_int oks / of_int total) < SATURATED_BELOW)\<rparr>)"

definition phase_requests :: "(string, (string, int) dict) dict \<Rightarrow> (string, phase_load) dict" where
  "phase_requests requests = map (\<lambda>p. (fst p, load_of_phase (snd p))) requests"

section \<open>The summary\<close>

definition mib :: "int \<Rightarrow> rat" where
  "mib bytes = fl (of_int bytes / of_int MIB)"

definition core_rates :: "sample list \<Rightarrow> rat list" where
  "core_rates rows =
     map (\<lambda>(a, b). fl (fl (of_int (s_cpu_usec b - s_cpu_usec a) / 1000000) / fl (s_time b - s_time a)))
       (filter (\<lambda>(a, b). s_time a < s_time b) (zip rows (tl rows)))"

definition cpu_windows :: "rat list \<Rightarrow> rat list" where
  "cpu_windows cores =
     map (\<lambda>i. fmean (take CPU_WINDOW (drop i cores))) [0..<max 1 (length cores + 1 - CPU_WINDOW)]"

record phase_summary =
  ph_samples :: nat
  ph_p50 :: int
  ph_max :: int
  ph_load :: "phase_load option"

record recommendation =
  rec_memory_min :: int
  rec_memory_max :: int
  rec_cpus_min :: rat
  rec_cpus_max :: rat
  rec_vram :: "int option"

record vram_summary =
  vr_p50 :: int
  vr_peak :: int
  vr_device_peak :: int

record summary =
  sum_samples :: nat
  sum_mode :: int
  sum_retained :: int
  sum_sampled_peak :: int
  sum_peak :: int
  sum_from_current :: bool
  sum_swap_median :: int
  sum_swap_max :: int
  sum_swap_in :: "(int \<times> rat) option"
  sum_cpu_mode :: rat
  sum_cpu_peak :: rat
  sum_phases :: "(string \<times> phase_summary) list"
  sum_recommend :: recommendation
  sum_vram :: "vram_summary option"

datatype sizing_error = Too_few_samples nat | No_device_reading | No_cpu_window

definition rows_of :: "sample list \<Rightarrow> string \<Rightarrow> sample list" where
  "rows_of samples label = sort_key s_time (filter (\<lambda>s. s_label s = label) samples)"

definition in_phase :: "sample list \<Rightarrow> string \<Rightarrow> rat list" where
  "in_phase rows name = map (\<lambda>s. mib (s_current s)) (filter (\<lambda>s. s_phase s = name) rows)"

definition basis_of :: "(string, phase_load) dict \<Rightarrow> sample list \<Rightarrow> rat list" where
  "basis_of loads rows =
     (let bad = map fst (filter (\<lambda>p. saturated (snd p)) loads);
          good = filter (\<lambda>s. s_phase s \<notin> set bad) rows in
      map (\<lambda>s. mib (s_current s)) (if good = [] then rows else good))"

definition retained_of :: "sample list \<Rightarrow> rat" where
  "retained_of rows = (let c = in_phase rows ''cooldown'' in if c = [] then 0 else median c)"

definition sampled_peak_of :: "sample list \<Rightarrow> rat" where
  "sampled_peak_of rows = max_of (map (\<lambda>s. mib (s_current s)) rows)"

text \<open>The counter counts when it belongs to the run, or rose during it.\<close>

definition counter_peak_of :: "bool \<Rightarrow> sample list \<Rightarrow> rat" where
  "counter_peak_of lifetime rows =
     (let counter = mib (max_of (map s_peak rows)) in
      if lifetime \<or> mib (s_peak (hd rows)) < counter then counter else 0)"

definition swap_in_of :: "int \<Rightarrow> sample list \<Rightarrow> rat option" where
  "swap_in_of page rows =
     (if None \<in> set (map s_pswpin rows) then None
      else Some (mib ((the (s_pswpin (last rows)) - the (s_pswpin (hd rows))) * page)))"

definition with_headroom :: "rat \<Rightarrow> rat \<Rightarrow> rat" where
  "with_headroom headroom v = fl (v * fl (1 + headroom))"

definition phase_summary_of :: "(string, phase_load) dict \<Rightarrow> sample list \<Rightarrow> string \<Rightarrow> phase_summary" where
  "phase_summary_of loads rows name =
     (let part = in_phase rows name in
      \<lparr>ph_samples = length part, ph_p50 = round_half_even (median part), ph_max = round_half_even (max_of part),
       ph_load = dget loads name\<rparr>)"

definition vram_of :: "sample list \<Rightarrow> (sizing_error, vram_summary option) result" where
  "vram_of rows =
     (let vs = concat (map (\<lambda>s. case s_vram s of None \<Rightarrow> [] | Some v \<Rightarrow> [v]) rows);
          ds = concat (map (\<lambda>s. case s_device_vram s of None \<Rightarrow> [] | Some v \<Rightarrow> [v]) rows) in
      if vs = [] then Inr None
      else if ds = [] then Inl No_device_reading
      else Inr (Some \<lparr>vr_p50 = round_half_even (median (map of_int vs)), vr_peak = max_of vs, vr_device_peak = max_of ds\<rparr>))"

definition recommend ::
  "rat \<Rightarrow> rat \<Rightarrow> rat \<Rightarrow> rat \<Rightarrow> rat \<Rightarrow> rat \<Rightarrow> int option \<Rightarrow> recommendation" where
  "recommend headroom common retained peak cpu_mode cpu_peak vram_peak =
     (let mem_min = mem_up (with_headroom headroom (max common retained));
          mem_max = max mem_min (mem_up (with_headroom headroom peak));
          cpus_min = max CPU_STEP (cpu_up (with_headroom headroom cpu_mode)) in
      \<lparr>rec_memory_min = mem_min, rec_memory_max = mem_max, rec_cpus_min = cpus_min,
       rec_cpus_max = max cpus_min (cpu_up (with_headroom headroom cpu_peak)),
       rec_vram = map_option (\<lambda>v. mem_up (with_headroom headroom (of_int v))) vram_peak\<rparr>)"

definition summarize ::
  "int \<Rightarrow> sample list \<Rightarrow> string \<Rightarrow> rat \<Rightarrow> (string, (string, int) dict) dict \<Rightarrow> bool \<Rightarrow> (sizing_error, summary) result" where
  "summarize page samples label headroom requests lifetime =
     (let rows = rows_of samples label in
      if length rows < 2 then Inl (Too_few_samples (length rows))
      else
        let loads = phase_requests requests;
            common = of_int (mode (map mem_up (basis_of loads rows)));
            retained = retained_of rows;
            sampled = sampled_peak_of rows; counter = counter_peak_of lifetime rows; peak = max sampled counter;
            swaps = map (\<lambda>s. mib (s_swap s)) rows;
            cores = core_rates rows in
        if cores = [] then Inl No_cpu_window
        else
          let windows = cpu_windows cores; cpu_mode = mode (map cpu_up cores) in
          bindR (vram_of rows) (\<lambda>vram.
          Inr \<lparr>sum_samples = length rows, sum_mode = round_half_even common, sum_retained = round_half_even retained,
               sum_sampled_peak = round_half_even sampled, sum_peak = round_half_even peak, sum_from_current = (counter \<le> sampled),
               sum_swap_median = round_half_even (median swaps), sum_swap_max = round_half_even (max_of swaps),
               sum_swap_in = map_option (\<lambda>x. (round_half_even x,
                  nval (nround2 (FloatN (fl (x / fl (s_time (last rows) - s_time (hd rows)))))))) (swap_in_of page rows),
               sum_cpu_mode = cpu_mode, sum_cpu_peak = nval (nround2 (FloatN (max_of windows))),
               sum_phases = map (\<lambda>n. (n, phase_summary_of loads rows n)) (rev (remdups (rev (map s_phase rows)))),
               sum_recommend = recommend headroom common retained peak cpu_mode (max_of windows) (map_option vr_peak vram),
               sum_vram = vram\<rparr>))"

section \<open>Rounding up keeps what was measured\<close>

lemma round9_mono: "x \<le> y \<Longrightarrow> round9 x \<le> round9 y"
  unfolding round9_def by (intro fl_mono divide_right_mono) (simp_all add: round_half_even_mono)

lemma steps_up_mono: "v \<le> w \<Longrightarrow> 0 < step \<Longrightarrow> steps_up v step \<le> steps_up w step"
  unfolding steps_up_def by (intro ceiling_mono round9_mono fl_mono divide_right_mono) simp_all

lemma mem_up_mono: "v \<le> w \<Longrightarrow> mem_up v \<le> mem_up w"
  unfolding mem_up_def MEM_STEP_MIB_def by (intro mult_right_mono steps_up_mono) simp_all

lemma cpu_up_mono: "v \<le> w \<Longrightarrow> cpu_up v \<le> cpu_up w"
  unfolding cpu_up_def CPU_STEP_def by (intro fl_mono mult_right_mono) (simp_all add: steps_up_mono)

text \<open>A value on the grid of bytes is never rounded down, although nine decimals are kept.\<close>

lemma round9_above:
  assumes "0 \<le> n" "n \<le> 2 ^ 20"
  shows "of_int n < round9 (of_int n + 1 / 33554432)"
proof -
  have "of_int (1000000000 * n + 29) \<le> (of_int n + 1 / 33554432) * (1000000000 :: rat)"
    by (simp add: algebra_simps)
  then have "1000000000 * n + 29 \<le> round_half_even ((of_int n + 1 / 33554432) * 1000000000)"
    by (rule round_half_even_ge)
  then have "(of_int (1000000000 * n + 29) :: rat) \<le> of_int (round_half_even ((of_int n + 1 / 33554432) * 1000000000))"
    by (simp only: of_int_le_iff)
  then have "of_int n + 1 / 67108864 \<le> (of_int (round_half_even ((of_int n + 1 / 33554432) * 1000000000)) :: rat) / 1000000000"
    by (simp add: field_simps)
  then have "fl (of_int n + 1 / 67108864) \<le> round9 (of_int n + 1 / 33554432)"
    unfolding round9_def by (rule fl_mono)
  moreover have "fl (of_int n + 1 / 67108864) = of_int n + 1 / 67108864"
    using fl_exact [of "n * 67108864 + 1" "- 26"] assms by (simp add: power_int_minus field_simps)
  ultimately show ?thesis
    by simp
qed

lemma mem_up_covers:
  assumes "0 \<le> b" "b \<le> 2 ^ 45"
  shows "of_int b / 1048576 \<le> (of_int (mem_up (of_int b / 1048576)) :: rat)"
proof -
  let ?x = "of_int b / 33554432 :: rat"
  define n where "n = \<lceil>round9 ?x\<rceil>"
  have x: "fl (of_int b / 1048576 / 32) = ?x"
    using fl_exact [of b "- 25"] assms by (simp add: power_int_minus field_simps)
  have "round9 0 = 0"
    using round_half_even_int [of 0] by (simp add: round9_def)
  then have "0 \<le> round9 ?x"
    using round9_mono [of 0 ?x] assms by simp
  then have n0: "0 \<le> n"
    by (simp add: n_def)
  have "?x \<le> of_int n"
  proof (rule ccontr)
    assume "\<not> ?x \<le> of_int n"
    then have less: "n * 33554432 < b"
      by (simp add: field_simps)
    then have grid: "of_int n + 1 / 33554432 \<le> ?x"
      by (simp add: field_simps)
    have "n \<le> 2 ^ 20"
      using less assms by simp
    then have "of_int n < round9 ?x"
      using round9_above [OF n0] round9_mono [OF grid] by linarith
    moreover have "round9 ?x \<le> of_int n"
      by (simp add: n_def)
    ultimately show False
      by simp
  qed
  moreover have "mem_up (of_int b / 1048576) = n * 32"
    by (simp only: mem_up_def steps_up_def MEM_STEP_MIB_def of_int_numeral x n_def)
  ultimately show ?thesis
    by (simp add: field_simps)
qed

lemma mib_exact: "0 \<le> b \<Longrightarrow> b \<le> 2 ^ 45 \<Longrightarrow> mib b = of_int b / 1048576"
  using fl_exact [of b "- 20"] by (simp add: mib_def MIB_def power_int_minus field_simps)

lemma foldl_max_le: "(x::'a::linorder) \<le> y \<or> x \<in> set xs \<Longrightarrow> x \<le> foldl max y xs"
  by (induction xs arbitrary: y) (force simp: le_max_iff_disj)+

lemma max_of_le: "x \<in> set xs \<Longrightarrow> x \<le> max_of xs"
  by (cases xs) (auto simp: max_of_def intro: foldl_max_le)

lemma foldl_max_mem: "foldl max (y::'a::linorder) xs \<in> insert y (set xs)"
  by (induction xs arbitrary: y) (auto simp: max_def)

lemma max_of_mem: "xs \<noteq> [] \<Longrightarrow> max_of xs \<in> set xs"
  using foldl_max_mem by (cases xs) (auto simp: max_of_def)

lemma with_headroom_ge:
  assumes "0 \<le> h" "0 \<le> b" "b \<le> 2 ^ 45"
  shows "of_int b / 1048576 \<le> with_headroom h (of_int b / 1048576)"
proof -
  have "1 \<le> fl (1 + h)"
    using fl_mono [of 1 "1 + h"] fl_int [of 1] assms(1) by simp
  then have "of_int b / 1048576 * 1 \<le> (of_int b / 1048576 * fl (1 + h) :: rat)"
    using assms(2) by (intro mult_left_mono) simp_all
  then have "fl (of_int b / 1048576) \<le> with_headroom h (of_int b / 1048576)"
    unfolding with_headroom_def by (intro fl_mono) simp
  then show ?thesis
    using mib_exact [OF assms(2,3)] by (simp add: mib_def MIB_def)
qed

lemma mem_up_headroom:
  assumes "0 \<le> h" "0 \<le> b" "b \<le> 2 ^ 45"
  shows "of_int b / 1048576 \<le> (of_int (mem_up (with_headroom h (of_int b / 1048576))) :: rat)"
proof -
  have "mem_up (of_int b / 1048576) \<le> mem_up (with_headroom h (of_int b / 1048576))"
    by (rule mem_up_mono) (rule with_headroom_ge [OF assms])
  then have "(of_int (mem_up (of_int b / 1048576)) :: rat) \<le> of_int (mem_up (with_headroom h (of_int b / 1048576)))"
    by (simp only: of_int_le_iff)
  with mem_up_covers [OF assms(2,3)] show ?thesis
    by (rule order_trans)
qed

definition counters_ok :: "sample \<Rightarrow> bool" where
  "counters_ok s \<longleftrightarrow> 0 \<le> s_current s \<and> s_current s \<le> 2 ^ 45 \<and> 0 \<le> s_peak s \<and> s_peak s \<le> 2 ^ 45"

definition covered :: "recommendation \<Rightarrow> int \<Rightarrow> bool" where
  "covered r b \<longleftrightarrow> (of_int b / 1048576 :: rat) \<le> of_int (rec_memory_max r)"

lemma recommend_covers:
  assumes "0 \<le> h" "0 \<le> b" "b \<le> 2 ^ 45" "of_int b / 1048576 \<le> peak"
  shows "covered (recommend h common retained peak cm cp v) b"
proof -
  have "with_headroom h (of_int b / 1048576) \<le> with_headroom h peak"
    unfolding with_headroom_def using fl_mono [of 0 "1 + h"] assms(1,4) by (intro fl_mono mult_right_mono) simp_all
  then have "(of_int (mem_up (with_headroom h (of_int b / 1048576))) :: rat) \<le> of_int (mem_up (with_headroom h peak))"
    by (simp only: of_int_le_iff mem_up_mono)
  also have "\<dots> \<le> of_int (rec_memory_max (recommend h common retained peak cm cp v))"
    by (simp add: recommend_def Let_def)
  finally show ?thesis
    using mem_up_headroom [OF assms(1-3)] unfolding covered_def by linarith
qed

lemma mem_up_dvd [simp]: "32 dvd mem_up v"
  by (simp add: mem_up_def MEM_STEP_MIB_def)

section \<open>The bytes that count\<close>

text \<open>
  Every sampled resident set; and the values of the peak counter, when the container belongs to the run or the counter
  rose after the first sample.
\<close>

definition counted_bytes :: "bool \<Rightarrow> sample list \<Rightarrow> int list" where
  "counted_bytes lifetime rows =
     map s_current rows
     @ (if lifetime \<or> (\<exists>x \<in> set rows. s_peak (hd rows) < s_peak x) then map s_peak rows else [])"

lemma mib_mono: "a \<le> b \<Longrightarrow> mib a \<le> mib b"
  unfolding mib_def MIB_def by (intro fl_mono divide_right_mono) simp_all

lemma mib_less:
  assumes "0 \<le> a" "a \<le> 2 ^ 45" "0 \<le> b" "b \<le> 2 ^ 45"
  shows "mib a < mib b \<longleftrightarrow> a < b"
  unfolding mib_exact [OF assms(1,2)] mib_exact [OF assms(3,4)] by (simp add: divide_less_cancel)

lemma max_of_mib: "xs \<noteq> [] \<Longrightarrow> max_of (map (\<lambda>x. mib (f x)) xs) = mib (max_of (map f xs))"
proof (rule antisym)
  assume ne: "xs \<noteq> []"
  then have "max_of (map (\<lambda>x. mib (f x)) xs) \<in> set (map (\<lambda>x. mib (f x)) xs)"
    by (intro max_of_mem) simp
  then show "max_of (map (\<lambda>x. mib (f x)) xs) \<le> mib (max_of (map f xs))"
    by (auto intro!: mib_mono max_of_le)
  have "max_of (map f xs) \<in> set (map f xs)"
    using ne by (intro max_of_mem) simp
  then obtain x where "x \<in> set xs" "max_of (map f xs) = f x"
    by auto
  then show "mib (max_of (map f xs)) \<le> max_of (map (\<lambda>x. mib (f x)) xs)"
    by (auto intro!: max_of_le)
qed

lemma max_of_append: "xs \<noteq> [] \<Longrightarrow> ys \<noteq> [] \<Longrightarrow> max_of (xs @ ys) = max (max_of xs) (max_of ys)"
  for xs :: "'a::linorder list"
proof (rule antisym)
  assume ne: "xs \<noteq> []" "ys \<noteq> []"
  then show "max_of (xs @ ys) \<le> max (max_of xs) (max_of ys)"
    using max_of_mem [of "xs @ ys"] by (auto simp: le_max_iff_disj intro: max_of_le)
  show "max (max_of xs) (max_of ys) \<le> max_of (xs @ ys)"
    using ne max_of_mem [of xs] max_of_mem [of ys] by (auto intro!: max_of_le)
qed

lemma counter_rose:
  assumes "rows \<noteq> []" "\<forall>x \<in> set rows. counters_ok x"
  shows "mib (s_peak (hd rows)) < mib (max_of (map s_peak rows)) \<longleftrightarrow> (\<exists>x \<in> set rows. s_peak (hd rows) < s_peak x)"
proof -
  obtain y where y: "y \<in> set rows" "max_of (map s_peak rows) = s_peak y"
    using max_of_mem [of "map s_peak rows"] assms(1) by auto
  have "s_peak x \<le> s_peak y" if "x \<in> set rows" for x
    using max_of_le [of "s_peak x" "map s_peak rows"] that y(2) by simp
  moreover have "mib (s_peak (hd rows)) < mib (s_peak y) \<longleftrightarrow> s_peak (hd rows) < s_peak y"
    using assms y(1) hd_in_set [OF assms(1)] by (intro mib_less) (auto simp: counters_ok_def)
  ultimately show ?thesis
    using y by force
qed

text \<open>The peak of the code is the largest byte count that counts.\<close>

lemma peak_counted:
  assumes "rows \<noteq> []" "\<forall>x \<in> set rows. counters_ok x"
  shows "max (sampled_peak_of rows) (counter_peak_of lifetime rows) = mib (max_of (counted_bytes lifetime rows))"
proof -
  have s: "sampled_peak_of rows = mib (max_of (map s_current rows))"
    unfolding sampled_peak_of_def by (rule max_of_mib [OF assms(1)])
  show ?thesis
  proof (cases "lifetime \<or> (\<exists>x \<in> set rows. s_peak (hd rows) < s_peak x)")
    case True
    then have "counter_peak_of lifetime rows = mib (max_of (map s_peak rows))"
      using counter_rose [OF assms] by (auto simp: counter_peak_of_def Let_def)
    moreover have "max (mib a) (mib b) = mib (max a b)" for a b
      using mib_mono [of a b] mib_mono [of b a] by (auto simp: max_def)
    ultimately show ?thesis
      using True assms(1) by (simp add: s counted_bytes_def max_of_append)
  next
    case False
    then have "counter_peak_of lifetime rows = 0"
      using counter_rose [OF assms] by (auto simp: counter_peak_of_def Let_def)
    moreover obtain y where "y \<in> set rows" "max_of (map s_current rows) = s_current y"
      using max_of_mem [of "map s_current rows"] assms(1) by auto
    then have "0 \<le> mib (max_of (map s_current rows))"
      using mib_mono [of 0] assms(2) by (simp add: mib_def counters_ok_def)
    ultimately show ?thesis
      using False by (simp only: s counted_bytes_def if_False append_Nil2 max.absorb1)
  qed
qed

section \<open>Cores\<close>

definition quarters :: "rat \<Rightarrow> bool" where
  "quarters c \<longleftrightarrow> (\<exists>k. c = of_int k / 4)"

text \<open>A rounded number of quarters is one, however large: beyond \<open>2 ^ 53\<close> floats are whole.\<close>

lemma quarters_fl_pos:
  assumes "0 < n"
  shows "quarters (fl (of_int n / 4))"
proof (cases "n \<le> 2 ^ 53")
  case True
  then have "fl (of_int n / 4) = of_int n / 4"
    using assms by (intro fl_quarter) simp
  then show ?thesis
    unfolding quarters_def by blast
next
  case False
  let ?a = "of_int n / 4 :: rat"
  have a: "0 < ?a"
    using assms by simp
  have "2 powi 51 \<le> ?a"
    using False by simp
  also have "?a < 2 powi (ilog2 ?a + 1)"
    by (rule ilog2_bounds(2) [OF a])
  finally have "(2 :: rat) powi 51 < 2 powi (ilog2 ?a + 1)" .
  then have "\<not> ilog2 ?a + 1 \<le> 51"
    using powi2_mono [of "ilog2 ?a + 1" 51] by linarith
  then obtain m where m: "ilog2 ?a = 50 + int m"
    using zle_iff_zadd [of 50 "ilog2 ?a"] by auto
  then have "ilog2 ?a - 52 = int m - 2"
    by simp
  then have "ulp ?a = of_int (2 ^ m) / 4"
    by (simp add: ulp_def power_int_diff)
  then have "fl ?a = of_int (round_half_even (?a / ulp ?a)) * (of_int (2 ^ m) / 4)"
    using a by (simp only: fl_of_pos fl_pos_def)
  then have "fl ?a = of_int (round_half_even (?a / ulp ?a) * 2 ^ m) / 4"
    by simp
  then show ?thesis
    unfolding quarters_def by blast
qed

lemma quarters_fl: "quarters (fl (of_int n / 4))"
proof (cases "0 < n \<or> n = 0")
  case True
  then show ?thesis
    using quarters_fl_pos [of n] by (auto simp: quarters_def intro: exI [of _ 0])
next
  case False
  then have "quarters (fl (of_int (- n) / 4))"
    by (intro quarters_fl_pos) simp
  then obtain k where "fl (of_int (- n) / 4) = of_int k / 4"
    unfolding quarters_def by blast
  moreover have "fl (of_int n / 4) = - fl (of_int (- n) / 4)"
    using False by (simp add: fl_def)
  ultimately have "fl (of_int n / 4) = of_int (- k) / 4"
    by simp
  then show ?thesis
    unfolding quarters_def by blast
qed

lemma quarters_cpu_up: "quarters (cpu_up v)"
  using quarters_fl [of "steps_up v CPU_STEP"] by (simp add: cpu_up_def CPU_STEP_def)

lemma quarters_max: "quarters a \<Longrightarrow> quarters b \<Longrightarrow> quarters (max a b)"
  by (simp add: max_def)

lemma quarters_step: "quarters CPU_STEP"
  unfolding quarters_def CPU_STEP_def by (intro exI [of _ 1]) simp

text \<open>
  Rounding up to quarters of a core loses at most what nine decimals lose.
\<close>

lemma with_headroom_above:
  assumes "0 \<le> h" "0 \<le> v"
  shows "fl v \<le> with_headroom h v"
proof -
  have "1 \<le> fl (1 + h)"
    using fl_mono [of 1 "1 + h"] fl_int [of 1] assms(1) by simp
  then have "v * 1 \<le> v * fl (1 + h)"
    using assms(2) by (intro mult_left_mono)
  then show ?thesis
    unfolding with_headroom_def by (intro fl_mono) simp
qed

lemma fl_dyadic: "\<bar>m\<bar> \<le> 2 ^ 53 \<Longrightarrow> fl (of_int m / 2 ^ k) = of_int m / 2 ^ k"
  using fl_exact [of m "- int k"] by (simp add: power_int_minus divide_inverse)

lemma steps_up_above:
  assumes "0 \<le> n" "n \<le> 2 ^ 22" "of_int n + 1 / 268435456 \<le> x"
  shows "of_int n < round9 (x :: rat)"
proof -
  have "of_int (1000000000 * n + 3) \<le> (of_int n + 1 / 268435456) * (1000000000 :: rat)"
    by (simp add: algebra_simps)
  then have "1000000000 * n + 3 \<le> round_half_even ((of_int n + 1 / 268435456) * 1000000000)"
    by (rule round_half_even_ge)
  then have "(of_int (1000000000 * n + 3) :: rat) \<le> of_int (round_half_even ((of_int n + 1 / 268435456) * 1000000000))"
    by (simp only: of_int_le_iff)
  then have "of_int n + 1 / 536870912 \<le> (of_int (round_half_even ((of_int n + 1 / 268435456) * 1000000000)) :: rat) / 1000000000"
    by (simp add: field_simps)
  then have "fl (of_int n + 1 / 536870912) \<le> round9 (of_int n + 1 / 268435456)"
    unfolding round9_def by (rule fl_mono)
  moreover have "fl (of_int n + 1 / 536870912) = of_int n + 1 / 536870912"
    using fl_exact [of "n * 536870912 + 1" "- 29"] assms by (simp add: power_int_minus field_simps)
  ultimately show ?thesis
    using round9_mono [OF assms(3)] by simp
qed

lemma cpu_up_covers:
  assumes "0 \<le> h" "0 \<le> w" "w \<le> 2 ^ 20"
  shows "w \<le> cpu_up (with_headroom h w) + 1 / 2 ^ 30"
proof (rule ccontr)
  define n where "n = steps_up (with_headroom h w) CPU_STEP"
  let ?g = "of_int n / 4 + 1 / 1073741824 :: rat"
  have "0 \<le> with_headroom h w"
    using with_headroom_above [OF assms(1,2)] fl_mono [of 0 w] assms(2) by simp
  then have "round9 0 \<le> round9 (fl (with_headroom h w / CPU_STEP))"
    using fl_mono [of 0 "with_headroom h w / CPU_STEP"] by (intro round9_mono) (simp add: CPU_STEP_def)
  moreover have "round9 0 = 0"
    using round_half_even_int [of 0] by (simp add: round9_def)
  ultimately have n0: "0 \<le> n"
    by (simp add: n_def steps_up_def)
  assume no: "\<not> ?thesis"
  have up: "cpu_up (with_headroom h w) = fl (of_int n / 4)"
    by (simp add: cpu_up_def n_def CPU_STEP_def)
  have n: "n \<le> 2 ^ 22"
  proof (rule ccontr)
    assume "\<not> n \<le> 2 ^ 22"
    then have "(2 ^ 20 :: rat) \<le> of_int n / 4"
      by (simp add: field_simps)
    then have "fl (2 ^ 20) \<le> fl (of_int n / 4)"
      by (rule fl_mono)
    with no up assms(3) fl_int [of "2 ^ 20"] show False
      by simp
  qed
  have exact: "fl (of_int n / 4) = of_int n / 4"
    using n0 n by (intro fl_quarter) simp
  have g: "?g \<le> w"
    using no up exact by simp
  have "?g = of_int (n * 268435456 + 1) / 2 ^ 30" "4 * ?g = of_int (n * 268435456 + 1) / 2 ^ 28"
    by (simp_all add: field_simps)
  moreover have "\<bar>n * 268435456 + 1\<bar> \<le> 2 ^ 53"
    using n0 n by simp
  ultimately have flg: "fl ?g = ?g" and fl4: "fl (4 * ?g) = 4 * ?g"
    using fl_dyadic by metis+
  have "?g \<le> with_headroom h w"
    using fl_mono [OF g] flg with_headroom_above [OF assms(1,2)] by simp
  then have "fl (4 * ?g) \<le> fl (with_headroom h w / CPU_STEP)"
    by (intro fl_mono) (simp add: CPU_STEP_def)
  then have "of_int n + 1 / 268435456 \<le> fl (with_headroom h w / CPU_STEP)"
    unfolding fl4 by simp
  from steps_up_above [OF n0 n this] have "of_int n < round9 (fl (with_headroom h w / CPU_STEP))" .
  also have "\<dots> \<le> of_int n"
    by (simp add: n_def steps_up_def)
  finally show False
    by simp
qed

lemma round9_int: "\<bar>k\<bar> \<le> 2 ^ 53 \<Longrightarrow> round9 (of_int k) = of_int k"
  using round_half_even_int [of "k * 1000000000"] by (simp add: round9_def)

lemma cpu_up_keeps_quarters:
  assumes "quarters c" "c \<le> 2 ^ 20" "0 \<le> h"
  shows "c \<le> max CPU_STEP (cpu_up (with_headroom h c))"
proof (cases "c \<le> 1 / 4")
  case True
  then show ?thesis
    by (simp add: CPU_STEP_def le_max_iff_disj)
next
  case False
  obtain k where c: "c = of_int k / 4"
    using assms(1) unfolding quarters_def by blast
  have k: "0 \<le> k" "k \<le> 2 ^ 22"
    using False assms(2) by (simp_all add: c)
  have "fl c = c"
    unfolding c using k by (intro fl_quarter) simp
  then have "c \<le> with_headroom h c"
    using with_headroom_above [of h c] assms(3) False by simp
  then have "fl (of_int k) \<le> fl (with_headroom h c / CPU_STEP)"
    unfolding CPU_STEP_def c by (intro fl_mono) simp
  then have "round9 (of_int k) \<le> round9 (fl (with_headroom h c / CPU_STEP))"
    using k fl_int [of k] by (intro round9_mono) simp
  then have "k \<le> steps_up (with_headroom h c) CPU_STEP"
    using k round9_int [of k] unfolding steps_up_def by (simp add: le_ceiling_iff)
  then have "fl (of_int k / 4) \<le> cpu_up (with_headroom h c)"
    unfolding cpu_up_def CPU_STEP_def by (intro fl_mono) simp
  then show ?thesis
    using k fl_quarter [of k] by (simp add: c le_max_iff_disj)
qed

lemma foldl_mode_mem: "foldl (\<lambda>best x. if P best x then x else best) y xs \<in> insert y (set xs)"
  by (induction xs arbitrary: y) auto

lemma mode_mem: "xs \<noteq> [] \<Longrightarrow> mode xs \<in> set xs"
  using foldl_mode_mem [of "\<lambda>best x. length (filter ((=) best) xs) < length (filter ((=) x) xs)" "hd xs" xs]
    hd_in_set [of xs] unfolding mode_def by (auto simp: insert_absorb)

section \<open>What a recommendation covers\<close>

lemma recommend_bounds:
  "rec_memory_min (recommend h common retained peak cm cp v) \<le> rec_memory_max (recommend h common retained peak cm cp v)
   \<and> 32 dvd rec_memory_min (recommend h common retained peak cm cp v) \<and> 32 dvd rec_memory_max (recommend h common retained peak cm cp v)
   \<and> 1 / 4 \<le> rec_cpus_min (recommend h common retained peak cm cp v)
   \<and> rec_cpus_min (recommend h common retained peak cm cp v) \<le> rec_cpus_max (recommend h common retained peak cm cp v)
   \<and> quarters (rec_cpus_min (recommend h common retained peak cm cp v))
   \<and> quarters (rec_cpus_max (recommend h common retained peak cm cp v))"
  by (simp add: recommend_def Let_def quarters_max quarters_step quarters_cpu_up)
     (simp add: max_def CPU_STEP_def)

lemma recommend_cpu:
  assumes "0 \<le> h" "w \<le> cp" "w \<le> 2 ^ 20"
  shows "w \<le> rec_cpus_max (recommend h common retained peak cm cp v) + 1 / 2 ^ 30"
proof (cases "0 \<le> w")
  case True
  have "with_headroom h w \<le> with_headroom h cp"
    unfolding with_headroom_def using fl_mono [of 0 "1 + h"] assms(1,2) by (intro fl_mono mult_right_mono) simp_all
  then have "cpu_up (with_headroom h w) \<le> cpu_up (with_headroom h cp)"
    by (rule cpu_up_mono)
  also have "\<dots> \<le> rec_cpus_max (recommend h common retained peak cm cp v)"
    by (simp add: recommend_def Let_def)
  finally show ?thesis
    using cpu_up_covers [OF assms(1) True assms(3)] by linarith
next
  case False
  then show ?thesis
    using recommend_bounds [of h common retained peak cm cp v] by (auto intro: order_trans [of w "1 / 4"])
qed

text \<open>
  C38: a recommendation covers what was measured. Every sampled resident set counts, and the peak counter when the
  container belongs to the run or the counter rose after the first sample; the counter of an attached container that
  did not rise does not. The memory ceiling is at least every count, and is no more than the larger of the reservation
  and the largest count with its headroom, rounded up to 32 MiB. Memory is in steps of 32 MiB, cores in quarters from one
  quarter on, each lower bound at most the upper. The upper bound of the cores covers the average of every window, up to
  the nine decimals that the rounding keeps, and the lower one the modal rate, for rates up to \<open>2 ^ 20\<close> cores.
\<close>
theorem sizing_covers_measurements:
  assumes "summarize page samples label h requests lifetime = Inr s" "0 \<le> h" "\<forall>x \<in> set samples. counters_ok x"
  shows "(\<forall>b \<in> set (counted_bytes lifetime (rows_of samples label)). covered (sum_recommend s) b)
    \<and> rec_memory_max (sum_recommend s) = max (rec_memory_min (sum_recommend s))
        (mem_up (with_headroom h (mib (max_of (counted_bytes lifetime (rows_of samples label))))))
    \<and> rec_memory_min (sum_recommend s) \<le> rec_memory_max (sum_recommend s)
    \<and> 32 dvd rec_memory_min (sum_recommend s) \<and> 32 dvd rec_memory_max (sum_recommend s)
    \<and> 1 / 4 \<le> rec_cpus_min (sum_recommend s) \<and> rec_cpus_min (sum_recommend s) \<le> rec_cpus_max (sum_recommend s)
    \<and> quarters (rec_cpus_min (sum_recommend s)) \<and> quarters (rec_cpus_max (sum_recommend s))
    \<and> (\<forall>w \<in> set (cpu_windows (core_rates (rows_of samples label))). w \<le> 2 ^ 20 \<longrightarrow>
         w \<le> rec_cpus_max (sum_recommend s) + 1 / 2 ^ 30)
    \<and> (sum_cpu_mode s \<le> 2 ^ 20 \<longrightarrow> sum_cpu_mode s \<le> rec_cpus_min (sum_recommend s))"
proof -
  let ?rows = "rows_of samples label" and ?r = "sum_recommend s"
  obtain common retained v where len: "2 \<le> length ?rows" and cores: "core_rates ?rows \<noteq> []"
    and r: "?r = recommend h common retained (max (sampled_peak_of ?rows) (counter_peak_of lifetime ?rows))
       (mode (map cpu_up (core_rates ?rows))) (max_of (cpu_windows (core_rates ?rows))) v"
    and cm: "sum_cpu_mode s = mode (map cpu_up (core_rates ?rows))"
    using assms(1) by (auto simp: summarize_def Let_def split: if_splits)
  have ok: "\<forall>x \<in> set ?rows. counters_ok x"
    using assms(3) by (simp add: rows_of_def)
  have ne: "?rows \<noteq> []"
    using len by auto
  note p = peak_counted [OF ne ok, of lifetime]
  have "covered ?r b" if b: "b \<in> set (counted_bytes lifetime ?rows)" for b
  proof -
    have bounds: "0 \<le> b" "b \<le> 2 ^ 45"
      using b ok by (auto simp: counted_bytes_def counters_ok_def split: if_splits)
    have "mib b \<le> mib (max_of (counted_bytes lifetime ?rows))"
      by (intro mib_mono max_of_le b)
    then show ?thesis
      unfolding r p using recommend_covers [OF assms(2) bounds] mib_exact [OF bounds] by simp
  qed
  moreover have "rec_memory_max ?r = max (rec_memory_min ?r) (mem_up (with_headroom h (mib (max_of (counted_bytes lifetime ?rows)))))"
    unfolding r p by (simp add: recommend_def Let_def)
  moreover have "w \<le> rec_cpus_max ?r + 1 / 2 ^ 30"
    if "w \<in> set (cpu_windows (core_rates ?rows))" "w \<le> 2 ^ 20" for w
    unfolding r by (rule recommend_cpu [OF assms(2) max_of_le [OF that(1)] that(2)])
  moreover have "sum_cpu_mode s \<le> rec_cpus_min ?r" if "sum_cpu_mode s \<le> 2 ^ 20"
  proof -
    have "quarters (sum_cpu_mode s)"
      using mode_mem [of "map cpu_up (core_rates ?rows)"] cores unfolding cm by (auto simp: quarters_cpu_up)
    from cpu_up_keeps_quarters [OF this that assms(2)] show ?thesis
      unfolding r cm by (simp add: recommend_def Let_def)
  qed
  ultimately show ?thesis
    using recommend_bounds unfolding r by blast
qed

text \<open>A container that was attached to, whose peak counter rose past every sampled resident set.\<close>

definition demo_sample :: "rat \<Rightarrow> int \<Rightarrow> sample" where
  "demo_sample t b = \<lparr>s_label = ''c'', s_phase = ''load'', s_time = t, s_current = 5, s_swap = 0, s_peak = b, s_pswpin = None,
     s_cpu_usec = b, s_vram = None, s_device_vram = None\<rparr>"

lemma demo_rows: "rows_of [demo_sample 0 5, demo_sample 1 700000000] ''c'' = [demo_sample 0 5, demo_sample 1 700000000]"
  by (simp add: rows_of_def demo_sample_def)

lemma demo_summary:
  obtains s where "summarize 4096 [demo_sample 0 5, demo_sample 1 700000000] ''c'' HEADROOM [] False = Inr s"
proof -
  have "\<exists>s. summarize 4096 [demo_sample 0 5, demo_sample 1 700000000] ''c'' HEADROOM [] False = Inr s"
    by (simp add: summarize_def Let_def demo_rows) (simp add: core_rates_def vram_of_def demo_sample_def)
  then show thesis
    using that by blast
qed

theorem sizing_covers_measurements_witness:
  "\<exists>s. summarize 4096 [demo_sample 0 5, demo_sample 1 700000000] ''c'' HEADROOM [] False = Inr s
     \<and> covered (sum_recommend s) 700000000"
proof -
  obtain s where s: "summarize 4096 [demo_sample 0 5, demo_sample 1 700000000] ''c'' HEADROOM [] False = Inr s"
    by (rule demo_summary)
  have "0 \<le> HEADROOM"
    unfolding HEADROOM_def using fl_mono [of 0 "20 / 100"] by simp
  moreover have "\<forall>x \<in> set [demo_sample 0 5, demo_sample 1 700000000]. counters_ok x"
    by (simp add: counters_ok_def demo_sample_def)
  moreover have "700000000 \<in> set (counted_bytes False [demo_sample 0 5, demo_sample 1 700000000])"
    by (simp add: counted_bytes_def demo_sample_def)
  ultimately show ?thesis
    using sizing_covers_measurements [OF s] s unfolding demo_rows by blast
qed

end
