(* ===== verification/Text_Files.thy ===== *)
theory Text_Files
  imports Config Recheck Agent_Scope
begin

text \<open>
  The small text formats: the environment file (\<open>pylib/dotenv.py\<close>), the preset file of the model server
  (\<open>pylib/presets.py\<close>, with the parts of \<open>configparser\<close> and \<open>pathlib\<close> it uses) and the excerpt of an agent
  transcript (\<open>pylib/transcript.py\<close>). \<open>rep\<close> shows a value that is no text, \<open>json\<close> decodes a line.
\<close>

section \<open>The environment file\<close>

definition env_line :: "(string, string) dict \<Rightarrow> string \<Rightarrow> (string, string) dict" where
  "env_line d line =
     (let s = strip line in
      if s = [] \<or> hd s = CHR ''#'' \<or> CHR ''='' \<notin> set s then d
      else let (key, _, value) = partition_at (CHR ''='') s in dput (strip key) (strip value) d)"

definition read_env_file :: "string option \<Rightarrow> (string, string) dict" where
  "read_env_file content = (case content of None \<Rightarrow> [] | Some t \<Rightarrow> foldl env_line [] (splitlines t))"

section \<open>Paths and the preset parser\<close>

definition path_root :: "string \<Rightarrow> string" where
  "path_root s =
     (if starts_with ''//'' s \<and> \<not> starts_with ''///'' s then ''//'' else if starts_with ''/'' s then ''/'' else [])"

definition path_norm :: "string \<Rightarrow> string" where
  "path_norm s =
     (let t = path_root s @ join_with (CHR ''/'') (filter (\<lambda>p. p \<noteq> [] \<and> p \<noteq> ''.'') (split_on (CHR ''/'') s)) in
      if t = [] then ''.'' else t)"

definition path_join :: "string \<Rightarrow> string \<Rightarrow> string" where
  "path_join d f = path_norm (if starts_with ''/'' f \<or> d = [] then f else d @ ''/'' @ f)"

text \<open>
  \<open>before_set\<close> of the default interpolation: \<open>%%\<close> and \<open>%(name)s\<close> are taken out, another percent sign is an error.
\<close>

fun drop_pairs :: "string \<Rightarrow> string" where
  "drop_pairs (a # b # cs) = (if a = CHR ''%'' \<and> b = CHR ''%'' then drop_pairs cs else a # drop_pairs (b # cs))"
| "drop_pairs s = s"

definition reference_tail :: "string \<Rightarrow> string option" where
  "reference_tail s =
     (case s of
        c # cs \<Rightarrow>
          if c \<noteq> CHR ''('' then None
          else (let nm = takeWhile (\<lambda>c. c \<noteq> CHR '')'') cs; r = dropWhile (\<lambda>c. c \<noteq> CHR '')'') cs in
           if nm \<noteq> [] \<and> starts_with '')s'' r then Some (drop 2 r) else None)
      | _ \<Rightarrow> None)"

lemma reference_tail_length: "reference_tail s = Some t \<Longrightarrow> length t < length s"
  using length_dropWhile_le [of "\<lambda>c. c \<noteq> CHR '')''" "tl s"]
  by (auto simp: reference_tail_def Let_def split: list.splits if_splits)

function stray_percent :: "string \<Rightarrow> bool" where
  "stray_percent [] = False"
| "stray_percent (c # cs) =
     (if c = CHR ''%'' then (case reference_tail cs of None \<Rightarrow> True | Some t \<Rightarrow> stray_percent t) else stray_percent cs)"
  by pat_completeness auto
termination
  by (relation "measure length") (auto dest: reference_tail_length)

record presets =
  defaults :: "(string, string) dict"
  sections :: "(string, (string, string) dict) dict"

definition put_section :: "string \<Rightarrow> (string, string) dict \<Rightarrow> presets \<Rightarrow> presets attempt" where
  "put_section name opts p =
     (if list_ex (\<lambda>kv. stray_percent (drop_pairs (snd kv))) opts then Inl Uncaught
      else if name = ''DEFAULT'' then Inr (p\<lparr>defaults := opts\<rparr>)
      else Inr (p\<lparr>sections := dput name opts (sections p)\<rparr>))"

section \<open>The preset file\<close>

definition SAMPLING_PRESET_KEYS :: "(string \<times> string) list" where
  "SAMPLING_PRESET_KEYS = [(''temperature'', ''temp''), (''top_p'', ''top-p''), (''top_k'', ''top-k''),
     (''repeat_penalty'', ''repeat-penalty'')]"

definition item :: "pydict \<Rightarrow> string \<Rightarrow> pyval attempt" where
  "item d k = (case vget d k of None \<Rightarrow> Inl Uncaught | Some v \<Rightarrow> Inr v)"

definition shown :: "(pyval \<Rightarrow> string) \<Rightarrow> string \<Rightarrow> pydict \<Rightarrow> string \<Rightarrow> (string \<times> string) attempt" where
  "shown rep opt d k = bindR (item d k) (\<lambda>v. Inr (opt, str_of rep v))"

definition global_section :: "(pyval \<Rightarrow> string) \<Rightarrow> string \<Rightarrow> pydict \<Rightarrow> (string, string) dict attempt" where
  "global_section rep device runtime =
     bindR (shown rep ''parallel'' runtime ''parallel_slots'') (\<lambda>par.
     bindR (shown rep ''ubatch-size'' runtime ''ubatch_size'') (\<lambda>ub.
     bindR (item runtime ''flash_attn'') (\<lambda>fa.
     bindR (shown rep ''cache-type-k'' runtime ''cache_type_k'') (\<lambda>ck.
     bindR (shown rep ''cache-type-v'' runtime ''cache_type_v'') (\<lambda>cv.
     Inr [(''device'', device), par, ub, (''flash-attn'', if truthy fa then ''on'' else ''off''), ck, cv,
          (''fit'', ''off''), (''context-shift'', ''off'')])))))"

definition sampling_option :: "(pyval \<Rightarrow> string) \<Rightarrow> pyval \<Rightarrow> string \<times> string \<Rightarrow> (string \<times> string) list attempt" where
  "sampling_option rep sampling ks =
     bindR (in_value (fst ks) sampling) (\<lambda>b.
     if b then bindR (as_dict sampling) (\<lambda>d. bindR (shown rep (snd ks) d (fst ks)) (\<lambda>kv. Inr [kv])) else Inr [])"

definition model_section :: "(pyval \<Rightarrow> string) \<Rightarrow> string \<Rightarrow> pydict \<Rightarrow> (string, string) dict attempt" where
  "model_section rep models_dir m =
     bindR (item m ''file'') (\<lambda>f.
     bindR (case f of VStr s \<Rightarrow> Inr s | _ \<Rightarrow> Inl Uncaught) (\<lambda>path.
     bindR (shown rep ''ctx-size'' m ''ctx_size'') (\<lambda>ctx.
     bindR (shown rep ''n-gpu-layers'' m ''n_gpu_layers'') (\<lambda>ngl.
     bindR (mapR (sampling_option rep (vget_or m ''sampling'' (VDict []))) SAMPLING_PRESET_KEYS) (\<lambda>sampling.
     Inr ([(''model'', path_join models_dir path), ctx, ngl]
       @ (if truthy (field_of m ''n_cpu_moe'') then [(''n-cpu-moe'', str_of rep (field_of m ''n_cpu_moe''))] else [])
       @ concat sampling))))))"

definition put_model :: "(pyval \<Rightarrow> string) \<Rightarrow> string \<Rightarrow> presets \<Rightarrow> pyval \<Rightarrow> presets attempt" where
  "put_model rep models_dir p m_v =
     bindR (as_dict m_v) (\<lambda>m.
     bindR (model_section rep models_dir m) (\<lambda>opts.
     bindR (item m ''alias'') (\<lambda>a. put_section (str_of rep a) opts p)))"

definition preset_sections :: "(pyval \<Rightarrow> string) \<Rightarrow> string \<Rightarrow> string \<Rightarrow> pydict \<Rightarrow> presets attempt" where
  "preset_sections rep models_dir device cfg =
     bindR (as_dict (vget_or cfg ''runtime'' (VDict []))) (\<lambda>runtime.
     bindR (global_section rep device runtime) (\<lambda>glob.
     bindR (put_section ''*'' glob \<lparr>defaults = [], sections = []\<rparr>) (\<lambda>p.
     foldR (put_model rep models_dir) p (enabled_models cfg))))"

text \<open>\<open>_write_section\<close>: a newline in a value becomes an indented continuation line.\<close>

definition newline :: char where "newline = CHR 0x0A"

definition write_option :: "string \<times> string \<Rightarrow> string" where
  "write_option kv = fst kv @ '' = '' @ concat (map (\<lambda>c. if c = newline then [newline, CHR 0x09] else [c]) (snd kv)) @ [newline]"

definition write_section :: "string \<times> (string, string) dict \<Rightarrow> string" where
  "write_section s = ''['' @ fst s @ '']'' @ [newline] @ concat (map write_option (snd s)) @ [newline]"

definition preset_text :: "presets \<Rightarrow> string" where
  "preset_text p =
     (if defaults p = [] then [] else write_section (''DEFAULT'', defaults p)) @ concat (map write_section (sections p))"

definition HEADER_COMMENT :: string where
  "HEADER_COMMENT = ''; Generated by llm-env. Do not edit; regenerated on every start.'' @ [newline]"

definition render_presets :: "(pyval \<Rightarrow> string) \<Rightarrow> string \<Rightarrow> string \<Rightarrow> pydict \<Rightarrow> string attempt" where
  "render_presets rep models_dir device cfg =
     bindR (preset_sections rep models_dir device cfg) (\<lambda>p. Inr (HEADER_COMMENT @ preset_text p))"

section \<open>The transcript excerpt\<close>

type_synonym transcript_line = "string \<times> pydict option"

definition FALLBACK_TAIL_LINES :: nat where "FALLBACK_TAIL_LINES = 5"

definition parse_line :: "(string \<Rightarrow> decoded) \<Rightarrow> string \<Rightarrow> transcript_line" where
  "parse_line json s = (s, case json s of Json (VDict d) \<Rightarrow> Some d | _ \<Rightarrow> None)"

definition parse_lines :: "(string \<Rightarrow> decoded) \<Rightarrow> string \<Rightarrow> transcript_line list" where
  "parse_lines json content = map (parse_line json) (filter (\<lambda>s. s \<noteq> []) (map strip (splitlines content)))"

definition error_shaped :: "pydict \<Rightarrow> bool" where
  "error_shaped d \<longleftrightarrow>
     has_key d ''error'' \<or> (case field_of d ''type'' of VStr s \<Rightarrow> contains_text ''error'' (map lower s) | _ \<Rightarrow> False)"

definition text_part :: "pydict \<Rightarrow> string attempt" where
  "text_part d = (case vget_or d ''text'' (VStr []) of VStr s \<Rightarrow> Inr s | _ \<Rightarrow> Inl Uncaught)"

definition is_text_part :: "pyval \<Rightarrow> pydict option" where
  "is_text_part v = (case v of VDict d \<Rightarrow> if field_of d ''type'' = VStr ''text'' then Some d else None | _ \<Rightarrow> None)"

definition part_texts :: "pyval list \<Rightarrow> string attempt" where
  "part_texts vs =
     bindR (mapR text_part (concat (map (\<lambda>v. case is_text_part v of None \<Rightarrow> [] | Some d \<Rightarrow> [d]) vs))) (\<lambda>ss. Inr (concat ss))"

text \<open>The content of a final assistant message, when the record is one.\<close>

definition assistant_content :: "pydict \<Rightarrow> pyval list option" where
  "assistant_content d =
     (if field_of d ''type'' \<noteq> VStr ''message_end'' then None
      else
        (case field_of d ''message'' of
           VDict m \<Rightarrow>
             if field_of m ''role'' \<noteq> VStr ''assistant'' then None
             else (case field_of m ''content'' of VList vs \<Rightarrow> Some vs | _ \<Rightarrow> None)
         | _ \<Rightarrow> None))"

fun final_text_pi :: "string \<Rightarrow> transcript_line list \<Rightarrow> string attempt" where
  "final_text_pi t [] = Inr t"
| "final_text_pi t ((raw, r) # ls) =
     (case r of
        None \<Rightarrow> final_text_pi t ls
      | Some d \<Rightarrow>
          (case assistant_content d of
             None \<Rightarrow> final_text_pi t ls
           | Some vs \<Rightarrow> bindR (part_texts vs) (\<lambda>u. final_text_pi u ls)))"

fun final_text_opencode :: "pyval \<Rightarrow> string \<Rightarrow> transcript_line list \<Rightarrow> string attempt" where
  "final_text_opencode mid t [] = Inr t"
| "final_text_opencode mid t ((raw, r) # ls) =
     (case r of
        None \<Rightarrow> final_text_opencode mid t ls
      | Some d \<Rightarrow>
          if field_of d ''type'' \<noteq> VStr ''text'' then final_text_opencode mid t ls
          else
            (case is_text_part (field_of d ''part'') of
               None \<Rightarrow> final_text_opencode mid t ls
             | Some p \<Rightarrow>
                 let new_id = field_of p ''messageID''; kept = (if new_id = mid then t else []) in
                 bindR (text_part p) (\<lambda>u. final_text_opencode new_id (kept @ u) ls)))"

datatype agent_client = Pi | Opencode

definition client_of :: "string \<Rightarrow> agent_client option" where
  "client_of s = (if s = ''pi'' then Some Pi else if s = ''opencode'' then Some Opencode else None)"

definition final_text :: "agent_client \<Rightarrow> transcript_line list \<Rightarrow> string attempt" where
  "final_text c ls = (case c of Pi \<Rightarrow> final_text_pi [] ls | Opencode \<Rightarrow> final_text_opencode VNone [] ls)"

definition error_lines :: "transcript_line list \<Rightarrow> string list" where
  "error_lines ls = map fst (filter (\<lambda>l. case snd l of None \<Rightarrow> False | Some d \<Rightarrow> error_shaped d) ls)"

fun join_text :: "string \<Rightarrow> string list \<Rightarrow> string" where
  "join_text sep [] = []"
| "join_text sep [s] = s"
| "join_text sep (s # t # ts) = s @ sep @ join_text sep (t # ts)"

definition excerpt :: "string \<Rightarrow> transcript_line list \<Rightarrow> string" where
  "excerpt final ls =
     (let errs = error_lines ls; nl = [newline];
          parts = (if final = [] then [] else [''Final assistant text:'' @ nl @ final])
            @ (if errs = [] then [] else [''Error-shaped events:'' @ nl @ join_text nl errs]) in
      join_text (nl @ nl)
        (if parts = []
         then [''No recognized error event; last lines of transcript:'' @ nl
                 @ join_text nl (drop (length ls - FALLBACK_TAIL_LINES) (map fst ls))]
         else parts))"

definition classify_transcript :: "(string \<Rightarrow> decoded) \<Rightarrow> string \<Rightarrow> string \<Rightarrow> string attempt" where
  "classify_transcript json client content =
     (case client_of client of
        None \<Rightarrow> Inl Uncaught
      | Some c \<Rightarrow>
          let ls = parse_lines json content in
          if ls = [] then Inr ''(transcript is empty)''
          else bindR (final_text c ls) (\<lambda>t. Inr (excerpt t ls)))"

section \<open>Properties of the preset file\<close>

lemma put_section_Inr: "put_section k os p = Inr q \<Longrightarrow> k \<noteq> ''DEFAULT'' \<Longrightarrow> q = p\<lparr>sections := dput k os (sections p)\<rparr>"
  by (auto simp: put_section_def split: if_splits)

lemma put_models:
  assumes "foldR (put_model rep dir) p (map VDict ds) = Inr q" "map (\<lambda>d. vget d ''alias'') ds = map (\<lambda>a. Some (VStr a)) as"
    and "distinct as" "set as \<inter> set (keys (sections p)) = {}" "''DEFAULT'' \<notin> set as"
  shows "\<exists>oss. mapR (model_section rep dir) ds = Inr oss \<and> q = p\<lparr>sections := sections p @ zip as oss\<rparr>"
  using assms
proof (induction ds arbitrary: as p)
  case (Cons d ds)
  then obtain a as' where as: "as = a # as'" "vget d ''alias'' = Some (VStr a)" "map (\<lambda>d. vget d ''alias'') ds = map (\<lambda>a. Some (VStr a)) as'"
    by (cases as) auto
  obtain p' where step: "put_model rep dir p (VDict d) = Inr p'" and rest: "foldR (put_model rep dir) p' (map VDict ds) = Inr q"
    using Cons.prems(1) by auto
  obtain opts where opts: "model_section rep dir d = Inr opts" and put: "put_section a opts p = Inr p'"
    using step as(2) by (auto simp: put_model_def item_def)
  have a: "a \<noteq> ''DEFAULT''" "a \<notin> set (keys (sections p))"
    using Cons.prems(4,5) as(1) by auto
  have p': "p' = p\<lparr>sections := sections p @ [(a, opts)]\<rparr>"
    using put_section_Inr [OF put a(1)] dput_new [OF a(2)] by simp
  have "set as' \<inter> set (keys (sections p')) = {}"
    using Cons.prems(3,4) as(1) p' by auto
  then obtain oss where "mapR (model_section rep dir) ds = Inr oss" "q = p'\<lparr>sections := sections p' @ zip as' oss\<rparr>"
    using Cons.IH [OF rest as(3)] Cons.prems(3,5) as(1) by auto
  then show ?case
    using opts p' as(1) by simp
qed simp

text \<open>
  The preset file holds the globals and one section for each enabled model, in the order of the configuration,
  and nothing else: no default section, provided no enabled model is called \<open>*\<close> or \<open>DEFAULT\<close>.
\<close>
theorem presets_one_section_per_model:
  assumes "preset_sections rep dir device cfg = Inr p" "enabled_models cfg = map VDict ds"
    and "map (\<lambda>d. vget d ''alias'') ds = map (\<lambda>a. Some (VStr a)) as" "distinct as" "set as \<inter> {''*'', ''DEFAULT''} = {}"
  shows "\<exists>runtime glob oss. vget_or cfg ''runtime'' (VDict []) = VDict runtime \<and> global_section rep device runtime = Inr glob
    \<and> mapR (model_section rep dir) ds = Inr oss \<and> defaults p = [] \<and> sections p = (''*'', glob) # zip as oss"
proof -
  obtain runtime glob q where g: "as_dict (vget_or cfg ''runtime'' (VDict [])) = Inr runtime" "global_section rep device runtime = Inr glob"
    and q: "put_section ''*'' glob \<lparr>defaults = [], sections = []\<rparr> = Inr q"
    and fold: "foldR (put_model rep dir) q (map VDict ds) = Inr p"
    using assms(1,2) by (auto simp: preset_sections_def)
  have q: "q = \<lparr>defaults = [], sections = [(''*'', glob)]\<rparr>"
    using put_section_Inr [OF q] by simp
  have "vget_or cfg ''runtime'' (VDict []) = VDict runtime"
    using g(1) by (cases "vget_or cfg ''runtime'' (VDict [])") simp_all
  moreover obtain oss where "mapR (model_section rep dir) ds = Inr oss" "p = q\<lparr>sections := sections q @ zip as oss\<rparr>"
    using put_models [OF fold assms(3,4)] assms(5) q by auto
  ultimately show ?thesis
    using g(2) q by simp
qed

section \<open>Properties of the transcript excerpt\<close>

lemma starts_with_iff: "starts_with p s \<longleftrightarrow> (\<exists>r. s = p @ r)"
  by (auto simp: starts_with_def) (metis append_take_drop_id)

lemma contains_iff: "contains_text p s \<longleftrightarrow> (\<exists>a b. s = a @ p @ b)"
proof (induction s)
  case (Cons c s)
  have "(\<exists>a b. c # s = a @ p @ b) \<longleftrightarrow> (\<exists>r. c # s = p @ r) \<or> (\<exists>a b. s = a @ p @ b)"
    by (metis append_Cons append_Nil list.exhaust list.inject)
  then show ?case
    using Cons by (simp add: starts_with_iff)
qed simp

lemma contains_in_append: "contains_text p t \<Longrightarrow> contains_text p (s @ t @ u)"
  by (auto simp: contains_iff) (metis append.assoc)

lemma contains_trans: "contains_text p s \<Longrightarrow> contains_text s t \<Longrightarrow> contains_text p t"
  by (auto simp: contains_iff) (metis append.assoc)

lemma contains_self [simp]: "contains_text p p"
  by (auto simp: contains_iff) (metis append_Nil append_Nil2)

lemma contains_join: "s \<in> set ss \<Longrightarrow> contains_text s (join_text sep ss)"
proof (induction sep ss rule: join_text.induct)
  case (3 sep s' t ts)
  then show ?case
    using contains_in_append [of s s' "[]" "sep @ join_text sep (t # ts)"]
      contains_in_append [of s "join_text sep (t # ts)" "s' @ sep" "[]"] by auto
qed simp_all

lemma contains_suffix: "contains_text p t \<Longrightarrow> contains_text p (s @ t)"
  using contains_in_append [of p t s "[]"] by simp

definition classified :: "string \<Rightarrow> transcript_line list \<Rightarrow> string \<Rightarrow> bool" where
  "classified final ls out \<longleftrightarrow>
     (final \<noteq> [] \<longrightarrow> contains_text final out) \<and> (\<forall>e \<in> set (error_lines ls). contains_text e out)
     \<and> (final = [] \<and> error_lines ls = [] \<longrightarrow> contains_text (fst (last ls)) out)"

lemma excerpt_part:
  assumes "s \<in> set ((if final = [] then [] else [''Final assistant text:'' @ [newline] @ final])
            @ (if error_lines ls = [] then [] else [''Error-shaped events:'' @ [newline] @ join_text [newline] (error_lines ls)]))"
  shows "contains_text s (excerpt final ls)"
proof -
  have "contains_text s (join_text ([newline] @ [newline]) ((if final = [] then [] else [''Final assistant text:'' @ [newline] @ final])
            @ (if error_lines ls = [] then [] else [''Error-shaped events:'' @ [newline] @ join_text [newline] (error_lines ls)])))"
    by (rule contains_join) (rule assms)
  moreover have "final \<noteq> [] \<or> error_lines ls \<noteq> []"
    using assms by auto
  ultimately show ?thesis
    unfolding excerpt_def Let_def by (auto split: if_splits)
qed

lemma excerpt_classified:
  assumes "ls \<noteq> []"
  shows "classified final ls (excerpt final ls)"
proof -
  have "contains_text final (''Final assistant text:'' @ [newline] @ final)"
    by (intro contains_suffix contains_self)
  then have f: "contains_text final (excerpt final ls)" if "final \<noteq> []"
    by (rule contains_trans) (rule excerpt_part, use that in simp)
  have "contains_text e (''Error-shaped events:'' @ [newline] @ join_text [newline] (error_lines ls))" if "e \<in> set (error_lines ls)" for e
    by (intro contains_suffix contains_join) (rule that)
  then have e: "contains_text e (excerpt final ls)" if "e \<in> set (error_lines ls)" for e
    using that by (intro contains_trans [OF _ excerpt_part]) auto
  have "contains_text (fst (last ls)) (excerpt final ls)" if none: "final = []" "error_lines ls = []"
  proof -
    let ?tail = "drop (length ls - FALLBACK_TAIL_LINES) (map fst ls)"
    have less: "length ls - FALLBACK_TAIL_LINES < length ls"
      using assms by (intro diff_less) (simp_all add: FALLBACK_TAIL_LINES_def)
    then have "?tail \<noteq> []"
      by simp
    moreover have "last ?tail = fst (last ls)"
      using less assms by (simp add: last_drop last_map)
    ultimately have "fst (last ls) \<in> set ?tail"
      by (metis last_in_set)
    from contains_join [OF this, of "[newline]"] show ?thesis
      unfolding excerpt_def Let_def using none by (auto intro: contains_suffix simp del: append.simps)
  qed
  then show ?thesis
    using f e by (simp add: classified_def)
qed

text \<open>
  No error is lost in the excerpt. For a transcript with a line, the excerpt holds every error-shaped line verbatim,
  the final text of the assistant when there is one, and the last line of the transcript when there is neither.
\<close>
theorem excerpt_keeps_errors:
  assumes "classify_transcript json client content = Inr out" "parse_lines json content \<noteq> []"
  shows "\<exists>c final. client_of client = Some c \<and> final_text c (parse_lines json content) = Inr final
    \<and> classified final (parse_lines json content) out"
  using assms excerpt_classified by (auto simp: classify_transcript_def Let_def split: option.splits)

section \<open>Properties of the environment file\<close>

definition env_text :: "(string, string) dict \<Rightarrow> string" where
  "env_text d = concat (map (\<lambda>(k, v). k @ CHR ''='' # v @ [newline]) d)"

definition plain_entry :: "string \<times> string \<Rightarrow> bool" where
  "plain_entry p \<longleftrightarrow>
     fst p \<noteq> [] \<and> strip (fst p) = fst p \<and> strip (snd p) = snd p \<and> hd (fst p) \<noteq> CHR ''#'' \<and> CHR ''='' \<notin> set (fst p)
     \<and> \<not> list_ex is_line_end (fst p @ snd p)"

lemma dropWhile_same: "length s \<le> length (dropWhile P s) \<Longrightarrow> s \<noteq> [] \<Longrightarrow> \<not> P (hd s)"
  using length_dropWhile_le [of P "tl s"] by (cases s) (auto split: if_splits)

lemma strip_ends:
  assumes "strip s = s" "s \<noteq> []"
  shows "\<not> is_space (hd s)" "\<not> is_space (last s)"
proof -
  let ?d = "dropWhile is_space s"
  have "length s \<le> length ?d"
    using arg_cong [OF assms(1), of length] length_dropWhile_le [of is_space "rev ?d"] by (simp add: strip_def)
  then show h: "\<not> is_space (hd s)"
    by (rule dropWhile_same) (rule assms(2))
  then have "?d = s"
    by (cases s) simp_all
  then have "length (rev s) \<le> length (dropWhile is_space (rev s))"
    using arg_cong [OF assms(1), of length] by (simp add: strip_def)
  then show "\<not> is_space (last s)"
    using dropWhile_same [of "rev s" is_space] assms(2) by (simp add: hd_rev)
qed

lemma strip_kept:
  assumes "s \<noteq> []" "\<not> is_space (hd s)" "\<not> is_space (last s)"
  shows "strip s = s"
proof -
  have "dropWhile is_space s = s" "dropWhile is_space (rev s) = rev s"
    using assms by (cases s; simp) (cases s rule: rev_cases; use assms in simp)
  then show ?thesis
    by (simp add: strip_def)
qed

lemma splitlines_line:
  assumes "\<not> list_ex is_line_end line"
  shows "splitlines (line @ newline # rest) = line # splitlines rest"
proof -
  have nl: "is_line_end newline" "of_char newline = (10 :: nat)"
    by (simp_all add: newline_def is_line_end_def)
  have "splitlines_aux acc (line @ newline # rest) = (rev acc @ line) # splitlines_aux [] rest" for acc
    using assms
  proof (induction line arbitrary: acc)
    case Nil
    show ?case
      using nl by (cases rest) simp_all
  qed simp
  then show ?thesis
    by (simp add: splitlines_def)
qed

lemma env_line_plain:
  assumes "plain_entry (k, v)"
  shows "env_line d (k @ CHR ''='' # v) = dput k v d"
proof -
  have k: "k \<noteq> []" "strip k = k" "strip v = v" "hd k \<noteq> CHR ''#''" "CHR ''='' \<notin> set k"
    using assms by (simp_all add: plain_entry_def)
  have "\<not> is_space (CHR ''='')"
    by (simp add: is_space_def)
  then have "\<not> is_space (last (k @ CHR ''='' # v))"
    using strip_ends(2) [OF k(3)] by simp
  moreover have "\<not> is_space (hd (k @ CHR ''='' # v))"
    using strip_ends(1) [OF k(2,1)] k(1) by simp
  ultimately have s: "strip (k @ CHR ''='' # v) = k @ CHR ''='' # v"
    by (intro strip_kept) simp_all
  have "partition_at (CHR ''='') (k @ CHR ''='' # v) = (k, True, v)"
    using k(5) by (induction k) (auto simp: partition_at_def Let_def)
  then show ?thesis
    using k s by (simp add: env_line_def Let_def)
qed

text \<open>
  An environment file written one \<open>KEY=VALUE\<close> per line is read back as it was: the entries, their values and
  their order, for keys and values without surrounding white space or line ends and keys without an equals sign.
\<close>
theorem env_file_roundtrip:
  assumes "list_all plain_entry d" "distinct (keys d)"
  shows "read_env_file (Some (env_text d)) = d"
proof -
  have "foldl env_line e (splitlines (env_text d)) = e @ d" if "list_all plain_entry d" "distinct (keys (e @ d))" for e d
    using that
  proof (induction d arbitrary: e)
    case (Cons p d)
    obtain k v where p: "p = (k, v)"
      by force
    have "\<not> list_ex is_line_end (k @ CHR ''='' # v)"
      using Cons.prems(1) p by (simp add: plain_entry_def) (simp add: is_line_end_def)
    from splitlines_line [OF this, of "env_text d"]
    have "splitlines (env_text (p # d)) = (k @ CHR ''='' # v) # splitlines (env_text d)"
      by (simp add: env_text_def p)
    moreover have "k \<notin> set (keys e)"
      using Cons.prems(2) p by auto
    ultimately show ?case
      using Cons.IH [of "e @ [(k, v)]"] Cons.prems p by (simp add: env_line_plain dput_new)
  qed (simp add: env_text_def splitlines_def)
  from this [of d "[]"] assms show ?thesis
    by (simp add: read_env_file_def)
qed

theorem env_file_roundtrip_witness: "read_env_file (Some (env_text [(''A'', ''b=c''), (''D'', [])])) = [(''A'', ''b=c''), (''D'', [])]"
  by (rule env_file_roundtrip) (simp_all add: plain_entry_def strip_def is_space_def is_line_end_def)

section \<open>Sample inputs\<close>

definition preset_config :: "string \<Rightarrow> pydict" where
  "preset_config a =
     [(VStr ''version'', VInt 1), (VStr ''server'', VDict []),
      (VStr ''gpu'', VDict [(VStr ''backend'', VStr ''vulkan''), (VStr ''vram_total_mib'', VInt 16304), (VStr ''reserve_mode'', VStr ''auto'')]),
      (VStr ''runtime'', VDict [(VStr ''models_max'', VInt 1), (VStr ''parallel_slots'', VInt 1), (VStr ''ubatch_size'', VInt 512),
         (VStr ''flash_attn'', VBool True), (VStr ''cache_type_k'', VStr ''q8_0''), (VStr ''cache_type_v'', VStr ''q8_0'')]),
      (VStr ''models'', VList [sample_model a True])]"

lemma preset_config_valid:
  assumes "strip a \<noteq> []"
  shows "validate_config (preset_config a) = []" "enabled_models (preset_config a) = [sample_model a True]"
proof -
  obtain d where d: "sample_model a True = VDict d"
    by (simp add: sample_model_def)
  note ok = sample_model_ok [OF d assms]
  have g: "gpu_errors [(VStr ''backend'', VStr ''vulkan''), (VStr ''vram_total_mib'', VInt 16304), (VStr ''reserve_mode'', VStr ''auto'')] = []"
    by (simp add: gpu_errors_def VALID_BACKENDS_def vget_or_def percentage_def num_sat_def)
  have r: "runtime_errors [(VStr ''models_max'', VInt 1), (VStr ''parallel_slots'', VInt 1), (VStr ''ubatch_size'', VInt 512),
         (VStr ''flash_attn'', VBool True), (VStr ''cache_type_k'', VStr ''q8_0''), (VStr ''cache_type_v'', VStr ''q8_0'')] = []"
    by (simp add: runtime_errors_def vget_or_def)
  have m: "models_errors 0 [] [VDict d] = []"
    using ok by (simp add: alias_errors_def)
  show n: "enabled_models (preset_config a) = [sample_model a True]"
    using ok by (simp add: enabled_models_def preset_config_def d vget_or_def)
  show "validate_config (preset_config a) = []"
    unfolding validate_Nil
    using g r m n d
    by (simp add: preset_config_def required_errors_def shape_errors_def body_errors_def REQUIRED_SECTIONS_def has_key_def
        vget_or_def optional_section_def enablement_errors_def llm_server_enabled_def)
qed

lemma no_percent: "CHR ''%'' \<notin> set s \<Longrightarrow> drop_pairs s = s \<and> \<not> stray_percent s"
  by (induction s rule: drop_pairs.induct) auto

lemma show_int_percent [simp]: "CHR ''%'' \<notin> set (show_int n)"
proof -
  have "CHR ''%'' \<notin> set (show_nat m)" for m
    using show_nat_digits [of m] by (auto simp: all_digits_def list_all_iff is_digit_def)
  then show ?thesis
    by (simp add: show_int_def)
qed

text \<open>
  C40: a model called \<open>*\<close> takes the globals away. The configuration is valid, the preset file is rendered, and its only
  section is the one of the model, without the device and the cache types that hold for every model.
\<close>
theorem star_alias_replaces_globals:
  "validate_config (preset_config ''*'') = []
   \<and> (\<exists>p opts. preset_sections rep ''/m'' ''Vulkan0'' (preset_config ''*'') = Inr p \<and> defaults p = [] \<and> sections p = [(''*'', opts)]
        \<and> dget opts ''device'' = None \<and> dget opts ''cache-type-k'' = None)"
proof -
  have "strip ''*'' \<noteq> []"
    by (simp add: strip_def is_space_def)
  note c = preset_config_valid [OF this]
  show ?thesis
    using c(1)
    by (simp add: preset_sections_def c(2)) (simp add: preset_config_def vget_or_def vget_def global_section_def shown_def item_def put_section_def
        put_model_def sample_model_def model_section_def SAMPLING_PRESET_KEYS_def sampling_option_def has_key_def field_of_def path_join_def
        path_norm_def path_root_def starts_with_def no_percent)
qed

lemma preset_a:
  obtains p where "preset_sections rep ''/m'' ''Vulkan0'' (preset_config ''a'') = Inr p"
proof -
  have "strip ''a'' \<noteq> []"
    by (simp add: strip_def is_space_def)
  note c = preset_config_valid [OF this]
  have "\<exists>p. preset_sections rep ''/m'' ''Vulkan0'' (preset_config ''a'') = Inr p"
    by (simp add: preset_sections_def c(2)) (simp add: preset_config_def vget_or_def vget_def global_section_def shown_def item_def put_section_def
        put_model_def sample_model_def model_section_def SAMPLING_PRESET_KEYS_def sampling_option_def has_key_def field_of_def path_join_def
        path_norm_def path_root_def starts_with_def no_percent)
  then show thesis
    using that by blast
qed

theorem presets_one_section_per_model_witness:
  "\<exists>p. preset_sections (\<lambda>_. []) ''/m'' ''Vulkan0'' (preset_config ''a'') = Inr p \<and> defaults p = []
     \<and> keys (sections p) = [''*'', ''a'']"
proof -
  obtain p where p: "preset_sections (\<lambda>_. []) ''/m'' ''Vulkan0'' (preset_config ''a'') = Inr p"
    by (rule preset_a)
  obtain d where d: "sample_model ''a'' True = VDict d" "vget d ''alias'' = Some (VStr ''a'')"
    by (simp add: sample_model_def vget_def)
  have "strip ''a'' \<noteq> []"
    by (simp add: strip_def is_space_def)
  note c = preset_config_valid(2) [OF this]
  have "enabled_models (preset_config ''a'') = map VDict [d]" "map (\<lambda>d. vget d ''alias'') [d] = map (\<lambda>a. Some (VStr a)) [''a'']"
    using c d by simp_all
  from presets_one_section_per_model [OF p this] p show ?thesis
    by auto
qed

theorem excerpt_keeps_errors_witness:
  "\<exists>out. classify_transcript (\<lambda>_. Json (VDict [(VStr ''error'', VNone)])) ''pi'' ''E'' = Inr out \<and> contains_text ''E'' out"
proof -
  let ?json = "\<lambda>_ :: string. Json (VDict [(VStr ''error'', VNone)])"
  have "case classify_transcript ?json ''pi'' ''E'' of Inl _ \<Rightarrow> False | Inr _ \<Rightarrow> True"
    by code_simp
  then obtain out where out: "classify_transcript ?json ''pi'' ''E'' = Inr out"
    by (auto split: sum.splits)
  have lines: "parse_lines ?json ''E'' \<noteq> []" "''E'' \<in> set (error_lines (parse_lines ?json ''E''))"
    by code_simp+
  show ?thesis
    using excerpt_keeps_errors [OF out lines(1)] lines(2) out by (auto simp: classified_def)
qed

end
