(* ===== verification/Setup_Script.thy ===== *)
theory Setup_Script
  imports Image_Ref
begin

text \<open>
  The installer script of the remote-setup server (\<open>pylib/remote_setup.py\<close>): its template, the parser of
  the Host header, whose text is put into the script, and the rendering. The two embedded files
  (\<open>update-opencode-config.mjs\<close> and \<open>install-agent-clients.sh\<close>) are arguments. Text is ASCII, so \<open>\d\<close>
  is a decimal digit; the \<open>$\<close> of a pattern also matches before a newline that ends the text.
\<close>

section \<open>The template\<close>

abbreviation (input) BACKSLASH :: string where "BACKSLASH \<equiv> [CHR 0x5C]"
abbreviation (input) QUOTE :: string where "QUOTE \<equiv> [CHR 0x27]"

definition SETUP_SCRIPT_TEMPLATE :: "string list" where
  \<open>SETUP_SCRIPT_TEMPLATE =
    [''#!/usr/bin/env bash'',
     ''set -euo pipefail'',
     ''umask 077'',
     [],
     ''# Under `curl ... | bash` bash starts executing with the first bytes curl'',
     ''# delivers, so anything printed meanwhile lands in the middle of curl's'',
     ''# progress meter. Everything lives in main(), which bash cannot run until'',
     ''# the whole definition has arrived; main() then waits for curl to close the'',
     ''# pipe (and finish its meter) before printing anything.'',
     ''main() {'',
     ''if [ -p /dev/stdin ]; then'',
     ''    cat >/dev/null'',
     ''    printf '' @ QUOTE @ BACKSLASH @ ''n' >&2'',
     ''fi'',
     [],
     ''LLM_ENV_HOST="@@LLM_ENV_HOST@@"'',
     [],
     ''for cmd in curl jq node mktemp cmp; do'',
     ''    command -v "$cmd" >/dev/null 2>&1 || {'',
     ''        echo "remote-setup: missing required command: $cmd" >&2'',
     ''        exit 1'',
     ''    }'',
     ''done'',
     [],
     ''echo "close Pi and OpenCode before continuing" >&2'',
     [],
     ''# install-agent-clients.sh's own source is embedded here (not fetched over'',
     ''# HTTP -- the design defines only /setup.sh and /config as public routes),'',
     ''# exactly like update-opencode-config.mjs below. It must be materialized'',
     ''# and sourced BEFORE create_agent_client_workdir can be called (that'',
     ''# function is defined by sourcing it) -- so it is staged to its own'',
     ''# mktemp'd file rather than into $workdir, which does not exist yet.'',
     ''lib="$(mktemp)" || {'',
     ''    echo "remote-setup: could not stage install-agent-clients.sh" >&2'',
     ''    exit 1'',
     ''}'',
     ''chmod 600 "$lib" || {'',
     ''    rm -f -- "$lib"'',
     ''    echo "remote-setup: could not secure staged install-agent-clients.sh" >&2'',
     ''    exit 1'',
     ''}'',
     ''cat >"$lib" <<'INSTALL_LIB_EOF'' @ QUOTE,
     ''@@INSTALL_LIB_SH@@'',
     ''INSTALL_LIB_EOF'',
     ''# shellcheck disable=SC1090 # heredoc-written above, not a static path'',
     ''source "$lib"'',
     [],
     ''create_agent_client_workdir'',
     ''# create_agent_client_workdir's `trap _iac_cleanup EXIT` (just installed)'',
     ''# owns cleanup for $workdir and everything staged into $staged_files by'',
     ''# install_agent_clients() below -- and that function's own mv/shift'',
     ''# bookkeeping (see setup/lib/install-agent-clients.sh's trailing'',
     ''# mv/`staged_files=("${staged_files[@]:1})` block) assumes staged_files[0]'',
     ''# is always the file *just* moved. Pushing $lib onto that array here would'',
     ''# violate that assumption: $lib (at index 0) gets shifted off after the'',
     ''# FIRST unrelated mv, not after $lib is actually removed anywhere -- so'',
     ''# $lib leaks on every successful run. Since setup/lib/install-agent-clients.sh'',
     ''# must not be modified for this, $lib is kept out of $staged_files entirely'',
     ''# and instead cleaned up by replacing the trap wholesale (bash traps do not'',
     ''# chain): remove $lib first, restore the original exit status, then'',
     ''# delegate to _iac_cleanup -- a plain global function once'',
     ''# create_agent_client_workdir has run -- for everything else. This covers'',
     ''# every exit path: success, an _iac_die failure inside install_agent_clients,'',
     ''# and any earlier failure once this trap is installed.'',
     ''#'',
     ''# The whole script runs under `set -e`, which also applies inside an'',
     ''# already-firing EXIT trap: a bare `(exit "$lib_exit_status")` used to'',
     ''# restore $? for _iac_cleanup would itself be a "failing" command whenever'',
     ''# the original status was non-zero, aborting the trap right there and'',
     ''# skipping _iac_cleanup entirely -- leaking $workdir (which can hold the'',
     ''# staged API key and provider files) on every failure path instead of just'',
     ''# leaking $lib on the success path. `set +e` around that one restore-$?'',
     ''# step is what keeps that failing exit status from also killing the trap.'',
     ''# shellcheck disable=SC2154 # _iac_cleanup is defined by create_agent_client_workdir above'',
     ''trap 'lib_exit_status=$?; rm -f -- "$lib"; set +e; (exit "$lib_exit_status"); _iac_cleanup' EXIT'',
     [],
     ''# The updater's own source is embedded here too, same reasoning as above. A'',
     ''# quoted heredoc delimiter means the shell does no expansion inside the JS'',
     ''# body, so its own `$`/backtick usage is inert.'',
     ''updater="${workdir}/update-opencode-config.mjs"'',
     ''cat >"$updater" <<'OPENCODE_UPDATER_EOF'' @ QUOTE,
     ''@@OPENCODE_UPDATER_JS@@'',
     ''OPENCODE_UPDATER_EOF'',
     [],
     ''rm_key=0'',
     ''for arg in "${@-}"; do'',
     ''    [ -z "$arg" ] && continue'',
     ''    case "$arg" in'',
     ''        --rm-key) rm_key=1 ;;'',
     ''        *)'',
     ''            echo "remote-setup: unknown argument: $arg" >&2'',
     ''            exit 1'',
     ''            ;;'',
     ''    esac'',
     ''done'',
     [],
     ''master_key_cache_dir="${XDG_CACHE_HOME:-$HOME/.cache}/llm-env"'',
     ''master_key_cache="${master_key_cache_dir}/master-key"'',
     [],
     ''# `curl ... | bash` leaves stdin attached to the script pipe, not the'',
     ''# terminal -- `read` must go to /dev/tty explicitly or the prompt below'',
     ''# silently reads EOF instead of actually asking the user. The prompt starts'',
     ''# on its own line so curl's progress meter (which rewrites its line with '' @ BACKSLASH @ ''r)'',
     ''# cannot swallow it, and an empty answer asks again instead of being sent.'',
     ''prompt_master_key() {'',
     ''    master_key=""'',
     ''    while [ -z "$master_key" ]; do'',
     ''        printf '' @ QUOTE @ BACKSLASH @ ''nOMNI_ROUTER_MASTER_KEY: ' >/dev/tty 2>/dev/null || {'',
     ''            echo "remote-setup: no terminal to ask for the master key" >&2'',
     ''            exit 1'',
     ''        }'',
     ''        IFS= read -r -s master_key </dev/tty || master_key=""'',
     ''        printf '' @ QUOTE @ BACKSLASH @ ''n' >/dev/tty'',
     ''    done'',
     ''}'',
     [],
     ''# A bearer token on the curl command line would be visible to every other'',
     ''# local user via `ps`/`/proc/<pid>/cmdline` for as long as curl runs --'',
     ''# mirrors scripts/check-server.sh's own auth_conf pattern (a private,'',
     ''# mode-0600 curl config file passed via -K, never -H on the command line).'',
     ''auth_conf="${workdir}/auth.conf"'',
     ''response_file="${workdir}/config-response.json"'',
     ''fetch_config() {'',
     ''    printf 'header = "Authorization: Bearer %s"'' @ BACKSLASH @ ''n' "$master_key" >"$auth_conf"'',
     ''    chmod 600 "$auth_conf"'',
     ''    http_status="$(curl -sS -K "$auth_conf" -o "$response_file" -w '%{http_code}' '' @ BACKSLASH,
     ''        "http://${LLM_ENV_HOST}/config")" || {'',
     ''        echo "remote-setup: could not reach http://${LLM_ENV_HOST}/config" >&2'',
     ''        exit 1'',
     ''    }'',
     ''}'',
     [],
     ''from_cache=0'',
     ''if [ "$rm_key" -eq 1 ]; then'',
     ''    rm -f -- "$master_key_cache"'',
     ''    prompt_master_key'',
     ''elif [ -f "$master_key_cache" ] && '' @ BACKSLASH,
     ''     [ "$(find "$master_key_cache" -mtime -7 2>/dev/null)" = "$master_key_cache" ] && '' @ BACKSLASH,
     ''     master_key="$(cat "$master_key_cache")" && [ -n "$master_key" ]; then'',
     ''    from_cache=1'',
     ''else'',
     ''    rm -f -- "$master_key_cache"'',
     ''    prompt_master_key'',
     ''fi'',
     [],
     ''fetch_config'',
     ''# The saved key can be stale (rotated, or saved wrong earlier): a rejection'',
     ''# is a reason to ask again, not only the 7-day expiry.'',
     ''if [ "$http_status" = "401" ] && [ "$from_cache" -eq 1 ]; then'',
     ''    echo "remote-setup: the saved master key was rejected; enter it again" >&2'',
     ''    rm -f -- "$master_key_cache"'',
     ''    from_cache=0'',
     ''    prompt_master_key'',
     ''    fetch_config'',
     ''fi'',
     ''if [ "$http_status" != "200" ]; then'',
     ''    error="$(jq -r '.error // "request failed"' "$response_file" 2>/dev/null || echo "request failed")"'',
     ''    echo "remote-setup: ${error} (HTTP ${http_status})" >&2'',
     ''    exit 1'',
     ''fi'',
     [],
     ''# Saved only once the server accepted it, so a mistyped key is never reused.'',
     ''if [ "$rm_key" -eq 0 ] && [ "$from_cache" -eq 0 ]; then'',
     ''    mkdir -p "$master_key_cache_dir"'',
     ''    chmod 700 "$master_key_cache_dir"'',
     ''    printf '%s' "$master_key" >"$master_key_cache"'',
     ''    chmod 600 "$master_key_cache"'',
     ''fi'',
     [],
     ''config_json="$(cat "$response_file")"'',
     ''omniroute_dashboard_url="$(printf '%s' "$config_json" | jq -r '.omniroute_base_url')"'',
     ''base_url="${omniroute_dashboard_url}/v1"'',
     ''api_key="$(printf '%s' "$config_json" | jq -r '.api_key')"'',
     ''omniroute_dashboard_password="$(printf '%s' "$config_json" | jq -r '.omniroute_dashboard_password')"'',
     ''models_json="$(printf '%s' "$config_json" | jq -c '.models')"'',
     [],
     ''api_key_file="${workdir}/api-key"'',
     ''printf '%s' "$api_key" >"$api_key_file"'',
     ''chmod 600 "$api_key_file"'',
     [],
     ''# Every jq invocation below reads its JSON inputs from files (--rawfile /'',
     ''# --slurpfile), never from `--argjson "$..."`: a command-line argument is'',
     ''# readable by any other local user through /proc/<pid>/cmdline for as long'',
     ''# as jq runs, and the provider documents built here embed the scoped API'',
     ''# key. `umask 077` at the top of the script means each of these files is'',
     ''# created private; the explicit chmod is belt-and-braces.'',
     ''models_file="${workdir}/models.json"'',
     ''printf '%s' "$models_json" >"$models_file"'',
     ''chmod 600 "$models_file"'',
     [],
     ''install_agent_clients "$base_url" "$api_key_file" "$models_file" "$updater" "$lib" "false"'',
     [],
     ''echo'',
     ''echo "OmniRoute dashboard: ${omniroute_dashboard_url}"'',
     ''echo "  Password: ${omniroute_dashboard_password}"'',
     ''echo "  (this is the OmniRoute ADMIN password -- full access to add/remove"'',
     ''echo "  provider connections and revoke API keys, not just chat access."'',
     ''echo "  Keep it as private as the master key.)"'',
     ''}'',
     ''main "$@"'']\<close>

definition HOST_PLACEHOLDER :: string where "HOST_PLACEHOLDER = ''@@LLM_ENV_HOST@@''"

definition UPDATER_JS_PLACEHOLDER :: string where "UPDATER_JS_PLACEHOLDER = ''@@OPENCODE_UPDATER_JS@@''"

definition INSTALL_LIB_PLACEHOLDER :: string where "INSTALL_LIB_PLACEHOLDER = ''@@INSTALL_LIB_SH@@''"

section \<open>The Host header\<close>

definition is_alnum :: "char \<Rightarrow> bool" where
  "is_alnum c \<longleftrightarrow> (let n = of_char c :: nat in (48 \<le> n \<and> n \<le> 57) \<or> (65 \<le> n \<and> n \<le> 90) \<or> (97 \<le> n \<and> n \<le> 122))"

definition address_char :: "char \<Rightarrow> bool" where
  "address_char c \<longleftrightarrow>
     (let n = of_char c :: nat in (48 \<le> n \<and> n \<le> 57) \<or> (65 \<le> n \<and> n \<le> 70) \<or> (97 \<le> n \<and> n \<le> 102))
     \<or> c = CHR '':'' \<or> c = CHR ''.''"

definition zone_char :: "char \<Rightarrow> bool" where
  "zone_char c \<longleftrightarrow> is_alnum c \<or> c \<in> set ''._~-''"

definition host_char :: "char \<Rightarrow> bool" where
  "host_char c \<longleftrightarrow> is_alnum c \<or> c = CHR ''.'' \<or> c = CHR ''-''"

definition chomp :: "string \<Rightarrow> string" where
  "chomp s = (if s \<noteq> [] \<and> last s = CHR 0x0A then butlast s else s)"

text \<open>What both patterns end with: an optional port of one to five digits, and the end of the text.\<close>

definition port_part :: "string \<Rightarrow> string option option" where
  "port_part t =
     (case chomp t of
        [] \<Rightarrow> Some None
      | c # ds \<Rightarrow> if c = CHR '':'' \<and> all_digits ds \<and> length ds \<le> 5 then Some (Some ds) else None)"

definition bracketed_authority :: "string \<Rightarrow> (string \<times> string option) option" where
  "bracketed_authority s =
     (let r = drop 1 s; a = takeWhile address_char r; b = dropWhile address_char r;
          z = takeWhile zone_char (drop 3 b); e = dropWhile zone_char (drop 3 b) in
      if \<not> starts_with ''['' s \<or> a = [] then None
      else if starts_with ''%25'' b
      then if z \<noteq> [] \<and> starts_with '']'' e
           then map_option (Pair (''['' @ a @ ''%25'' @ z @ '']'')) (port_part (drop 1 e)) else None
      else if starts_with '']'' b then map_option (Pair (''['' @ a @ '']'')) (port_part (drop 1 b)) else None)"

definition host_authority :: "string \<Rightarrow> (string \<times> string option) option" where
  "host_authority s =
     (let a = takeWhile host_char s in
      if a = [] then None else map_option (Pair a) (port_part (dropWhile host_char s)))"

definition parse_host_header :: "string \<Rightarrow> (string \<times> string option) option" where
  "parse_host_header s =
     (case (case bracketed_authority s of None \<Rightarrow> host_authority s | m \<Rightarrow> m) of
        Some (h, Some port) \<Rightarrow>
          if 1 \<le> digits_value port \<and> digits_value port \<le> 65535 then Some (h, Some port) else None
      | m \<Rightarrow> m)"

definition host_without_port :: "string \<Rightarrow> string" where
  "host_without_port s = (case parse_host_header s of Some (h, _) \<Rightarrow> h | None \<Rightarrow> [])"

definition validate_host_header :: "string \<Rightarrow> bool" where
  "validate_host_header s \<longleftrightarrow> parse_host_header s \<noteq> None"

section \<open>Rendering\<close>

text \<open>\<open>s.replace(old, new)\<close> for a non-empty \<open>old\<close>; \<open>s.rstrip("\n")\<close>.\<close>

function replace_text :: "string \<Rightarrow> string \<Rightarrow> string \<Rightarrow> string" where
  "replace_text old new [] = []"
| "replace_text old new (c # cs) =
     (if old \<noteq> [] \<and> starts_with old (c # cs) then new @ replace_text old new (drop (length old) (c # cs))
      else c # replace_text old new cs)"
  by pat_completeness auto
termination
proof (relation "measure (\<lambda>(_, _, s). length s)", goal_cases)
  case (2 old new c cs)
  then show ?case
    by (cases old) auto
qed simp_all

definition rstrip_newlines :: "string \<Rightarrow> string" where
  "rstrip_newlines s = rev (dropWhile (\<lambda>c. c = CHR 0x0A) (rev s))"

definition unlines :: "string list \<Rightarrow> string" where
  "unlines ls = concat (map (\<lambda>l. l @ [CHR 0x0A]) ls)"

definition render_setup_script :: "string \<Rightarrow> string \<Rightarrow> string \<Rightarrow> string" where
  "render_setup_script updater_source lib_source host =
     replace_text INSTALL_LIB_PLACEHOLDER (rstrip_newlines lib_source)
       (replace_text UPDATER_JS_PLACEHOLDER updater_source
         (replace_text HOST_PLACEHOLDER host (unlines SETUP_SCRIPT_TEMPLATE)))"

section \<open>Accepted hosts\<close>

text \<open>The characters of an accepted header; none of them means anything to the shell between double quotes.\<close>

definition authority_char :: "char \<Rightarrow> bool" where
  "authority_char c \<longleftrightarrow> is_alnum c \<or> c \<in> set ''.:-_~%[]'' \<or> c = CHR 0x0A"

lemma takeWhile_all: "list_all P (takeWhile P xs)"
  by (induction xs) auto

lemma chomp_cases: "\<exists>nl. (nl = [] \<or> nl = [CHR 0x0A]) \<and> s = chomp s @ nl"
  unfolding chomp_def by (cases s rule: rev_cases) auto

lemma port_part_Some:
  assumes "port_part t = Some p"
  shows "\<exists>nl. (nl = [] \<or> nl = [CHR 0x0A]) \<and> t = (case p of None \<Rightarrow> [] | Some ds \<Rightarrow> CHR '':'' # ds) @ nl
    \<and> (\<forall>ds. p = Some ds \<longrightarrow> all_digits ds \<and> length ds \<le> 5)"
proof -
  obtain nl where nl: "nl = [] \<or> nl = [CHR 0x0A]" and t: "t = chomp t @ nl"
    using chomp_cases by blast
  have "chomp t = (case p of None \<Rightarrow> [] | Some ds \<Rightarrow> CHR '':'' # ds) \<and> (\<forall>ds. p = Some ds \<longrightarrow> all_digits ds \<and> length ds \<le> 5)"
    using assms by (cases "chomp t") (auto simp: port_part_def split: if_splits)
  with nl t show ?thesis
    by metis
qed

lemma starts_withD: "starts_with p s \<Longrightarrow> s = p @ drop (length p) s"
  unfolding starts_with_def by (metis append_take_drop_id)

lemma host_char_cases: "host_char c \<Longrightarrow> is_alnum c \<or> c \<in> set ''.:-_~%[]''"
  unfolding host_char_def by (elim disjE) simp_all

lemma host_chars: "list_all host_char h \<Longrightarrow> list_all (\<lambda>c. is_alnum c \<or> c \<in> set ''.:-_~%[]'') h"
  by (erule list.pred_mono_strong) (rule host_char_cases)

lemma authority_accepted:
  assumes "(case m of
        Some (h, Some port) \<Rightarrow>
          if 1 \<le> digits_value port \<and> digits_value port \<le> 65535 then Some (h, Some port) else None
      | m \<Rightarrow> m) = Some (h, p)"
  shows "m = Some (h, p) \<and> (\<forall>ds. p = Some ds \<longrightarrow> 1 \<le> digits_value ds \<and> digits_value ds \<le> 65535)"
  using assms by (cases m; cases "snd (the m)") (auto split: if_splits)

text \<open>An accepted header is the host, an optional port, and at most one newline at its end.\<close>

lemma parse_host_parts:
  assumes "parse_host_header s = Some (h, p)"
  shows "\<exists>nl. (nl = [] \<or> nl = [CHR 0x0A]) \<and> s = h @ (case p of None \<Rightarrow> [] | Some ds \<Rightarrow> CHR '':'' # ds) @ nl
    \<and> (\<forall>ds. p = Some ds \<longrightarrow> all_digits ds \<and> 1 \<le> digits_value ds \<and> digits_value ds \<le> 65535)
    \<and> h \<noteq> [] \<and> list_all (\<lambda>c. is_alnum c \<or> c \<in> set ''.:-_~%[]'') h"
proof -
  have m: "bracketed_authority s = Some (h, p) \<or> host_authority s = Some (h, p)"
    and range: "\<forall>ds. p = Some ds \<longrightarrow> 1 \<le> digits_value ds \<and> digits_value ds \<le> 65535"
    using authority_accepted [OF assms [unfolded parse_host_header_def]] by (auto split: option.splits)
  have "\<exists>t. s = h @ t \<and> port_part t = Some p \<and> h \<noteq> [] \<and> list_all (\<lambda>c. is_alnum c \<or> c \<in> set ''.:-_~%[]'') h"
    using m
  proof
    assume b: "bracketed_authority s = Some (h, p)"
    define r a b where "r = drop 1 s" and "a = takeWhile address_char r" and "b = dropWhile address_char r"
    define z e where "z = takeWhile zone_char (drop 3 b)" and "e = dropWhile zone_char (drop 3 b)"
    note parts = r_def a_def b_def z_def e_def
    have s: "s = ''['' @ a @ b"
      using b starts_withD [of "''[''" s] by (auto simp: bracketed_authority_def Let_def parts split: if_splits)
    have "list_all address_char a" "list_all zone_char z" and ze: "drop 3 b = z @ e"
      by (simp_all add: takeWhile_all parts)
    then have ok: "list_all (\<lambda>c. is_alnum c \<or> c \<in> set ''.:-_~%[]'') a" "list_all (\<lambda>c. is_alnum c \<or> c \<in> set ''.:-_~%[]'') z"
      by (auto simp: list_all_iff address_char_def zone_char_def is_alnum_def Let_def)
    show ?thesis
    proof (cases "starts_with ''%25'' b")
      case True
      then have h: "h = ''['' @ a @ ''%25'' @ z @ '']''" "port_part (drop 1 e) = Some p" and e: "starts_with '']'' e"
        using b by (auto simp: bracketed_authority_def Let_def parts split: if_splits)
      have "b = ''%25'' @ z @ '']'' @ drop 1 e"
        using starts_withD [OF True] starts_withD [OF e] ze by (simp add: eval_nat_numeral)
      then show ?thesis
        using s h ok by (auto intro!: exI [of _ "drop 1 e"] simp: is_alnum_def)
    next
      case False
      then have h: "h = ''['' @ a @ '']''" "port_part (drop 1 b) = Some p" and e: "starts_with '']'' b"
        using b by (auto simp: bracketed_authority_def Let_def parts split: if_splits)
      then show ?thesis
        using s ok starts_withD [OF e] by (auto intro!: exI [of _ "drop 1 b"])
    qed
  next
    assume "host_authority s = Some (h, p)"
    then have "h = takeWhile host_char s" "h \<noteq> []" "port_part (dropWhile host_char s) = Some p"
      by (auto simp: host_authority_def Let_def split: if_splits)
    then show ?thesis
      using host_chars [OF takeWhile_all, of s] takeWhile_dropWhile_id [of host_char s] by metis
  qed
  then show ?thesis
    using port_part_Some range by fastforce
qed

section \<open>Replacing a placeholder\<close>

lemma replace_absent: "\<not> contains_text p s \<Longrightarrow> replace_text p r s = s"
  by (induction s) auto

lemma contains_char: "contains_text p s \<Longrightarrow> c \<in> set p \<Longrightarrow> c \<in> set s"
proof (induction s)
  case (Cons a s)
  then show ?case
    using starts_withD [of p "a # s"] by (metis UnCI contains_text.simps(2) list.set_intros(2) set_append)
qed simp

lemma starts_with_stop:
  assumes "c \<notin> set p" shows "starts_with p (a @ c # b) = starts_with p a"
proof
  assume "starts_with p (a @ c # b)"
  then have t: "take (length p) (a @ c # b) = p"
    by (simp add: starts_with_def)
  have "length p \<le> length a"
  proof (rule ccontr)
    assume "\<not> length p \<le> length a"
    then have "c \<in> set (take (length p) (a @ c # b))"
      by (cases "length p - length a") auto
    with t assms show False
      by simp
  qed
  with t show "starts_with p a"
    by (simp add: starts_with_def)
next
  assume "starts_with p a"
  then show "starts_with p (a @ c # b)"
    using starts_withD [of p a] by (metis append.assoc append_eq_conv_conj starts_with_def)
qed

lemma replace_hit:
  "p \<noteq> [] \<Longrightarrow> starts_with p s \<Longrightarrow> s \<noteq> [] \<Longrightarrow> replace_text p r s = r @ replace_text p r (drop (length p) s)"
  by (cases s) simp_all

text \<open>A character that is not in the placeholder separates two replacements.\<close>

lemma replace_separated:
  assumes "c \<notin> set p" "p \<noteq> []"
  shows "replace_text p r (a @ c # b) = replace_text p r a @ c # replace_text p r b"
proof (induction a rule: length_induct)
  case (1 a)
  have stop: "starts_with p (x @ c # b) = starts_with p x" for x
    using starts_with_stop [OF assms(1)] .
  show ?case
  proof (cases a)
    case Nil
    then show ?thesis
      using stop [of "[]"] assms(2) by (simp add: starts_with_def)
  next
    case (Cons x xs)
    show ?thesis
    proof (cases "starts_with p a")
      case True
      then have "length p \<le> length a"
        unfolding starts_with_def by (metis length_take min.cobounded1)
      then have d: "drop (length p) (a @ c # b) = drop (length p) a @ c # b"
        by simp
      have "length (drop (length p) a) < length a"
        using assms(2) Cons by (cases p) auto
      then have "replace_text p r (drop (length p) a @ c # b)
          = replace_text p r (drop (length p) a) @ c # replace_text p r b"
        using 1 by blast
      then show ?thesis
        using True stop [of a] replace_hit [OF assms(2), of "a @ c # b"] replace_hit [OF assms(2), of a] d Cons by simp
    next
      case False
      then show ?thesis
        using 1 stop [of a] Cons by simp
    qed
  qed
qed

lemma replace_lines:
  assumes "CHR 0x0A \<notin> set p" "p \<noteq> []" "list_all (\<lambda>l. \<not> contains_text p l) ls"
  shows "replace_text p r (unlines ls @ s) = unlines ls @ replace_text p r s"
  using assms(3) by (induction ls) (simp_all add: unlines_def replace_separated [OF assms(1,2)] replace_absent)

section \<open>The host in the script\<close>

lemma template_lines:
  "list_all (\<lambda>l. CHR ''@'' \<notin> set l \<or> \<not> contains_text HOST_PLACEHOLDER l) (take 15 SETUP_SCRIPT_TEMPLATE @ drop 16 SETUP_SCRIPT_TEMPLATE)"
  by code_simp

lemma template_host: "SETUP_SCRIPT_TEMPLATE ! 15 = ''LLM_ENV_HOST='' @ CHR 0x22 # HOST_PLACEHOLDER @ [CHR 0x22]"
  and template_size: "length SETUP_SCRIPT_TEMPLATE = 200"
  by (simp_all add: SETUP_SCRIPT_TEMPLATE_def HOST_PLACEHOLDER_def)

lemma template_split:
  "\<exists>xs ys. SETUP_SCRIPT_TEMPLATE = xs @ (''LLM_ENV_HOST='' @ CHR 0x22 # HOST_PLACEHOLDER @ [CHR 0x22]) # ys \<and> xs \<noteq> []
     \<and> list_all (\<lambda>l. \<not> contains_text HOST_PLACEHOLDER l) xs \<and> list_all (\<lambda>l. \<not> contains_text HOST_PLACEHOLDER l) ys"
proof (intro exI conjI)
  have more: "15 < length SETUP_SCRIPT_TEMPLATE" and index: "Suc 15 = 16"
    by (simp_all add: template_size)
  show "SETUP_SCRIPT_TEMPLATE = take 15 SETUP_SCRIPT_TEMPLATE
      @ (''LLM_ENV_HOST='' @ CHR 0x22 # HOST_PLACEHOLDER @ [CHR 0x22]) # drop 16 SETUP_SCRIPT_TEMPLATE"
    using id_take_nth_drop [OF more, unfolded template_host index] .
  show "take 15 SETUP_SCRIPT_TEMPLATE \<noteq> []"
    using template_size by auto
  have "\<not> contains_text HOST_PLACEHOLDER l" if "CHR ''@'' \<notin> set l \<or> \<not> contains_text HOST_PLACEHOLDER l" for l
    using that contains_char [of HOST_PLACEHOLDER l "CHR ''@''"] by (auto simp: HOST_PLACEHOLDER_def)
  then show "list_all (\<lambda>l. \<not> contains_text HOST_PLACEHOLDER l) (take 15 SETUP_SCRIPT_TEMPLATE)"
    "list_all (\<lambda>l. \<not> contains_text HOST_PLACEHOLDER l) (drop 16 SETUP_SCRIPT_TEMPLATE)"
    using template_lines unfolding list_all_append by (auto simp only: list_all_iff)
qed

text \<open>
  What a double-quoted word of the shell treats as text: anything but the double quote, the dollar sign, the
  backquote and the backslash.
\<close>

definition inert :: "char \<Rightarrow> bool" where
  "inert c \<longleftrightarrow> c \<notin> {CHR 0x22, CHR ''$'', CHR 0x60, CHR 0x5C}"

lemma digit_alnum: "is_digit c \<Longrightarrow> is_alnum c"
  by (simp add: is_digit_def is_alnum_def Let_def)

lemma authority_inert: "authority_char c \<Longrightarrow> inert c \<and> c \<noteq> CHR ''@''"
  by (auto simp: authority_char_def inert_def is_alnum_def)

lemma accepted_host_chars:
  assumes "validate_host_header s" shows "list_all authority_char s"
proof -
  obtain h p where hp: "parse_host_header s = Some (h, p)"
    using assms by (auto simp: validate_host_header_def)
  have port: "list_all authority_char (case p of None \<Rightarrow> [] | Some ds \<Rightarrow> CHR '':'' # ds)"
    if "\<forall>ds. p = Some ds \<longrightarrow> all_digits ds \<and> 1 \<le> digits_value ds \<and> digits_value ds \<le> 65535"
    using that by (cases p) (auto simp: list_all_iff all_digits_def authority_char_def dest: digit_alnum)
  have "list_all authority_char h" if "list_all (\<lambda>c. is_alnum c \<or> c \<in> set ''.:-_~%[]'') h"
    using that by (rule list.pred_mono_strong) (simp only: authority_char_def, blast)
  moreover have "list_all authority_char nl" if "nl = [] \<or> nl = [CHR 0x0A]" for nl
    using that by (auto simp: authority_char_def)
  ultimately show ?thesis
    using parse_host_parts [OF hp] port by (elim exE conjE) (simp only: list_all_append)
qed

lemma accepted_host_inert:
  assumes "validate_host_header s" shows "list_all inert s" "CHR ''@'' \<notin> set s"
  using accepted_host_chars [OF assms] by (auto simp: list_all_iff dest: authority_inert)

lemma replace_around_host:
  assumes "CHR ''@'' \<in> set p" "CHR 0x22 \<notin> set p" "CHR 0x0A \<notin> set p" "CHR ''@'' \<notin> set host" "CHR ''@'' \<notin> set l"
  shows "replace_text p r (u @ CHR 0x0A # l @ CHR 0x22 # host @ CHR 0x22 # v)
    = replace_text p r u @ CHR 0x0A # l @ CHR 0x22 # host @ CHR 0x22 # replace_text p r v"
proof -
  have p: "p \<noteq> []"
    using assms(1) by auto
  have "replace_text p r l = l" "replace_text p r host = host"
    using assms(1,4,5) by (auto intro!: replace_absent dest: contains_char)
  then show ?thesis
    by (simp add: replace_separated [OF assms(3) p] replace_separated [OF assms(2) p])
qed

lemma host_replaced:
  "\<exists>u v. \<forall>host. replace_text HOST_PLACEHOLDER host (unlines SETUP_SCRIPT_TEMPLATE)
     = u @ CHR 0x0A # ''LLM_ENV_HOST='' @ CHR 0x22 # host @ CHR 0x22 # v"
proof -
  let ?p = HOST_PLACEHOLDER
  have p: "CHR 0x0A \<notin> set ?p" "CHR 0x22 \<notin> set ?p" "?p \<noteq> []" "CHR ''@'' \<in> set ?p"
    by (simp_all add: HOST_PLACEHOLDER_def)
  obtain xs ys l where T: "SETUP_SCRIPT_TEMPLATE = xs @ (l @ CHR 0x22 # ?p @ [CHR 0x22]) # ys" and l: "l = ''LLM_ENV_HOST=''"
    and xs: "xs \<noteq> []" and lines: "list_all (\<lambda>l. \<not> contains_text ?p l) xs" "list_all (\<lambda>l. \<not> contains_text ?p l) ys"
    using template_split by blast
  from xs obtain u where u: "unlines xs = u @ [CHR 0x0A]"
    by (induction xs rule: rev_induct) (auto simp: unlines_def)
  have "replace_text ?p host (unlines SETUP_SCRIPT_TEMPLATE) = u @ CHR 0x0A # l @ CHR 0x22 # host @ CHR 0x22 # CHR 0x0A # unlines ys"
    for host
  proof -
    have self: "replace_text ?p host ?p = host" "replace_text ?p host l = l"
      by (simp_all add: HOST_PLACEHOLDER_def starts_with_def l)
    have rest: "replace_text ?p host (CHR 0x0A # unlines ys) = CHR 0x0A # unlines ys"
      using replace_separated [OF p(1,3), of host "[]" "unlines ys"] replace_lines [OF p(1,3) lines(2), of host "[]"] by simp
    have T: "unlines SETUP_SCRIPT_TEMPLATE = unlines xs @ l @ CHR 0x22 # ?p @ CHR 0x22 # CHR 0x0A # unlines ys"
      by (simp add: T unlines_def)
    show ?thesis
      unfolding T replace_lines [OF p(1,3) lines(1)] by (simp add: replace_separated [OF p(2,3)] self rest u del: replace_text.simps)
  qed
  then show ?thesis
    unfolding l by blast
qed

text \<open>
  C39: the text of an accepted Host header is put at exactly one place of the installer script, between the
  double quotes of one assignment, and has no character the shell treats specially there; the rest of the
  script is the same for every host.
\<close>

theorem setup_script_quotes_host:
  "\<exists>before after. \<forall>host. validate_host_header host \<longrightarrow>
     render_setup_script updater_source lib_source host
       = before @ CHR 0x0A # ''LLM_ENV_HOST='' @ CHR 0x22 # host @ CHR 0x22 # after
     \<and> list_all inert host"
proof -
  obtain u v where uv: "\<And>host. replace_text HOST_PLACEHOLDER host (unlines SETUP_SCRIPT_TEMPLATE)
      = u @ CHR 0x0A # ''LLM_ENV_HOST='' @ CHR 0x22 # host @ CHR 0x22 # v"
    using host_replaced by blast
  have "\<exists>u' v'. \<forall>host. CHR ''@'' \<notin> set host \<longrightarrow> replace_text p r (u @ CHR 0x0A # ''LLM_ENV_HOST='' @ CHR 0x22 # host @ CHR 0x22 # v)
      = u' @ CHR 0x0A # ''LLM_ENV_HOST='' @ CHR 0x22 # host @ CHR 0x22 # v'"
    if "CHR ''@'' \<in> set p" "CHR 0x22 \<notin> set p" "CHR 0x0A \<notin> set p" for p r u v
    using replace_around_host [OF that, of _ "''LLM_ENV_HOST=''" r u v] by (intro exI allI impI) simp
  from this [of UPDATER_JS_PLACEHOLDER] this [of INSTALL_LIB_PLACEHOLDER] show ?thesis
    unfolding render_setup_script_def uv using accepted_host_inert
    by (simp add: UPDATER_JS_PLACEHOLDER_def INSTALL_LIB_PLACEHOLDER_def) metis
qed

lemma demo_hosts:
  "validate_host_header ''llm.local:20130''" "validate_host_header ''[fe80::1%25eth0]:20130''"
  "\<not> validate_host_header ''::1:20130''" "\<not> validate_host_header ''llm.local:70000''"
  "\<not> validate_host_header ''a$(id)''" "\<not> validate_host_header ''[::1]x''"
  by code_simp+

theorem setup_script_quotes_host_witness:
  "\<exists>before after. render_setup_script ''js'' ''sh'' ''llm.local:20130''
     = before @ CHR 0x0A # ''LLM_ENV_HOST='' @ CHR 0x22 # ''llm.local:20130'' @ CHR 0x22 # after"
  using setup_script_quotes_host [of "''js''" "''sh''"] demo_hosts(1) by blast

end
