(* ===== verification/Spec2Isabelle.thy ===== *)
theory Spec2Isabelle
  imports Gguf_Codec Budget Resources Idle_Gate Collector Agent_Run Config_Commands Budget_Command Detect Projection
    Combos Zai_Reset Headroom Compose Commit Interference Sizing Text_Files Setup_Script
begin

text \<open>
  A verification development for llm-env.

  The program. llm-env (\<open>src/README.md\<close>) serves local models on one host: a llama.cpp router in a
  rootless podman compose stack, an OmniRoute gateway in front of it, and optional services (system-one,
  Phoenix). Its Python code under \<open>src/pylib\<close>, driven by \<open>src/llmenv.py\<close>, does five things. It
  detects the host's graphics cards and reads the headers of model files, to decide whether a set of models
  fits the card and the memory. It edits and validates one configuration file, \<open>models.yml\<close>. It renders
  that configuration as a preset file for the router and as a compose document with resource limits. It
  configures OmniRoute through its management API: connections, combos of models, context windows, quota
  resets. And it measures: capacity cards per model, the sizing of containers, the interference of a local
  model with everything else. Two long-running parts act on the running system: the OmniRoute updater, which
  waits until the gateway is idle, takes an inventory, replaces the container and verifies the replacement,
  and the bounded agent runner, which runs a client in a control group and proves that nothing of it is left.

  How the parts meet. The configuration is one decoded mapping (\<open>Config\<close>), which every renderer and
  command reads. Model geometry (\<open>Gguf\<close>) feeds the budget (\<open>Budget\<close>), whose verdict joins the host's
  limits (\<open>Resources\<close>) in the command (\<open>Budget_Command\<close>). The same limits are printed into the
  compose document (\<open>Compose\<close>), which the updater reads back to find drift (\<open>Drift\<close>); it is the input of
  the preflight (\<open>Preflight\<close>), whose stored result the recheck (\<open>Recheck\<close>), the projection
  (\<open>Projection\<close>) and the verification of the commit (\<open>Commit\<close>) rely on. The gate (\<open>Idle_Gate\<close>) decides on
  samples that the collector (\<open>Collector\<close>) takes. Capacity cards (\<open>Capacity\<close>) publish limits that
  OmniRoute's context windows (\<open>Omni_Models\<close>) use.

  Theories. Each holds one component, in the order of the source file, with its properties at the end.

  \<^item> \<open>Prelude\<close>, \<open>Py_Text\<close>, \<open>Py_Float\<close>, \<open>Float_Sums\<close>, \<open>Py_Value\<close>: what the program uses of Python. Fallible code
    gives a sum (the error on the left); a dictionary keeps its insertion order as an association list; text is
    a list of ASCII characters; a float is the rational it denotes, rounded to 53 bits after every operation
    (\<open>fl\<close>); a decoded YAML or JSON value is a \<open>pyval\<close>, and an \<open>isinstance\<close> test is a match on it.
  \<^item> \<open>Gguf\<close>, \<open>Gguf_Codec\<close>: \<open>pylib/gguf.py\<close>. The open handle is the bytes not yet read; every reader
    returns a value and the rest, or the exception. The second theory writes headers and shows that reading
    them gives them back.
  \<^item> \<open>Budget\<close>, \<open>Budget_Command\<close>: \<open>pylib/budget.py\<close> and the command \<open>budget\<close> of \<open>llmenv.py\<close>.
  \<^item> \<open>Resources\<close>: \<open>pylib/resources.py\<close>, the policy of each service, its overrides and the limits of a host.
  \<^item> \<open>Config\<close>, \<open>Config_Models\<close>, \<open>Config_Commands\<close>: \<open>pylib/config.py\<close> and the editing commands of \<open>llmenv.py\<close>;
    a command is a step from one decoded configuration file to the next.
  \<^item> \<open>Detect\<close>: \<open>pylib/detect.py\<close>, on records of what each sysfs and procfs file holds.
  \<^item> \<open>Idle_Gate\<close>, \<open>Collector\<close>: \<open>pylib/omniroute_activity.py\<close> and \<open>pylib/omniroute_observer.py\<close>. The gate's
    state is a record, one sample is one step; a sample is computed from a record of the outside's answers.
  \<^item> \<open>Agent_Stream\<close>, \<open>Agent_Scope\<close>, \<open>Agent_Runner\<close>, \<open>Agent_Termination\<close>, \<open>Agent_Run\<close>:
    \<open>pylib/agent_runner.py\<close>. The world is abstract, a record of operations answers the code, and a history
    keeps every answer the code looked at.
  \<^item> \<open>Image_Ref\<close>, \<open>Snapshot\<close>, \<open>Recheck\<close>, \<open>Projection\<close>, \<open>Drift\<close>, \<open>Preflight\<close>, \<open>Commit\<close>:
    \<open>pylib/omniroute_update.py\<close>, from the resolution of an image to the verified replacement. Command output,
    JSON and YAML decoding and hashing are arguments.
  \<^item> \<open>Omni_Api\<close>, \<open>Omni_Models\<close>, \<open>Combos\<close>, \<open>Zai_Reset\<close>: \<open>pylib/omniroute.py\<close>, \<open>pylib/omniroute_combos.py\<close>,
    \<open>pylib/zai_reset.py\<close>, as state-passing programs over a host that holds the service, the JSON files of the
    program and the log of the requests sent.
  \<^item> \<open>Capacity\<close>, \<open>Headroom\<close>: \<open>pylib/capacity.py\<close>, the cards, what they publish, and the comparison of
    quantizations.
  \<^item> \<open>Compose\<close>: \<open>pylib/compose.py\<close>, the document as the dictionary that is printed.
  \<^item> \<open>Interference\<close>, \<open>Sizing\<close>: the evaluation in \<open>pylib/interference.py\<close>, and the request counts and
    \<open>summarize\<close> of \<open>pylib/resource_benchmark.py\<close>.
  \<^item> \<open>Text_Files\<close>: \<open>pylib/dotenv.py\<close>, \<open>pylib/presets.py\<close> and \<open>pylib/transcript.py\<close>.
  \<^item> \<open>Setup_Script\<close>: the installer script of \<open>pylib/remote_setup.py\<close> and the Host header put into it.
  \<^item> \<open>Spec2Isabelle\<close>: this overview.

  What the lemmas show.

  \<^item> Model files: the tensors of an accepted table start at different offsets, their ranges lie inside the file and
    do not overlap, and a repeated name has the range of its last tensor; an accepted geometry is well formed; an
    encoded header is read back; every file that makes an exception escape validation at an entry is described.
  \<^item> Numbers: the KV size in floats is the exact integer formula in the stated range; the verdict is feasibility
    over all choices of models; validated policies are positive and ordered; the memory limits fit the host; a
    sizing recommendation covers the resident sets, the peak counters that belong to the run, and the CPU windows, in
    whole steps and no wider than its rule.
  \<^item> Configuration: the choice of enabled models implements a specification on lists; no sequence of commands
    leaves an invalid file.
  \<^item> Gate and collector: ready means a quiet window of the minimum wait with unchanged generations, and an idle
    sample means that no client call of the whole log is recent; conversely an idle service becomes ready.
  \<^item> Agent runs: a run returns, a completed run was clean, the signals to the control group and to the launcher
    escalate in order, a reader stores exactly the prefix it may.
  \<^item> Updates: a staged image is the resolved one; fingerprints bind their inputs; a preflight that returns has found the target
    alone and the compose service in agreement with the configuration, and is accepted by the recheck of an unchanged world; a projection passes its own verification; an identifier
    returned by the commit is the sole healthy replacement with the rest of the inventory unchanged, and the
    verification returns.
  \<^item> OmniRoute: whatever an import sends keeps accounts apart; a restore never overwrites unasked; the local combo settles
    after one run; two consecutive redeems of a connection never carry one idempotency key, as long as the state
    file can be written and the service gives a reset time; published limits are backed by a current measurement.
  \<^item> Documents: every text of the compose document is escaped once and nothing else changes; a rendered
    limit is read back exactly by the drift check; the posture of each service is what the code promises.
  \<^item> Installer script: the text of an accepted Host header stands at one quoted place, with no character that
    is special to the shell there.
  \<^item> Evaluation: the interference gate passes exactly when its rules hold; a transcript excerpt keeps every
    error-shaped line.

  Interfaces. \<open>step_machine\<close> (an invariant kept by every step) is interpreted for the gate, the collector, the
  editing commands and the passes of the quota reset; \<open>codec\<close> for the wire elements of a model file;
  \<open>host_relation\<close> (what every request preserves) for the log of requests; \<open>rounding\<close> for binary64.

  Bounds and fuel. The loops of an agent run take fuel, and \<open>None\<close> is too little of it; 80000 rounds are
  enough for limits within the production maxima, since a deadline lies at most 600 s ahead and a nap lasts
  at least 1/128 s. The verification of a commit needs twice its remaining seconds in rounds, since a round
  sleeps for a second of a monotonic clock, at least half of it after rounding. Other loops are
  structural recursion or have a measure. Texts of memory sizes are exact up to 2^33 MiB and byte counters up
  to 2^45, far above any host; the statements that need it say so.

  Parameters. Code that is not under \<open>src/\<close> is an argument: the YAML and JSON parsers and printers, SHA-256,
  \<open>str\<close> and \<open>repr\<close> of what is not a text, the directories and files, the commands run (podman, skopeo,
  systemctl), the OmniRoute service, the clocks and the page size. Where a property relies on documented
  behaviour of one of them (a clock that does not go back, a service that stores what it is sent), that is
  a named hypothesis, and a witness instantiates it.

  Abstractions. Text is ASCII, except in model files, whose strings are code points. The exponent of a float
  is unbounded and JSON numbers are finite. An error message is a constructor, with the values the code puts
  into it where they matter. YAML documents have no aliases. \<open>sum\<close> adds from left to right, as in
  Python 3.11. A file written to a temporary name and renamed is one write; where an error of the disk matters (the
  state of the quota reset and the backups) the host says which writes fail. A declared size below 2^63 is read as a
  truncated file, so exhausted memory is not modelled, and a latency that is not finite is no sample.

  Not modelled. File, process and HTTP primitives, sockets and locks: \<open>_login\<close> and \<open>_request\<close> of
  \<open>omniroute.py\<close>, the command runner and the artifact files of the updater, the supervisor of the observer, the
  argument lists of the agent's launcher, \<open>read_live\<close> of \<open>resources.py\<close>, \<open>snapshot\<close> of \<open>interference.py\<close>
  and the drivers of \<open>resource_benchmark.py\<close> are I/O around the modelled functions. Of \<open>remote_setup.py\<close> the request
  handler, the API key and the list of models it returns are not modelled. Presentation:
  \<open>capacity_report.py\<close>, the text tables, argument parsing and the remaining subcommands of \<open>llmenv.py\<close> and
  \<open>omniroute_cli.py\<close>. Tools beside the running system: \<open>phoenix_trial.py\<close> (a synthetic fixture with its
  validators), \<open>omniroute_characterize.py\<close> (probes of a live container), \<open>fake_inference.py\<close> (a test double) and
  the exporter \<open>phoenix_observer.py\<close>. The shell tools are not in the modelled language.

  What modelling showed. A declared string length of 2^63 or more leaves \<open>validate_gguf\<close> as an uncaught exception
  (\<open>validate_gguf_escapes\<close>); a small enough memory percentage rounds a cap to zero, which rendering then omits
  (\<open>memory_cap_can_vanish\<close>); the quota percentage is rounded before it is compared with its threshold
  (\<open>redeems_below_threshold\<close>); the interference gate sees a reset of the counters only in a smaller uptime, so
  a service that ran longer after its restart than before the first snapshot passes (\<open>counter_reset_passes\<close>); a model called \<open>*\<close> replaces the globals of the preset file
  (\<open>star_alias_replaces_globals\<close>).
\<close>

end
